(* ===== verification/Prelude.thy ===== *)
theory Prelude
  imports Main "HOL-Library.Word" "HOL-Library.Char_ord" "HOL-Library.List_Lexorder"
begin

text \<open>
  What every component shares: the machine types of the Go program (bytes, \<open>uint32\<close>, the
  64-bit \<open>int\<close> with its wrap-around), error results as sums, Go's slice expression, and the
  generic list lemmas the component proofs use.
\<close>

section \<open>Machine types\<close>

type_synonym byte = "8 word"
type_synonym u32 = "32 word"
type_synonym bytes = "byte list"

text \<open>
  Go's \<open>int\<close> and \<open>int64\<close> are 64-bit two's complement: \<open>wrap64\<close> is the value an
  arithmetic result has after it is stored.
\<close>

definition wrap64 :: "int \<Rightarrow> int" where
  "wrap64 n = (n + 2 ^ 63) mod 2 ^ 64 - 2 ^ 63"

definition fits64 :: "int \<Rightarrow> bool" where
  "fits64 n \<longleftrightarrow> - (2 ^ 63) \<le> n \<and> n < 2 ^ 63"

lemma wrap64_id [simp]: "fits64 n \<Longrightarrow> wrap64 n = n"
  by (simp add: wrap64_def fits64_def)

lemma fits64_wrap64 [simp]: "fits64 (wrap64 n)"
  using pos_mod_bound [of "2 ^ 64" "n + 2 ^ 63"] pos_mod_sign [of "2 ^ 64" "n + 2 ^ 63"]
  by (simp add: wrap64_def fits64_def)

section \<open>Error results\<close>

text \<open>
  A Go function that returns \<open>(T, error)\<close> is modelled in the sum \<open>'e + 'a\<close>, \<open>Inl\<close> for the
  error. A run-time panic is an error value as well, so that it is a branch of the model.
\<close>

abbreviation Fail :: "'e \<Rightarrow> 'e + 'a" where
  "Fail \<equiv> Inl"

abbreviation Ok :: "'a \<Rightarrow> 'e + 'a" where
  "Ok \<equiv> Inr"

definition res_bind :: "'e + 'a \<Rightarrow> ('a \<Rightarrow> 'e + 'b) \<Rightarrow> 'e + 'b" where
  "res_bind r f = (case r of Inl e \<Rightarrow> Inl e | Inr x \<Rightarrow> f x)"

lemma res_bind_simps [simp]:
  "res_bind (Fail e) f = Fail e"
  "res_bind (Ok x) f = f x"
  by (simp_all add: res_bind_def)

lemma res_bind_Ok_conv: "res_bind r f = Ok y \<longleftrightarrow> (\<exists>x. r = Ok x \<and> f x = Ok y)"
  by (cases r) auto

text \<open>A loop that stops at the first error, collecting the results in order.\<close>

fun map_res :: "('a \<Rightarrow> 'e + 'b) \<Rightarrow> 'a list \<Rightarrow> 'e + 'b list" where
  "map_res f [] = Ok []"
| "map_res f (x # xs) =
     (case f x of Inl e \<Rightarrow> Fail e
      | Inr y \<Rightarrow> (case map_res f xs of Inl e \<Rightarrow> Fail e | Inr ys \<Rightarrow> Ok (y # ys)))"

lemma map_res_Ok_length: "map_res f xs = Ok ys \<Longrightarrow> length ys = length xs"
  by (induction xs arbitrary: ys) (auto split: sum.splits)

lemma map_res_map: "(\<And>x. x \<in> set xs \<Longrightarrow> f x = Ok (g x)) \<Longrightarrow> map_res f xs = Ok (map g xs)"
  by (induction xs) auto

lemma map_sum_Ok: "map_sum f id x = Ok y \<longleftrightarrow> x = Ok y"
  by (cases x) auto

lemma distinct_concat_map:
  assumes "\<And>x. distinct (f x)" and "\<And>x y. x \<noteq> y \<Longrightarrow> set (f x) \<inter> set (f y) = {}" and "distinct xs"
  shows "distinct (concat (map f xs))"
  using assms(3)
proof (induction xs)
  case (Cons x xs)
  have "set (f x) \<inter> set (f y) = {}" if "y \<in> set xs" for y
    using Cons.prems that by (intro assms(2)) auto
  with Cons assms(1) show ?case by auto
qed simp

section \<open>Slices\<close>

text \<open>Go's \<open>xs[i:j]\<close> for \<open>i \<le> j \<le> len(xs)\<close>.\<close>

definition go_slice :: "'a list \<Rightarrow> nat \<Rightarrow> nat \<Rightarrow> 'a list" where
  "go_slice xs i j = take (j - i) (drop i xs)"

lemma length_go_slice [simp]: "j \<le> length xs \<Longrightarrow> length (go_slice xs i j) = j - i"
  by (simp add: go_slice_def)

lemma go_slice_all [simp]: "go_slice xs 0 (length xs) = xs"
  by (simp add: go_slice_def)

lemma take_append_go_slice: "i \<le> j \<Longrightarrow> take i xs @ go_slice xs i j = take j xs"
  by (metis go_slice_def take_add le_add_diff_inverse)

lemma go_slice_append_drop: "i \<le> j \<Longrightarrow> go_slice xs i j @ drop j xs = drop i xs"
proof -
  assume "i \<le> j"
  have "take (j - i) (drop i xs) @ drop (j - i) (drop i xs) = drop i xs"
    by (rule append_take_drop_id)
  with \<open>i \<le> j\<close> show ?thesis by (simp add: go_slice_def)
qed

lemma go_slice_join: "i \<le> j \<Longrightarrow> j \<le> k \<Longrightarrow> go_slice xs i j @ go_slice xs j k = go_slice xs i k"
  using take_add [of "j - i" "k - j" "drop i xs"] by (simp add: go_slice_def)

lemma go_slice_clip: "length xs \<le> j \<Longrightarrow> go_slice xs i j = drop i xs"
  by (simp add: go_slice_def)

lemma go_slice_roll:
  assumes "i < j" and "j < length xs"
  shows "go_slice xs i j = xs ! i # go_slice xs (Suc i) j"
    and "go_slice xs (Suc i) (Suc j) = go_slice xs (Suc i) j @ [xs ! j]"
proof -
  from assms have "drop i xs = xs ! i # drop (Suc i) xs"
    by (intro Cons_nth_drop_Suc [symmetric]) simp
  with assms show "go_slice xs i j = xs ! i # go_slice xs (Suc i) j"
    by (simp add: go_slice_def take_Cons' Suc_diff_Suc [symmetric])
  from assms have "Suc j - Suc i = Suc (j - Suc i)" and "j - Suc i < length (drop (Suc i) xs)"
    and "drop (Suc i) xs ! (j - Suc i) = xs ! j"
    by simp_all
  then show "go_slice xs (Suc i) (Suc j) = go_slice xs (Suc i) j @ [xs ! j]"
    by (simp add: go_slice_def take_Suc_conv_app_nth)
qed

end
