(* ===== verification/GoStrings.thy ===== *)
theory GoStrings
  imports Prelude
begin

text \<open>
  The part of Go's \<open>strings\<close> and \<open>strconv\<close> packages the program uses, on strings as lists of
  bytes (\<open>string\<close>, one \<open>char\<close> for every byte of the UTF-8 text). Unicode white space is
  recognised by its UTF-8 encodings; \<open>ToLower\<close> is modelled on ASCII letters only.
\<close>

named_theorems go_strings

section \<open>Prefixes, suffixes and searching\<close>

definition hasPrefix :: "string \<Rightarrow> string \<Rightarrow> bool" where
  "hasPrefix s p \<longleftrightarrow> take (length p) s = p"

definition hasSuffix :: "string \<Rightarrow> string \<Rightarrow> bool" where
  "hasSuffix s p \<longleftrightarrow> length p \<le> length s \<and> drop (length s - length p) s = p"

definition trimPrefix :: "string \<Rightarrow> string \<Rightarrow> string" where
  "trimPrefix s p = (if hasPrefix s p then drop (length p) s else s)"

definition trimSuffix :: "string \<Rightarrow> string \<Rightarrow> string" where
  "trimSuffix s p = (if hasSuffix s p then take (length s - length p) s else s)"

lemma hasPrefix_conv [go_strings]: "hasPrefix s p \<longleftrightarrow> (\<exists>t. s = p @ t)"
  unfolding hasPrefix_def by (metis append_eq_conv_conj append_take_drop_id)

lemma hasSuffix_conv [go_strings]: "hasSuffix s p \<longleftrightarrow> (\<exists>t. s = t @ p)"
  unfolding hasSuffix_def
  by (metis append_eq_conv_conj append_take_drop_id diff_add_inverse2 le_add2 length_append)

lemma hasPrefix_append [simp]: "hasPrefix (p @ t) p"
  by (simp add: hasPrefix_def)

lemma hasSuffix_append [simp]: "hasSuffix (t @ p) p"
  by (simp add: hasSuffix_def)

lemma hasSuffix_one: "hasSuffix s [c] \<longleftrightarrow> s \<noteq> [] \<and> last s = c"
  by (cases s rule: rev_cases) (auto simp: hasSuffix_conv)

lemma trimPrefix_append [simp]: "trimPrefix (p @ t) p = t"
  by (simp add: trimPrefix_def)

lemma trimSuffix_append [simp]: "trimSuffix (t @ p) p = t"
  by (simp add: trimSuffix_def)

text \<open>\<open>IndexByte\<close>, with \<open>None\<close> for the result \<open>-1\<close>.\<close>

fun indexByte :: "string \<Rightarrow> char \<Rightarrow> nat option" where
  "indexByte [] c = None"
| "indexByte (x # xs) c = (if x = c then Some 0 else map_option Suc (indexByte xs c))"

lemma indexByte_None [go_strings]: "indexByte s c = None \<longleftrightarrow> c \<notin> set s"
  by (induction s) auto

lemma indexByte_Some_iff:
  "indexByte s c = Some i \<longleftrightarrow> i < length s \<and> s ! i = c \<and> c \<notin> set (take i s)"
  by (induction s arbitrary: i) (auto simp: nth_Cons take_Cons split: nat.splits)

lemma indexByte_append [go_strings]: "c \<notin> set s \<Longrightarrow> indexByte (s @ c # t) c = Some (length s)"
  by (induction s) auto

lemma indexByte_split: "indexByte s c = Some i \<Longrightarrow> s = take i s @ c # drop (Suc i) s"
  by (metis id_take_nth_drop indexByte_Some_iff)

text \<open>\<open>LastIndexAny\<close> for a list of single-byte characters.\<close>

definition lastIndexAny :: "string \<Rightarrow> char list \<Rightarrow> nat option" where
  "lastIndexAny s cs = (case rev (filter (\<lambda>i. s ! i \<in> set cs) [0..<length s]) of [] \<Rightarrow> None | i # _ \<Rightarrow> Some i)"

fun containsStr :: "string \<Rightarrow> string \<Rightarrow> bool" where
  "containsStr [] p \<longleftrightarrow> p = []"
| "containsStr (x # xs) p \<longleftrightarrow> hasPrefix (x # xs) p \<or> containsStr xs p"

lemma containsStr_conv [go_strings]: "containsStr s p \<longleftrightarrow> (\<exists>u v. s = u @ p @ v)"
proof (induction s)
  case (Cons x s)
  have "(\<exists>u v. x # s = u @ p @ v) \<longleftrightarrow> (\<exists>v. x # s = p @ v) \<or> (\<exists>u v. s = u @ p @ v)"
    by (metis append_Cons append_Nil list.inject neq_Nil_conv)
  with Cons show ?case by (simp add: hasPrefix_conv)
qed auto

section \<open>Splitting\<close>

text \<open>\<open>Split\<close> by a one-byte separator.\<close>

fun splitOn :: "char \<Rightarrow> string \<Rightarrow> string list" where
  "splitOn c [] = [[]]"
| "splitOn c (x # xs) =
     (if x = c then [] # splitOn c xs
      else (case splitOn c xs of [] \<Rightarrow> [[x]] | y # ys \<Rightarrow> (x # y) # ys))"

fun joinWith :: "char \<Rightarrow> string list \<Rightarrow> string" where
  "joinWith c [] = []"
| "joinWith c [s] = s"
| "joinWith c (s # ss) = s @ c # joinWith c ss"

lemma splitOn_nonempty [simp]: "splitOn c s \<noteq> []"
  by (cases s) (auto split: list.splits)

lemma joinWith_splitOn [simp]: "joinWith c (splitOn c s) = s"
proof (induction s)
  case (Cons x s)
  obtain y ys where y: "splitOn c s = y # ys" by (cases "splitOn c s") auto
  with Cons show ?case by (cases ys) auto
qed simp

lemma splitOn_no_sep: "t \<in> set (splitOn c s) \<Longrightarrow> c \<notin> set t"
  by (induction s arbitrary: t) (auto split: list.splits if_splits)

lemma splitOn_id: "c \<notin> set s \<Longrightarrow> splitOn c s = [s]"
  by (induction s) auto

lemma splitOn_append: "c \<notin> set s \<Longrightarrow> splitOn c (s @ c # t) = s # splitOn c t"
  by (induction s) auto

lemma splitOn_joinWith:
  "ss \<noteq> [] \<Longrightarrow> (\<And>t. t \<in> set ss \<Longrightarrow> c \<notin> set t) \<Longrightarrow> splitOn c (joinWith c ss) = ss"
  by (induction c ss rule: joinWith.induct) (auto simp: splitOn_id splitOn_append)

text \<open>\<open>Cut\<close> around the first separator byte; \<open>None\<close> when it is absent.\<close>

definition cutAt :: "string \<Rightarrow> char \<Rightarrow> (string \<times> string) option" where
  "cutAt s c = (case indexByte s c of None \<Rightarrow> None | Some i \<Rightarrow> Some (take i s, drop (Suc i) s))"

lemma cutAt_append [go_strings]: "c \<notin> set s \<Longrightarrow> cutAt (s @ c # t) c = Some (s, t)"
  by (simp add: cutAt_def indexByte_append)

lemma cutAt_None [go_strings]: "cutAt s c = None \<longleftrightarrow> c \<notin> set s"
  by (auto simp: cutAt_def indexByte_None [symmetric] split: option.splits)

lemma cutAt_Some: "cutAt s c = Some (a, b) \<longleftrightarrow> s = a @ c # b \<and> c \<notin> set a"
proof
  assume "cutAt s c = Some (a, b)"
  then obtain i where "indexByte s c = Some i" and "a = take i s" and "b = drop (Suc i) s"
    by (auto simp: cutAt_def split: option.splits)
  then show "s = a @ c # b \<and> c \<notin> set a"
    using indexByte_split [of s c i] by (simp add: indexByte_Some_iff)
qed (simp add: cutAt_append)

section \<open>White space\<close>

text \<open>The UTF-8 encodings of the characters for which \<open>unicode.IsSpace\<close> holds.\<close>

definition space_encodings :: "string list" where
  "space_encodings =
     [[CHR 0x09], [CHR 0x0A], [CHR 0x0B], [CHR 0x0C], [CHR 0x0D], [CHR 0x20],
      [CHR 0xC2, CHR 0x85], [CHR 0xC2, CHR 0xA0], [CHR 0xE1, CHR 0x9A, CHR 0x80],
      [CHR 0xE2, CHR 0x80, CHR 0x80], [CHR 0xE2, CHR 0x80, CHR 0x81], [CHR 0xE2, CHR 0x80, CHR 0x82],
      [CHR 0xE2, CHR 0x80, CHR 0x83], [CHR 0xE2, CHR 0x80, CHR 0x84], [CHR 0xE2, CHR 0x80, CHR 0x85],
      [CHR 0xE2, CHR 0x80, CHR 0x86], [CHR 0xE2, CHR 0x80, CHR 0x87], [CHR 0xE2, CHR 0x80, CHR 0x88],
      [CHR 0xE2, CHR 0x80, CHR 0x89], [CHR 0xE2, CHR 0x80, CHR 0x8A], [CHR 0xE2, CHR 0x80, CHR 0xA8],
      [CHR 0xE2, CHR 0x80, CHR 0xA9], [CHR 0xE2, CHR 0x80, CHR 0xAF], [CHR 0xE2, CHR 0x81, CHR 0x9F],
      [CHR 0xE3, CHR 0x80, CHR 0x80]]"

definition leading_space :: "string \<Rightarrow> nat" where
  "leading_space s = (case find (hasPrefix s) space_encodings of None \<Rightarrow> 0 | Some e \<Rightarrow> length e)"

definition trailing_space :: "string \<Rightarrow> nat" where
  "trailing_space s = (case find (hasSuffix s) space_encodings of None \<Rightarrow> 0 | Some e \<Rightarrow> length e)"

lemma leading_space_bound [simp]: "leading_space s \<le> length s"
  by (auto simp: leading_space_def find_Some_iff hasPrefix_conv split: option.split)

lemma trailing_space_bound [simp]: "trailing_space s \<le> length s"
  by (auto simp: trailing_space_def find_Some_iff hasSuffix_def split: option.split)

function trimLeftSpace :: "string \<Rightarrow> string" where
  "trimLeftSpace s = (if leading_space s = 0 then s else trimLeftSpace (drop (leading_space s) s))"
  by pat_completeness auto
termination
proof (relation "measure length", goal_cases)
  case (2 s)
  then show ?case using leading_space_bound [of s] by (auto simp del: leading_space_bound)
qed auto

function trimRightSpace :: "string \<Rightarrow> string" where
  "trimRightSpace s =
     (if trailing_space s = 0 then s else trimRightSpace (take (length s - trailing_space s) s))"
  by pat_completeness auto
termination
proof (relation "measure length", goal_cases)
  case (2 s)
  then show ?case using trailing_space_bound [of s] by (auto simp del: trailing_space_bound)
qed auto

declare trimLeftSpace.simps [simp del] trimRightSpace.simps [simp del]

definition trimSpace :: "string \<Rightarrow> string" where
  "trimSpace s = trimRightSpace (trimLeftSpace s)"

lemma leading_space_trimLeftSpace [simp]: "leading_space (trimLeftSpace s) = 0"
proof (induction s rule: trimLeftSpace.induct)
  case (1 s)
  then show ?case by (cases "leading_space s = 0") (subst trimLeftSpace.simps, simp)+
qed

lemma trailing_space_trimRightSpace [simp]: "trailing_space (trimRightSpace s) = 0"
proof (induction s rule: trimRightSpace.induct)
  case (1 s)
  then show ?case by (cases "trailing_space s = 0") (subst trimRightSpace.simps, simp)+
qed

lemma trimSpace_id: "leading_space s = 0 \<Longrightarrow> trailing_space s = 0 \<Longrightarrow> trimSpace s = s"
  unfolding trimSpace_def by (subst trimLeftSpace.simps) (simp add: trimRightSpace.simps)

text \<open>\<open>Fields\<close>: the maximal runs without white space.\<close>

function fields_from :: "string \<Rightarrow> string \<Rightarrow> string list" where
  "fields_from cur s =
     (case s of
        [] \<Rightarrow> (if cur = [] then [] else [cur])
      | c # rest \<Rightarrow>
          (if leading_space s = 0 then fields_from (cur @ [c]) rest
           else (if cur = [] then [] else [cur]) @ fields_from [] (drop (leading_space s) s)))"
  by pat_completeness auto
termination
  by (relation "measure (\<lambda>(cur, s). length s)") auto

declare fields_from.simps [simp del]

definition fields :: "string \<Rightarrow> string list" where
  "fields s = fields_from [] s"

text \<open>\<open>FieldsFunc\<close> for a predicate on bytes.\<close>

fun fieldsFunc_from :: "(char \<Rightarrow> bool) \<Rightarrow> string \<Rightarrow> string \<Rightarrow> string list" where
  "fieldsFunc_from p cur [] = (if cur = [] then [] else [cur])"
| "fieldsFunc_from p cur (c # cs) =
     (if p c then (if cur = [] then [] else [cur]) @ fieldsFunc_from p [] cs
      else fieldsFunc_from p (cur @ [c]) cs)"

definition fieldsFunc :: "(char \<Rightarrow> bool) \<Rightarrow> string \<Rightarrow> string list" where
  "fieldsFunc p s = fieldsFunc_from p [] s"

lemma fieldsFunc_from_nonempty: "[] \<notin> set (fieldsFunc_from p cur s)"
  by (induction p cur s rule: fieldsFunc_from.induct) auto

text \<open>\<open>TrimRight\<close> for one character.\<close>

definition trimRightChar :: "char \<Rightarrow> string \<Rightarrow> string" where
  "trimRightChar c s = rev (dropWhile (\<lambda>x. x = c) (rev s))"

lemma trimRightChar_id: "s = [] \<or> last s \<noteq> c \<Longrightarrow> trimRightChar c s = s"
  by (cases s rule: rev_cases) (auto simp: trimRightChar_def)

definition lower_char :: "char \<Rightarrow> char" where
  "lower_char c = (if CHR ''A'' \<le> c \<and> c \<le> CHR ''Z'' then char_of (of_char c + 32 :: nat) else c)"

definition toLower :: "string \<Rightarrow> string" where
  "toLower s = map lower_char s"

section \<open>Lines\<close>

text \<open>
  \<open>bufio.Scanner\<close> with its default line splitter: lines end at a newline, a trailing carriage
  return is dropped, an empty last piece is no line, and a line that does not fit the 64 KiB
  buffer ends the scan with an error (the second component is then \<open>False\<close>).
\<close>

definition maxScanTokenSize :: nat where
  "maxScanTokenSize = 65536"

definition rawLines :: "string \<Rightarrow> string list" where
  "rawLines s = (let parts = splitOn CHR 0x0A s in if last parts = [] then butlast parts else parts)"

definition dropCR :: "string \<Rightarrow> string" where
  "dropCR s = (if hasSuffix s [CHR 0x0D] then butlast s else s)"

definition scanLines :: "string \<Rightarrow> string list \<times> bool" where
  "scanLines s =
     (let fits = (\<lambda>l. length l < maxScanTokenSize); ls = rawLines s
      in (map dropCR (takeWhile fits ls), list_all fits ls))"

lemma splitOn_snoc: "splitOn c (s @ c # t) = splitOn c s @ splitOn c t"
proof (induction s)
  case (Cons x s)
  obtain y ys where "splitOn c s = y # ys" by (cases "splitOn c s") auto
  with Cons show ?case by simp
qed simp

lemma splitOn_concat:
  "(\<And>l. l \<in> set ls \<Longrightarrow> c \<notin> set l) \<Longrightarrow> splitOn c (concat (map (\<lambda>l. l @ [c]) ls)) = ls @ [[]]"
  by (induction ls) (simp_all add: splitOn_append)

lemma rawLines_unlines:
  "(\<And>l. l \<in> set ls \<Longrightarrow> CHR 0x0A \<notin> set l) \<Longrightarrow> rawLines (concat (map (\<lambda>l. l @ [CHR 0x0A]) ls)) = ls"
  by (simp add: rawLines_def splitOn_concat)

lemmas scan_lines_simps =
  scanLines_def rawLines_def dropCR_def maxScanTokenSize_def hasSuffix_def trimSpace_id
  leading_space_def trailing_space_def space_encodings_def

section \<open>Decimal numbers\<close>

definition digit_char :: "nat \<Rightarrow> char" where
  "digit_char d = char_of (48 + d)"

fun format_nat :: "nat \<Rightarrow> string" where
  "format_nat n = (if n < 10 then [digit_char n] else format_nat (n div 10) @ [digit_char (n mod 10)])"

declare format_nat.simps [simp del]

text \<open>\<open>strconv.Itoa\<close> and \<open>strconv.FormatInt\<close> in base 10.\<close>

definition formatInt :: "int \<Rightarrow> string" where
  "formatInt n = (if n < 0 then CHR ''-'' # format_nat (nat (- n)) else format_nat (nat n))"

definition digit_value :: "char \<Rightarrow> nat option" where
  "digit_value c = (if CHR ''0'' \<le> c \<and> c \<le> CHR ''9'' then Some (of_char c - 48) else None)"

fun parse_digits :: "nat \<Rightarrow> string \<Rightarrow> nat option" where
  "parse_digits acc [] = Some acc"
| "parse_digits acc (c # cs) =
     (case digit_value c of None \<Rightarrow> None | Some d \<Rightarrow> parse_digits (10 * acc + d) cs)"

text \<open>\<open>strconv.Atoi\<close>: an optional sign and at least one digit, in the range of \<open>int\<close>.\<close>

definition atoi :: "string \<Rightarrow> int option" where
  "atoi s =
     (let neg = (s \<noteq> [] \<and> hd s = CHR ''-'');
          ds = (if s \<noteq> [] \<and> (hd s = CHR ''-'' \<or> hd s = CHR ''+'') then tl s else s)
      in if ds = [] then None
         else (case parse_digits 0 ds of
                 None \<Rightarrow> None
               | Some n \<Rightarrow> (let v = (if neg then - int n else int n)
                           in if fits64 v then Some v else None)))"

lemma digit_char_props:
  assumes "d < 10"
  shows "digit_value (digit_char d) = Some d"
    and "digit_char d \<noteq> CHR ''-'' \<and> digit_char d \<noteq> CHR ''+''"
proof -
  have "d \<in> {0, 1, 2, 3, 4, 5, 6, 7, 8, 9}" using assms by auto
  then show "digit_value (digit_char d) = Some d"
    and "digit_char d \<noteq> CHR ''-'' \<and> digit_char d \<noteq> CHR ''+''"
    by (auto simp: digit_char_def digit_value_def less_eq_char_def char_of_def bit_0)
qed

lemma parse_format_nat: "parse_digits 0 (format_nat n @ cs) = parse_digits n cs"
proof (induction n arbitrary: cs rule: format_nat.induct)
  case (1 n)
  show ?case
  proof (cases "n < 10")
    case True
    then show ?thesis by (subst format_nat.simps) (simp add: digit_char_props)
  next
    case False
    with 1 show ?thesis by (subst format_nat.simps) (simp add: digit_char_props)
  qed
qed

lemma format_nat_head: "\<exists>d ds. format_nat n = digit_char d # ds \<and> d < 10"
proof (induction n rule: format_nat.induct)
  case (1 n)
  then show ?case by (cases "n < 10") (subst format_nat.simps, force)+
qed

lemma format_nat_chars: "c \<in> set (format_nat n) \<Longrightarrow> \<exists>d < 10. c = digit_char d"
proof (induction n rule: format_nat.induct)
  case (1 n)
  show ?case
  proof (cases "n < 10")
    case True
    with "1.prems" show ?thesis by (subst (asm) format_nat.simps) auto
  next
    case False
    with "1.prems" have "c \<in> set (format_nat (n div 10)) \<or> c = digit_char (n mod 10)"
      by (subst (asm) format_nat.simps) auto
    moreover have "n mod 10 < 10" by simp
    ultimately show ?thesis using "1.IH" [OF False] by blast
  qed
qed

lemma atoi_formatInt [go_strings]: "fits64 n \<Longrightarrow> atoi (formatInt n) = Some n"
proof -
  assume n: "fits64 n"
  obtain d ds where d: "format_nat (nat \<bar>n\<bar>) = digit_char d # ds" "d < 10"
    using format_nat_head by blast
  have "parse_digits 0 (digit_char d # ds) = Some (nat \<bar>n\<bar>)"
    using parse_format_nat [of "nat \<bar>n\<bar>" "[]"] d(1) by simp
  then show ?thesis
    using n d digit_char_props(2) [OF d(2)]
    by (cases "n < 0") (auto simp: formatInt_def atoi_def Let_def simp del: parse_digits.simps)
qed

end
