(* ===== verification/Entry.thy ===== *)
theory Entry
  imports GoStrings
begin

unbundle bit_operations_syntax

text \<open>
  The data the file list is made of: \<open>FileEntry\<close> (\<open>internal/sync/walk.go\<close>) with the bits of Go's
  \<open>fs.FileMode\<close>, and \<open>ClassifySpecialFile\<close> (\<open>specialfiles.go\<close>). A \<open>time.Time\<close> is its number of
  nanoseconds, which is what \<open>Equal\<close> compares.
\<close>

section \<open>File modes\<close>

type_synonym fileMode = u32

definition ModeDir :: fileMode where "ModeDir = push_bit 31 1"
definition ModeSymlink :: fileMode where "ModeSymlink = push_bit 27 1"
definition ModeDevice :: fileMode where "ModeDevice = push_bit 26 1"
definition ModeNamedPipe :: fileMode where "ModeNamedPipe = push_bit 25 1"
definition ModeSocket :: fileMode where "ModeSocket = push_bit 24 1"
definition ModeCharDevice :: fileMode where "ModeCharDevice = push_bit 21 1"

lemmas mode_defs =
  ModeDir_def ModeSymlink_def ModeDevice_def ModeNamedPipe_def ModeSocket_def ModeCharDevice_def

text \<open>\<open>mode.Perm()\<close>: the low nine bits.\<close>

definition Perm :: "fileMode \<Rightarrow> fileMode" where
  "Perm m = m AND 511"

lemma Perm_idem [simp]: "Perm (Perm m) = Perm m"
  by (simp add: Perm_def and.assoc)

lemma Perm_bits: "bit (Perm m) n \<longleftrightarrow> bit m n \<and> n < 9"
proof -
  have "(511 :: u32) = mask 9" by (simp add: mask_eq_exp_minus_1)
  then have "Perm m = m AND mask 9" by (simp only: Perm_def)
  then show ?thesis by (auto simp: bit_simps dest: bit_imp_le_length)
qed

lemma mode_bit: "m AND push_bit n 1 \<noteq> 0 \<longleftrightarrow> bit (m :: fileMode) n"
  by (simp add: bit_iff_and_push_bit_not_eq_0)

lemma mode_bits:
  "m AND ModeDir \<noteq> 0 \<longleftrightarrow> bit m 31" "m AND ModeSymlink \<noteq> 0 \<longleftrightarrow> bit m 27"
  "m AND ModeDevice \<noteq> 0 \<longleftrightarrow> bit m 26" "m AND ModeNamedPipe \<noteq> 0 \<longleftrightarrow> bit m 25"
  "m AND ModeSocket \<noteq> 0 \<longleftrightarrow> bit m 24" "m AND ModeCharDevice \<noteq> 0 \<longleftrightarrow> bit m 21"
  unfolding mode_defs by (simp_all only: mode_bit)

section \<open>Entries\<close>

record fileEntry =
  fe_Path :: string
  fe_Size :: int
  fe_ModTime :: int
  fe_Mode :: fileMode
  fe_UID :: u32
  fe_GID :: u32
  fe_OwnershipAvailable :: bool
  fe_LinkTarget :: string
  fe_IsDir :: bool

definition is_symlink :: "fileEntry \<Rightarrow> bool" where
  "is_symlink e \<longleftrightarrow> fe_Mode e AND ModeSymlink \<noteq> 0"

definition zero_entry :: fileEntry where
  "zero_entry = \<lparr>fe_Path = [], fe_Size = 0, fe_ModTime = 0, fe_Mode = 0, fe_UID = 0, fe_GID = 0,
     fe_OwnershipAvailable = False, fe_LinkTarget = [], fe_IsDir = False\<rparr>"

text \<open>A hard-link group is the list of the paths that share an inode.\<close>

type_synonym hardLinkGroup = "string list"

record walkOptions =
  Recursive :: bool
  Dirs :: bool

record attrOptions =
  ao_Perms :: bool
  ao_Times :: bool
  ao_Owner :: bool
  ao_Group :: bool
  ao_Links :: bool
  ao_HardLinks :: bool
  ao_Devices :: bool

section \<open>specialfiles.go\<close>

datatype specialFileType = NotSpecial | NamedPipe | Socket | CharDevice | BlockDevice

definition ClassifySpecialFile :: "fileEntry \<Rightarrow> specialFileType" where
  "ClassifySpecialFile e =
     (if fe_Mode e AND ModeNamedPipe \<noteq> 0 then NamedPipe
      else if fe_Mode e AND ModeSocket \<noteq> 0 then Socket
      else if fe_Mode e AND ModeCharDevice \<noteq> 0 then CharDevice
      else if fe_Mode e AND ModeDevice \<noteq> 0 then BlockDevice
      else NotSpecial)"

end
