(* ===== verification/PathMatch.thy ===== *)
theory PathMatch
  imports GoStrings
begin

text \<open>
  Go's \<open>path.Match\<close> (with \<open>unicode/utf8\<close> decoding), which \<open>internal/sync/filter.go\<close> calls on every
  pattern segment: the scanner for chunks between stars, the chunk matcher with character classes
  and escapes, and the backtracking over stars. \<open>None\<close> is \<open>ErrBadPattern\<close>.
\<close>

section \<open>UTF-8\<close>

definition runeError :: nat where
  "runeError = 65533"

definition is_cont :: "nat \<Rightarrow> bool" where
  "is_cont b \<longleftrightarrow> 128 \<le> b \<and> b < 192"

text \<open>\<open>DecodeRuneInString\<close>: the code point and its size in bytes; \<open>(RuneError, 1)\<close> on bad input.\<close>

definition decode_rune :: "string \<Rightarrow> nat \<times> nat" where
  "decode_rune s =
     (case map of_char s of
        [] \<Rightarrow> (runeError, 0)
      | b0 # bs \<Rightarrow>
          (if b0 < 128 then (b0, 1)
           else if 194 \<le> b0 \<and> b0 < 224 then
             (case bs of b1 # _ \<Rightarrow> (if is_cont b1 then (64 * (b0 - 192) + (b1 - 128), 2) else (runeError, 1))
              | [] \<Rightarrow> (runeError, 1))
           else if 224 \<le> b0 \<and> b0 < 240 then
             (case bs of b1 # b2 # _ \<Rightarrow>
                (if is_cont b1 \<and> is_cont b2 \<and> (b0 = 224 \<longrightarrow> 160 \<le> b1) \<and> (b0 = 237 \<longrightarrow> b1 < 160)
                 then (4096 * (b0 - 224) + 64 * (b1 - 128) + (b2 - 128), 3) else (runeError, 1))
              | _ \<Rightarrow> (runeError, 1))
           else if 240 \<le> b0 \<and> b0 < 245 then
             (case bs of b1 # b2 # b3 # _ \<Rightarrow>
                (if is_cont b1 \<and> is_cont b2 \<and> is_cont b3 \<and> (b0 = 240 \<longrightarrow> 144 \<le> b1) \<and> (b0 = 244 \<longrightarrow> b1 < 144)
                 then (262144 * (b0 - 240) + 4096 * (b1 - 128) + 64 * (b2 - 128) + (b3 - 128), 4)
                 else (runeError, 1))
              | _ \<Rightarrow> (runeError, 1))
           else (runeError, 1)))"

lemma decode_rune_size: "s \<noteq> [] \<Longrightarrow> 0 < snd (decode_rune s)"
  by (auto simp: decode_rune_def split: list.splits)

section \<open>Character classes\<close>

text \<open>\<open>getEsc\<close>; \<open>None\<close> stands for \<open>ErrBadPattern\<close>.\<close>

definition getEsc :: "string \<Rightarrow> (nat \<times> string) option" where
  "getEsc chunk =
     (if chunk = [] \<or> hd chunk = CHR ''-'' \<or> hd chunk = CHR '']'' then None
      else let c1 = (if hd chunk = CHR 0x5C then tl chunk else chunk) in
        if c1 = [] then None
        else let (r, n) = decode_rune c1; nchunk = drop n c1 in
          if r = runeError \<and> n = 1 then None
          else if nchunk = [] then None
          else Some (r, nchunk))"

lemma getEsc_shorter: "getEsc chunk = Some (r, rest) \<Longrightarrow> length rest < length chunk"
proof -
  assume esc: "getEsc chunk = Some (r, rest)"
  define c1 where "c1 = (if hd chunk = CHR 0x5C then tl chunk else chunk)"
  from esc have "chunk \<noteq> []" and "c1 \<noteq> []" and "rest = drop (snd (decode_rune c1)) c1"
    by (auto simp: getEsc_def c1_def Let_def split: if_splits prod.splits)
  then have "length rest < length c1"
    using decode_rune_size [of c1] by simp
  also have "length c1 \<le> length chunk" by (simp add: c1_def)
  finally show ?thesis .
qed

text \<open>The loop over the ranges of a class: \<open>any\<close> is \<open>nrange > 0\<close>.\<close>

function match_ranges :: "nat \<Rightarrow> bool \<Rightarrow> bool \<Rightarrow> string \<Rightarrow> (bool \<times> string) option" where
  "match_ranges r any matched chunk =
     (if chunk \<noteq> [] \<and> hd chunk = CHR '']'' \<and> any then Some (matched, tl chunk)
      else (case getEsc chunk of
              None \<Rightarrow> None
            | Some (lo, c1) \<Rightarrow>
                (if hd c1 = CHR ''-''
                 then (case getEsc (tl c1) of
                         None \<Rightarrow> None
                       | Some (hi, c2) \<Rightarrow> match_ranges r True (matched \<or> lo \<le> r \<and> r \<le> hi) c2)
                 else match_ranges r True (matched \<or> lo \<le> r \<and> r \<le> lo) c1)))"
  by pat_completeness auto
termination
  by (relation "measure (\<lambda>(r, any, m, chunk). length chunk)")
    (auto dest!: getEsc_shorter)

declare match_ranges.simps [simp del]

lemma match_ranges_shorter:
  "match_ranges r any m chunk = Some (m', rest) \<Longrightarrow> length rest < length chunk"
proof (induction r any m chunk rule: match_ranges.induct)
  case (1 r any m chunk)
  show ?case
  proof (cases "chunk \<noteq> [] \<and> hd chunk = CHR '']'' \<and> any")
    case True
    with "1.prems" show ?thesis by (subst (asm) match_ranges.simps) auto
  next
    case False
    with "1.prems" obtain lo c1 where esc: "getEsc chunk = Some (lo, c1)"
      by (subst (asm) match_ranges.simps) (auto split: option.splits)
    have lt: "length c1 < length chunk" using esc by (rule getEsc_shorter)
    show ?thesis
    proof (cases "hd c1 = CHR ''-''")
      case True
      with False esc "1.prems" obtain hi c2 where esc2: "getEsc (tl c1) = Some (hi, c2)"
        and rec: "match_ranges r True (m \<or> lo \<le> r \<and> r \<le> hi) c2 = Some (m', rest)"
        by (subst (asm) match_ranges.simps) (auto split: option.splits)
      have "length rest < length c2"
        using "1.IH"(1) [OF False esc refl True esc2 refl rec] .
      with getEsc_shorter [OF esc2] lt show ?thesis by simp
    next
      case no: False
      with False esc "1.prems"
      have rec: "match_ranges r True (m \<or> lo \<le> r \<and> r \<le> lo) c1 = Some (m', rest)"
        by (subst (asm) match_ranges.simps) (auto split: option.splits)
      from "1.IH"(2) [OF False esc refl no rec] lt show ?thesis by simp
    qed
  qed
qed

section \<open>Chunks\<close>

datatype chunk_result = BadPattern | NoMatch | Matched string

function matchChunk :: "string \<Rightarrow> string \<Rightarrow> bool \<Rightarrow> chunk_result" where
  "matchChunk chunk s failed0 =
     (case chunk of
        [] \<Rightarrow> (if failed0 then NoMatch else Matched s)
      | c # cs \<Rightarrow>
          (let failed = (failed0 \<or> s = []) in
           if c = CHR ''['' then
             (let r = (if failed then 0 else fst (decode_rune s));
                  s1 = (if failed then s else drop (snd (decode_rune s)) s);
                  negated = (cs \<noteq> [] \<and> hd cs = CHR ''^'');
                  cs1 = (if negated then tl cs else cs)
              in case match_ranges r False False cs1 of
                   None \<Rightarrow> BadPattern
                 | Some (matched, cs2) \<Rightarrow> matchChunk cs2 s1 (failed \<or> matched = negated))
           else if c = CHR ''?'' then
             (if failed then matchChunk cs s True
              else matchChunk cs (drop (snd (decode_rune s)) s) (hd s = CHR ''/''))
           else
             (let lit = (if c = CHR 0x5C then cs else chunk) in
              case lit of
                [] \<Rightarrow> BadPattern
              | d # ds \<Rightarrow> (if failed then matchChunk ds s True
                          else matchChunk ds (tl s) (d \<noteq> hd s)))))"
  by pat_completeness auto
termination
proof (relation "measure (\<lambda>(chunk, s, failed). length chunk)", goal_cases)
  case (2 chunk s failed0 c cs failed r s1 negated cs1 x2 matched cs2)
  then have "length cs2 < length cs1" by (auto dest: match_ranges_shorter)
  with 2 show ?case by (auto split: if_splits)
qed (auto split: if_splits)

declare matchChunk.simps [simp del]

text \<open>\<open>scanChunk\<close>: the leading stars, then the offset of the next star outside brackets.\<close>

fun scan_offset :: "bool \<Rightarrow> string \<Rightarrow> nat" where
  "scan_offset inrange [] = 0"
| "scan_offset inrange (c # cs) =
     (if c = CHR 0x5C then (case cs of [] \<Rightarrow> 1 | d # ds \<Rightarrow> Suc (Suc (scan_offset inrange ds)))
      else if c = CHR ''['' then Suc (scan_offset True cs)
      else if c = CHR '']'' then Suc (scan_offset False cs)
      else if c = CHR ''*'' \<and> \<not> inrange then 0
      else Suc (scan_offset inrange cs))"

definition scanChunk :: "string \<Rightarrow> bool \<times> string \<times> string" where
  "scanChunk pattern =
     (let p = dropWhile (\<lambda>c. c = CHR ''*'') pattern; i = scan_offset False p
      in (pattern \<noteq> [] \<and> hd pattern = CHR ''*'', take i p, drop i p))"

lemma scanChunk_shorter:
  assumes "pattern \<noteq> []" and "scanChunk pattern = (star, chunk, rest)"
  shows "length rest < length pattern"
proof (cases "hd pattern = CHR ''*''")
  case True
  with assms(1) have "length (dropWhile (\<lambda>c. c = CHR ''*'') pattern) < length pattern"
    by (cases pattern) (auto simp: length_dropWhile_le less_Suc_eq_le)
  with assms(2) show ?thesis by (auto simp: scanChunk_def Let_def)
next
  case False
  with assms(1) obtain c cs where p: "pattern = c # cs" "c \<noteq> CHR ''*''" by (cases pattern) auto
  then have "0 < scan_offset False pattern" by (auto split: list.split)
  with assms p show ?thesis by (auto simp: scanChunk_def Let_def)
qed

section \<open>Match\<close>

datatype skip_result = SkipBad | SkipNone | SkipFound string

text \<open>The loop that lets a star swallow one more byte of \<open>name\<close>, never a slash.\<close>

fun match_skip :: "string \<Rightarrow> bool \<Rightarrow> string \<Rightarrow> skip_result" where
  "match_skip chunk last_chunk [] = SkipNone"
| "match_skip chunk last_chunk (c # name) =
     (if c = CHR ''/'' then SkipNone
      else case matchChunk chunk name False of
             Matched t \<Rightarrow> (if last_chunk \<and> t \<noteq> [] then match_skip chunk last_chunk name else SkipFound t)
           | BadPattern \<Rightarrow> SkipBad
           | NoMatch \<Rightarrow> match_skip chunk last_chunk name)"

text \<open>The final syntax check of the chunks that are left.\<close>

lemma scanChunk_measure:
  "pattern \<noteq> [] \<Longrightarrow> (star, chunk, rest) = scanChunk pattern \<Longrightarrow> length rest < length pattern"
  by (metis scanChunk_shorter)

function check_rest :: "string \<Rightarrow> bool option" where
  "check_rest pattern =
     (if pattern = [] then Some False
      else (case scanChunk pattern of (star, chunk, rest) \<Rightarrow>
              (if matchChunk chunk [] False = BadPattern then None else check_rest rest)))"
  by pat_completeness auto
termination
  by (relation "measure length") (auto dest: scanChunk_measure)

text \<open>One round of the outer loop: the chunk at the current position, then, after a star, at
  the later ones.\<close>

definition match_round :: "bool \<Rightarrow> string \<Rightarrow> string \<Rightarrow> string \<Rightarrow> skip_result" where
  "match_round star chunk rest name =
     (let retry = (if star then match_skip chunk (rest = []) name else SkipNone)
      in case matchChunk chunk name False of
           Matched t \<Rightarrow> (if t = [] \<or> rest \<noteq> [] then SkipFound t else retry)
         | BadPattern \<Rightarrow> SkipBad
         | NoMatch \<Rightarrow> retry)"

function pathMatch :: "string \<Rightarrow> string \<Rightarrow> bool option" where
  "pathMatch pattern name =
     (if pattern = [] then Some (name = [])
      else (case scanChunk pattern of (star, chunk, rest) \<Rightarrow>
        (if star \<and> chunk = [] then Some (CHR ''/'' \<notin> set name)
         else (case match_round star chunk rest name of
                 SkipBad \<Rightarrow> None
               | SkipFound t \<Rightarrow> pathMatch rest t
               | SkipNone \<Rightarrow> check_rest rest))))"
  by pat_completeness auto
termination
  by (relation "measure (\<lambda>(pattern, name). length pattern)") (auto dest: scanChunk_measure)

declare check_rest.simps [simp del] pathMatch.simps [simp del]

section \<open>Literal patterns and one star\<close>

definition literal_pattern :: "string \<Rightarrow> bool" where
  "literal_pattern p \<longleftrightarrow> list_all (\<lambda>c. c \<notin> {CHR ''*'', CHR ''?'', CHR ''['', CHR 0x5C}) p"

lemma literal_simps [simp]:
  "literal_pattern []"
  "literal_pattern (c # cs) \<longleftrightarrow>
     c \<noteq> CHR ''*'' \<and> c \<noteq> CHR ''?'' \<and> c \<noteq> CHR ''['' \<and> c \<noteq> CHR 0x5C \<and> literal_pattern cs"
  by (auto simp: literal_pattern_def)

lemma scan_offset_literal: "literal_pattern p \<Longrightarrow> scan_offset b p = length p"
  by (induction p arbitrary: b) auto

lemma matchChunk_failed: "literal_pattern p \<Longrightarrow> matchChunk p s True = NoMatch"
  by (induction p arbitrary: s) (subst matchChunk.simps, simp)+

lemma matchChunk_literal:
  "literal_pattern p \<Longrightarrow>
     matchChunk p s False = (if hasPrefix s p then Matched (drop (length p) s) else NoMatch)"
proof (induction p arbitrary: s)
  case Nil
  then show ?case by (subst matchChunk.simps) (simp add: hasPrefix_def)
next
  case (Cons c p)
  show ?case
  proof (cases s)
    case Nil
    with Cons.prems show ?thesis
      by (subst matchChunk.simps) (simp add: matchChunk_failed hasPrefix_def)
  next
    case (Cons d t)
    with Cons.prems Cons.IH [of t] show ?thesis
      by (cases "c = d"; subst matchChunk.simps) (simp_all add: matchChunk_failed hasPrefix_def)
  qed
qed

lemma dropWhile_literal: "literal_pattern p \<Longrightarrow> dropWhile (\<lambda>c. c = CHR ''*'') p = p"
  by (cases p) auto

lemma literal_hd: "literal_pattern p \<Longrightarrow> p \<noteq> [] \<Longrightarrow> hd p \<noteq> CHR ''*''"
  by (cases p) simp_all

lemma scanChunk_literal: "literal_pattern p \<Longrightarrow> scanChunk p = (False, p, [])"
  using literal_hd [of p] by (cases "p = []") (simp_all add: scanChunk_def scan_offset_literal Let_def dropWhile_literal)

lemma scanChunk_star: "literal_pattern p \<Longrightarrow> scanChunk (CHR ''*'' # p) = (True, p, [])"
  by (auto simp: scanChunk_def scan_offset_literal Let_def dropWhile_literal)

lemma pathMatch_literal: "literal_pattern p \<Longrightarrow> pathMatch p s = Some (s = p)"
  by (subst pathMatch.simps)
    (auto simp: scanChunk_literal match_round_def matchChunk_literal hasPrefix_conv pathMatch.simps check_rest.simps Let_def)

lemma match_skip_literal:
  "literal_pattern p \<Longrightarrow> p \<noteq> [] \<Longrightarrow>
     match_skip p True s = (if \<exists>t. t \<noteq> [] \<and> s = t @ p \<and> CHR ''/'' \<notin> set t then SkipFound [] else SkipNone)"
proof (induction s)
  case (Cons c s)
  have "(\<exists>t. t \<noteq> [] \<and> c # s = t @ p \<and> CHR ''/'' \<notin> set t)
      \<longleftrightarrow> c \<noteq> CHR ''/'' \<and> (s = p \<or> (\<exists>t. t \<noteq> [] \<and> s = t @ p \<and> CHR ''/'' \<notin> set t))"
    by (auto simp: Cons_eq_append_conv)
  moreover have "matchChunk p s False = Matched t \<longleftrightarrow> s = p @ t" for t
    using Cons.prems by (auto simp: matchChunk_literal hasPrefix_conv)
  ultimately show ?case
    using Cons by (auto simp: matchChunk_literal hasPrefix_conv)
qed simp

lemma pathMatch_star:
  assumes p: "literal_pattern p"
  shows "pathMatch (CHR ''*'' # p) s = Some (\<exists>t. s = t @ p \<and> CHR ''/'' \<notin> set t)"
proof (cases "p = []")
  case True
  with p show ?thesis by (subst pathMatch.simps) (simp add: scanChunk_star)
next
  case False
  have split: "(\<exists>t. s = t @ p \<and> CHR ''/'' \<notin> set t)
      \<longleftrightarrow> s = p \<or> (\<exists>t. t \<noteq> [] \<and> s = t @ p \<and> CHR ''/'' \<notin> set t)"
    by (metis append_Nil empty_iff list.set(1))
  have "match_round True p [] s = (if \<exists>t. s = t @ p \<and> CHR ''/'' \<notin> set t then SkipFound [] else SkipNone)"
    unfolding split using p False
    by (auto simp: match_round_def Let_def matchChunk_literal match_skip_literal hasPrefix_conv)
  with p False show ?thesis
    by (subst pathMatch.simps) (simp add: scanChunk_star pathMatch.simps check_rest.simps)
qed

end
