(* ===== verification/FilterRules.thy ===== *)
theory FilterRules
  imports Entry PathMatch
begin

text \<open>
  \<open>internal/sync/filter.go\<close>: compiling \<open>--include\<close>, \<open>--exclude\<close>, \<open>--filter\<close> and the from-file rules
  into one ordered list and matching entries against it. Reading a rule file is the parameter
  \<open>read_file\<close>: its content, or \<open>None\<close> when it cannot be opened or read.
\<close>

section \<open>Rules\<close>

type_synonym ruleKind = string

definition RuleInclude :: ruleKind where "RuleInclude = ''include''"
definition RuleExclude :: ruleKind where "RuleExclude = ''exclude''"
definition RuleFilter :: ruleKind where "RuleFilter = ''filter''"
definition RuleExcludeFrom :: ruleKind where "RuleExcludeFrom = ''exclude-from''"
definition RuleIncludeFrom :: ruleKind where "RuleIncludeFrom = ''include-from''"

lemmas rule_kinds = RuleInclude_def RuleExclude_def RuleFilter_def RuleExcludeFrom_def RuleIncludeFrom_def

record rawRule =
  Kind :: ruleKind
  raw_Pattern :: string

datatype action = Include | Exclude

record rule =
  Action :: action
  Pattern :: string
  Anchored :: bool
  DirOnly :: bool

datatype filter_error =
    EmptySegment string
  | ReadFailed
  | LineTooLong
  | UnsupportedSyntax string
  | NestedMerge string string
  | MergeFailed string filter_error
  | FromFileFailed ruleKind string filter_error
  | UnsupportedKind ruleKind

section \<open>Matching\<close>

function matchSegments :: "string list \<Rightarrow> string list \<Rightarrow> bool" where
  "matchSegments [] pathSegs \<longleftrightarrow> pathSegs = []"
| "matchSegments (p # ps) pathSegs \<longleftrightarrow>
     (if p = ''**''
      then matchSegments ps pathSegs
           \<or> (case pathSegs of [] \<Rightarrow> False | _ # rest \<Rightarrow> matchSegments (p # ps) rest)
      else (case pathSegs of
              [] \<Rightarrow> False
            | s # rest \<Rightarrow> pathMatch p s = Some True \<and> matchSegments ps rest))"
  by pat_completeness auto
termination
  by (relation "measure (\<lambda>(ps, segs). length ps + length segs)") auto

text \<open>The loop over the depths at which an unanchored rule may start, from \<open>start\<close> on.\<close>

fun match_at_any_depth :: "string list \<Rightarrow> string list \<Rightarrow> bool" where
  "match_at_any_depth ps [] \<longleftrightarrow> matchSegments ps []"
| "match_at_any_depth ps (s # segs) \<longleftrightarrow> matchSegments ps (s # segs) \<or> match_at_any_depth ps segs"

definition rule_matches :: "rule \<Rightarrow> string \<Rightarrow> bool \<Rightarrow> bool" where
  "rule_matches r entryPath isDir =
     (if DirOnly r \<and> \<not> isDir then False
      else (let patternSegs = splitOn CHR ''/'' (Pattern r); pathSegs = splitOn CHR ''/'' entryPath
            in if Anchored r then matchSegments patternSegs pathSegs
               else match_at_any_depth patternSegs pathSegs))"

section \<open>Compiling\<close>

definition compilePattern :: "action \<Rightarrow> string \<Rightarrow> filter_error + rule" where
  "compilePattern act pattern0 =
     (let leadingSlash = hasPrefix pattern0 ''/'';
          pattern1 = (if leadingSlash then drop 1 pattern0 else pattern0);
          dirOnly = hasSuffix pattern1 ''/'';
          pattern = (if dirOnly then take (length pattern1 - 1) pattern1 else pattern1)
      in if [] \<in> set (splitOn CHR ''/'' pattern) then Fail (EmptySegment pattern)
         else Ok \<lparr>Action = act, Pattern = pattern,
                  Anchored = (leadingSlash \<or> containsStr pattern ''/'' \<or> containsStr pattern ''**''),
                  DirOnly = dirOnly\<rparr>)"

text \<open>\<open>bufio.Scanner\<close> over lines, in theory \<open>GoStrings\<close>: the lines before the first one that exceeds
  its buffer, and whether there was none.\<close>

definition readPatternFile :: "(string \<Rightarrow> string option) \<Rightarrow> string \<Rightarrow> filter_error + string list" where
  "readPatternFile read_file path =
     (case read_file path of
        None \<Rightarrow> Fail ReadFailed
      | Some content \<Rightarrow>
          (let (raw, ok) = scanLines content;
               patterns = filter (\<lambda>line. \<not> (line = [] \<or> hasPrefix line ''#'' \<or> hasPrefix line '';''))
                            (map trimSpace raw)
           in if ok then Ok patterns else Fail LineTooLong))"

datatype parsedFilterLine = MergeLine string | RuleLine rule

definition parseFilterLine :: "string \<Rightarrow> filter_error + parsedFilterLine" where
  "parseFilterLine line =
     (if hasPrefix line ''+ '' then map_sum id RuleLine (compilePattern Include (trimSpace (drop 2 line)))
      else if hasPrefix line ''- '' then map_sum id RuleLine (compilePattern Exclude (trimSpace (drop 2 line)))
      else if hasPrefix line ''include ''
      then map_sum id RuleLine (compilePattern Include (trimSpace (drop (length ''include '') line)))
      else if hasPrefix line ''exclude ''
      then map_sum id RuleLine (compilePattern Exclude (trimSpace (drop (length ''exclude '') line)))
      else if hasPrefix line ''merge '' then Ok (MergeLine (trimSpace (drop (length ''merge '') line)))
      else Fail (UnsupportedSyntax line))"

text \<open>The loop of \<open>expandMergeFile\<close> over the lines of the file \<open>path\<close>.\<close>

fun expand_lines :: "string \<Rightarrow> string list \<Rightarrow> filter_error + rule list" where
  "expand_lines path [] = Ok []"
| "expand_lines path (line # lines) =
     (case parseFilterLine line of
        Inl e \<Rightarrow> Fail e
      | Inr (MergeLine f) \<Rightarrow> Fail (NestedMerge line path)
      | Inr (RuleLine r) \<Rightarrow> res_bind (expand_lines path lines) (\<lambda>rs. Ok (r # rs)))"

definition expandMergeFile :: "(string \<Rightarrow> string option) \<Rightarrow> string \<Rightarrow> filter_error + rule list" where
  "expandMergeFile read_file path = res_bind (readPatternFile read_file path) (expand_lines path)"

text \<open>The body of the loop of \<open>CompileRules\<close>: the rules one raw rule appends.\<close>

definition compile_raw :: "(string \<Rightarrow> string option) \<Rightarrow> rawRule \<Rightarrow> filter_error + rule list" where
  "compile_raw read_file r =
     (if Kind r = RuleInclude then res_bind (compilePattern Include (raw_Pattern r)) (\<lambda>x. Ok [x])
      else if Kind r = RuleExclude then res_bind (compilePattern Exclude (raw_Pattern r)) (\<lambda>x. Ok [x])
      else if Kind r = RuleFilter
      then (case parseFilterLine (trimSpace (raw_Pattern r)) of
              Inl e \<Rightarrow> Fail e
            | Inr (RuleLine x) \<Rightarrow> Ok [x]
            | Inr (MergeLine f) \<Rightarrow> map_sum (MergeFailed f) id (expandMergeFile read_file f))
      else if Kind r = RuleExcludeFrom \<or> Kind r = RuleIncludeFrom
      then (let act = (if Kind r = RuleIncludeFrom then Include else Exclude)
            in map_sum (FromFileFailed (Kind r) (raw_Pattern r)) id
                 (res_bind (readPatternFile read_file (raw_Pattern r)) (map_res (compilePattern act))))
      else Fail (UnsupportedKind (Kind r)))"

fun CompileRules :: "(string \<Rightarrow> string option) \<Rightarrow> rawRule list \<Rightarrow> filter_error + rule list" where
  "CompileRules read_file [] = Ok []"
| "CompileRules read_file (r # raw) =
     res_bind (compile_raw read_file r)
       (\<lambda>rs. res_bind (CompileRules read_file raw) (\<lambda>rest. Ok (rs @ rest)))"

section \<open>Evaluating\<close>

fun Included :: "rule list \<Rightarrow> fileEntry \<Rightarrow> bool" where
  "Included [] entry \<longleftrightarrow> True"
| "Included (r # rules) entry \<longleftrightarrow>
     (if rule_matches r (fe_Path entry) (fe_IsDir entry) then Action r = Include
      else Included rules entry)"

fun FilterEntries :: "fileEntry list \<Rightarrow> rule list \<Rightarrow> fileEntry list" where
  "FilterEntries [] rules = []"
| "FilterEntries (e # entries) rules =
     (if Included rules e then e # FilterEntries entries rules else FilterEntries entries rules)"

section \<open>Segment lists\<close>

inductive seg_match :: "string list \<Rightarrow> string list \<Rightarrow> bool" where
  seg_nil: "seg_match [] []"
| seg_stars: "seg_match ps segs \<Longrightarrow> seg_match (''**'' # ps) (skipped @ segs)"
| seg_one: "p \<noteq> ''**'' \<Longrightarrow> pathMatch p s = Some True \<Longrightarrow> seg_match ps segs \<Longrightarrow> seg_match (p # ps) (s # segs)"

inductive_simps seg_match_Nil [simp]: "seg_match [] segs"
inductive_simps seg_match_Cons: "seg_match (p # ps) segs"

lemma seg_match_stars: "seg_match (''**'' # ps) segs \<longleftrightarrow> (\<exists>skipped rest. segs = skipped @ rest \<and> seg_match ps rest)"
  by (auto simp: seg_match_Cons)

lemma seg_match_one:
  "p \<noteq> ''**'' \<Longrightarrow> seg_match (p # ps) segs \<longleftrightarrow> (\<exists>s rest. segs = s # rest \<and> pathMatch p s = Some True \<and> seg_match ps rest)"
  by (simp add: seg_match_Cons)

lemma matchSegments_seg_match: "matchSegments ps segs \<longleftrightarrow> seg_match ps segs"
proof (induction ps segs rule: matchSegments.induct)
  case (2 p ps segs)
  show ?case
  proof (cases "p = ''**''")
    case True
    have "(\<exists>skipped rest. segs = skipped @ rest \<and> seg_match ps rest)
        \<longleftrightarrow> seg_match ps segs \<or> (\<exists>s tail. segs = s # tail \<and> (\<exists>skipped rest. tail = skipped @ rest \<and> seg_match ps rest))"
      by (metis append_Cons append_Nil list.exhaust)
    with True 2 show ?thesis
      by (auto simp: seg_match_stars split: list.splits)
  next
    case False
    with 2 show ?thesis by (auto simp: seg_match_one split: list.splits)
  qed
qed simp

lemma match_at_any_depth_conv:
  "match_at_any_depth ps segs \<longleftrightarrow> matchSegments (''**'' # ps) segs"
  by (induction segs) simp_all

lemma seg_match_length:
  "seg_match ps segs \<Longrightarrow> ''**'' \<notin> set ps \<Longrightarrow> length segs = length ps"
  by (induction rule: seg_match.induct) auto

lemma match_basename:
  "p \<noteq> ''**'' \<Longrightarrow> match_at_any_depth [p] segs \<longleftrightarrow> segs \<noteq> [] \<and> pathMatch p (last segs) = Some True"
proof (induction segs)
  case (Cons s segs)
  then show ?case by (cases segs) auto
qed simp

section \<open>Rules\<close>

lemma containsStr_one: "containsStr s [c] \<longleftrightarrow> c \<in> set s"
  by (auto simp: containsStr_conv in_set_conv_decomp)

text \<open>What a pattern on the command line means: its segments, and the two markers.\<close>

definition pattern_shape :: "string \<Rightarrow> bool \<Rightarrow> string list \<Rightarrow> bool \<Rightarrow> bool" where
  "pattern_shape pat lead segs dir \<longleftrightarrow>
     segs \<noteq> [] \<and> list_all (\<lambda>s. s \<noteq> [] \<and> CHR ''/'' \<notin> set s) segs \<and>
     pat = (if lead then ''/'' else []) @ joinWith CHR ''/'' segs @ (if dir then ''/'' else [])"

lemma joinWith_ends:
  assumes "segs \<noteq> []" and "list_all (\<lambda>s. s \<noteq> [] \<and> c \<notin> set s) segs"
  shows "joinWith c segs \<noteq> []" and "hd (joinWith c segs) \<noteq> c" and "last (joinWith c segs) \<noteq> c"
  using assms by (induction c segs rule: joinWith.induct) (auto simp: neq_Nil_conv split: if_splits)

lemma joinWith_sep: "list_all (\<lambda>s. c \<notin> set s) segs \<Longrightarrow> c \<in> set (joinWith c segs) \<longleftrightarrow> 1 < length segs"
  by (induction c segs rule: joinWith.induct) auto

lemma compilePattern_complete:
  assumes "pattern_shape pat lead segs dir"
  shows "compilePattern act pat = Ok \<lparr>Action = act, Pattern = joinWith CHR ''/'' segs,
           Anchored = (lead \<or> 1 < length segs \<or> containsStr (joinWith CHR ''/'' segs) ''**''), DirOnly = dir\<rparr>"
proof -
  let ?J = "joinWith CHR ''/'' segs"
  from assms have segs: "segs \<noteq> []" "list_all (\<lambda>s. s \<noteq> [] \<and> CHR ''/'' \<notin> set s) segs"
    and pat: "pat = (if lead then ''/'' else []) @ ?J @ (if dir then ''/'' else [])"
    by (auto simp: pattern_shape_def)
  note ends = joinWith_ends [OF segs]
  have lead: "hasPrefix pat ''/'' \<longleftrightarrow> lead"
    using ends by (cases ?J) (auto simp: pat hasPrefix_def)
  have p1: "(if lead then drop 1 pat else pat) = ?J @ (if dir then ''/'' else [])"
    by (simp add: pat)
  have dir: "hasSuffix (?J @ (if dir then ''/'' else [])) ''/'' \<longleftrightarrow> dir"
    using ends by (simp add: hasSuffix_one)
  have "splitOn CHR ''/'' ?J = segs"
    using segs by (intro splitOn_joinWith) (auto simp: list_all_iff)
  moreover have "containsStr ?J ''/'' \<longleftrightarrow> 1 < length segs"
    using segs by (subst containsStr_one, subst joinWith_sep) (auto simp: list_all_iff)
  ultimately show ?thesis
    using segs(2) unfolding compilePattern_def Let_def lead p1 dir
    by (auto simp: list_all_iff)
qed

lemma compilePattern_sound:
  assumes "compilePattern act pat = Ok r"
  shows "pattern_shape pat (hasPrefix pat ''/'') (splitOn CHR ''/'' (Pattern r)) (DirOnly r) \<and> Action r = act"
proof -
  define p1 where "p1 = (if hasPrefix pat ''/'' then drop 1 pat else pat)"
  from assms have r: "DirOnly r = hasSuffix p1 ''/''" "Action r = act"
      "Pattern r = (if hasSuffix p1 ''/'' then take (length p1 - 1) p1 else p1)"
    and ne: "[] \<notin> set (splitOn CHR ''/'' (Pattern r))"
    by (auto simp: compilePattern_def p1_def Let_def split: if_splits)
  have "pat = (if hasPrefix pat ''/'' then ''/'' else []) @ p1"
    by (auto simp: p1_def hasPrefix_conv)
  moreover have "p1 = Pattern r @ (if DirOnly r then ''/'' else [])"
    by (auto simp: r hasSuffix_conv)
  ultimately show ?thesis
    using ne r(2) splitOn_no_sep [of _ "CHR ''/''" "Pattern r"]
    by (auto simp: pattern_shape_def list_all_iff)
qed

lemma pattern_shape_unique:
  assumes "pattern_shape pat lead segs dir" and "pattern_shape pat lead' segs' dir'"
  shows "lead = lead' \<and> segs = segs' \<and> dir = dir'"
proof -
  from compilePattern_complete [OF assms(1), where act = Include]
    compilePattern_complete [OF assms(2), where act = Include]
  have J: "joinWith CHR ''/'' segs = joinWith CHR ''/'' segs'" "dir = dir'" by simp_all
  have "splitOn CHR ''/'' (joinWith CHR ''/'' ss) = ss"
    if "pattern_shape pat l ss d" for l ss d
    using that by (intro splitOn_joinWith) (auto simp: pattern_shape_def list_all_iff)
  with J assms have "segs = segs'" by metis
  moreover have "lead = lead'"
    using assms J \<open>segs = segs'\<close> by (auto simp: pattern_shape_def split: if_splits)
  ultimately show ?thesis using J by simp
qed

lemma unanchored_single:
  assumes "compilePattern act pat = Ok r" and "\<not> Anchored r"
  shows "splitOn CHR ''/'' (Pattern r) = [Pattern r] \<and> Pattern r \<noteq> ''**''"
proof -
  from assms have "\<not> containsStr (Pattern r) ''/''" and star: "\<not> containsStr (Pattern r) ''**''"
    by (auto simp: compilePattern_def Let_def split: if_splits)
  then have "CHR ''/'' \<notin> set (Pattern r)" by (simp add: containsStr_one)
  moreover from star have "Pattern r \<noteq> ''**''" by (auto simp: hasPrefix_def)
  ultimately show ?thesis by (simp add: splitOn_id)
qed

lemma last_split_suffix:
  "CHR ''/'' \<notin> set p \<Longrightarrow>
     (\<exists>t. last (splitOn CHR ''/'' s) = t @ p \<and> CHR ''/'' \<notin> set t) \<longleftrightarrow> hasSuffix s p"
proof (cases "CHR ''/'' \<in> set s")
  case True
  assume p: "CHR ''/'' \<notin> set p"
  from True obtain a b where s: "s = a @ CHR ''/'' # b" and b: "CHR ''/'' \<notin> set b"
    by (metis split_list_last)
  then have "last (splitOn CHR ''/'' s) = b"
    by (simp add: splitOn_snoc splitOn_id)
  moreover have "(\<exists>t. b = t @ p) \<longleftrightarrow> (\<exists>u. a @ CHR ''/'' # b = u @ p)"
  proof
    assume "\<exists>u. a @ CHR ''/'' # b = u @ p"
    then show "\<exists>t. b = t @ p"
      using p by (auto simp: append_eq_append_conv2 Cons_eq_append_conv)
  qed auto
  ultimately show ?thesis using b by (auto simp: s hasSuffix_conv)
next
  case False
  then show ?thesis by (auto simp: splitOn_id hasSuffix_conv)
qed

lemma rule_matches_unanchored:
  assumes "compilePattern act pat = Ok r" and "\<not> Anchored r"
  shows "rule_matches r path isDir \<longleftrightarrow>
    (DirOnly r \<longrightarrow> isDir) \<and> pathMatch (Pattern r) (last (splitOn CHR ''/'' path)) = Some True"
  using unanchored_single [OF assms] assms(2) by (simp add: rule_matches_def match_basename)

section \<open>Compiling lists\<close>

lemma CompileRules_append:
  "CompileRules rf (xs @ ys) =
     res_bind (CompileRules rf xs) (\<lambda>rs. res_bind (CompileRules rf ys) (\<lambda>ss. Ok (rs @ ss)))"
  by (induction xs) (auto simp: res_bind_def split: sum.splits)

lemma CompileRules_single: "CompileRules rf [r] = compile_raw rf r"
  by (simp add: res_bind_def split: sum.split)

lemma CompileRules_map:
  "(\<And>p. p \<in> set ps \<Longrightarrow> compile_raw rf (g p) = res_bind (h p) (\<lambda>x. Ok [x])) \<Longrightarrow>
     CompileRules rf (map g ps) = map_res h ps"
  by (induction ps) (auto simp: res_bind_def split: sum.splits)

lemma CompileRules_replace:
  assumes "\<And>rs. CompileRules rf us = Ok rs \<longleftrightarrow> CompileRules rf vs = Ok rs"
  shows "CompileRules rf (xs @ us @ ys) = Ok rs \<longleftrightarrow> CompileRules rf (xs @ vs @ ys) = Ok rs"
  using assms by (auto simp: CompileRules_append res_bind_Ok_conv)

lemma leading_space_0: "leading_space s = 0 \<longleftrightarrow> (\<forall>e \<in> set space_encodings. \<not> hasPrefix s e)"
proof -
  have "e \<in> set space_encodings \<Longrightarrow> length e \<noteq> 0" for e by (auto simp: space_encodings_def)
  then show ?thesis
    by (auto simp: leading_space_def find_None_iff find_Some_iff split: option.split)
qed

lemma leading_space_trimRight: "leading_space s = 0 \<Longrightarrow> leading_space (trimRightSpace s) = 0"
proof (induction s rule: trimRightSpace.induct)
  case (1 s)
  have pre: "leading_space (take n s) = 0" for n
    using "1.prems" unfolding leading_space_0 hasPrefix_conv
    by (metis append.assoc append_take_drop_id)
  show ?case
  proof (cases "trailing_space s = 0")
    case True
    with "1.prems" show ?thesis by (subst trimRightSpace.simps) simp
  next
    case False
    with "1.IH" pre show ?thesis by (subst trimRightSpace.simps) simp
  qed
qed

lemma trimSpace_idem [simp]: "trimSpace (trimSpace s) = trimSpace s"
  by (rule trimSpace_id) (simp_all add: trimSpace_def leading_space_trimRight)

lemma readPatternFile_trimmed:
  "readPatternFile rf f = Ok ps \<Longrightarrow> p \<in> set ps \<Longrightarrow> trimSpace p = p"
  by (auto simp: readPatternFile_def Let_def split: option.splits prod.splits if_splits)

lemma expand_lines_conv:
  assumes "\<And>l. l \<in> set lines \<Longrightarrow> trimSpace l = l \<and> \<not> hasPrefix l ''merge ''"
  shows "expand_lines path lines =
    CompileRules rf (map (\<lambda>l. \<lparr>Kind = RuleFilter, raw_Pattern = l\<rparr>) lines)"
  using assms
proof (induction lines)
  case (Cons l lines)
  have "\<not> (\<exists>f. parseFilterLine l = Ok (MergeLine f))"
    using Cons.prems by (auto simp: parseFilterLine_def map_sum_def split: sum.splits)
  with Cons show ?case
    by (auto simp: compile_raw_def rule_kinds res_bind_def split: sum.splits parsedFilterLine.splits)
qed simp

section \<open>Properties\<close>

lemma seg_match_parts:
  "seg_match pat path \<longleftrightarrow>
     (\<exists>parts. concat parts = path \<and>
        list_all2 (\<lambda>seg part. seg = ''**'' \<or> (\<exists>x. part = [x] \<and> pathMatch seg x = Some True)) pat parts)"
    (is "_ \<longleftrightarrow> (\<exists>parts. concat parts = path \<and> list_all2 ?fits pat parts)")
proof
  show "seg_match pat path \<Longrightarrow> \<exists>parts. concat parts = path \<and> list_all2 ?fits pat parts"
  proof (induction rule: seg_match.induct)
    case seg_nil
    show ?case by (rule exI [of _ "[]"]) simp
  next
    case (seg_stars ps segs skipped)
    then obtain parts where "concat parts = segs" "list_all2 ?fits ps parts" by blast
    then show ?case by (intro exI [of _ "skipped # parts"]) simp
  next
    case (seg_one p s ps segs)
    then obtain parts where "concat parts = segs" "list_all2 ?fits ps parts" by blast
    with seg_one.hyps(2) show ?case by (intro exI [of _ "[s] # parts"]) simp
  qed
next
  have "list_all2 ?fits pat parts \<Longrightarrow> seg_match pat (concat parts)" for parts
  proof (induction pat parts rule: list_all2_induct)
    case (Cons seg pat part parts)
    show ?case
    proof (cases "seg = ''**''")
      case True
      with Cons.IH show ?thesis by (auto simp: seg_match_stars)
    next
      case False
      with Cons show ?thesis by (auto simp: seg_match_one)
    qed
  qed simp
  then show "\<exists>parts. concat parts = path \<and> list_all2 ?fits pat parts \<Longrightarrow> seg_match pat path" by blast
qed

text \<open>
  C37. What a rule matches. A compiled rule matches a path exactly when it is not restricted to directories or
  the entry is one, and the path, as far as it is left when leading segments are skipped, which only an
  unanchored rule may do, divides into one part for each segment of the pattern: any number of path segments,
  zero included, for a segment that is exactly \<open>**\<close>, and for every other one a single segment that
  \<open>path.Match\<close> accepts. A segment that merely contains \<open>**\<close>, such as \<open>a**z\<close>, is an ordinary \<open>path.Match\<close>
  pattern here and does not cross a slash, unlike what the README says.
\<close>

theorem rule_matches_spec:
  "rule_matches r entryPath isDir \<longleftrightarrow>
     (DirOnly r \<longrightarrow> isDir) \<and>
     (\<exists>skipped parts. (Anchored r \<longrightarrow> skipped = []) \<and> splitOn CHR ''/'' entryPath = skipped @ concat parts \<and>
        list_all2 (\<lambda>seg part. seg = ''**'' \<or> (\<exists>x. part = [x] \<and> pathMatch seg x = Some True))
          (splitOn CHR ''/'' (Pattern r)) parts)"
proof -
  let ?ps = "splitOn CHR ''/'' (Pattern r)" and ?segs = "splitOn CHR ''/'' entryPath"
  have "rule_matches r entryPath isDir \<longleftrightarrow> (DirOnly r \<longrightarrow> isDir) \<and>
      (if Anchored r then seg_match ?ps ?segs else seg_match (''**'' # ?ps) ?segs)"
    by (simp add: rule_matches_def Let_def match_at_any_depth_conv matchSegments_seg_match del: matchSegments.simps)
  also have "\<dots> \<longleftrightarrow> (DirOnly r \<longrightarrow> isDir) \<and>
      (\<exists>skipped rest. (Anchored r \<longrightarrow> skipped = []) \<and> ?segs = skipped @ rest \<and> seg_match ?ps rest)"
    by (auto simp: seg_match_stars)
  finally show ?thesis unfolding seg_match_parts by blast
qed

theorem rule_matches_spec_witness:
  "\<exists>r. compilePattern Exclude ''/a/**/*.o'' = Ok r \<and> rule_matches r ''a/x/y/b.o'' False \<and> \<not> rule_matches r ''c/a/b.o'' False \<and>
     (\<exists>skipped parts. (Anchored r \<longrightarrow> skipped = []) \<and> splitOn CHR ''/'' ''a/x/y/b.o'' = skipped @ concat parts \<and>
        list_all2 (\<lambda>seg part. seg = ''**'' \<or> (\<exists>x. part = [x] \<and> pathMatch seg x = Some True))
          (splitOn CHR ''/'' (Pattern r)) parts)"
proof -
  have "case compilePattern Exclude ''/a/**/*.o'' of Inl e \<Rightarrow> False
      | Inr r \<Rightarrow> rule_matches r ''a/x/y/b.o'' False \<and> \<not> rule_matches r ''c/a/b.o'' False"
    by code_simp
  moreover obtain c where c: "compilePattern Exclude ''/a/**/*.o'' = c" by blast
  ultimately obtain r where r: "c = Ok r" "rule_matches r ''a/x/y/b.o'' False" "\<not> rule_matches r ''c/a/b.o'' False"
    by (cases c; simp only: sum.case; blast)
  show ?thesis
    by (rule exI [of _ r]) (use c r rule_matches_spec [THEN iffD1, OF r(2)] in \<open>simp only: simp_thms\<close>)
qed

text \<open>
  Compiling accepts a pattern exactly when it is a nonempty list of nonempty segments with an
  optional slash at either end, and the rule then has those segments, is restricted to
  directories exactly for a final slash, and is anchored exactly for a leading slash, a second
  segment or a double star.
\<close>

theorem compilePattern_iff:
  "compilePattern act pat = Ok r \<longleftrightarrow>
     (\<exists>lead segs. pattern_shape pat lead segs (DirOnly r) \<and> Action r = act \<and>
        Pattern r = joinWith CHR ''/'' segs \<and>
        (Anchored r \<longleftrightarrow> lead \<or> 1 < length segs \<or> containsStr (joinWith CHR ''/'' segs) ''**''))"
  (is "?L \<longleftrightarrow> ?R")
proof
  assume L: ?L
  note sound = compilePattern_sound [OF L]
  have "(Ok r :: filter_error + rule) = Ok \<lparr>Action = act,
      Pattern = joinWith CHR ''/'' (splitOn CHR ''/'' (Pattern r)),
      Anchored = (hasPrefix pat ''/'' \<or> 1 < length (splitOn CHR ''/'' (Pattern r)) \<or>
        containsStr (joinWith CHR ''/'' (splitOn CHR ''/'' (Pattern r))) ''**''), DirOnly = DirOnly r\<rparr>"
    unfolding L [symmetric] using sound by (intro compilePattern_complete) simp
  then have "Anchored r \<longleftrightarrow> hasPrefix pat ''/'' \<or> 1 < length (splitOn CHR ''/'' (Pattern r)) \<or>
      containsStr (joinWith CHR ''/'' (splitOn CHR ''/'' (Pattern r))) ''**''"
    by (simp only: sum.inject) (metis rule.select_convs(3))
  with sound show ?R by (metis joinWith_splitOn)
next
  assume ?R
  then obtain lead segs where shape: "pattern_shape pat lead segs (DirOnly r)"
    and r: "Action r = act" "Pattern r = joinWith CHR ''/'' segs"
      "Anchored r \<longleftrightarrow> lead \<or> 1 < length segs \<or> containsStr (joinWith CHR ''/'' segs) ''**''"
    by blast
  have "\<lparr>Action = act, Pattern = joinWith CHR ''/'' segs,
      Anchored = (lead \<or> 1 < length segs \<or> containsStr (joinWith CHR ''/'' segs) ''**''),
      DirOnly = DirOnly r\<rparr> = r"
    using r by (intro rule.equality) simp_all
  with compilePattern_complete [OF shape, of act] show ?L by simp
qed

text \<open>
  The common rule \<open>*.ext\<close>: a star followed by literal text compiles, and the rule matches
  exactly the entries, at any depth, whose path ends with that text.
\<close>

theorem star_suffix_rule:
  assumes "literal_pattern lit" and "CHR ''/'' \<notin> set lit"
  shows "\<exists>r. compilePattern act (CHR ''*'' # lit) = Ok r \<and>
    (\<lambda>path isDir. rule_matches r path isDir) = (\<lambda>path isDir. hasSuffix path lit)"
proof -
  have "pattern_shape (CHR ''*'' # lit) False [CHR ''*'' # lit] False"
    using assms(2) by (simp add: pattern_shape_def)
  note compiled = compilePattern_complete [OF this, of act]
  have "\<not> containsStr lit ''**''" and "\<not> hasPrefix lit ''*''"
    using assms(1) by (auto simp: containsStr_conv hasPrefix_conv literal_pattern_def)
  then have "\<not> containsStr (CHR ''*'' # lit) ''**''"
    by (auto simp: hasPrefix_conv)
  with compiled rule_matches_unanchored [OF compiled] show ?thesis
    using assms by (auto simp: pathMatch_star last_split_suffix fun_eq_iff)
qed

theorem star_suffix_rule_witness:
  "\<exists>r. compilePattern Exclude (CHR ''*'' # ''.log'') = Ok r \<and>
    (\<lambda>path isDir. rule_matches r path isDir) = (\<lambda>path isDir. hasSuffix path ''.log'')"
  by (rule star_suffix_rule) simp_all

text \<open>
  A rule that is not anchored matches at any depth: it is the anchored rule with \<open>**/\<close> in front.
\<close>

theorem unanchored_any_depth:
  assumes "\<not> Anchored r"
  shows "rule_matches r path isDir \<longleftrightarrow>
    rule_matches (r\<lparr>Pattern := ''**/'' @ Pattern r, Anchored := True\<rparr>) path isDir"
proof -
  have "splitOn CHR ''/'' (''**/'' @ Pattern r) = ''**'' # splitOn CHR ''/'' (Pattern r)"
    using splitOn_append [of "CHR ''/''" "''**''" "Pattern r"] by simp
  with assms show ?thesis by (simp add: rule_matches_def match_at_any_depth_conv Let_def)
qed

theorem unanchored_any_depth_witness:
  "rule_matches \<lparr>Action = Exclude, Pattern = ''o'', Anchored = False, DirOnly = False\<rparr> ''a/o'' False \<longleftrightarrow>
   rule_matches (\<lparr>Action = Exclude, Pattern = ''o'', Anchored = False, DirOnly = False\<rparr>
     \<lparr>Pattern := ''**/'' @ Pattern \<lparr>Action = Exclude, Pattern = ''o'', Anchored = False, DirOnly = False\<rparr>,
      Anchored := True\<rparr>) ''a/o'' False"
  by (rule unanchored_any_depth) simp

text \<open>
  Only a whole segment \<open>**\<close> crosses a slash: an anchored rule without such a segment matches
  only paths with as many segments as the pattern has. A double star inside a longer segment, as
  in \<open>a**z\<close>, anchors the rule and then matches within one segment only.
\<close>

theorem double_star_within_segment:
  assumes "Anchored r" and "''**'' \<notin> set (splitOn CHR ''/'' (Pattern r))"
    and "rule_matches r path isDir"
  shows "length (splitOn CHR ''/'' path) = length (splitOn CHR ''/'' (Pattern r))"
proof -
  from assms(1,3) have "seg_match (splitOn CHR ''/'' (Pattern r)) (splitOn CHR ''/'' path)"
    by (simp add: rule_matches_def matchSegments_seg_match split: if_splits)
  then show ?thesis using assms(2) by (rule seg_match_length)
qed

theorem double_star_within_segment_witness:
  "length (splitOn CHR ''/'' ''ab'') = length (splitOn CHR ''/''
     (Pattern \<lparr>Action = Exclude, Pattern = ''a**'', Anchored = True, DirOnly = False\<rparr>))"
  by (rule double_star_within_segment [where isDir = False]) code_simp+

text \<open>
  C38. First match wins, in order: filtering keeps exactly the entries whose first matching rule is
  an include rule or that no rule matches, and keeps them in their order.
\<close>

theorem FilterEntries_first_match:
  "FilterEntries entries rules =
     filter (\<lambda>e. case find (\<lambda>r. rule_matches r (fe_Path e) (fe_IsDir e)) rules of
                   None \<Rightarrow> True | Some r \<Rightarrow> Action r = Include) entries"
proof -
  have "Included rules e \<longleftrightarrow> (case find (\<lambda>r. rule_matches r (fe_Path e) (fe_IsDir e)) rules of
      None \<Rightarrow> True | Some r \<Rightarrow> Action r = Include)" for e
    by (induction rules) auto
  then show ?thesis by (induction entries) auto
qed

text \<open>
  From-file expansion is in place: an \<open>--exclude-from\<close> flag compiles to the same rules, at the
  same position of the command line, as one \<open>--exclude\<close> flag for every pattern line of the file.
\<close>

theorem exclude_from_inlined:
  assumes "readPatternFile rf f = Ok ps"
  shows "CompileRules rf (xs @ [\<lparr>Kind = RuleExcludeFrom, raw_Pattern = f\<rparr>] @ ys) = Ok rs \<longleftrightarrow>
    CompileRules rf (xs @ map (\<lambda>p. \<lparr>Kind = RuleExclude, raw_Pattern = p\<rparr>) ps @ ys) = Ok rs"
proof (rule CompileRules_replace)
  fix rs
  have "CompileRules rf (map (\<lambda>p. \<lparr>Kind = RuleExclude, raw_Pattern = p\<rparr>) ps)
      = map_res (compilePattern Exclude) ps"
    by (rule CompileRules_map) (simp add: compile_raw_def rule_kinds)
  then show "CompileRules rf [\<lparr>Kind = RuleExcludeFrom, raw_Pattern = f\<rparr>] = Ok rs \<longleftrightarrow>
      CompileRules rf (map (\<lambda>p. \<lparr>Kind = RuleExclude, raw_Pattern = p\<rparr>) ps) = Ok rs"
    unfolding CompileRules_single using assms
    by (simp add: compile_raw_def rule_kinds map_sum_Ok)
qed

theorem exclude_from_inlined_witness:
  "CompileRules (\<lambda>_. Some ''a'') ([] @ [\<lparr>Kind = RuleExcludeFrom, raw_Pattern = ''f''\<rparr>] @ [])
     = Ok [\<lparr>Action = Exclude, Pattern = ''a'', Anchored = False, DirOnly = False\<rparr>] \<longleftrightarrow>
   CompileRules (\<lambda>_. Some ''a'') ([] @ map (\<lambda>p. \<lparr>Kind = RuleExclude, raw_Pattern = p\<rparr>) [''a''] @ [])
     = Ok [\<lparr>Action = Exclude, Pattern = ''a'', Anchored = False, DirOnly = False\<rparr>]"
  by (rule exclude_from_inlined) (simp add: readPatternFile_def scan_lines_simps hasPrefix_def)

text \<open>
  C39. Merging is in place: a \<open>merge FILE\<close> rule compiles to the same rules, at the same position, as
  one \<open>--filter\<close> flag for every line of the file, when no line is itself a merge.
\<close>

theorem merge_inlined:
  assumes "parseFilterLine (trimSpace line) = Ok (MergeLine f)"
    and "readPatternFile rf f = Ok ls" and "list_all (\<lambda>l. \<not> hasPrefix l ''merge '') ls"
  shows "CompileRules rf (xs @ [\<lparr>Kind = RuleFilter, raw_Pattern = line\<rparr>] @ ys) = Ok rs \<longleftrightarrow>
    CompileRules rf (xs @ map (\<lambda>l. \<lparr>Kind = RuleFilter, raw_Pattern = l\<rparr>) ls @ ys) = Ok rs"
proof (rule CompileRules_replace)
  fix rs
  have "expand_lines f ls = CompileRules rf (map (\<lambda>l. \<lparr>Kind = RuleFilter, raw_Pattern = l\<rparr>) ls)"
    using assms(3) readPatternFile_trimmed [OF assms(2)]
    by (intro expand_lines_conv) (auto simp: list_all_iff)
  then show "CompileRules rf [\<lparr>Kind = RuleFilter, raw_Pattern = line\<rparr>] = Ok rs \<longleftrightarrow>
      CompileRules rf (map (\<lambda>l. \<lparr>Kind = RuleFilter, raw_Pattern = l\<rparr>) ls) = Ok rs"
    unfolding CompileRules_single using assms(1,2)
    by (simp add: compile_raw_def rule_kinds expandMergeFile_def map_sum_Ok)
qed

theorem merge_inlined_witness:
  "CompileRules (\<lambda>_. Some ''- a'') ([] @ [\<lparr>Kind = RuleFilter, raw_Pattern = ''merge f''\<rparr>] @ [])
     = Ok [\<lparr>Action = Exclude, Pattern = ''a'', Anchored = False, DirOnly = False\<rparr>] \<longleftrightarrow>
   CompileRules (\<lambda>_. Some ''- a'') ([] @ map (\<lambda>l. \<lparr>Kind = RuleFilter, raw_Pattern = l\<rparr>) [''- a''] @ [])
     = Ok [\<lparr>Action = Exclude, Pattern = ''a'', Anchored = False, DirOnly = False\<rparr>]"
  by (rule merge_inlined [where f = "''f''" and ls = "[''- a'']"])
    (simp_all add: readPatternFile_def parseFilterLine_def scan_lines_simps hasPrefix_def)

text \<open>
  A malformed pattern is compiled, not refused: the unterminated class \<open>[\<close> becomes an exclude
  rule that matches no entry at all.
\<close>

theorem malformed_pattern_never_matches:
  "compilePattern Exclude ''['' =
     Ok \<lparr>Action = Exclude, Pattern = ''['', Anchored = False, DirOnly = False\<rparr> \<and>
   \<not> rule_matches \<lparr>Action = Exclude, Pattern = ''['', Anchored = False, DirOnly = False\<rparr> path isDir"
proof -
  have compiled: "compilePattern Exclude ''['' =
      Ok \<lparr>Action = Exclude, Pattern = ''['', Anchored = False, DirOnly = False\<rparr>"
    by code_simp
  have "match_ranges r False False [] = None" for r
    by (subst match_ranges.simps) (simp add: getEsc_def)
  then have "matchChunk ''['' s False = BadPattern" for s
    by (subst matchChunk.simps) simp
  moreover have "scanChunk ''['' = (False, ''['', [])" by code_simp
  ultimately have "pathMatch ''['' s = None" for s
    by (subst pathMatch.simps) (simp add: match_round_def)
  with compiled rule_matches_unanchored [OF compiled] show ?thesis by simp
qed

end
