(* ===== verification/Compress.thy ===== *)
theory Compress
  imports GoStrings
begin

text \<open>
  \<open>internal/pipeline/compress.go\<close>: the options of \<open>--compress\<close> and the compression of a file's
  literal data. zlib (\<open>compress/zlib\<close>) is a pair of parameters: \<open>deflate\<close> gives \<open>None\<close> when the
  writer reports an error, \<open>inflate\<close> when the reader does. What the code relies on is \<open>zlib_ok\<close>.
\<close>

section \<open>Options\<close>

definition DefaultCompressLevel :: int where
  "DefaultCompressLevel = 6"

definition ClampCompressLevel :: "int \<Rightarrow> int" where
  "ClampCompressLevel level =
     (if level = 0 then 0
      else if level = - 1 then DefaultCompressLevel
      else if level < 1 then 1
      else if level > 9 then 9
      else level)"

record compressOptions =
  co_Enabled :: bool
  co_Level :: int
  co_SkipSuffixes :: "string list"

definition DefaultSkipCompressSuffixes :: "string list" where
  "DefaultSkipCompressSuffixes = [
    ''3g2'', ''3gp'', ''7z'', ''aac'', ''ace'', ''apk'', ''avi'', ''bz2'', ''deb'', ''dmg'',
    ''ear'', ''f4v'', ''flac'', ''flv'', ''gpg'', ''gz'', ''iso'', ''jar'', ''jpeg'', ''jpg'',
    ''lrz'', ''lz'', ''lz4'', ''lzma'', ''lzo'', ''m1a'', ''m1v'', ''m2a'', ''m2ts'', ''m2v'',
    ''m4a'', ''m4b'', ''m4p'', ''m4r'', ''m4v'', ''mka'', ''mkv'', ''mov'', ''mp1'', ''mp2'',
    ''mp3'', ''mp4'', ''mpa'', ''mpeg'', ''mpg'', ''mpv'', ''mts'', ''odb'', ''odf'', ''odg'',
    ''odi'', ''odm'', ''odp'', ''ods'', ''odt'', ''oga'', ''ogg'', ''ogm'', ''ogv'', ''ogx'',
    ''opus'', ''otg'', ''oth'', ''otp'', ''ots'', ''ott'', ''oxt'', ''png'', ''qt'', ''rar'',
    ''rpm'', ''rz'', ''rzip'', ''spx'', ''squashfs'', ''sxc'', ''sxd'', ''sxg'', ''sxm'',
    ''sxw'', ''sz'', ''tbz'', ''tbz2'', ''tgz'', ''tlz'', ''ts'', ''txz'', ''tzo'', ''vob'',
    ''war'', ''webm'', ''webp'', ''xz'', ''z'', ''zip'', ''zst'']"

definition ParseSkipCompressList :: "string \<Rightarrow> string list" where
  "ParseSkipCompressList list =
     (if list = [] then [] else map toLower (filter (\<lambda>p. p \<noteq> []) (splitOn CHR ''/'' list)))"

text \<open>\<open>filepath.Ext\<close>: the scan from the last byte down to a dot or a slash.\<close>

fun ext_scan :: "string \<Rightarrow> string \<Rightarrow> string" where
  "ext_scan [] acc = []"
| "ext_scan (c # cs) acc =
     (if c = CHR ''/'' then [] else if c = CHR ''.'' then c # acc else ext_scan cs (c # acc))"

definition filepathExt :: "string \<Rightarrow> string" where
  "filepathExt path = ext_scan (rev path) []"

definition skipCompressSuffix :: "string \<Rightarrow> string list \<Rightarrow> bool" where
  "skipCompressSuffix path skipSuffixes =
     (let ext = filepathExt path
      in if ext = [] then False
         else (let suffix = toLower (trimPrefix ext ''.'')
               in list_ex (\<lambda>s. s = suffix) skipSuffixes))"

section \<open>Literal data\<close>

type_synonym deflate = "int \<Rightarrow> bytes \<Rightarrow> bytes option"
type_synonym inflate = "bytes \<Rightarrow> bytes option"

definition compressLiteral :: "deflate \<Rightarrow> bytes \<Rightarrow> int \<Rightarrow> bytes option" where
  "compressLiteral deflate data level =
     (case deflate level data of
        None \<Rightarrow> None
      | Some buf \<Rightarrow> (if length buf \<ge> length data then None else Some buf))"

text \<open>The documented behaviour of zlib: what was compressed decompresses to the same bytes.\<close>

definition zlib_ok :: "deflate \<Rightarrow> inflate \<Rightarrow> bool" where
  "zlib_ok deflate inflate \<longleftrightarrow> (\<forall>level data buf. deflate level data = Some buf \<longrightarrow> inflate buf = Some data)"

lemma compressLiteral_Some:
  "compressLiteral deflate data level = Some buf \<Longrightarrow>
     deflate level data = Some buf \<and> length buf < length data"
  by (auto simp: compressLiteral_def split: option.splits if_splits)

lemma zlib_okD: "zlib_ok deflate inflate \<Longrightarrow> deflate level data = Some buf \<Longrightarrow> inflate buf = Some data"
  by (simp add: zlib_ok_def)

lemma toLower_Cons [simp]: "toLower (c # s) = lower_char c # toLower s" "toLower [] = []"
  by (simp_all add: toLower_def)

lemma ext_scan_suffix:
  "CHR ''/'' \<notin> set suf \<Longrightarrow> CHR ''.'' \<notin> set suf \<Longrightarrow>
     ext_scan (rev suf @ CHR ''.'' # r) acc = CHR ''.'' # suf @ acc"
  by (induction suf arbitrary: acc rule: rev_induct) auto

lemma filepathExt_conv:
  "CHR ''/'' \<notin> set suf \<Longrightarrow> CHR ''.'' \<notin> set suf \<Longrightarrow>
     filepathExt (stem @ CHR ''.'' # suf) = CHR ''.'' # suf"
  by (simp add: filepathExt_def ext_scan_suffix)

section \<open>Properties\<close>

text \<open>
  Compression levels: clamping always gives 0 or a valid zlib level, keeps every valid level,
  and clamping again changes nothing; only 0 switches compression off.
\<close>

theorem clamp_level:
  "0 \<le> ClampCompressLevel n \<and> ClampCompressLevel n \<le> 9 \<and>
   ClampCompressLevel (ClampCompressLevel n) = ClampCompressLevel n \<and>
   (ClampCompressLevel n = n \<longleftrightarrow> 0 \<le> n \<and> n \<le> 9) \<and> (ClampCompressLevel n = 0 \<longleftrightarrow> n = 0)"
  by (simp add: ClampCompressLevel_def DefaultCompressLevel_def)

text \<open>
  Skipping by suffix is case-insensitive on both sides: a file with the extension \<open>suf\<close> is sent
  uncompressed under \<open>--skip-compress=LIST\<close> exactly when one of the slash-separated items of the
  list is that suffix in some capitalisation.
\<close>

theorem skip_compress_list:
  assumes "CHR ''/'' \<notin> set suf" and "CHR ''.'' \<notin> set suf" and "suf \<noteq> []"
  shows "skipCompressSuffix (stem @ ''.'' @ suf) (ParseSkipCompressList list) \<longleftrightarrow>
    toLower suf \<in> toLower ` set (splitOn CHR ''/'' list)"
proof -
  have "trimPrefix (CHR ''.'' # suf) ''.'' = suf"
    using trimPrefix_append [of "''.''" suf] by simp
  moreover have "toLower suf \<noteq> []" using assms(3) by (simp add: toLower_def)
  ultimately show ?thesis
    using filepathExt_conv [OF assms(1,2), of stem]
    by (auto simp: skipCompressSuffix_def ParseSkipCompressList_def list_ex_iff)
qed

theorem skip_compress_list_witness:
  "skipCompressSuffix (''a/b'' @ ''.'' @ ''GZ'') (ParseSkipCompressList ''xz/Gz'') \<longleftrightarrow>
    toLower ''GZ'' \<in> toLower ` set (splitOn CHR ''/'' ''xz/Gz'')"
  by (rule skip_compress_list) simp_all

end
