(* ===== verification/Itemize.thy ===== *)
theory Itemize
  imports Entry
begin

unbundle bit_operations_syntax

text \<open>
  \<open>internal/pipeline/itemize.go\<close>: the receiver's options, the eleven-character change codes of
  \<open>--itemize-changes\<close> and the lines reported for an entry. \<open>ropts.Output\<close> is the list of the lines
  written to it, kept in the receiver's state.
\<close>

section \<open>Options\<close>

record receiverOptions =
  ro_DryRun :: bool
  ro_Itemize :: bool
  ro_Verbose :: bool
  ro_Progress :: bool
  ro_Stats :: bool
  ro_Partial :: bool
  ro_PartialDir :: string
  ro_Append :: bool
  ro_AppendVerify :: bool

definition AppendMode :: "receiverOptions \<Rightarrow> bool" where
  "AppendMode o' \<longleftrightarrow> ro_Append o' \<or> ro_AppendVerify o'"

definition KeepPartial :: "receiverOptions \<Rightarrow> bool" where
  "KeepPartial o' \<longleftrightarrow> ro_Partial o' \<or> ro_PartialDir o' \<noteq> []"

definition Reporting :: "receiverOptions \<Rightarrow> bool" where
  "Reporting o' \<longleftrightarrow> ro_Itemize o' \<or> ro_Verbose o' \<or> ro_Progress o' \<or> ro_Stats o'"

section \<open>Codes\<close>

type_synonym itemizeAttrs = string

definition newItemizeAttrs :: itemizeAttrs where
  "newItemizeAttrs = replicate 9 CHR ''.''"

definition attrs_changed :: "itemizeAttrs \<Rightarrow> bool" where
  "attrs_changed a = list_ex (\<lambda>c. c \<noteq> CHR ''.'') a"

definition itemizeNewSuffix :: string where
  "itemizeNewSuffix = ''+++++++++''"

definition mark :: "bool \<Rightarrow> nat \<Rightarrow> char \<Rightarrow> itemizeAttrs \<Rightarrow> itemizeAttrs" where
  "mark b i c a = (if b then a[i := c] else a)"

definition owner_differs :: "fileEntry \<Rightarrow> fileEntry \<Rightarrow> attrOptions \<Rightarrow> bool" where
  "owner_differs entry old opts \<longleftrightarrow>
     ao_Owner opts \<and> fe_OwnershipAvailable old \<and> fe_OwnershipAvailable entry \<and> fe_UID old \<noteq> fe_UID entry"

definition group_differs :: "fileEntry \<Rightarrow> fileEntry \<Rightarrow> attrOptions \<Rightarrow> bool" where
  "group_differs entry old opts \<longleftrightarrow>
     ao_Group opts \<and> fe_OwnershipAvailable old \<and> fe_OwnershipAvailable entry \<and> fe_GID old \<noteq> fe_GID entry"

definition times_differ :: "fileEntry \<Rightarrow> fileEntry \<Rightarrow> attrOptions \<Rightarrow> bool" where
  "times_differ entry old opts \<longleftrightarrow> ao_Times opts \<and> fe_ModTime old \<noteq> fe_ModTime entry"

definition perms_differ :: "fileEntry \<Rightarrow> fileEntry \<Rightarrow> attrOptions \<Rightarrow> bool" where
  "perms_differ entry old opts \<longleftrightarrow> ao_Perms opts \<and> Perm (fe_Mode old) \<noteq> Perm (fe_Mode entry)"

text \<open>\<open>None\<close> stands for the result \<open>"", false\<close>: nothing to report.\<close>

definition itemizeFile ::
  "fileEntry \<Rightarrow> fileEntry \<Rightarrow> bool \<Rightarrow> bool \<Rightarrow> attrOptions \<Rightarrow> string option" where
  "itemizeFile entry old existed contentChanged opts =
     (if \<not> existed then Some (''>f'' @ itemizeNewSuffix)
      else let a1 = mark (fe_Size old \<noteq> fe_Size entry) 1 CHR ''s'' newItemizeAttrs;
               a2 = mark (times_differ entry old opts) 2 CHR ''t'' a1;
               a3 = mark (perms_differ entry old opts) 3 CHR ''p'' a2;
               a4 = mark (owner_differs entry old opts) 4 CHR ''o'' a3;
               a = mark (group_differs entry old opts) 5 CHR ''g'' a4
           in if \<not> attrs_changed a \<and> \<not> contentChanged then None
              else Some ((if contentChanged then CHR ''>'' else CHR ''.'') # ''f'' @ a))"

definition itemizeDir :: "fileEntry \<Rightarrow> fileEntry \<Rightarrow> bool \<Rightarrow> attrOptions \<Rightarrow> string option" where
  "itemizeDir entry old existed opts =
     (if \<not> existed then Some (''cd'' @ itemizeNewSuffix)
      else let a2 = mark (times_differ entry old opts) 2 CHR ''t'' newItemizeAttrs;
               a3 = mark (perms_differ entry old opts) 3 CHR ''p'' a2;
               a4 = mark (owner_differs entry old opts) 4 CHR ''o'' a3;
               a = mark (group_differs entry old opts) 5 CHR ''g'' a4
           in if \<not> attrs_changed a then None else Some (''.d'' @ a))"

definition itemizeSymlink :: "fileEntry \<Rightarrow> fileEntry \<Rightarrow> bool \<Rightarrow> attrOptions \<Rightarrow> string option" where
  "itemizeSymlink entry old existed opts =
     (if \<not> existed then Some (''cL'' @ itemizeNewSuffix)
      else let a0 = mark (fe_LinkTarget old \<noteq> fe_LinkTarget entry) 0 CHR ''c'' newItemizeAttrs;
               a4 = mark (owner_differs entry old opts) 4 CHR ''o'' a0;
               a = mark (group_differs entry old opts) 5 CHR ''g'' a4
           in if \<not> attrs_changed a then None else Some (''cL'' @ a))"

definition itemizeHardLink :: string where
  "itemizeHardLink = ''hf'' @ itemizeNewSuffix"

section \<open>Lines\<close>

definition formatItemizeLine :: "string \<Rightarrow> string \<Rightarrow> string \<Rightarrow> string" where
  "formatItemizeLine code path linkTarget =
     code @ '' '' @ path @ (if linkTarget \<noteq> [] then '' -> '' @ linkTarget else [])"

definition formatVerboseLine :: "string \<Rightarrow> string \<Rightarrow> string" where
  "formatVerboseLine path linkTarget = (if linkTarget = [] then path else path @ '' -> '' @ linkTarget)"

text \<open>The lines one call of \<open>reportChange\<close> writes.\<close>

definition reportChange :: "receiverOptions \<Rightarrow> string option \<Rightarrow> fileEntry \<Rightarrow> string list" where
  "reportChange ropts code entry =
     (case code of
        None \<Rightarrow> []
      | Some c \<Rightarrow>
          (if \<not> ro_Itemize ropts \<and> \<not> ro_Verbose ropts then []
           else let linkTarget = (if fe_Mode entry AND ModeSymlink \<noteq> 0 then fe_LinkTarget entry else [])
                in if ro_Itemize ropts then [formatItemizeLine c (fe_Path entry) linkTarget]
                   else [formatVerboseLine (fe_Path entry) linkTarget]))"

section \<open>Properties\<close>

lemma length_mark [simp]: "length (mark b i c a) = length a"
  by (simp add: mark_def)

lemma new_attrs: "newItemizeAttrs = [CHR ''.'', CHR ''.'', CHR ''.'', CHR ''.'', CHR ''.'', CHR ''.'', CHR ''.'', CHR ''.'', CHR ''.'']"
  by (simp add: newItemizeAttrs_def numeral_eq_Suc)

text \<open>
  The code of a regular file says exactly what differs: an existing file gets no line if and only
  if its content is unchanged and none of size, preserved time, permissions, owner and group
  differs; otherwise the line is the update type, \<open>f\<close>, and one position for each of those.
\<close>

theorem itemizeFile_exact:
  "itemizeFile entry old True contentChanged opts =
     (if \<not> contentChanged \<and> fe_Size old = fe_Size entry \<and> \<not> times_differ entry old opts \<and>
         \<not> perms_differ entry old opts \<and> \<not> owner_differs entry old opts \<and> \<not> group_differs entry old opts
      then None
      else Some [if contentChanged then CHR ''>'' else CHR ''.'', CHR ''f'', CHR ''.'',
                 if fe_Size old = fe_Size entry then CHR ''.'' else CHR ''s'',
                 if times_differ entry old opts then CHR ''t'' else CHR ''.'',
                 if perms_differ entry old opts then CHR ''p'' else CHR ''.'',
                 if owner_differs entry old opts then CHR ''o'' else CHR ''.'',
                 if group_differs entry old opts then CHR ''g'' else CHR ''.'', CHR ''.'', CHR ''.'', CHR ''.''])"
  by (simp add: itemizeFile_def Let_def mark_def new_attrs attrs_changed_def numeral_eq_Suc)

text \<open>
  Syncing twice reports nothing: an entry that already has, at the destination, the attributes
  that are preserved and the same content gets no line, whatever its type and the options.
\<close>

theorem itemize_in_sync:
  "itemizeFile e e True False opts = None \<and> itemizeDir e e True opts = None \<and> itemizeSymlink e e True opts = None"
  by (simp add: itemizeFile_def itemizeDir_def itemizeSymlink_def Let_def mark_def new_attrs attrs_changed_def
      times_differ_def perms_differ_def owner_differs_def group_differs_def)

end
