(* ===== verification/Remote.thy ===== *)
theory Remote
  imports GoStrings
begin

text \<open>
  \<open>internal/transport/remotepath.go\<close> and \<open>rsh.go\<close>: telling \<open>[user@]host:path\<close> from a local path,
  splitting the \<open>--rsh\<close> string and building the argument vector of the remote shell.
\<close>

section \<open>remotepath.go\<close>

record remotePath =
  rp_User :: string
  rp_Host :: string
  rp_Path :: string

definition isWindowsDriveLetterPath :: "string \<Rightarrow> bool" where
  "isWindowsDriveLetterPath s =
     (if length s < 2 then False
      else (let c = s ! 0;
                isLetter = ((CHR ''A'' \<le> c \<and> c \<le> CHR ''Z'') \<or> (CHR ''a'' \<le> c \<and> c \<le> CHR ''z''))
            in isLetter \<and> s ! 1 = CHR '':''))"

definition split_user :: "string \<Rightarrow> string \<times> string" where
  "split_user s =
     (case indexByte s CHR ''@'' of
        None \<Rightarrow> ([], s)
      | Some i \<Rightarrow> (if indexByte (take i s) CHR ''/'' = None then (take i s, drop (i + 1) s) else ([], s)))"

definition split_host :: "string \<Rightarrow> (string \<times> string) option" where
  "split_host rest =
     (if hasPrefix rest ''[''
      then (case indexByte rest CHR '']'' of
              None \<Rightarrow> None
            | Some j \<Rightarrow> (if j + 1 \<ge> length rest \<or> rest ! (j + 1) \<noteq> CHR '':'' then None
                        else Some (go_slice rest 1 j, drop (j + 2) rest)))
      else (case indexByte rest CHR '':'' of
              None \<Rightarrow> None
            | Some j \<Rightarrow> (if indexByte (take j rest) CHR ''/'' \<noteq> None then None
                        else Some (take j rest, drop (j + 1) rest))))"

definition ParseRemotePath :: "string \<Rightarrow> remotePath option" where
  "ParseRemotePath s =
     (if s = [] \<or> isWindowsDriveLetterPath s \<or> containsStr s ''://'' then None
      else (let (user, rest) = split_user s in
            case split_host rest of
              None \<Rightarrow> None
            | Some (host, path) \<Rightarrow>
                (if host = [] then None else Some \<lparr>rp_User = user, rp_Host = host, rp_Path = path\<rparr>)))"

section \<open>rsh.go\<close>

definition DefaultRSH :: string where
  "DefaultRSH = ''ssh''"

definition program_base :: "string \<Rightarrow> string" where
  "program_base program =
     trimSuffix (case lastIndexAny program [CHR ''/'', CHR 0x5C] of None \<Rightarrow> program
                 | Some i \<Rightarrow> drop (i + 1) program) ''.exe''"

definition sshAddressFamilyFlag :: "string \<Rightarrow> bool \<Rightarrow> bool \<Rightarrow> string" where
  "sshAddressFamilyFlag program ipv4 ipv6 =
     (if \<not> ipv4 \<and> \<not> ipv6 then []
      else if program_base program \<noteq> ''ssh'' then []
      else if ipv4 then ''-4'' else ''-6'')"

text \<open>The loop of \<open>splitRSHCommand\<close>: the current field and the open quote, if any.\<close>

fun split_rsh_from :: "char option \<Rightarrow> string \<Rightarrow> string \<Rightarrow> string list" where
  "split_rsh_from q cur [] = (if cur = [] then [] else [cur])"
| "split_rsh_from (Some q) cur (c # cs) =
     (if c = q then split_rsh_from None cur cs else split_rsh_from (Some q) (cur @ [c]) cs)"
| "split_rsh_from None cur (c # cs) =
     (if c = CHR 0x27 \<or> c = CHR 0x22 then split_rsh_from (Some c) cur cs
      else if c = CHR '' '' \<or> c = CHR 0x09
      then (if cur = [] then [] else [cur]) @ split_rsh_from None [] cs
      else split_rsh_from None (cur @ [c]) cs)"

definition splitRSHCommand :: "string \<Rightarrow> string list" where
  "splitRSHCommand s = split_rsh_from None [] s"

definition BuildRSHCommand :: "string \<Rightarrow> string \<Rightarrow> string \<Rightarrow> string list \<Rightarrow> bool \<Rightarrow> bool \<Rightarrow> string list" where
  "BuildRSHCommand rsh user host remoteArgs ipv4 ipv6 =
     (let fs0 = splitRSHCommand rsh;
          fs = (if fs0 = [] then [DefaultRSH] else fs0);
          target = (if user \<noteq> [] then user @ ''@'' @ host else host);
          af = sshAddressFamilyFlag (fs ! 0) ipv4 ipv6
      in fs @ (if af \<noteq> [] then [af] else []) @ [target] @ remoteArgs)"

section \<open>Lemmas\<close>

text \<open>How an endpoint is written; an IPv6 literal needs the brackets.\<close>

definition format_remote :: "bool \<Rightarrow> remotePath \<Rightarrow> string" where
  "format_remote bracket r =
     (if rp_User r = [] then [] else rp_User r @ ''@'') @
     (if bracket then ''['' @ rp_Host r @ '']'' else rp_Host r) @ '':'' @ rp_Path r"

definition remote_ok :: "bool \<Rightarrow> remotePath \<Rightarrow> bool" where
  "remote_ok bracket r \<longleftrightarrow>
     CHR ''/'' \<notin> set (rp_User r) \<and> CHR ''@'' \<notin> set (rp_User r) \<and> rp_Host r \<noteq> [] \<and>
     (if bracket then CHR '']'' \<notin> set (rp_Host r)
      else CHR '':'' \<notin> set (rp_Host r) \<and> CHR ''/'' \<notin> set (rp_Host r) \<and> hd (rp_Host r) \<noteq> CHR ''['') \<and>
     (rp_User r = [] \<longrightarrow> CHR ''@'' \<notin> set (format_remote bracket r))"

lemma indexByte_head: "indexByte (c # s) c = Some 0"
  by simp

lemma split_user_format:
  assumes "remote_ok bracket r"
  shows "split_user (format_remote bracket r) = (rp_User r, drop (length (if rp_User r = [] then [] else rp_User r @ ''@'')) (format_remote bracket r))"
proof (cases "rp_User r = []")
  case True
  with assms show ?thesis
    by (simp add: split_user_def remote_ok_def indexByte_None [THEN iffD2])
next
  case False
  with assms have "indexByte (format_remote bracket r) CHR ''@'' = Some (length (rp_User r))"
    by (simp add: format_remote_def indexByte_append remote_ok_def)
  with assms False show ?thesis
    by (simp add: split_user_def format_remote_def remote_ok_def indexByte_None [THEN iffD2])
qed

lemma split_host_format:
  "remote_ok True r \<Longrightarrow> split_host (''['' @ rp_Host r @ '']'' @ '':'' @ rp_Path r) = Some (rp_Host r, rp_Path r)"
  "remote_ok False r \<Longrightarrow> split_host (rp_Host r @ '':'' @ rp_Path r) = Some (rp_Host r, rp_Path r)"
proof -
  assume "remote_ok True r"
  then have "indexByte (CHR ''['' # rp_Host r @ CHR '']'' # CHR '':'' # rp_Path r) CHR '']'' = Some (length (rp_Host r) + 1)"
    by (simp add: remote_ok_def indexByte_append)
  then show "split_host (''['' @ rp_Host r @ '']'' @ '':'' @ rp_Path r) = Some (rp_Host r, rp_Path r)"
    by (simp add: split_host_def hasPrefix_def nth_append go_slice_def)
next
  assume "remote_ok False r"
  moreover from this have "\<not> hasPrefix (rp_Host r @ CHR '':'' # rp_Path r) ''[''"
    by (cases "rp_Host r") (auto simp: remote_ok_def hasPrefix_def)
  ultimately show "split_host (rp_Host r @ '':'' @ rp_Path r) = Some (rp_Host r, rp_Path r)"
    by (simp add: split_host_def remote_ok_def indexByte_append indexByte_None [THEN iffD2])
qed

lemma after_last:
  "(case lastIndexAny s cs of None \<Rightarrow> s | Some i \<Rightarrow> drop (i + 1) s)
     = rev (takeWhile (\<lambda>c. c \<notin> set cs) (rev s))"
proof (induction s rule: rev_induct)
  case (snoc x s)
  have filt: "filter (\<lambda>i. (s @ [x]) ! i \<in> set cs) [0..<length s] = filter (\<lambda>i. s ! i \<in> set cs) [0..<length s]"
    by (rule filter_cong) (auto simp: nth_append)
  show ?case
  proof (cases "x \<in> set cs")
    case True
    then show ?thesis by (simp add: lastIndexAny_def filt)
  next
    case False
    have bound: "i < length s" if "lastIndexAny s cs = Some i" for i
    proof -
      from that obtain xs where "rev (filter (\<lambda>i. s ! i \<in> set cs) [0..<length s]) = i # xs"
        unfolding lastIndexAny_def by (cases "rev (filter (\<lambda>i. s ! i \<in> set cs) [0..<length s])") simp_all
      from arg_cong [OF this, of set] show ?thesis by auto
    qed
    from False have "lastIndexAny (s @ [x]) cs = lastIndexAny s cs"
      by (simp add: lastIndexAny_def filt)
    with False snoc bound show ?thesis by (auto split: option.splits)
  qed
qed (simp add: lastIndexAny_def)

lemma program_base_conv:
  "program_base p = ''ssh'' \<longleftrightarrow>
     (\<exists>dir name. p = dir @ name \<and> (name = ''ssh'' \<or> name = ''ssh.exe'') \<and>
        (dir = [] \<or> last dir = CHR ''/'' \<or> last dir = CHR 0x5C))"
proof -
  let ?sep = "{CHR ''/'', CHR 0x5C}"
  let ?base = "rev (takeWhile (\<lambda>c. c \<notin> ?sep) (rev p))"
  have base: "program_base p = trimSuffix ?base ''.exe''"
    using after_last [of p "[CHR ''/'', CHR 0x5C]"] by (simp add: program_base_def)
  have trim: "trimSuffix b ''.exe'' = ''ssh'' \<longleftrightarrow> b = ''ssh'' \<or> b = ''ssh.exe''" for b
  proof (cases "hasSuffix b ''.exe''")
    case True
    then obtain t where "b = t @ ''.exe''" by (auto simp: hasSuffix_conv)
    then show ?thesis by auto
  next
    case False
    then show ?thesis by (auto simp: trimSuffix_def hasSuffix_def)
  qed
  have "?base = name \<longleftrightarrow> (\<exists>dir. p = dir @ name \<and> (dir = [] \<or> last dir \<in> ?sep))"
    if name: "set name \<inter> ?sep = {}" for name
  proof
    assume b: "?base = name"
    have p: "p = rev (dropWhile (\<lambda>c. c \<notin> ?sep) (rev p)) @ ?base"
      by (metis rev_append rev_rev_ident takeWhile_dropWhile_id)
    moreover have "hd (dropWhile (\<lambda>c. c \<notin> ?sep) (rev p)) \<in> ?sep"
      if "dropWhile (\<lambda>c. c \<notin> ?sep) (rev p) \<noteq> []"
      using hd_dropWhile [OF that] by blast
    ultimately show "\<exists>dir. p = dir @ name \<and> (dir = [] \<or> last dir \<in> ?sep)"
      using b by (metis last_rev rev_is_Nil_conv)
  next
    assume "\<exists>dir. p = dir @ name \<and> (dir = [] \<or> last dir \<in> ?sep)"
    then obtain dir where p: "p = dir @ name" and dir: "dir = [] \<or> last dir \<in> ?sep" by blast
    have "takeWhile (\<lambda>c. c \<notin> ?sep) (rev name @ rev dir) = rev name @ takeWhile (\<lambda>c. c \<notin> ?sep) (rev dir)"
      using name by (intro takeWhile_append2) auto
    moreover have "takeWhile (\<lambda>c. c \<notin> ?sep) (rev dir) = []"
      using dir by (cases dir rule: rev_cases) auto
    ultimately show "?base = name" by (simp add: p)
  qed
  from this [of "''ssh''"] this [of "''ssh.exe''"]
  have "?base = ''ssh'' \<longleftrightarrow> (\<exists>dir. p = dir @ ''ssh'' \<and> (dir = [] \<or> last dir \<in> ?sep))"
    and "?base = ''ssh.exe'' \<longleftrightarrow> (\<exists>dir. p = dir @ ''ssh.exe'' \<and> (dir = [] \<or> last dir \<in> ?sep))"
    by simp_all
  then show ?thesis unfolding base trim by blast
qed

lemma ParseRemotePath_format:
  assumes "remote_ok bracket r"
    and "\<not> isWindowsDriveLetterPath (format_remote bracket r)"
    and "\<not> containsStr (format_remote bracket r) ''://''"
  shows "ParseRemotePath (format_remote bracket r) = Some r"
proof -
  let ?rest = "(if bracket then ''['' @ rp_Host r @ '']'' else rp_Host r) @ '':'' @ rp_Path r"
  have "split_user (format_remote bracket r) = (rp_User r, ?rest)"
    unfolding split_user_format [OF assms(1)] by (simp add: format_remote_def)
  moreover have "split_host ?rest = Some (rp_Host r, rp_Path r)"
    using assms(1) split_host_format [of r] by (cases bracket) simp_all
  moreover have "format_remote bracket r \<noteq> []" by (simp add: format_remote_def)
  moreover have "rp_Host r \<noteq> []" using assms(1) by (simp add: remote_ok_def)
  ultimately show ?thesis
    using assms(2,3) by (simp add: ParseRemotePath_def del: containsStr.simps)
qed

text \<open>Quoting an argument for the \<open>--rsh\<close> string.\<close>

definition rsh_quote :: "string \<Rightarrow> string" where
  "rsh_quote s = [CHR 0x22] @ s @ [CHR 0x22]"

lemma split_rsh_quoted:
  "CHR 0x22 \<notin> set s \<Longrightarrow>
     split_rsh_from (Some CHR 0x22) cur (s @ CHR 0x22 # rest) = split_rsh_from None (cur @ s) rest"
  by (induction s arbitrary: cur) auto

lemma splitRSH_quoted_list:
  "list_all (\<lambda>s. s \<noteq> [] \<and> CHR 0x22 \<notin> set s) args \<Longrightarrow>
     split_rsh_from None [] (joinWith CHR '' '' (map rsh_quote args)) = args"
proof (induction args rule: induct_list012)
  case (2 a)
  then show ?case by (simp add: rsh_quote_def split_rsh_quoted)
next
  case (3 a b args)
  then show ?case by (simp add: rsh_quote_def split_rsh_quoted)
qed simp

section \<open>Properties\<close>

text \<open>
  C40. Round trip: an endpoint written as \<open>[user@]host:path\<close>, with the host in brackets when asked,
  is parsed back to its parts, unless the text is a drive letter or contains \<open>://\<close>. No slash stands in
  the user or the host, bracketed or not.
\<close>

theorem remote_path_roundtrip:
  assumes "remote_ok bracket r" and "CHR ''/'' \<notin> set (rp_User r @ rp_Host r)"
    and "\<not> isWindowsDriveLetterPath (format_remote bracket r)"
    and "\<not> containsStr (format_remote bracket r) ''://''"
  shows "ParseRemotePath (format_remote bracket r) = Some r"
  using assms(1,3,4) by (rule ParseRemotePath_format)

theorem remote_path_roundtrip_witness:
  "format_remote True \<lparr>rp_User = ''me'', rp_Host = ''::1'', rp_Path = ''/tmp/x''\<rparr> = ''me@[::1]:/tmp/x'' \<and>
   ParseRemotePath (format_remote True \<lparr>rp_User = ''me'', rp_Host = ''::1'', rp_Path = ''/tmp/x''\<rparr>)
     = Some \<lparr>rp_User = ''me'', rp_Host = ''::1'', rp_Path = ''/tmp/x''\<rparr>"
proof
  show "ParseRemotePath (format_remote True \<lparr>rp_User = ''me'', rp_Host = ''::1'', rp_Path = ''/tmp/x''\<rparr>)
     = Some \<lparr>rp_User = ''me'', rp_Host = ''::1'', rp_Path = ''/tmp/x''\<rparr>"
    by (rule remote_path_roundtrip)
      (simp_all add: remote_ok_def format_remote_def isWindowsDriveLetterPath_def hasPrefix_def)
qed (simp add: format_remote_def)

text \<open>
  A local path is never taken for a host: without a bracket in front, an argument is remote
  only if a colon comes before its first slash and a nonempty host stands before that colon.
\<close>

theorem slash_before_colon_is_local:
  assumes "CHR '':'' \<notin> set (takeWhile (\<lambda>c. c \<noteq> CHR ''/'') s)" and "CHR ''['' \<notin> set s"
  shows "ParseRemotePath s = None"
proof -
  have local_host: "split_host rest = None"
    if "CHR '':'' \<notin> set (takeWhile (\<lambda>c. c \<noteq> CHR ''/'') rest)" and "CHR ''['' \<notin> set rest" for rest
  proof (cases "indexByte rest CHR '':''")
    case None
    with that(2) show ?thesis by (auto simp: split_host_def hasPrefix_conv)
  next
    case (Some j)
    then have rest: "rest = take j rest @ CHR '':'' # drop (Suc j) rest" by (rule indexByte_split)
    have "CHR ''/'' \<in> set (take j rest)"
    proof (rule ccontr)
      assume "CHR ''/'' \<notin> set (take j rest)"
      then have "takeWhile (\<lambda>c. c \<noteq> CHR ''/'') (take j rest @ CHR '':'' # drop (Suc j) rest)
          = take j rest @ takeWhile (\<lambda>c. c \<noteq> CHR ''/'') (CHR '':'' # drop (Suc j) rest)"
        by (intro takeWhile_append2) auto
      with that(1) rest show False by auto
    qed
    with Some that(2) show ?thesis
      by (auto simp: split_host_def hasPrefix_conv indexByte_None split: option.split)
  qed
  obtain user rest where u: "split_user s = (user, rest)" by (cases "split_user s")
  have "CHR '':'' \<notin> set (takeWhile (\<lambda>c. c \<noteq> CHR ''/'') rest) \<and> CHR ''['' \<notin> set rest"
  proof (cases "rest = s")
    case True
    with assms show ?thesis by simp
  next
    case False
    with u obtain i where i: "indexByte s CHR ''@'' = Some i" "CHR ''/'' \<notin> set (take i s)"
        "rest = drop (i + 1) s"
      by (auto simp: split_user_def indexByte_None split: option.splits if_splits)
    then obtain pre where s: "s = pre @ CHR ''@'' # rest" and pre: "CHR ''/'' \<notin> set pre"
      using indexByte_split [OF i(1)] by auto
    from pre have "takeWhile (\<lambda>c. c \<noteq> CHR ''/'') s = pre @ CHR ''@'' # takeWhile (\<lambda>c. c \<noteq> CHR ''/'') rest"
      unfolding s by (subst takeWhile_append2) auto
    with assms show ?thesis by (simp add: s)
  qed
  with u local_host [of rest] show ?thesis by (simp add: ParseRemotePath_def)
qed

theorem slash_before_colon_is_local_witness: "ParseRemotePath ''./a:b'' = None"
  by (rule slash_before_colon_is_local) simp_all

text \<open>
  The bracket branch has no slash check: a relative path in a directory whose name starts with
  a bracket is taken for a remote endpoint, and its "host" contains a slash.
\<close>

theorem bracketed_slash_is_remote:
  assumes "CHR '']'' \<notin> set dir" and "CHR ''@'' \<notin> set (dir @ file)"
    and "\<not> containsStr (''['' @ dir @ ''/x]:'' @ file) ''://''"
  shows "ParseRemotePath (''['' @ dir @ ''/x]:'' @ file)
    = Some \<lparr>rp_User = [], rp_Host = dir @ ''/x'', rp_Path = file\<rparr>"
  using ParseRemotePath_format [of True "\<lparr>rp_User = [], rp_Host = dir @ ''/x'', rp_Path = file\<rparr>"] assms
  by (simp add: format_remote_def remote_ok_def isWindowsDriveLetterPath_def del: containsStr.simps)

theorem bracketed_slash_is_remote_witness:
  "ParseRemotePath (''['' @ ''a'' @ ''/x]:'' @ ''c'') = Some \<lparr>rp_User = [], rp_Host = ''a'' @ ''/x'', rp_Path = ''c''\<rparr>"
  by (rule bracketed_slash_is_remote) (simp_all add: hasPrefix_def)

text \<open>
  The address family flag is given to ssh only: it is inserted exactly when a family was
  requested and the program's last path component is \<open>ssh\<close> or \<open>ssh.exe\<close>.
\<close>

theorem ssh_flag_iff:
  "sshAddressFamilyFlag p ipv4 ipv6 \<noteq> [] \<longleftrightarrow>
     (ipv4 \<or> ipv6) \<and>
     (\<exists>dir name. p = dir @ name \<and> (name = ''ssh'' \<or> name = ''ssh.exe'') \<and>
        (dir = [] \<or> last dir = CHR ''/'' \<or> last dir = CHR 0x5C))"
  by (simp add: sshAddressFamilyFlag_def program_base_conv [symmetric])

text \<open>
  Quoting works: arguments without double quotes, each in double quotes and separated by blanks,
  are the fields the \<open>--rsh\<close> string is split into, whatever blanks they contain, and the remote
  shell is run with exactly them, then the target, then the remote command.
\<close>

theorem quoted_rsh_command:
  assumes "list_all (\<lambda>s. s \<noteq> [] \<and> CHR 0x22 \<notin> set s) args" and "args \<noteq> []"
  shows "BuildRSHCommand (joinWith CHR '' '' (map rsh_quote args)) user host remoteArgs False False
    = args @ [if user = [] then host else user @ ''@'' @ host] @ remoteArgs"
  using assms by (simp add: BuildRSHCommand_def splitRSHCommand_def splitRSH_quoted_list sshAddressFamilyFlag_def)

theorem quoted_rsh_command_witness:
  "BuildRSHCommand (joinWith CHR '' '' (map rsh_quote [''ssh'', ''-i'', ''my key'']))
     ''u'' ''h'' [''grsync'', ''--server''] False False
   = [''ssh'', ''-i'', ''my key''] @ [if ''u'' = [] then ''h'' else ''u'' @ ''@'' @ ''h''] @ [''grsync'', ''--server'']"
  by (rule quoted_rsh_command) simp_all

end
