(* ===== verification/Options.thy ===== *)
theory Options
  imports FilterRules Compress Itemize Remote
begin

text \<open>
  \<open>internal/cli\<close>: the command line's flags, what they mean for a run, and the checks made before anything
  is transferred (\<open>root.go\<close>, \<open>netopts.go\<close>, \<open>rsync_url.go\<close>, the option functions and the first part of
  \<open>runSync\<close> in \<open>sync.go\<close>, \<open>daemon/url.go\<close>). Parsing the command line is cobra's and pflag's; the model starts from
  the parsed \<open>options\<close> and the set of flags given. The parameters \<open>url_parse\<close> (Go's \<open>net/url\<close> parser) and
  \<open>resolve\<close> (name resolution) stand for what comes from outside.
\<close>

section \<open>Flags\<close>

record filterRule =
  fr_RuleType :: ruleKind
  fr_Pattern :: string

record options =
  o_archive :: bool
  o_verbose :: bool
  o_compress :: bool
  o_compressLevel :: int
  o_skipCompress :: string
  o_recursive :: bool
  o_dirs :: bool
  o_dryRun :: bool
  o_delete :: bool
  o_progress :: bool
  o_perms :: bool
  o_times :: bool
  o_owner :: bool
  o_group :: bool
  o_links :: bool
  o_hardLinks :: bool
  o_itemize :: bool
  o_stats :: bool
  o_filterRules :: "filterRule list"
  o_rsh :: string
  o_server :: bool
  o_daemon :: bool
  o_config :: string
  o_port :: int
  o_passwordFile :: string
  o_ipv4 :: bool
  o_ipv6 :: bool
  o_address :: string
  o_partial :: bool
  o_partialDir :: string
  o_appendMode :: bool
  o_appendVerify :: bool
  o_writeBatch :: string
  o_readBatch :: string

text \<open>The five filter flags share one list, appended to in the order of the command line.\<close>

definition filterRuleFlag_Set :: "ruleKind \<Rightarrow> string \<Rightarrow> filterRule list \<Rightarrow> filterRule list" where
  "filterRuleFlag_Set kind pattern rules = rules @ [\<lparr>fr_RuleType = kind, fr_Pattern = pattern\<rparr>]"

definition filterRuleFlag_Type :: "ruleKind \<Rightarrow> string" where
  "filterRuleFlag_Type kind =
     (if kind = RuleFilter then ''rule''
      else if kind = RuleExcludeFrom \<or> kind = RuleIncludeFrom then ''file'' else ''pattern'')"

definition DefaultPort :: int where "DefaultPort = 873"

text \<open>
  The flags as registered, in their groups: name, one-letter shorthand (empty when there is none), and
  what they set, with an integer's default; booleans start as false and strings empty.
\<close>

datatype flagKind = BoolFlag | StringFlag | IntFlag int | RuleFlag ruleKind

definition flag_groups :: "(string \<times> (string \<times> string \<times> flagKind) list) list" where
  "flag_groups =
     [(''Core'', [
       (''archive'', ''a'', BoolFlag), (''verbose'', ''v'', BoolFlag), (''dry-run'', ''n'', BoolFlag),
       (''recursive'', ''r'', BoolFlag), (''dirs'', ''d'', BoolFlag)]),
      (''Attributes'', [
       (''perms'', ''p'', BoolFlag), (''times'', ''t'', BoolFlag), (''owner'', ''o'', BoolFlag),
       (''group'', ''g'', BoolFlag), (''links'', ''l'', BoolFlag), (''hard-links'', ''H'', BoolFlag)]),
      (''Filtering'', [
       (''exclude'', [], RuleFlag RuleExclude), (''include'', [], RuleFlag RuleInclude),
       (''filter'', [], RuleFlag RuleFilter), (''exclude-from'', [], RuleFlag RuleExcludeFrom),
       (''include-from'', [], RuleFlag RuleIncludeFrom)]),
      (''Output'', [
       (''itemize-changes'', ''i'', BoolFlag), (''progress'', [], BoolFlag), (''stats'', [], BoolFlag)]),
      (''Transport'', [
       (''rsh'', ''e'', StringFlag), (''address'', [], StringFlag), (''ipv4'', ''4'', BoolFlag),
       (''ipv6'', ''6'', BoolFlag), (''password-file'', [], StringFlag), (''server'', [], BoolFlag)]),
      (''Daemon mode'', [
       (''daemon'', [], BoolFlag), (''config'', [], StringFlag), (''port'', [], IntFlag DefaultPort)]),
      (''Advanced/edge cases'', [
       (''compress'', ''z'', BoolFlag), (''compress-level'', [], IntFlag 0), (''skip-compress'', [], StringFlag),
       (''partial'', [], BoolFlag), (''partial-dir'', [], StringFlag), (''append'', [], BoolFlag),
       (''append-verify'', [], BoolFlag), (''write-batch'', [], StringFlag), (''read-batch'', [], StringFlag),
       (''delete'', [], BoolFlag)])]"

datatype args_error = BatchFlagsTogether | NoArgsAllowed | ExactlyOneArg | AtLeastTwoArgs

definition validate_args :: "options \<Rightarrow> string list \<Rightarrow> args_error option" where
  "validate_args opts args =
     (if o_writeBatch opts \<noteq> [] \<and> o_readBatch opts \<noteq> [] then Some BatchFlagsTogether
      else if o_daemon opts then (if length args > 0 then Some NoArgsAllowed else None)
      else if o_server opts then (if length args \<noteq> 1 then Some ExactlyOneArg else None)
      else if o_readBatch opts \<noteq> [] then (if length args \<noteq> 1 then Some ExactlyOneArg else None)
      else if length args < 2 then Some AtLeastTwoArgs else None)"

datatype command =
    RunDaemon
  | RunServer string
  | RunReadBatch string
  | RunSync "string list" string

text \<open>\<open>None\<close> is an index out of range; it does not happen after validation.\<close>

definition dispatch :: "options \<Rightarrow> string list \<Rightarrow> command option" where
  "dispatch opts args =
     (if o_daemon opts then Some RunDaemon
      else if o_server opts then (case args of [] \<Rightarrow> None | a # _ \<Rightarrow> Some (RunServer a))
      else if o_readBatch opts \<noteq> [] then (case args of [] \<Rightarrow> None | a # _ \<Rightarrow> Some (RunReadBatch a))
      else if args = [] then None else Some (RunSync (butlast args) (last args)))"

section \<open>Effective options\<close>

definition effectiveWalkOptions :: "options \<Rightarrow> walkOptions" where
  "effectiveWalkOptions opts = \<lparr>Recursive = o_archive opts \<or> o_recursive opts, Dirs = o_dirs opts\<rparr>"

definition effectiveAttrOptions :: "options \<Rightarrow> attrOptions" where
  "effectiveAttrOptions opts =
     \<lparr>ao_Perms = o_archive opts \<or> o_perms opts, ao_Times = o_archive opts \<or> o_times opts,
      ao_Owner = o_archive opts \<or> o_owner opts, ao_Group = o_archive opts \<or> o_group opts,
      ao_Links = o_archive opts \<or> o_links opts, ao_HardLinks = o_hardLinks opts, ao_Devices = False\<rparr>"

definition effectiveReceiverOptions :: "options \<Rightarrow> receiverOptions" where
  "effectiveReceiverOptions opts =
     \<lparr>ro_DryRun = o_dryRun opts, ro_Itemize = o_itemize opts, ro_Verbose = o_verbose opts, ro_Progress = o_progress opts,
      ro_Stats = o_stats opts, ro_Partial = o_partial opts, ro_PartialDir = o_partialDir opts,
      ro_Append = o_appendMode opts, ro_AppendVerify = o_appendVerify opts\<rparr>"

definition no_compress :: compressOptions where
  "no_compress = \<lparr>co_Enabled = False, co_Level = 0, co_SkipSuffixes = []\<rparr>"

definition effectiveCompressOptions :: "string set \<Rightarrow> options \<Rightarrow> compressOptions" where
  "effectiveCompressOptions changed opts =
     (let levelGiven = ''compress-level'' \<in> changed in
      if \<not> o_compress opts \<and> \<not> levelGiven then no_compress
      else let level = (if levelGiven then ClampCompressLevel (o_compressLevel opts) else DefaultCompressLevel) in
        if level = 0 then no_compress
        else \<lparr>co_Enabled = True, co_Level = level,
              co_SkipSuffixes = (if ''skip-compress'' \<in> changed then ParseSkipCompressList (o_skipCompress opts)
                                 else DefaultSkipCompressSuffixes)\<rparr>)"

definition toSyncRawRules :: "filterRule list \<Rightarrow> rawRule list" where
  "toSyncRawRules rules = map (\<lambda>r. \<lparr>Kind = fr_RuleType r, raw_Pattern = fr_Pattern r\<rparr>) rules"

section \<open>Addresses\<close>

definition isRsyncURL :: "string \<Rightarrow> bool" where
  "isRsyncURL s \<longleftrightarrow> hasPrefix s ''rsync://''"

datatype network = tcp | tcp4 | tcp6

definition tcpNetwork :: "bool \<Rightarrow> bool \<Rightarrow> network option" where
  "tcpNetwork ipv4 ipv6 =
     (if ipv4 \<and> ipv6 then None else if ipv4 then Some tcp4 else if ipv6 then Some tcp6 else Some tcp)"

text \<open>The result of \<open>net/url\<close>: scheme, user name, host name, port text and path.\<close>

record netURL =
  nu_Scheme :: string
  nu_User :: "string option"
  nu_Hostname :: string
  nu_Port :: string
  nu_Path :: string

record URL =
  u_User :: string
  u_Host :: string
  u_Port :: int
  u_Module :: string
  u_Path :: string

datatype url_error = NotAURL | NotRsyncScheme string | NoHost | InvalidPort string

definition split_module :: "string \<Rightarrow> string \<times> string" where
  "split_module path =
     (case indexByte path CHR ''/'' of None \<Rightarrow> (path, []) | Some i \<Rightarrow> (take i path, drop (i + 1) path))"

definition ParseURL :: "(string \<Rightarrow> netURL option) \<Rightarrow> string \<Rightarrow> url_error + URL" where
  "ParseURL url_parse s =
     (case url_parse s of
        None \<Rightarrow> Fail NotAURL
      | Some u \<Rightarrow>
          if nu_Scheme u \<noteq> ''rsync'' then Fail (NotRsyncScheme (nu_Scheme u))
          else if nu_Hostname u = [] then Fail NoHost
          else
            (let user = (case nu_User u of None \<Rightarrow> [] | Some n \<Rightarrow> n) in
             res_bind (if nu_Port u = [] then Ok 0
                       else case atoi (nu_Port u) of None \<Rightarrow> Fail (InvalidPort (nu_Port u)) | Some p \<Rightarrow> Ok p)
               (\<lambda>port.
                 (case split_module (trimPrefix (nu_Path u) ''/'') of
                    (m, path) \<Rightarrow> Ok \<lparr>u_User = user, u_Host = nu_Hostname u, u_Port = port, u_Module = m, u_Path = path\<rparr>))))"

definition daemon_port :: "URL \<Rightarrow> int" where
  "daemon_port u = (if u_Port u = 0 then DefaultPort else u_Port u)"

section \<open>The checks of a sync\<close>

datatype notice = BatchWithDryRun | NoReportingOverDaemon | NoPartialOverDaemon

datatype sync_error =
    PullFromDaemon string
  | PullFromRemote string
  | FilterRulesFailed filter_error
  | BothAddressFamilies
  | ResolvingAddress string
  | AppendFlagsTogether
  | BatchNeedsOneSource nat
  | BadDestinationURL url_error
  | NoModule string
  | SubPath string
  | BatchToDaemon

datatype destination = DaemonDest URL | RemoteDest remotePath | LocalDest string

record 'addr syncPlan =
  sp_walk :: walkOptions
  sp_attrs :: attrOptions
  sp_copts :: compressOptions
  sp_ropts :: receiverOptions
  sp_rules :: "rule list"
  sp_network :: network
  sp_local :: "'addr option"
  sp_batch :: bool
  sp_dest :: destination
  sp_notes :: "notice list"

fun check_sources :: "string list \<Rightarrow> sync_error option" where
  "check_sources [] = None"
| "check_sources (src # srcs) =
     (if isRsyncURL src then Some (PullFromDaemon src)
      else if ParseRemotePath src \<noteq> None then Some (PullFromRemote src)
      else check_sources srcs)"

definition resolveLocalAddr :: "(network \<Rightarrow> string \<Rightarrow> 'addr option) \<Rightarrow> network \<Rightarrow> string \<Rightarrow> sync_error + 'addr option" where
  "resolveLocalAddr resolve net address =
     (if address = [] then Ok None
      else case resolve net address of None \<Rightarrow> Fail (ResolvingAddress address) | Some a \<Rightarrow> Ok (Some a))"

definition pick_destination :: "(string \<Rightarrow> netURL option) \<Rightarrow> string \<Rightarrow> sync_error + destination" where
  "pick_destination url_parse dest =
     (if isRsyncURL dest
      then (case ParseURL url_parse dest of
              Inl e \<Rightarrow> Fail (BadDestinationURL e)
            | Inr u \<Rightarrow> if u_Module u = [] then Fail (NoModule dest) else if u_Path u \<noteq> [] then Fail (SubPath dest)
                       else Ok (DaemonDest u))
      else case ParseRemotePath dest of None \<Rightarrow> Ok (LocalDest dest) | Some r \<Rightarrow> Ok (RemoteDest r))"

definition is_daemon :: "destination \<Rightarrow> bool" where
  "is_daemon d \<longleftrightarrow> (case d of DaemonDest _ \<Rightarrow> True | _ \<Rightarrow> False)"

text \<open>\<open>runSync\<close> up to the creation of the batch file and the loop over the sources.\<close>

definition plan_sync ::
  "(string \<Rightarrow> string option) \<Rightarrow> (string \<Rightarrow> netURL option) \<Rightarrow> (network \<Rightarrow> string \<Rightarrow> 'addr option) \<Rightarrow> string set \<Rightarrow>
     string list \<Rightarrow> string \<Rightarrow> options \<Rightarrow> sync_error + 'addr syncPlan" where
  "plan_sync read_file url_parse resolve changed sources dest opts =
     (case check_sources sources of
        Some e \<Rightarrow> Fail e
      | None \<Rightarrow>
          res_bind (map_sum FilterRulesFailed id (CompileRules read_file (toSyncRawRules (o_filterRules opts)))) (\<lambda>rules.
          (case tcpNetwork (o_ipv4 opts) (o_ipv6 opts) of
             None \<Rightarrow> Fail BothAddressFamilies
           | Some net \<Rightarrow>
               res_bind (resolveLocalAddr resolve net (o_address opts)) (\<lambda>localAddr.
               if o_appendMode opts \<and> o_appendVerify opts then Fail AppendFlagsTogether
               else
                 (let writingBatch = (o_writeBatch opts \<noteq> [] \<and> \<not> o_dryRun opts);
                      ropts = effectiveReceiverOptions opts
                  in if writingBatch \<and> length sources \<noteq> 1 then Fail (BatchNeedsOneSource (length sources))
                     else res_bind (pick_destination url_parse dest) (\<lambda>d.
                       if writingBatch \<and> is_daemon d then Fail BatchToDaemon
                       else Ok \<lparr>sp_walk = effectiveWalkOptions opts, sp_attrs = effectiveAttrOptions opts,
                                sp_copts = effectiveCompressOptions changed opts, sp_ropts = ropts, sp_rules = rules,
                                sp_network = net, sp_local = localAddr, sp_batch = writingBatch, sp_dest = d,
                                sp_notes =
                                  (if o_writeBatch opts \<noteq> [] \<and> o_dryRun opts then [BatchWithDryRun] else []) @
                                  (if is_daemon d \<and> Reporting ropts then [NoReportingOverDaemon] else []) @
                                  (if is_daemon d \<and> (KeepPartial ropts \<or> AppendMode ropts)
                                   then [NoPartialOverDaemon] else [])\<rparr>))))))"

text \<open>The command line of the remote side of a push over SSH.\<close>

definition remote_args :: "receiverOptions \<Rightarrow> string \<Rightarrow> string list" where
  "remote_args ropts path =
     [''grsync'', ''--server''] @
     (if ro_DryRun ropts then [''--dry-run''] else []) @
     (if ro_Itemize ropts then [''--itemize-changes''] else []) @
     (if ro_Verbose ropts then [''--verbose''] else []) @
     (if ro_Progress ropts then [''--progress''] else []) @
     (if ro_Stats ropts then [''--stats''] else []) @
     (if ro_PartialDir ropts \<noteq> [] then [''--partial-dir='' @ ro_PartialDir ropts]
      else if ro_Partial ropts then [''--partial''] else []) @
     (if ro_Append ropts then [''--append''] else []) @
     (if ro_AppendVerify ropts then [''--append-verify''] else []) @
     [path]"


section \<open>Properties\<close>

lemma check_sources_None:
  "check_sources srcs = None \<longleftrightarrow> (\<forall>src \<in> set srcs. \<not> isRsyncURL src \<and> ParseRemotePath src = None)"
  by (induction srcs) (auto split: if_splits)

lemma effective_level:
  "co_Enabled (effectiveCompressOptions changed opts) \<Longrightarrow>
     1 \<le> co_Level (effectiveCompressOptions changed opts) \<and> co_Level (effectiveCompressOptions changed opts) \<le> 9"
  by (auto simp: effectiveCompressOptions_def no_compress_def Let_def ClampCompressLevel_def DefaultCompressLevel_def
      split: if_splits)

lemma pick_destination_daemon:
  "pick_destination url_parse dest = Ok (DaemonDest u) \<Longrightarrow> u_Module u \<noteq> [] \<and> u_Path u = []"
  by (auto simp: pick_destination_def split: if_splits sum.splits option.splits)

text \<open>
  C26. A sync that passes the checks is consistent: only local sources; never both append flags or both
  address families; a batch file is only written for exactly one source, never on a dry run and never to a
  daemon; a daemon destination names a module and no path inside it; and compression, when on, has a level
  from 1 to 9.
\<close>

theorem plan_sync_consistent:
  assumes "plan_sync read_file url_parse resolve changed sources dest opts = Ok p"
  shows "(\<forall>src \<in> set sources. \<not> isRsyncURL src \<and> ParseRemotePath src = None) \<and>
    \<not> (o_appendMode opts \<and> o_appendVerify opts) \<and> \<not> (o_ipv4 opts \<and> o_ipv6 opts) \<and>
    (sp_batch p \<longrightarrow> length sources = 1 \<and> \<not> o_dryRun opts \<and> \<not> is_daemon (sp_dest p)) \<and>
    (\<forall>u. sp_dest p = DaemonDest u \<longrightarrow> u_Module u \<noteq> [] \<and> u_Path u = []) \<and>
    (co_Enabled (sp_copts p) \<longrightarrow> 1 \<le> co_Level (sp_copts p) \<and> co_Level (sp_copts p) \<le> 9)"
proof -
  have none: "check_sources sources = None"
    using assms by (cases "check_sources sources") (simp_all add: plan_sync_def)
  obtain rules net localAddr d where steps: "tcpNetwork (o_ipv4 opts) (o_ipv6 opts) = Some net"
    "\<not> (o_appendMode opts \<and> o_appendVerify opts)" "pick_destination url_parse dest = Ok d"
    "o_writeBatch opts \<noteq> [] \<and> \<not> o_dryRun opts \<longrightarrow> length sources = 1 \<and> \<not> is_daemon d"
    "sp_batch p \<longleftrightarrow> o_writeBatch opts \<noteq> [] \<and> \<not> o_dryRun opts" "sp_dest p = d"
    "sp_copts p = effectiveCompressOptions changed opts"
    using assms unfolding plan_sync_def none
    by (auto simp: res_bind_Ok_conv map_sum_Ok Let_def split: option.splits if_splits)
  then show ?thesis
    using none pick_destination_daemon effective_level
    by (auto simp: check_sources_None tcpNetwork_def split: if_splits)
qed

definition plain_options :: options where
  "plain_options =
     \<lparr>o_archive = True, o_verbose = False, o_compress = True, o_compressLevel = 0, o_skipCompress = [], o_recursive = False,
      o_dirs = False, o_dryRun = False, o_delete = False, o_progress = False, o_perms = False, o_times = False,
      o_owner = False, o_group = False, o_links = False, o_hardLinks = False, o_itemize = False, o_stats = False,
      o_filterRules = [], o_rsh = [], o_server = False, o_daemon = False, o_config = [], o_port = 873, o_passwordFile = [],
      o_ipv4 = False, o_ipv6 = False, o_address = [], o_partial = False, o_partialDir = [], o_appendMode = False,
      o_appendVerify = False, o_writeBatch = ''b'', o_readBatch = []\<rparr>"

theorem plan_sync_consistent_witness:
  "\<exists>p. plan_sync (\<lambda>_. None) (\<lambda>_. None) (\<lambda>_ _. None :: nat option) {} [''src''] ''dst'' plain_options = Ok p \<and>
     sp_batch p \<and> length [''src''] = 1 \<and> \<not> is_daemon (sp_dest p)"
proof -
  have "isRsyncURL ''src'' = False" "isRsyncURL ''dst'' = False" "ParseRemotePath ''src'' = None" "ParseRemotePath ''dst'' = None"
    by (code_simp)+
  then obtain p where p: "plan_sync (\<lambda>_. None) (\<lambda>_. None) (\<lambda>_ _. None :: nat option) {} [''src''] ''dst'' plain_options = Ok p"
    and batch: "sp_batch p"
    by (auto simp: plan_sync_def plain_options_def toSyncRawRules_def tcpNetwork_def resolveLocalAddr_def
        pick_destination_def is_daemon_def Let_def)
  from plan_sync_consistent [OF p] p batch show ?thesis by blast
qed

definition attribute_flags :: "string list" where
  "attribute_flags =
     [''--archive'', ''-a'', ''--perms'', ''-p'', ''--times'', ''-t'', ''--owner'', ''-o'', ''--group'', ''-g'', ''--links'', ''-l'',
      ''--hard-links'', ''-H'']"

definition forwarded_words :: "string list" where
  "forwarded_words =
     [''grsync'', ''--server'', ''--dry-run'', ''--itemize-changes'', ''--verbose'', ''--progress'', ''--stats'', ''--partial'',
      ''--append'', ''--append-verify'']"

lemma optional_words:
  "flag \<in> set (butlast ([w1, w2] @ (if b3 then [w3] else []) @ (if b4 then [w4] else []) @ (if b5 then [w5] else []) @
       (if b6 then [w6] else []) @ (if b7 then [w7] else []) @ (if b8 then [dir] else if b9 then [w9] else []) @
       (if b10 then [w10] else []) @ (if b11 then [w11] else []) @ [path])) \<Longrightarrow>
     flag = dir \<or> flag \<in> set [w1, w2, w3, w4, w5, w6, w7, w9, w10, w11]"
  by (auto simp: butlast_append split: if_splits)

lemma remote_args_flags:
  "flag \<in> set (butlast (remote_args ropts path)) \<Longrightarrow>
     flag = ''--partial-dir='' @ ro_PartialDir ropts \<or> flag \<in> set forwarded_words"
  unfolding remote_args_def forwarded_words_def by (rule optional_words)

text \<open>
  C27. A push over SSH does not carry the attribute flags: whatever the options, the remote command line
  contains none of \<open>--archive\<close>, \<open>--perms\<close>, \<open>--times\<close>, \<open>--owner\<close>, \<open>--group\<close>, \<open>--links\<close>, \<open>--hard-links\<close> or their
  shorthands before its path, and two pushes that differ only in these options run the same remote command.
\<close>

theorem remote_push_drops_attributes:
  "list_all (\<lambda>flag. flag \<notin> set (butlast (remote_args ropts path))) attribute_flags \<and>
   remote_args (effectiveReceiverOptions (opts\<lparr>o_archive := a, o_perms := p, o_times := t, o_owner := w, o_group := g,
       o_links := l, o_hardLinks := h\<rparr>)) path
     = remote_args (effectiveReceiverOptions opts) path"
proof
  have "list_all (\<lambda>flag. flag \<notin> set forwarded_words \<and> \<not> hasPrefix flag ''--partial-dir='') attribute_flags"
    by code_simp
  then show "list_all (\<lambda>flag. flag \<notin> set (butlast (remote_args ropts path))) attribute_flags"
    by (rule list.pred_mono_strong) (use remote_args_flags in \<open>fastforce simp: hasPrefix_conv simp del: append.simps\<close>)
qed (simp add: effectiveReceiverOptions_def)

text \<open>Words are distinct when sorting them by a number computed from their letters gives increasing numbers.\<close>

definition word_code :: "string \<Rightarrow> int" where
  "word_code w = foldl (\<lambda>n c. (31 * n + of_char c) mod 65536) (int (length w)) w"

fun increasing :: "int list \<Rightarrow> bool" where
  "increasing (x # y # zs) \<longleftrightarrow> x < y \<and> increasing (y # zs)"
| "increasing _ \<longleftrightarrow> True"

lemma increasing_distinct: "increasing xs \<Longrightarrow> distinct xs \<and> (\<forall>x \<in> set (tl xs). hd xs < x)"
  by (induction xs rule: increasing.induct) auto

lemma distinct_words: "increasing (sort (map word_code ws)) \<Longrightarrow> distinct ws"
  using increasing_distinct [of "sort (map word_code ws)"] by (simp add: distinct_map)

lemma butlast_two: "length xs \<ge> 2 \<Longrightarrow> xs \<noteq> [] \<and> butlast xs \<noteq> []"
  by (metis length_butlast list.size(3) not_numeral_le_zero One_nat_def Suc_1 diff_is_0_eq not_less_eq_eq le_refl)

lemma validated_dispatch:
  assumes "validate_args opts args = None"
  shows "\<exists>c. dispatch opts args = Some c \<and> (\<forall>srcs dest. c = RunSync srcs dest \<longrightarrow> srcs \<noteq> [] \<and> args = srcs @ [dest])"
proof (cases "o_daemon opts \<or> o_server opts \<or> o_readBatch opts \<noteq> []")
  case True
  then consider "o_daemon opts" | "\<not> o_daemon opts" "length args = 1"
    using assms by (auto simp: validate_args_def split: if_splits)
  then show ?thesis
  proof cases
    case 1
    then show ?thesis by (simp add: dispatch_def)
  next
    case 2
    then obtain a where "args = [a]" by (auto simp: length_Suc_conv)
    with 2 True show ?thesis by (auto simp: dispatch_def)
  qed
next
  case False
  with assms have "length args \<ge> 2" by (simp add: validate_args_def split: if_splits)
  then have two: "args \<noteq> []" "butlast args \<noteq> []" using butlast_two by auto
  with False have "dispatch opts args = Some (RunSync (butlast args) (last args))" by (simp add: dispatch_def)
  with two show ?thesis by simp
qed

text \<open>
  The command line is well defined: no flag and no shorthand is registered twice and every
  shorthand is one letter, so that registering the flags does not panic; and an accepted command line is
  always dispatched, a sync with at least one source.
\<close>

theorem command_line_ok:
  "distinct (map fst (concat (map snd flag_groups))) \<and>
   distinct (filter (\<lambda>s. s \<noteq> []) (map (fst \<circ> snd) (concat (map snd flag_groups)))) \<and>
   list_all (\<lambda>(name, short, kind). name \<noteq> [] \<and> length short \<le> 1) (concat (map snd flag_groups)) \<and>
   (\<forall>opts args. validate_args opts args = None \<longrightarrow>
      (\<exists>c. dispatch opts args = Some c \<and> (\<forall>srcs dest. c = RunSync srcs dest \<longrightarrow> srcs \<noteq> [] \<and> args = srcs @ [dest])))"
proof (intro conjI allI impI)
  fix opts args
  assume ok: "validate_args opts args = None"
  then show "\<exists>c. dispatch opts args = Some c \<and> (\<forall>srcs dest. c = RunSync srcs dest \<longrightarrow> srcs \<noteq> [] \<and> args = srcs @ [dest])"
    by (rule validated_dispatch)
next
  show "distinct (map fst (concat (map snd flag_groups)))" by (rule distinct_words) code_simp
  show "distinct (filter (\<lambda>s. s \<noteq> []) (map (fst \<circ> snd) (concat (map snd flag_groups))))" by (rule distinct_words) code_simp
  show "list_all (\<lambda>(name, short, kind). name \<noteq> [] \<and> length short \<le> 1) (concat (map snd flag_groups))" by code_simp
qed

theorem command_line_ok_witness:
  "\<exists>c. dispatch plain_options [''a'', ''b'', ''c''] = Some c \<and>
     (\<forall>srcs dest. c = RunSync srcs dest \<longrightarrow> srcs \<noteq> [] \<and> [''a'', ''b'', ''c''] = srcs @ [dest])"
proof -
  have "validate_args plain_options [''a'', ''b'', ''c''] = None" by (simp add: validate_args_def plain_options_def)
  with command_line_ok show ?thesis by blast
qed

end
