(* ===== verification/Config.thy ===== *)
theory Config
  imports GoStrings "HOL-Library.AList"
begin

text \<open>
  \<open>internal/daemon/config.go\<close>: parsing an rsyncd.conf into its modules. The map of modules is an
  association list in the order of the sections; a file's content is a string. Error messages are
  constructors with the line number and the offending text. \<open>strings.ToLower\<close> is modelled on ASCII,
  which decides every comparison with the keywords.
\<close>

section \<open>Modules\<close>

record Module =
  m_Name :: string
  m_Path :: string
  m_ReadOnly :: bool
  m_List :: bool
  m_Comment :: string
  m_Exclude :: "string list"
  m_AuthUsers :: "string list"
  m_SecretsFile :: string
  m_MaxConnections :: int

type_synonym Config = "(string \<times> Module) list"

definition moduleDefaults :: Module where
  "moduleDefaults =
     \<lparr>m_Name = [], m_Path = [], m_ReadOnly = True, m_List = True, m_Comment = [], m_Exclude = [],
      m_AuthUsers = [], m_SecretsFile = [], m_MaxConnections = 0\<rparr>"

datatype line_error =
    MissingBracket string
  | EmptyModuleName string
  | MissingEquals string
  | EmptyParameterName string
  | BadBoolean string string
  | BadInteger string
  | DuplicateModule string

text \<open>A module without a path is reported by name; which one, when there are several, depends on Go's
  map order, so the model leaves the name out.\<close>

datatype config_error =
    ConfigLineTooLong
  | AtLine nat line_error
  | ModuleWithoutPath

section \<open>Lines and parameters\<close>

fun join_continued :: "string \<Rightarrow> string list \<Rightarrow> string list" where
  "join_continued cur [] = (if length cur > 0 then [cur] else [])"
| "join_continued cur (t # ts) =
     (if hasSuffix t [CHR 0x5C] then join_continued (cur @ trimSuffix t [CHR 0x5C]) ts
      else (cur @ t) # join_continued [] ts)"

definition readLogicalLines :: "string \<Rightarrow> config_error + string list" where
  "readLogicalLines content =
     (case scanLines content of (ls, ok) \<Rightarrow> if ok then Ok (join_continued [] ls) else Fail ConfigLineTooLong)"

definition parseSectionHeader :: "string \<Rightarrow> line_error + string" where
  "parseSectionHeader line =
     (if \<not> hasSuffix line '']'' then Fail (MissingBracket line)
      else let name = trimSpace (go_slice line 1 (length line - 1))
           in if name = [] then Fail (EmptyModuleName line) else Ok name)"

definition parseParamLine :: "string \<Rightarrow> line_error + (string \<times> string)" where
  "parseParamLine line =
     (case indexByte line CHR ''='' of
        None \<Rightarrow> Fail (MissingEquals line)
      | Some i \<Rightarrow>
          (let key = toLower (trimSpace (take i line)); value = trimSpace (drop (i + 1) line)
           in if key = [] then Fail (EmptyParameterName line) else Ok (key, value)))"

definition parseBool :: "string \<Rightarrow> bool option" where
  "parseBool value =
     (let v = toLower value in
      if v = ''true'' \<or> v = ''yes'' \<or> v = ''1'' then Some True
      else if v = ''false'' \<or> v = ''no'' \<or> v = ''0'' then Some False
      else None)"

definition splitCommaOrSpace :: "string \<Rightarrow> string list" where
  "splitCommaOrSpace value = fieldsFunc (\<lambda>c. c = CHR '','' \<or> c = CHR '' '' \<or> c = CHR 0x09) value"

definition applyParam :: "Module \<Rightarrow> string \<Rightarrow> string \<Rightarrow> line_error + Module" where
  "applyParam m key value =
     (if key = ''path'' then Ok (m\<lparr>m_Path := value\<rparr>)
      else if key = ''comment'' then Ok (m\<lparr>m_Comment := value\<rparr>)
      else if key = ''read only''
      then (case parseBool value of None \<Rightarrow> Fail (BadBoolean key value) | Some b \<Rightarrow> Ok (m\<lparr>m_ReadOnly := b\<rparr>))
      else if key = ''list''
      then (case parseBool value of None \<Rightarrow> Fail (BadBoolean key value) | Some b \<Rightarrow> Ok (m\<lparr>m_List := b\<rparr>))
      else if key = ''exclude'' then Ok (m\<lparr>m_Exclude := GoStrings.fields value\<rparr>)
      else if key = ''auth users'' then Ok (m\<lparr>m_AuthUsers := splitCommaOrSpace value\<rparr>)
      else if key = ''secrets file'' then Ok (m\<lparr>m_SecretsFile := value\<rparr>)
      else if key = ''max connections''
      then (case atoi value of None \<Rightarrow> Fail (BadInteger value) | Some n \<Rightarrow> Ok (m\<lparr>m_MaxConnections := n\<rparr>))
      else Ok m)"

section \<open>The parser\<close>

record parse_state =
  ps_modules :: Config
  ps_defaults :: Module
  ps_current :: "Module option"

definition flush :: "parse_state \<Rightarrow> Config" where
  "flush st =
     (case ps_current st of None \<Rightarrow> ps_modules st | Some m \<Rightarrow> AList.update (m_Name m) m (ps_modules st))"

definition config_line :: "string \<Rightarrow> parse_state \<Rightarrow> line_error + parse_state" where
  "config_line raw st =
     (let line = trimSpace raw in
      if line = [] \<or> hasPrefix line ''#'' then Ok st
      else if hasPrefix line ''[''
      then res_bind (parseSectionHeader line) (\<lambda>name.
             let mods = flush st in
             if map_of mods name \<noteq> None then Fail (DuplicateModule name)
             else Ok (st\<lparr>ps_modules := mods, ps_current := Some ((ps_defaults st)\<lparr>m_Name := name\<rparr>)\<rparr>))
      else res_bind (parseParamLine line) (\<lambda>(key, value).
             case ps_current st of
               None \<Rightarrow> res_bind (applyParam (ps_defaults st) key value) (\<lambda>m. Ok (st\<lparr>ps_defaults := m\<rparr>))
             | Some m \<Rightarrow> res_bind (applyParam m key value) (\<lambda>m. Ok (st\<lparr>ps_current := Some m\<rparr>))))"

fun config_lines :: "nat \<Rightarrow> string list \<Rightarrow> parse_state \<Rightarrow> config_error + parse_state" where
  "config_lines lineNo [] st = Ok st"
| "config_lines lineNo (raw # raws) st =
     (case config_line raw st of
        Inl e \<Rightarrow> Fail (AtLine lineNo e)
      | Inr st' \<Rightarrow> config_lines (Suc lineNo) raws st')"

definition parse_start :: parse_state where
  "parse_start = \<lparr>ps_modules = [], ps_defaults = moduleDefaults, ps_current = None\<rparr>"

definition ParseConfig :: "string \<Rightarrow> config_error + Config" where
  "ParseConfig content =
     res_bind (readLogicalLines content) (\<lambda>ls.
     res_bind (config_lines 1 ls parse_start) (\<lambda>st.
       let mods = flush st
       in if list_ex (\<lambda>(name, m). m_Path m = []) mods then Fail ModuleWithoutPath else Ok mods))"

section \<open>What every accepted file gives\<close>

definition module_ok :: "string \<Rightarrow> Module \<Rightarrow> bool" where
  "module_ok name m \<longleftrightarrow> m_Name m = name \<and> name \<noteq> [] \<and> trailing_space name = 0"

definition parse_inv :: "parse_state \<Rightarrow> bool" where
  "parse_inv st \<longleftrightarrow>
     distinct (map fst (ps_modules st)) \<and> list_all (\<lambda>(n, m). module_ok n m) (ps_modules st) \<and>
     (case ps_current st of None \<Rightarrow> True | Some m \<Rightarrow> module_ok (m_Name m) m \<and> map_of (ps_modules st) (m_Name m) = None)"

lemma applyParam_name: "applyParam m key value = Ok m' \<Longrightarrow> m_Name m' = m_Name m"
  by (auto simp: applyParam_def split: if_splits option.splits)

lemma parseSectionHeader_name: "parseSectionHeader line = Ok name \<Longrightarrow> name \<noteq> [] \<and> trailing_space name = 0"
  by (auto simp: parseSectionHeader_def trimSpace_def Let_def split: if_splits)

lemma update_new: "map_of xs k = None \<Longrightarrow> AList.update k v xs = xs @ [(k, v)]"
  by (induction xs) (auto split: if_splits)

lemma flush_inv: "parse_inv st \<Longrightarrow> distinct (map fst (flush st)) \<and> list_all (\<lambda>(n, m). module_ok n m) (flush st)"
  by (auto simp: parse_inv_def flush_def update_new map_of_eq_None_iff split: option.splits)

lemma config_line_inv:
  assumes "parse_inv st" and "config_line raw st = Ok st'"
  shows "parse_inv st'"
proof -
  let ?line = "trimSpace raw"
  consider "st' = st"
    | name where "parseSectionHeader ?line = Ok name" "map_of (flush st) name = None"
        "st' = st\<lparr>ps_modules := flush st, ps_current := Some ((ps_defaults st)\<lparr>m_Name := name\<rparr>)\<rparr>"
    | d where "ps_current st = None" "st' = st\<lparr>ps_defaults := d\<rparr>"
    | m k v m' where "ps_current st = Some m" "applyParam m k v = Ok m'" "st' = st\<lparr>ps_current := Some m'\<rparr>"
  proof (cases "?line = [] \<or> hasPrefix ?line ''#''")
    case True
    with assms(2) that(1) show ?thesis by (simp add: config_line_def Let_def)
  next
    case blank: False
    show ?thesis
    proof (cases "hasPrefix ?line ''[''")
      case True
      with blank assms(2) that(2) show ?thesis
        by (auto simp: config_line_def Let_def res_bind_Ok_conv split: if_splits)
    next
      case False
      with blank assms(2) that(3,4) show ?thesis
        by (cases "ps_current st") (auto simp: config_line_def Let_def res_bind_Ok_conv)
    qed
  qed
  then show ?thesis
  proof cases
    case (2 name)
    with flush_inv [OF assms(1)] parseSectionHeader_name [OF 2(1)] show ?thesis
      by (simp add: parse_inv_def module_ok_def)
  next
    case 3
    with assms(1) show ?thesis by (simp add: parse_inv_def)
  next
    case (4 m)
    with assms(1) applyParam_name [OF 4(2)] show ?thesis by (simp add: parse_inv_def module_ok_def)
  qed (use assms in simp)
qed

lemma config_lines_inv: "parse_inv st \<Longrightarrow> config_lines n ls st = Ok st' \<Longrightarrow> parse_inv st'"
  by (induction n ls st rule: config_lines.induct) (auto split: sum.splits intro: config_line_inv)

text \<open>
  Every rsyncd.conf that is accepted gives modules with distinct, nonempty, trimmed names, each
  stored under its own name and with a path set.
\<close>

theorem ParseConfig_wf:
  assumes "ParseConfig content = Ok cfg"
  shows "distinct (map fst cfg) \<and>
    (\<forall>(name, m) \<in> set cfg. m_Name m = name \<and> name \<noteq> [] \<and> trailing_space name = 0 \<and> m_Path m \<noteq> [])"
proof -
  from assms obtain ls st where "config_lines 1 ls parse_start = Ok st" and "cfg = flush st"
    and "\<not> list_ex (\<lambda>(name, m). m_Path m = []) cfg"
    by (auto simp: ParseConfig_def res_bind_Ok_conv Let_def split: if_splits)
  moreover have "parse_inv parse_start" by (simp add: parse_inv_def parse_start_def)
  ultimately show ?thesis
    using flush_inv [OF config_lines_inv, of parse_start 1 ls st]
    by (auto simp: list_ex_iff list_all_iff module_ok_def)
qed

theorem ParseConfig_wf_witness:
  "\<exists>cfg. ParseConfig (''read only = no'' @ [CHR 0x0A] @ ''[a]'' @ [CHR 0x0A] @ ''path = /srv'' @ [CHR 0x0A]) = Ok cfg \<and>
     distinct (map fst cfg) \<and>
     (\<forall>(name, m) \<in> set cfg. m_Name m = name \<and> name \<noteq> [] \<and> trailing_space name = 0 \<and> m_Path m \<noteq> [])"
proof -
  have "readLogicalLines (''read only = no'' @ [CHR 0x0A] @ ''[a]'' @ [CHR 0x0A] @ ''path = /srv'' @ [CHR 0x0A])
    = Ok [''read only = no'', ''[a]'', ''path = /srv'']"
    by (simp add: readLogicalLines_def scan_lines_simps)
  moreover have "config_lines 1 [''read only = no'', ''[a]'', ''path = /srv''] parse_start = Ok
    \<lparr>ps_modules = [], ps_defaults = moduleDefaults\<lparr>m_ReadOnly := False\<rparr>,
     ps_current = Some (moduleDefaults\<lparr>m_Name := ''a'', m_Path := ''/srv'', m_ReadOnly := False\<rparr>)\<rparr>"
    by code_simp
  ultimately have "ParseConfig (''read only = no'' @ [CHR 0x0A] @ ''[a]'' @ [CHR 0x0A] @ ''path = /srv'' @ [CHR 0x0A])
    = Ok [(''a'', moduleDefaults\<lparr>m_Name := ''a'', m_Path := ''/srv'', m_ReadOnly := False\<rparr>)]"
    by (simp add: ParseConfig_def flush_def)
  then show ?thesis by (intro exI conjI ParseConfig_wf)
qed

end
