(* ===== verification/Wire.thy ===== *)
theory Wire
  imports Prelude
begin

text \<open>
  Byte streams. A reader is the list of the bytes (or characters) still to come, ending where
  the peer closes the connection; a writer records what was accepted and may fail after a number
  of them. The locale \<open>wire_codec\<close> is the contract between a message format and the code that
  sends and receives sequences of messages; the frame format and the daemon's text lines
  interpret it.
\<close>

named_theorems wire_simps

section \<open>Writers\<close>

record 'c writer =
  w_written :: "'c list"
  w_limit :: "nat option"

text \<open>
  \<open>io.Writer.Write\<close>: an error once more than \<open>w_limit\<close> elements would have been accepted, with the
  prefix that fits written (a short write always comes with an error).
\<close>

definition write_all :: "'c writer \<Rightarrow> 'c list \<Rightarrow> 'c writer \<times> bool" where
  "write_all w cs =
     (case w_limit w of
        None \<Rightarrow> (w\<lparr>w_written := w_written w @ cs\<rparr>, True)
      | Some l \<Rightarrow>
          (if length (w_written w) + length cs \<le> l
           then (w\<lparr>w_written := w_written w @ cs\<rparr>, True)
           else (w\<lparr>w_written := w_written w @ take (l - length (w_written w)) cs\<rparr>, False)))"

definition open_writer :: "'c list \<Rightarrow> 'c writer" where
  "open_writer cs = \<lparr>w_written = cs, w_limit = None\<rparr>"

lemma write_all_open [wire_simps]: "write_all (open_writer cs) ds = (open_writer (cs @ ds), True)"
  by (simp add: write_all_def open_writer_def)

lemma open_writer_written [simp]: "w_written (open_writer cs) = cs"
  by (simp add: open_writer_def)

lemma write_all_prefix:
  "write_all w cs = (w', ok) \<Longrightarrow>
     \<exists>n. w_written w' = w_written w @ take n cs \<and> w_limit w' = w_limit w \<and> (ok \<longrightarrow> take n cs = cs)"
  by (auto simp: write_all_def split: option.splits if_splits
      intro: exI [of _ "length cs"] exI)

section \<open>Readers\<close>

datatype read_error = EOF | UnexpectedEOF

text \<open>\<open>io.ReadFull\<close> into a buffer of \<open>n\<close> bytes.\<close>

definition read_full :: "nat \<Rightarrow> 'c list \<Rightarrow> read_error + ('c list \<times> 'c list)" where
  "read_full n s =
     (if n \<le> length s then Ok (take n s, drop n s)
      else if s = [] then Fail EOF else Fail UnexpectedEOF)"

lemma read_full_append [wire_simps]: "length cs = n \<Longrightarrow> read_full n (cs @ rest) = Ok (cs, rest)"
  by (auto simp: read_full_def)

lemma read_full_Ok: "read_full n s = Ok (a, b) \<longleftrightarrow> s = a @ b \<and> length a = n"
  by (auto simp: read_full_def)

lemma read_full_Fail: "(\<exists>e. read_full n s = Fail e) \<longleftrightarrow> length s < n"
  by (auto simp: read_full_def)

text \<open>A connection: what can still be read from the peer, and what was written to it.\<close>

record 'c conn =
  c_in :: "'c list"
  c_out :: "'c writer"

definition open_conn :: "'c list \<Rightarrow> 'c conn" where
  "open_conn cs = \<lparr>c_in = cs, c_out = open_writer []\<rparr>"

lemma open_conn_simps [simp]:
  "c_in (open_conn cs) = cs"
  "c_out (open_conn cs) = open_writer []"
  by (simp_all add: open_conn_def)

section \<open>Sequences of messages\<close>

fun read_many :: "('c list \<Rightarrow> 'e + ('m \<times> 'c list)) \<Rightarrow> nat \<Rightarrow> 'c list \<Rightarrow> 'e + ('m list \<times> 'c list)" where
  "read_many dec 0 s = Ok ([], s)"
| "read_many dec (Suc n) s =
     (case dec s of
        Inl e \<Rightarrow> Fail e
      | Inr (m, s') \<Rightarrow>
          (case read_many dec n s' of Inl e \<Rightarrow> Fail e | Inr (ms, s'') \<Rightarrow> Ok (m # ms, s'')))"

locale wire_codec =
  fixes enc :: "'m \<Rightarrow> 'c list"
    and dec :: "'c list \<Rightarrow> 'e + ('m \<times> 'c list)"
    and valid :: "'m \<Rightarrow> bool"
  assumes dec_enc: "valid m \<Longrightarrow> dec (enc m @ rest) = Ok (m, rest)"
    and enc_nonempty: "enc m \<noteq> []"
begin

lemma read_many_enc:
  "list_all valid ms \<Longrightarrow> read_many dec (length ms) (concat (map enc ms) @ rest) = Ok (ms, rest)"
  by (induction ms) (simp_all add: dec_enc)

lemma enc_prefix_free: "valid m \<Longrightarrow> valid n \<Longrightarrow> enc m @ r = enc n @ t \<Longrightarrow> m = n \<and> r = t"
  by (metis dec_enc Inr_inject prod.inject)

lemma stream_injective:
  "list_all valid ms \<Longrightarrow> list_all valid ns \<Longrightarrow> concat (map enc ms) = concat (map enc ns) \<Longrightarrow> ms = ns"
proof (induction ms arbitrary: ns)
  case Nil
  then show ?case using enc_nonempty by (cases ns) auto
next
  case (Cons m ms)
  from Cons.prems(3) obtain n ns' where ns: "ns = n # ns'"
    using enc_nonempty by (cases ns) auto
  with Cons.prems have "m = n \<and> concat (map enc ms) = concat (map enc ns')"
    by (intro enc_prefix_free) auto
  with Cons ns show ?case by auto
qed

end

text \<open>A codec whose decoder accepts nothing but encodings.\<close>

locale canonical_codec = wire_codec +
  assumes enc_dec: "dec s = Ok (m, rest) \<Longrightarrow> valid m \<and> s = enc m @ rest"
begin

lemma dec_iff: "dec s = Ok (m, rest) \<longleftrightarrow> valid m \<and> s = enc m @ rest"
  using dec_enc enc_dec by blast

lemma read_many_iff:
  "read_many dec n s = Ok (ms, rest)
     \<longleftrightarrow> length ms = n \<and> list_all valid ms \<and> s = concat (map enc ms) @ rest"
proof (induction n arbitrary: s ms)
  case 0
  then show ?case by auto
next
  case (Suc n)
  have "read_many dec (Suc n) s = Ok (ms, rest)
      \<longleftrightarrow> (\<exists>m s' ms'. dec s = Ok (m, s') \<and> read_many dec n s' = Ok (ms', rest) \<and> ms = m # ms')"
    by (auto split: sum.splits prod.splits)
  also have "\<dots> \<longleftrightarrow> length ms = Suc n \<and> list_all valid ms \<and> s = concat (map enc ms) @ rest"
    by (cases ms) (auto simp: dec_iff Suc)
  finally show ?case .
qed

end

end
