(* ===== verification/Frame.thy ===== *)
theory Frame
  imports Wire
begin

unbundle bit_operations_syntax

text \<open>
  \<open>internal/transport/frame.go\<close> and \<open>handshake.go\<close>: the length-prefixed frames every transfer is
  made of, and the two sides of the version handshake that precedes it over a remote shell.
\<close>

section \<open>Frames\<close>

type_synonym frameType = byte

definition FrameHello :: frameType where "FrameHello = 0"
definition FrameHelloAck :: frameType where "FrameHelloAck = 1"
definition FrameError :: frameType where "FrameError = 2"
definition FrameFileList :: frameType where "FrameFileList = 3"
definition FrameSignature :: frameType where "FrameSignature = 4"
definition FrameDelta :: frameType where "FrameDelta = 5"

lemmas frame_types [wire_simps] =
  FrameHello_def FrameHelloAck_def FrameError_def FrameFileList_def FrameSignature_def FrameDelta_def

definition maxFramePayload :: nat where
  "maxFramePayload = 64 * 1024 * 1024"

record frame =
  fr_Type :: frameType
  fr_Payload :: bytes

datatype frame_error =
    PayloadTooLarge nat
  | WriteHeaderFailed
  | WritePayloadFailed
  | ReadHeaderFailed read_error
  | ReadPayloadFailed read_error

text \<open>\<open>binary.BigEndian.PutUint32\<close> and \<open>Uint32\<close>.\<close>

definition put_u32 :: "u32 \<Rightarrow> bytes" where
  "put_u32 v = [ucast (drop_bit 24 v), ucast (drop_bit 16 v), ucast (drop_bit 8 v), ucast v]"

definition get_u32 :: "bytes \<Rightarrow> u32" where
  "get_u32 b = ucast (b ! 3) OR push_bit 8 (ucast (b ! 2)) OR push_bit 16 (ucast (b ! 1))
                 OR push_bit 24 (ucast (b ! 0))"

definition frame_header :: "frame \<Rightarrow> bytes" where
  "frame_header f = put_u32 (of_nat (length (fr_Payload f))) @ [fr_Type f]"

text \<open>\<open>WriteFrame\<close> takes any \<open>io.Writer\<close>: its \<open>Write\<close> is the parameter of \<open>write_frame_to\<close>.\<close>

definition write_frame_to :: "('w \<Rightarrow> bytes \<Rightarrow> 'w \<times> bool) \<Rightarrow> 'w \<Rightarrow> frame \<Rightarrow> 'w \<times> frame_error option" where
  "write_frame_to write w f =
     (if length (fr_Payload f) > maxFramePayload then (w, Some (PayloadTooLarge (length (fr_Payload f))))
      else case write w (frame_header f) of
        (w1, False) \<Rightarrow> (w1, Some WriteHeaderFailed)
      | (w1, True) \<Rightarrow>
          (if length (fr_Payload f) > 0
           then (case write w1 (fr_Payload f) of
                   (w2, False) \<Rightarrow> (w2, Some WritePayloadFailed)
                 | (w2, True) \<Rightarrow> (w2, None))
           else (w1, None)))"

definition WriteFrame :: "byte writer \<Rightarrow> frame \<Rightarrow> byte writer \<times> frame_error option" where
  "WriteFrame = write_frame_to write_all"

definition ReadFrame :: "bytes \<Rightarrow> frame_error + (frame \<times> bytes)" where
  "ReadFrame s =
     (case read_full 5 s of
        Inl e \<Rightarrow> Fail (ReadHeaderFailed e)
      | Inr (header, s1) \<Rightarrow>
          (let len = get_u32 (take 4 header) in
           if unat len > maxFramePayload then Fail (PayloadTooLarge (unat len))
           else if len > 0
           then (case read_full (unat len) s1 of
                   Inl e \<Rightarrow> Fail (ReadPayloadFailed e)
                 | Inr (payload, s2) \<Rightarrow> Ok (\<lparr>fr_Type = header ! 4, fr_Payload = payload\<rparr>, s2))
           else Ok (\<lparr>fr_Type = header ! 4, fr_Payload = []\<rparr>, s1)))"

section \<open>The frame format as a codec\<close>

definition frame_bytes :: "frame \<Rightarrow> bytes" where
  "frame_bytes f = frame_header f @ fr_Payload f"

definition frame_valid :: "frame \<Rightarrow> bool" where
  "frame_valid f \<longleftrightarrow> length (fr_Payload f) \<le> maxFramePayload"

lemma get_put_u32 [simp]: "get_u32 (put_u32 v) = v"
proof (rule bit_word_eqI)
  fix n
  assume "n < LENGTH(32)"
  then consider "n < 8" | "8 \<le> n \<and> n < 16" | "16 \<le> n \<and> n < 24" | "24 \<le> n \<and> n < 32"
    by (simp, linarith)
  then show "bit (get_u32 (put_u32 v)) n \<longleftrightarrow> bit v n"
    by cases (auto simp: get_u32_def put_u32_def bit_simps)
qed

lemma put_get_u32: "length b = 4 \<Longrightarrow> put_u32 (get_u32 b) = b"
proof -
  assume "length b = 4"
  then have "b = [b ! 0, b ! 1, b ! 2, b ! 3]"
    by (auto simp: list_eq_iff_nth_eq less_Suc_eq nth_Cons numeral_eq_Suc split: nat.split)
  moreover have "\<not> bit (c :: byte) (8 + n)" "\<not> bit c (16 + n)" "\<not> bit c (24 + n)" for c n
    by (auto dest!: bit_imp_le_length)
  then have "put_u32 (get_u32 [b0, b1, b2, b3]) = [b0, b1, b2, b3]" for b0 b1 b2 b3
    unfolding get_u32_def put_u32_def
    by (auto intro!: bit_word_eqI simp: bit_simps)
  ultimately show ?thesis by metis
qed

lemma length_put_u32 [simp]: "length (put_u32 v) = 4"
  by (simp add: put_u32_def)

lemma length_frame_header [simp]: "length (frame_header f) = 5"
  by (simp add: frame_header_def)

lemma frame_length_word:
  "frame_valid f \<Longrightarrow> unat (of_nat (length (fr_Payload f)) :: u32) = length (fr_Payload f)"
  by (simp add: frame_valid_def maxFramePayload_def unat_of_nat)

lemma ReadFrame_frame_bytes: "frame_valid f \<Longrightarrow> ReadFrame (frame_bytes f @ rest) = Ok (f, rest)"
proof -
  assume f: "frame_valid f"
  have header: "read_full 5 (frame_bytes f @ rest) = Ok (frame_header f, fr_Payload f @ rest)"
    by (simp add: frame_bytes_def read_full_append)
  have len: "unat (get_u32 (take 4 (frame_header f))) = length (fr_Payload f)"
    and hd_type: "frame_header f ! 4 = fr_Type f"
    using frame_length_word [OF f] by (simp_all add: frame_header_def nth_append)
  have "get_u32 (take 4 (frame_header f)) > 0 \<longleftrightarrow> fr_Payload f \<noteq> []"
    using len by (metis length_greater_0_conv unat_gt_0 word_gt_0)
  then show ?thesis
    using f header len hd_type
    by (auto simp: ReadFrame_def frame_valid_def read_full_append Let_def)
qed

lemma ReadFrame_Ok:
  assumes "ReadFrame s = Ok (f, rest)"
  shows "frame_valid f \<and> s = frame_bytes f @ rest"
proof -
  from assms obtain header s1 where h: "read_full 5 s = Ok (header, s1)"
    and small: "unat (get_u32 (take 4 header)) \<le> maxFramePayload"
    and f: "fr_Type f = header ! 4" "length (fr_Payload f) = unat (get_u32 (take 4 header))"
    and s1: "s1 = fr_Payload f @ rest"
    by (auto simp: ReadFrame_def read_full_Ok Let_def word_gt_0 split: sum.splits if_splits prod.splits)
  from h have s: "s = header @ s1" and len: "length header = 5"
    by (simp_all add: read_full_Ok)
  from len have "header = take 4 header @ [header ! 4]"
    by (simp add: take_Suc_conv_app_nth [of 4 header, simplified, symmetric])
  moreover have "put_u32 (get_u32 (take 4 header)) = take 4 header"
    using len by (simp add: put_get_u32)
  ultimately have "frame_header f = header"
    using f by (simp add: frame_header_def)
  with s s1 small f show ?thesis by (simp add: frame_bytes_def frame_valid_def)
qed

interpretation fc: canonical_codec frame_bytes ReadFrame frame_valid
proof unfold_locales
  fix m rest
  assume "frame_valid m"
  then show "ReadFrame (frame_bytes m @ rest) = Ok (m, rest)"
    by (rule ReadFrame_frame_bytes)
next
  fix m
  have "length (frame_bytes m) > 0" by (simp add: frame_bytes_def)
  then show "frame_bytes m \<noteq> []" by simp
next
  fix s m rest
  assume "ReadFrame s = Ok (m, rest)"
  then show "frame_valid m \<and> s = frame_bytes m @ rest"
    by (rule ReadFrame_Ok)
qed

lemma WriteFrame_open [wire_simps]:
  "frame_valid f \<Longrightarrow> WriteFrame (open_writer cs) f = (open_writer (cs @ frame_bytes f), None)"
  by (simp add: WriteFrame_def write_frame_to_def frame_valid_def write_all_open frame_bytes_def)

fun write_frames :: "byte writer \<Rightarrow> frame list \<Rightarrow> byte writer \<times> frame_error option" where
  "write_frames w [] = (w, None)"
| "write_frames w (f # fs) =
     (case WriteFrame w f of (w', Some e) \<Rightarrow> (w', Some e) | (w', None) \<Rightarrow> write_frames w' fs)"

lemma write_frames_open [wire_simps]:
  "list_all frame_valid fs \<Longrightarrow>
     write_frames (open_writer cs) fs = (open_writer (cs @ concat (map frame_bytes fs)), None)"
  by (induction fs arbitrary: cs) (simp_all add: WriteFrame_open)

section \<open>handshake.go\<close>

definition ProtocolVersion :: byte where
  "ProtocolVersion = 1"

datatype handshake_error =
    HandshakeRead frame_error
  | HandshakeWrite frame_error
  | UnexpectedFrameType frameType
  | UnsupportedVersion bytes

definition version_ok :: "bytes \<Rightarrow> bool" where
  "version_ok p \<longleftrightarrow> length p = 1 \<and> p ! 0 = ProtocolVersion"

definition ServeHandshake :: "byte conn \<Rightarrow> byte conn \<times> handshake_error option" where
  "ServeHandshake c =
     (case ReadFrame (c_in c) of
        Inl e \<Rightarrow> (c, Some (HandshakeRead e))
      | Inr (f, rest) \<Rightarrow>
          (let c1 = c\<lparr>c_in := rest\<rparr> in
           if fr_Type f \<noteq> FrameHello then (c1, Some (UnexpectedFrameType (fr_Type f)))
           else if \<not> version_ok (fr_Payload f) then (c1, Some (UnsupportedVersion (fr_Payload f)))
           else (case WriteFrame (c_out c1) \<lparr>fr_Type = FrameHelloAck, fr_Payload = [ProtocolVersion]\<rparr> of
                   (w, e) \<Rightarrow> (c1\<lparr>c_out := w\<rparr>, map_option HandshakeWrite e))))"

definition Handshake :: "byte conn \<Rightarrow> byte conn \<times> handshake_error option" where
  "Handshake c =
     (case WriteFrame (c_out c) \<lparr>fr_Type = FrameHello, fr_Payload = [ProtocolVersion]\<rparr> of
        (w, Some e) \<Rightarrow> (c\<lparr>c_out := w\<rparr>, Some (HandshakeWrite e))
      | (w, None) \<Rightarrow>
          (let c0 = c\<lparr>c_out := w\<rparr> in
           case ReadFrame (c_in c0) of
             Inl e \<Rightarrow> (c0, Some (HandshakeRead e))
           | Inr (f, rest) \<Rightarrow>
               (let c1 = c0\<lparr>c_in := rest\<rparr> in
                if fr_Type f \<noteq> FrameHelloAck then (c1, Some (UnexpectedFrameType (fr_Type f)))
                else if \<not> version_ok (fr_Payload f)
                then (c1, Some (UnsupportedVersion (fr_Payload f)))
                else (c1, None))))"

definition hello_frame :: frame where
  "hello_frame = \<lparr>fr_Type = FrameHello, fr_Payload = [ProtocolVersion]\<rparr>"

definition ack_frame :: frame where
  "ack_frame = \<lparr>fr_Type = FrameHelloAck, fr_Payload = [ProtocolVersion]\<rparr>"

lemma handshake_frames_valid [simp]: "frame_valid hello_frame" "frame_valid ack_frame"
  by (simp_all add: frame_valid_def hello_frame_def ack_frame_def maxFramePayload_def)

lemma version_ok_conv: "version_ok p \<longleftrightarrow> p = [ProtocolVersion]"
  by (auto simp: version_ok_def length_Suc_conv)

lemma ServeHandshake_open:
  "ServeHandshake (open_conn s) = (c, None)
     \<longleftrightarrow> s = frame_bytes hello_frame @ c_in c
         \<and> c = \<lparr>c_in = c_in c, c_out = open_writer (frame_bytes ack_frame)\<rparr>"
proof
  assume "ServeHandshake (open_conn s) = (c, None)"
  then obtain f rest where "ReadFrame s = Ok (f, rest)" and "f = hello_frame"
    and "c = \<lparr>c_in = rest, c_out = open_writer (frame_bytes ack_frame)\<rparr>"
    using WriteFrame_open [of ack_frame "[]"]
    by (auto simp: ServeHandshake_def open_conn_def Let_def version_ok_conv hello_frame_def
        ack_frame_def [symmetric] intro: frame.equality split: sum.splits if_splits)
  then show "s = frame_bytes hello_frame @ c_in c
      \<and> c = \<lparr>c_in = c_in c, c_out = open_writer (frame_bytes ack_frame)\<rparr>"
    by (simp add: fc.dec_iff)
next
  assume "s = frame_bytes hello_frame @ c_in c
      \<and> c = \<lparr>c_in = c_in c, c_out = open_writer (frame_bytes ack_frame)\<rparr>"
  then obtain r where r: "s = frame_bytes hello_frame @ r"
      "c = \<lparr>c_in = r, c_out = open_writer (frame_bytes ack_frame)\<rparr>"
    by blast
  then show "ServeHandshake (open_conn s) = (c, None)"
    using WriteFrame_open [of ack_frame "[]"]
    by (simp add: ServeHandshake_def open_conn_def fc.dec_enc Let_def version_ok_conv
        ack_frame_def [symmetric]) (simp add: hello_frame_def)
qed

lemma Handshake_open:
  "w_written (c_out (fst (Handshake (open_conn s)))) = frame_bytes hello_frame"
  "snd (Handshake (open_conn s)) = None \<longleftrightarrow> (\<exists>rest. s = frame_bytes ack_frame @ rest)"
proof -
  have H: "WriteFrame (open_writer []) \<lparr>fr_Type = FrameHello, fr_Payload = [ProtocolVersion]\<rparr>
      = (open_writer (frame_bytes hello_frame), None)"
    using WriteFrame_open [of hello_frame "[]"] by (simp add: hello_frame_def [symmetric])
  show "w_written (c_out (fst (Handshake (open_conn s)))) = frame_bytes hello_frame"
    by (auto simp: Handshake_def open_conn_def H Let_def split: sum.split)
  have "snd (Handshake (open_conn s)) = None \<longleftrightarrow> (\<exists>rest. ReadFrame s = Ok (ack_frame, rest))"
    by (auto simp: Handshake_def open_conn_def H Let_def version_ok_conv ack_frame_def
        intro: frame.equality split: sum.splits)
  then show "snd (Handshake (open_conn s)) = None \<longleftrightarrow> (\<exists>rest. s = frame_bytes ack_frame @ rest)"
    by (simp add: fc.dec_iff)
qed

section \<open>Properties\<close>

text \<open>
  C19. The frame decoder accepts exactly what the encoder writes: \<open>ReadFrame\<close> returns a frame if and only if
  \<open>WriteFrame\<close>, on a writer that does not fail, writes that frame without an error and the stream starts
  with exactly the bytes it wrote; and it leaves the rest of the stream untouched. So a frame whose payload
  exceeds the limit is neither written nor read.
\<close>

theorem ReadFrame_iff:
  "ReadFrame s = Ok (f, rest) \<longleftrightarrow>
     (\<exists>w. WriteFrame (open_writer []) f = (w, None) \<and> s = w_written w @ rest)"
proof (cases "frame_valid f")
  case True
  then show ?thesis by (simp add: WriteFrame_open fc.dec_iff)
next
  case False
  then have "WriteFrame (open_writer []) f = (open_writer [], Some (PayloadTooLarge (length (fr_Payload f))))"
    by (simp add: WriteFrame_def write_frame_to_def frame_valid_def)
  with False show ?thesis by (simp add: fc.dec_iff)
qed

text \<open>
  Framing is transparent: whatever frames one side writes in a row are the frames the other
  side reads, in order, with nothing left over.
\<close>

theorem frames_roundtrip:
  assumes "list_all frame_valid fs"
  shows "read_many ReadFrame (length fs) (w_written (fst (write_frames (open_writer []) fs)))
           = Ok (fs, [])"
  using fc.read_many_enc [OF assms, of "[]"] by (simp add: write_frames_open [OF assms])

theorem frames_roundtrip_witness:
  "read_many ReadFrame (length [hello_frame, \<lparr>fr_Type = FrameDelta, fr_Payload = []\<rparr>])
     (w_written (fst (write_frames (open_writer [])
        [hello_frame, \<lparr>fr_Type = FrameDelta, fr_Payload = []\<rparr>])))
   = Ok ([hello_frame, \<lparr>fr_Type = FrameDelta, fr_Payload = []\<rparr>], [])"
  by (rule frames_roundtrip) (simp add: frame_valid_def hello_frame_def maxFramePayload_def)

text \<open>
  A torn frame is always an error: no strict prefix of a frame's bytes, which is what a peer
  that dies in the middle of a write leaves, is read as a frame of any kind.
\<close>

theorem torn_frame_rejected:
  assumes "frame_valid f" and "n < length (frame_bytes f)"
  shows "\<exists>e. ReadFrame (take n (frame_bytes f)) = Fail e"
proof (cases "ReadFrame (take n (frame_bytes f))")
  case (Inr r)
  then obtain g t where g: "frame_valid g" "take n (frame_bytes f) = frame_bytes g @ t"
    by (cases r) (auto simp: fc.dec_iff)
  then have "frame_bytes g @ (t @ drop n (frame_bytes f)) = frame_bytes f @ []"
    by (metis append.assoc append_Nil2 append_take_drop_id)
  then have "g = f" using fc.enc_prefix_free g(1) assms(1) by blast
  then have "length (frame_bytes f) \<le> n"
    using arg_cong [OF g(2), of length] assms(2) by simp
  with assms(2) show ?thesis by simp
qed simp

theorem torn_frame_rejected_witness:
  "\<exists>e. ReadFrame (take 5 (frame_bytes hello_frame)) = Fail e"
  by (rule torn_frame_rejected) (simp_all add: frame_bytes_def hello_frame_def frame_valid_def maxFramePayload_def)

text \<open>
  The allocation bound: a header whose length field exceeds 64 MiB is refused on the header
  alone, whatever follows it and whatever its type is, so no payload buffer is ever larger.
\<close>

theorem oversized_frame_rejected:
  assumes "maxFramePayload < unat v"
  shows "ReadFrame (put_u32 v @ t # s) = Fail (PayloadTooLarge (unat v))"
  using assms read_full_append [of "put_u32 v @ [t]" 5 s] by (simp add: ReadFrame_def)

theorem oversized_frame_rejected_witness:
  "ReadFrame (put_u32 67108865 @ 5 # [1, 2]) = Fail (PayloadTooLarge (unat (67108865 :: u32)))"
  by (rule oversized_frame_rejected) (simp add: maxFramePayload_def)

text \<open>
  C28. The handshake: the server succeeds exactly on a stream that starts with a hello frame of
  its own protocol version, and then has written nothing but the acknowledgement; the client writes
  the same hello whatever comes back and succeeds exactly on that acknowledgement.
  So a client and a server of this version always agree.
\<close>

theorem handshake_correct:
  "((\<exists>c. ServeHandshake (open_conn s) = (c, None)) \<longleftrightarrow> (\<exists>rest. s = frame_bytes hello_frame @ rest)) \<and>
   ((\<exists>c. Handshake (open_conn s) = (c, None)) \<longleftrightarrow> (\<exists>rest. s = frame_bytes ack_frame @ rest)) \<and>
   (let hello = w_written (c_out (fst (Handshake (open_conn s))));
        reply = w_written (c_out (fst (ServeHandshake (open_conn hello))))
    in snd (ServeHandshake (open_conn hello)) = None \<and> snd (Handshake (open_conn reply)) = None)"
proof -
  let ?srv = "\<lparr>c_in = [], c_out = open_writer (frame_bytes ack_frame)\<rparr>"
  have serve: "ServeHandshake (open_conn (frame_bytes hello_frame)) = (?srv, None)"
    by (simp add: ServeHandshake_open)
  have "(\<exists>c. ServeHandshake (open_conn s) = (c, None)) \<longleftrightarrow> (\<exists>rest. s = frame_bytes hello_frame @ rest)"
    by (auto simp: ServeHandshake_open intro: exI [of _ "\<lparr>c_in = _, c_out = _\<rparr>"])
  moreover have "(\<exists>c. Handshake (open_conn s) = (c, None)) \<longleftrightarrow> (\<exists>rest. s = frame_bytes ack_frame @ rest)"
    using Handshake_open(2) [of s] by (metis prod.collapse snd_conv)
  ultimately show ?thesis
    by (simp add: Let_def Handshake_open serve)
qed

end
