(* ===== verification/Prog.thy ===== *)
theory Prog
  imports Prelude
begin

text \<open>
  Go's sequential code on an explicit state: a program takes the state and returns the state it
  leaves together with an error or a value, so that what happened before an error is not lost.
  The locale \<open>frame_rel\<close> is the contract of a relation every call respects between the state before
  and after it; whatever is composed of such calls respects it too.
\<close>

type_synonym ('s, 'e, 'a) prog = "'s \<Rightarrow> 's \<times> ('e + 'a)"

named_theorems prog_simps

definition ret :: "'a \<Rightarrow> ('s, 'e, 'a) prog" where
  "ret x s = (s, Ok x)"

definition throw :: "'e \<Rightarrow> ('s, 'e, 'a) prog" where
  "throw e s = (s, Fail e)"

definition bind :: "('s, 'e, 'a) prog \<Rightarrow> ('a \<Rightarrow> ('s, 'e, 'b) prog) \<Rightarrow> ('s, 'e, 'b) prog" where
  "bind m f s = (case m s of (s', Inl e) \<Rightarrow> (s', Fail e) | (s', Inr x) \<Rightarrow> f x s')"

text \<open>\<open>err := m\<close> with the error inspected afterwards.\<close>

definition attempt :: "('s, 'e, 'a) prog \<Rightarrow> ('s, 'f, 'e + 'a) prog" where
  "attempt m s = (case m s of (s', r) \<Rightarrow> (s', Ok r))"

definition wrap_err :: "('e \<Rightarrow> 'f) \<Rightarrow> ('s, 'e, 'a) prog \<Rightarrow> ('s, 'f, 'a) prog" where
  "wrap_err f m s = (case m s of (s', r) \<Rightarrow> (s', map_sum f id r))"

text \<open>A call that only returns an error, or \<open>None\<close> for Go's \<open>nil\<close>.\<close>

definition of_err :: "('s \<Rightarrow> 's \<times> 'e option) \<Rightarrow> ('s, 'e, unit) prog" where
  "of_err m s = (case m s of (s', None) \<Rightarrow> (s', Ok ()) | (s', Some e) \<Rightarrow> (s', Fail e))"

text \<open>Running a program on a part of the state.\<close>

definition on_part :: "('t \<Rightarrow> 's) \<Rightarrow> ('s \<Rightarrow> 't \<Rightarrow> 't) \<Rightarrow> ('s, 'e, 'a) prog \<Rightarrow> ('t, 'e, 'a) prog" where
  "on_part get put m t = (case m (get t) of (s', r) \<Rightarrow> (put s' t, r))"

definition get_state :: "('s \<Rightarrow> 'a) \<Rightarrow> ('s, 'e, 'a) prog" where
  "get_state f s = (s, Ok (f s))"

definition modify :: "('s \<Rightarrow> 's) \<Rightarrow> ('s, 'e, unit) prog" where
  "modify f s = (f s, Ok ())"

fun each :: "('a \<Rightarrow> ('s, 'e, unit) prog) \<Rightarrow> 'a list \<Rightarrow> ('s, 'e, unit) prog" where
  "each f [] s = (s, Ok ())"
| "each f (x # xs) s = (case f x s of (s', Inl e) \<Rightarrow> (s', Fail e) | (s', Inr _) \<Rightarrow> each f xs s')"

fun collect :: "('a \<Rightarrow> ('s, 'e, 'b list) prog) \<Rightarrow> 'a list \<Rightarrow> ('s, 'e, 'b list) prog" where
  "collect f [] s = (s, Ok [])"
| "collect f (x # xs) s =
     (case f x s of
        (s', Inl e) \<Rightarrow> (s', Fail e)
      | (s', Inr ys) \<Rightarrow> (case collect f xs s' of (s'', Inl e) \<Rightarrow> (s'', Fail e) | (s'', Inr zs) \<Rightarrow> (s'', Ok (ys @ zs))))"

abbreviation skip :: "('s, 'e, unit) prog" where
  "skip \<equiv> ret ()"

abbreviation seq :: "('s, 'e, unit) prog \<Rightarrow> ('s, 'e, 'b) prog \<Rightarrow> ('s, 'e, 'b) prog" where
  "seq m n \<equiv> bind m (\<lambda>_. n)"

lemma bind_Ok [prog_simps]: "m s = (s', Ok x) \<Longrightarrow> bind m f s = f x s'"
  by (simp add: bind_def)

lemma bind_Fail [prog_simps]: "m s = (s', Fail e) \<Longrightarrow> bind m f s = (s', Fail e)"
  by (simp add: bind_def)

lemma prog_run [prog_simps]:
  "ret x s = (s, Ok x)" "throw e s = (s, Fail e)" "get_state g s = (s, Ok (g s))" "modify h s = (h s, Ok ())"
  by (simp_all add: ret_def throw_def get_state_def modify_def)

lemma bind_ret [prog_simps]: "bind (ret x) f = f x"
  by (simp add: bind_def ret_def fun_eq_iff)

lemma bind_Ok_iff:
  "bind m f s = (s'', Ok y) \<longleftrightarrow> (\<exists>s' x. m s = (s', Ok x) \<and> f x s' = (s'', Ok y))"
  by (auto simp: bind_def split: prod.splits sum.splits)

lemma attempt_run: "attempt m s = (fst (m s), Ok (snd (m s)))"
  by (simp add: attempt_def split: prod.split)

lemma wrap_err_run: "wrap_err g m s = (fst (m s), map_sum g id (snd (m s)))"
  by (simp add: wrap_err_def split: prod.split)

lemma wrap_err_Ok_iff: "wrap_err g m s = (s', Ok x) \<longleftrightarrow> m s = (s', Ok x)"
  by (cases "snd (m s)") (auto simp: wrap_err_def split: prod.splits)

lemma each_Cons: "each f (x # xs) = seq (f x) (each f xs)"
  by (auto simp: bind_def fun_eq_iff)

lemma each_append: "each f (xs @ ys) = seq (each f xs) (each f ys)"
proof
  fix s
  show "each f (xs @ ys) s = seq (each f xs) (each f ys) s"
    by (induction xs arbitrary: s) (auto simp: bind_def split: prod.splits sum.splits)
qed

section \<open>Relations between the state before and after\<close>

locale frame_rel =
  fixes R :: "'s \<Rightarrow> 's \<Rightarrow> bool"
  assumes frame_refl: "R s s"
    and frame_trans: "R s t \<Longrightarrow> R t u \<Longrightarrow> R s u"
begin

definition keeps :: "('s, 'e, 'a) prog \<Rightarrow> bool" where
  "keeps m \<longleftrightarrow> (\<forall>s. R s (fst (m s)))"

lemma keepsI: "(\<And>s. R s (fst (m s))) \<Longrightarrow> keeps m"
  by (simp add: keeps_def)

lemma keepsD: "keeps m \<Longrightarrow> R s (fst (m s))"
  by (simp add: keeps_def)

lemma keepsD': "keeps m \<Longrightarrow> m s = (s', r) \<Longrightarrow> R s s'"
  using keepsD [of m s] by simp

lemma keeps_ret: "keeps (ret x)"
  by (simp add: keeps_def ret_def frame_refl)

lemma keeps_throw: "keeps (throw e)"
  by (simp add: keeps_def throw_def frame_refl)

lemma keeps_get: "keeps (get_state g)"
  by (simp add: keeps_def get_state_def frame_refl)

lemma keeps_modify: "(\<And>s. R s (h s)) \<Longrightarrow> keeps (modify h)"
  by (simp add: keeps_def modify_def)

lemma keeps_bind: "keeps m \<Longrightarrow> (\<And>x. keeps (f x)) \<Longrightarrow> keeps (bind m f)"
  unfolding keeps_def bind_def
  by (auto split: prod.split sum.split) (metis fst_conv frame_trans)+

lemma keeps_attempt: "keeps m \<Longrightarrow> keeps (attempt m)"
  by (simp add: keeps_def attempt_run)

lemma keeps_wrap_err: "keeps m \<Longrightarrow> keeps (wrap_err g m)"
  by (simp add: keeps_def wrap_err_run)

lemma keeps_if: "(b \<Longrightarrow> keeps m) \<Longrightarrow> (\<not> b \<Longrightarrow> keeps n) \<Longrightarrow> keeps (if b then m else n)"
  by simp

lemma keeps_each: "(\<And>x. x \<in> set xs \<Longrightarrow> keeps (f x)) \<Longrightarrow> keeps (each f xs)"
proof (induction xs)
  case Nil
  then show ?case by (simp add: keeps_def frame_refl)
next
  case (Cons x xs)
  then have "keeps (seq (f x) (each f xs))" by (intro keeps_bind) simp_all
  then show ?case unfolding each_Cons .
qed

lemma keeps_collect: "(\<And>x. x \<in> set xs \<Longrightarrow> keeps (f x)) \<Longrightarrow> keeps (collect f xs)"
proof (induction xs)
  case Nil
  then show ?case by (simp add: keeps_def frame_refl)
next
  case (Cons x xs)
  then have "keeps (bind (f x) (\<lambda>ys. bind (collect f xs) (\<lambda>zs. ret (ys @ zs))))"
    by (intro keeps_bind keeps_ret) simp_all
  moreover have "collect f (x # xs) = bind (f x) (\<lambda>ys. bind (collect f xs) (\<lambda>zs. ret (ys @ zs)))"
    by (auto simp: bind_def ret_def fun_eq_iff split: prod.split sum.split)
  ultimately show ?case by simp
qed

lemmas keeps_intros =
  keeps_collect keeps_ret keeps_throw keeps_get keeps_bind keeps_attempt keeps_wrap_err keeps_if keeps_each

end

text \<open>A relation on a part of the state, for programs that run on that part.\<close>

lemma on_part_keeps:
  assumes "\<And>s. R s (fst (m s))" and "\<And>s t. get (put s t) = s"
  shows "R (get t) (get (fst (on_part get put m t)))"
  using assms(1) [of "get t"] assms(2) by (cases "m (get t)") (simp add: on_part_def)

section \<open>What a run ends in\<close>

text \<open>
  \<open>outcome q m s P\<close>: if the run of \<open>m\<close> from \<open>s\<close> succeeds, its result and final state satisfy \<open>P\<close>, and
  under \<open>q\<close> (no call fails) it does succeed. So one lemma states both what a successful run achieves
  under any faults, and that without faults there is one.
\<close>

named_theorems outcome_rules

definition outcome :: "bool \<Rightarrow> ('s, 'e, 'a) prog \<Rightarrow> 's \<Rightarrow> ('a \<Rightarrow> 's \<Rightarrow> bool) \<Rightarrow> bool" where
  "outcome q m s P \<longleftrightarrow> (case m s of (t, Inl e) \<Rightarrow> \<not> q | (t, Inr x) \<Rightarrow> P x t)"

lemma outcomeI: "(\<And>t e. m s = (t, Fail e) \<Longrightarrow> \<not> q) \<Longrightarrow> (\<And>t x. m s = (t, Ok x) \<Longrightarrow> P x t) \<Longrightarrow> outcome q m s P"
  by (auto simp: outcome_def split: prod.split sum.split)

lemma outcome_Ok: "outcome q m s P \<Longrightarrow> m s = (t, Ok x) \<Longrightarrow> P x t"
  by (simp add: outcome_def)

lemma outcome_quiet: "outcome q m s P \<Longrightarrow> q \<Longrightarrow> \<exists>t x. m s = (t, Ok x) \<and> P x t"
  by (auto simp: outcome_def split: prod.splits sum.splits)

lemma outcome_mono: "outcome q m s P \<Longrightarrow> (\<And>x t. P x t \<Longrightarrow> Q x t) \<Longrightarrow> outcome q m s Q"
  by (auto simp: outcome_def split: prod.splits sum.splits)

lemma outcome_ret [outcome_rules]: "P x s \<Longrightarrow> outcome q (ret x) s P"
  by (simp add: outcome_def ret_def)

lemma outcome_throw: "\<not> q \<Longrightarrow> outcome q (throw e) s P"
  by (simp add: outcome_def throw_def)

lemma outcome_modify [outcome_rules]: "P () (f s) \<Longrightarrow> outcome q (modify f) s P"
  by (simp add: outcome_def modify_def)

lemma outcome_bind:
  assumes "outcome q m s P" and "\<And>x t. P x t \<Longrightarrow> outcome q (f x) t Q"
  shows "outcome q (bind m f) s Q"
proof -
  obtain t r where m: "m s = (t, r)" by (cases "m s")
  show ?thesis
  proof (cases r)
    case (Inl e)
    with m assms(1) show ?thesis by (simp add: outcome_def bind_def)
  next
    case (Inr x)
    with m assms(1) have "P x t" by (simp add: outcome_def)
    with m Inr assms(2) [of x t] show ?thesis by (simp add: outcome_def bind_def)
  qed
qed

lemma outcome_bind2:
  "outcome q m s P \<Longrightarrow> (\<And>a b t. P (a, b) t \<Longrightarrow> outcome q (f a b) t Q) \<Longrightarrow> outcome q (bind m (\<lambda>(a, b). f a b)) s Q"
  by (erule outcome_bind) auto

lemma outcome_wrap: "outcome q m s P \<Longrightarrow> outcome q (wrap_err g m) s P"
  by (auto simp: outcome_def wrap_err_def split: prod.splits sum.splits)

lemma outcome_attempt:
  "(\<And>t r. m s = (t, r) \<Longrightarrow> P r t) \<Longrightarrow> outcome q (attempt m) s P"
  by (simp add: outcome_def attempt_run)

lemma outcome_part:
  assumes "outcome q m (get t) P" and "\<And>x s. P x s \<Longrightarrow> Q x (put s t)"
  shows "outcome q (on_part get put m) t Q"
  using assms by (auto simp: outcome_def on_part_def split: prod.splits sum.splits)

lemma outcome_each:
  assumes "I xs s" and "\<And>x xs s. I (x # xs) s \<Longrightarrow> outcome q (f x) s (\<lambda>_. I xs)"
  shows "outcome q (each f xs) s (\<lambda>_. I [])"
  using assms(1)
proof (induction xs arbitrary: s)
  case Nil
  then show ?case by (simp add: outcome_def)
next
  case (Cons x xs)
  have "outcome q (seq (f x) (each f xs)) s (\<lambda>_. I [])"
    by (rule outcome_bind [OF assms(2) [OF Cons.prems]]) (rule Cons.IH)
  moreover have "each f (x # xs) = seq (f x) (each f xs)"
    by (auto simp: bind_def fun_eq_iff)
  ultimately show ?case by simp
qed

end
