(* ===== verification/Greeting.thy ===== *)
theory Greeting
  imports Config Frame Prog "HOL-Library.List_Lexorder" "HOL-Library.Char_ord"
begin

text \<open>
  \<open>internal/daemon/protocol.go\<close>: the text lines that open a daemon connection, the greeting and the
  choice or listing of modules. A connection is the byte stream still to be read and the writer; the
  one \<open>bufio.Reader\<close> all steps share reads exactly this stream. Text is converted from and to bytes
  one character per byte, as Go's strings are byte strings. A module list is printed in the order of
  \<open>sort.Strings\<close>.
\<close>

section \<open>Text lines\<close>

definition text_bytes :: "string \<Rightarrow> bytes" where
  "text_bytes s = map of_char s"

definition bytes_text :: "bytes \<Rightarrow> string" where
  "bytes_text b = map (\<lambda>x. char_of (unat x)) b"

lemma unat_of_char: "unat (of_char c :: byte) = of_char c"
proof -
  have "unat (of_nat (of_char c) :: byte) = of_char c" by (simp add: unat_of_nat take_bit_eq_mod)
  then show ?thesis by (simp only: of_nat_of_char)
qed

lemma bytes_text_bytes [simp]: "bytes_text (text_bytes s) = s"
  by (simp add: bytes_text_def text_bytes_def o_def unat_of_char)

lemma text_bytes_append [simp]: "text_bytes (s @ t) = text_bytes s @ text_bytes t"
  by (simp add: text_bytes_def)

lemma text_bytes_length [simp]: "length (text_bytes s) = length s"
  by (simp add: text_bytes_def)

lemma of_char_newline: "of_char c = (10 :: byte) \<longleftrightarrow> c = CHR 0x0A"
proof
  assume "of_char c = (10 :: byte)"
  then have "of_char c = (10 :: nat)" using unat_of_char [of c] by simp
  then have "char_of (of_char c :: nat) = char_of (10 :: nat)" by (simp only:)
  then have "c = char_of (10 :: nat)" by (simp only: char_of_char)
  also have "char_of (10 :: nat) = CHR 0x0A" by code_simp
  finally show "c = CHR 0x0A" .
qed simp

datatype line_fault = LineEOF | OverlongLine

definition maxLineLength :: nat where
  "maxLineLength = 8192"

fun read_line_from :: "bytes \<Rightarrow> bytes \<Rightarrow> bytes \<times> (line_fault + bytes)" where
  "read_line_from buf [] = ([], Fail LineEOF)"
| "read_line_from buf (b # s) =
     (if b = 10 then (s, Ok buf)
      else if length buf \<ge> maxLineLength then (s, Fail OverlongLine)
      else read_line_from (buf @ [b]) s)"

definition readLine :: "(byte conn, line_fault, string) prog" where
  "readLine c =
     (case read_line_from [] (c_in c) of
        (s, r) \<Rightarrow> (c\<lparr>c_in := s\<rparr>, map_sum id (\<lambda>buf. trimRightChar (CHR 0x0D) (bytes_text buf)) r))"

definition writeLine :: "string \<Rightarrow> (byte conn, unit, unit) prog" where
  "writeLine s c =
     (case write_all (c_out c) (text_bytes (s @ [CHR 0x0A])) of
        (w, ok) \<Rightarrow> (c\<lparr>c_out := w\<rparr>, if ok then Ok () else Fail ()))"

text \<open>\<open>_ = writeLine(...)\<close>\<close>

definition tryWriteLine :: "string \<Rightarrow> (byte conn, 'e, unit) prog" where
  "tryWriteLine s = bind (attempt (writeLine s)) (\<lambda>_. skip)"

text \<open>The line format as a codec: lines without a newline, at most \<open>maxLineLength\<close> long and not ending
  in a carriage return are read back as they were written.\<close>

definition line_bytes :: "string \<Rightarrow> bytes" where
  "line_bytes s = text_bytes s @ [10]"

definition line_ok :: "string \<Rightarrow> bool" where
  "line_ok s \<longleftrightarrow> CHR 0x0A \<notin> set s \<and> length s \<le> maxLineLength \<and> (s = [] \<or> last s \<noteq> CHR 0x0D)"

definition line_dec :: "bytes \<Rightarrow> line_fault + (string \<times> bytes)" where
  "line_dec s =
     (case readLine (open_conn s) of (c, Inl e) \<Rightarrow> Fail e | (c, Inr l) \<Rightarrow> Ok (l, c_in c))"

lemma read_line_text:
  "CHR 0x0A \<notin> set s \<Longrightarrow> length buf + length s \<le> maxLineLength \<Longrightarrow>
     read_line_from buf (text_bytes s @ 10 # rest) = (rest, Ok (buf @ text_bytes s))"
  by (induction s arbitrary: buf) (auto simp: text_bytes_def of_char_newline)

lemma readLine_line [wire_simps]:
  "line_ok s \<Longrightarrow> readLine \<lparr>c_in = line_bytes s @ rest, c_out = w\<rparr> = (\<lparr>c_in = rest, c_out = w\<rparr>, Ok s)"
  by (simp add: line_ok_def line_bytes_def readLine_def read_line_text trimRightChar_id)

lemma writeLine_open [wire_simps]:
  "writeLine s \<lparr>c_in = i, c_out = open_writer cs\<rparr> = (\<lparr>c_in = i, c_out = open_writer (cs @ line_bytes s)\<rparr>, Ok ())"
  by (simp add: writeLine_def write_all_open line_bytes_def) (simp add: text_bytes_def)

lemma tryWriteLine_open [wire_simps]:
  "tryWriteLine s \<lparr>c_in = i, c_out = open_writer cs\<rparr> = (\<lparr>c_in = i, c_out = open_writer (cs @ line_bytes s)\<rparr>, Ok ())"
  by (simp add: tryWriteLine_def bind_def attempt_def writeLine_open ret_def)

interpretation lines: wire_codec line_bytes line_dec line_ok
proof
  fix m rest
  assume "line_ok m"
  then show "line_dec (line_bytes m @ rest) = Ok (m, rest)"
    using readLine_line [of m rest "open_writer []"] by (simp add: line_dec_def open_conn_def)
qed (simp add: line_bytes_def)

lemma read_line_shorter: "read_line_from buf s = (s', Ok b) \<Longrightarrow> length s' < length s"
  by (induction buf s rule: read_line_from.induct) (auto split: if_splits)

lemma readLine_shorter: "readLine c = (c', Ok l) \<Longrightarrow> length (c_in c') < length (c_in c)"
  by (cases "snd (read_line_from [] (c_in c))") (auto simp: readLine_def read_line_shorter split: prod.splits)


section \<open>The greeting\<close>

definition daemonProtocolVersion :: int where "daemonProtocolVersion = 31"
definition daemonSubProtocolVersion :: int where "daemonSubProtocolVersion = 0"

datatype greet_error =
    WritingGreeting
  | ReadingGreeting line_fault
  | InvalidGreeting string
  | ReadingRequest line_fault
  | WritingModuleList
  | ModuleListRequested
  | UnknownModule string
  | SendingRequest
  | ReadingModuleList line_fault
  | ServerError string

definition greeting_line :: string where
  "greeting_line = ''@RSYNCD: '' @ formatInt daemonProtocolVersion @ ''.'' @ formatInt daemonSubProtocolVersion"

definition writeGreeting :: "(byte conn, greet_error, unit) prog" where
  "writeGreeting = wrap_err (\<lambda>_. WritingGreeting) (writeLine greeting_line)"

definition parse_greeting :: "string \<Rightarrow> greet_error + (int \<times> int)" where
  "parse_greeting line =
     (if \<not> hasPrefix line ''@RSYNCD: '' then Fail (InvalidGreeting line)
      else (case GoStrings.fields (trimPrefix line ''@RSYNCD: '') of
              [] \<Rightarrow> Fail (InvalidGreeting line)
            | ver # _ \<Rightarrow>
                (case cutAt ver CHR ''.'' of
                   None \<Rightarrow> (case atoi ver of None \<Rightarrow> Fail (InvalidGreeting line) | Some v \<Rightarrow> Ok (v, 0))
                 | Some (major, minor) \<Rightarrow>
                     (case (atoi major, atoi minor) of
                        (Some v, Some w) \<Rightarrow> Ok (v, w)
                      | _ \<Rightarrow> Fail (InvalidGreeting line)))))"

definition readGreeting :: "(byte conn, greet_error, int \<times> int) prog" where
  "readGreeting = bind (wrap_err ReadingGreeting readLine) (\<lambda>line c. (c, parse_greeting line))"

definition exit_line :: string where
  "exit_line = ''@RSYNCD: EXIT''"

definition listed_modules :: "Config \<Rightarrow> (string \<times> Module) list" where
  "listed_modules cfg = map (\<lambda>n. (n, the (map_of cfg n))) (sort (map fst (filter (\<lambda>(n, m). m_List m) cfg)))"

definition list_line :: "string \<times> Module \<Rightarrow> string" where
  "list_line = (\<lambda>(name, m). name @ [CHR 0x09] @ m_Comment m)"

definition writeModuleList :: "Config \<Rightarrow> (byte conn, greet_error, unit) prog" where
  "writeModuleList cfg =
     wrap_err (\<lambda>_. WritingModuleList)
       (seq (each (\<lambda>nm. writeLine (list_line nm)) (listed_modules cfg)) (writeLine exit_line))"

text \<open>\<open>%q\<close> on ASCII text; bytes from 0x80 on are copied, as Quote does for printable UTF-8.\<close>

definition hex_digit :: "nat \<Rightarrow> char" where
  "hex_digit n = ''0123456789abcdef'' ! n"

definition quote_char :: "char \<Rightarrow> string" where
  "quote_char c =
     (if c = CHR 0x22 \<or> c = CHR 0x5C then [CHR 0x5C, c]
      else if c = CHR 0x07 then [CHR 0x5C, CHR ''a''] else if c = CHR 0x08 then [CHR 0x5C, CHR ''b'']
      else if c = CHR 0x0C then [CHR 0x5C, CHR ''f''] else if c = CHR 0x0A then [CHR 0x5C, CHR ''n'']
      else if c = CHR 0x0D then [CHR 0x5C, CHR ''r''] else if c = CHR 0x09 then [CHR 0x5C, CHR ''t'']
      else if c = CHR 0x0B then [CHR 0x5C, CHR ''v'']
      else if c < CHR 0x20 \<or> c = CHR 0x7F
      then [CHR 0x5C, CHR ''x'', hex_digit (of_char c div 16), hex_digit (of_char c mod 16)]
      else [c])"

definition quote :: "string \<Rightarrow> string" where
  "quote s = CHR 0x22 # concat (map quote_char s) @ [CHR 0x22]"

definition unknown_module_line :: "string \<Rightarrow> string" where
  "unknown_module_line name = ''@ERROR: Unknown module '' @ quote name"

definition ServeGreeting :: "Config \<Rightarrow> (byte conn, greet_error, Module) prog" where
  "ServeGreeting cfg =
     seq writeGreeting
    (bind readGreeting (\<lambda>_.
     bind (wrap_err ReadingRequest readLine) (\<lambda>request.
       if request = ''#list'' then seq (writeModuleList cfg) (throw ModuleListRequested)
       else (case map_of cfg request of
               None \<Rightarrow> seq (tryWriteLine (unknown_module_line request)) (throw (UnknownModule request))
             | Some m \<Rightarrow> ret m))))"

function readModuleList :: "(byte conn, greet_error, string list) prog" where
  "readModuleList c =
     (case readLine c of
        (c', Inl f) \<Rightarrow> (c', Fail (ReadingModuleList f))
      | (c', Inr line) \<Rightarrow>
          (if line = exit_line then (c', Ok [])
           else if hasPrefix line ''@ERROR'' then (c', Fail (ServerError line))
           else (case readModuleList c' of
                   (c'', Inl e) \<Rightarrow> (c'', Fail e)
                 | (c'', Inr ls) \<Rightarrow> (c'', Ok (line # ls)))))"
  by pat_completeness auto
termination
proof (relation "measure (\<lambda>c. length (c_in c))", goal_cases)
  case (2 c c' r line)
  then show ?case using readLine_shorter [of c c' line] by simp
qed auto

declare readModuleList.simps [simp del]

definition DialGreeting :: "string \<Rightarrow> (byte conn, greet_error, string list) prog" where
  "DialGreeting name =
     bind readGreeting (\<lambda>_.
     seq writeGreeting
       (if name = [] then seq (wrap_err (\<lambda>_. SendingRequest) (writeLine ''#list'')) readModuleList
        else seq (wrap_err (\<lambda>_. SendingRequest) (writeLine name)) (ret [])))"

section \<open>Both sides together\<close>

lemma greeting_ok: "line_ok greeting_line" "parse_greeting greeting_line = Ok (31, 0)"
proof -
  have line: "greeting_line = ''@RSYNCD: 31.0''" by code_simp
  show "line_ok greeting_line" by (simp add: line line_ok_def maxLineLength_def)
  show "parse_greeting greeting_line = Ok (31, 0)" unfolding line by code_simp
qed

lemma readGreeting_ok [wire_simps]:
  "readGreeting \<lparr>c_in = line_bytes greeting_line @ rest, c_out = w\<rparr> = (\<lparr>c_in = rest, c_out = w\<rparr>, Ok (31, 0))"
  by (simp add: readGreeting_def bind_def wrap_err_def readLine_line greeting_ok)

lemma writeGreeting_open [wire_simps]:
  "writeGreeting \<lparr>c_in = i, c_out = open_writer cs\<rparr>
    = (\<lparr>c_in = i, c_out = open_writer (cs @ line_bytes greeting_line)\<rparr>, Ok ())"
  by (simp add: writeGreeting_def wrap_err_def writeLine_open)

lemma wrap_writeLine_open [wire_simps]:
  "wrap_err f (writeLine s) \<lparr>c_in = i, c_out = open_writer cs\<rparr>
    = (\<lparr>c_in = i, c_out = open_writer (cs @ line_bytes s)\<rparr>, Ok ())"
  by (simp add: wrap_err_def writeLine_open)

lemma wrap_readLine_line [wire_simps]:
  "line_ok s \<Longrightarrow> wrap_err f readLine \<lparr>c_in = line_bytes s @ rest, c_out = w\<rparr> = (\<lparr>c_in = rest, c_out = w\<rparr>, Ok s)"
  by (simp add: wrap_err_def readLine_line)

lemma each_writeLine:
  "each (\<lambda>x. writeLine (f x)) xs \<lparr>c_in = i, c_out = open_writer cs\<rparr>
    = (\<lparr>c_in = i, c_out = open_writer (cs @ concat (map (\<lambda>x. line_bytes (f x)) xs))\<rparr>, Ok ())"
  by (induction xs arbitrary: cs) (simp_all add: writeLine_open)

definition list_bytes :: "string list \<Rightarrow> bytes" where
  "list_bytes ls = concat (map line_bytes ls) @ line_bytes exit_line"

lemma writeModuleList_open:
  "writeModuleList cfg \<lparr>c_in = i, c_out = open_writer cs\<rparr>
    = (\<lparr>c_in = i, c_out = open_writer (cs @ list_bytes (map list_line (listed_modules cfg)))\<rparr>, Ok ())"
  by (simp add: writeModuleList_def wrap_err_def bind_def each_writeLine writeLine_open list_bytes_def o_def)

lemma readModuleList_bytes:
  "list_all (\<lambda>l. line_ok l \<and> l \<noteq> exit_line \<and> \<not> hasPrefix l ''@ERROR'') ls \<Longrightarrow>
     readModuleList \<lparr>c_in = list_bytes ls @ rest, c_out = w\<rparr> = (\<lparr>c_in = rest, c_out = w\<rparr>, Ok ls)"
proof (induction ls)
  case Nil
  have "line_ok exit_line" by (simp add: line_ok_def exit_line_def maxLineLength_def)
  then show ?case by (subst readModuleList.simps) (simp add: list_bytes_def readLine_line)
next
  case (Cons l ls)
  have "list_bytes (l # ls) @ rest = line_bytes l @ (list_bytes ls @ rest)" by (simp add: list_bytes_def)
  with Cons show ?case by (subst readModuleList.simps) (simp add: readLine_line)
qed


text \<open>The server's side of the opening exchange, and the client's, on the bytes of the other.\<close>

definition client_hello :: "string \<Rightarrow> bytes" where
  "client_hello request = line_bytes greeting_line @ line_bytes request"

lemma ServeGreeting_selects:
  assumes "line_ok name" and "name \<noteq> ''#list''" and "map_of cfg name = Some m"
  shows "ServeGreeting cfg \<lparr>c_in = client_hello name @ rest, c_out = open_writer cs\<rparr>
    = (\<lparr>c_in = rest, c_out = open_writer (cs @ line_bytes greeting_line)\<rparr>, Ok m)"
  using assms
  by (simp add: ServeGreeting_def client_hello_def bind_def writeGreeting_open readGreeting_ok wrap_readLine_line ret_def)

lemma DialGreeting_selects:
  assumes "name \<noteq> []"
  shows "DialGreeting name \<lparr>c_in = line_bytes greeting_line @ rest, c_out = open_writer cs\<rparr>
    = (\<lparr>c_in = rest, c_out = open_writer (cs @ client_hello name)\<rparr>, Ok [])"
  using assms
  by (simp add: DialGreeting_def client_hello_def bind_def writeGreeting_open readGreeting_ok wrap_writeLine_open ret_def)

lemma hash_list_ok: "line_ok ''#list''"
  by (simp add: line_ok_def maxLineLength_def)

lemma ServeGreeting_lists:
  "ServeGreeting cfg \<lparr>c_in = client_hello ''#list'' @ rest, c_out = open_writer cs\<rparr>
    = (\<lparr>c_in = rest,
        c_out = open_writer (cs @ line_bytes greeting_line @ list_bytes (map list_line (listed_modules cfg)))\<rparr>,
       Fail ModuleListRequested)"
  by (simp add: ServeGreeting_def client_hello_def bind_def writeGreeting_open readGreeting_ok
      wrap_readLine_line [OF hash_list_ok] writeModuleList_open throw_def)

lemma DialGreeting_lists:
  assumes "list_all (\<lambda>l. line_ok l \<and> l \<noteq> exit_line \<and> \<not> hasPrefix l ''@ERROR'') ls"
  shows "DialGreeting [] \<lparr>c_in = line_bytes greeting_line @ list_bytes ls @ rest, c_out = open_writer cs\<rparr>
    = (\<lparr>c_in = rest, c_out = open_writer (cs @ client_hello ''#list'')\<rparr>, Ok ls)"
  by (simp add: DialGreeting_def client_hello_def bind_def writeGreeting_open readGreeting_ok wrap_writeLine_open
      readModuleList_bytes [OF assms])

lemma listed_modules_set:
  assumes "distinct (map fst cfg)"
  shows "set (listed_modules cfg) = {(n, m) \<in> set cfg. m_List m}"
proof -
  have "the (map_of cfg n) = m" if "(n, m) \<in> set cfg" for n m
    using that assms by (simp add: map_of_is_SomeI)
  then have "(n, the (map_of cfg n)) = (n, m)" if "(n, m) \<in> set cfg" for n m
    using that by simp
  then show ?thesis by (force simp: listed_modules_def)
qed

text \<open>
  C24. Listing modules: whatever the configuration and whatever follows, when a client asks for the list,
  it receives exactly the modules with \<open>list = true\<close>, one line each with name and comment, sorted by
  name, and no hidden one; the server then ends the session with \<open>ErrModuleListRequested\<close>, and each side
  has consumed exactly what the other wrote.
\<close>

theorem module_listing:
  assumes "distinct (map fst cfg)"
    and "\<forall>(n, m) \<in> set cfg. line_ok (list_line (n, m)) \<and> \<not> hasPrefix n ''@''"
  shows "\<exists>ms server_out client_out.
    set ms = {(n, m) \<in> set cfg. m_List m} \<and> sorted (map fst ms) \<and>
    ServeGreeting cfg \<lparr>c_in = client_out @ rest, c_out = open_writer []\<rparr>
      = (\<lparr>c_in = rest, c_out = open_writer server_out\<rparr>, Fail ModuleListRequested) \<and>
    DialGreeting [] \<lparr>c_in = server_out @ tail, c_out = open_writer []\<rparr>
      = (\<lparr>c_in = tail, c_out = open_writer client_out\<rparr>, Ok (map list_line ms))"
proof -
  have "list_all (\<lambda>l. line_ok l \<and> l \<noteq> exit_line \<and> \<not> hasPrefix l ''@ERROR'') (map list_line (listed_modules cfg))"
    unfolding list_all_iff
  proof
    fix l assume "l \<in> set (map list_line (listed_modules cfg))"
    then obtain n m where l: "l = list_line (n, m)" and mem: "(n, m) \<in> set cfg"
      using listed_modules_set [OF assms(1)] by auto
    from mem assms(2) have ok: "line_ok l" "\<not> hasPrefix n ''@''" by (auto simp: l)
    then have "hd l \<noteq> CHR ''@''" by (cases n) (simp_all add: l list_line_def hasPrefix_def)
    then show "line_ok l \<and> l \<noteq> exit_line \<and> \<not> hasPrefix l ''@ERROR''"
      using ok(1) by (auto simp: exit_line_def hasPrefix_conv)
  qed
  from DialGreeting_lists [OF this, of tail "[]"] ServeGreeting_lists [of cfg rest "[]"]
  show ?thesis
    using listed_modules_set [OF assms(1)]
    by (intro exI [of _ "listed_modules cfg"] exI [of _ "line_bytes greeting_line @ list_bytes (map list_line (listed_modules cfg))"]
        exI [of _ "client_hello ''#list''"]) (simp add: listed_modules_def o_def)
qed

theorem module_listing_witness:
  "\<exists>ms server_out client_out.
    set ms = {(n, m) \<in> set [(''b'', moduleDefaults), (''h'', moduleDefaults\<lparr>m_List := False\<rparr>), (''a'', moduleDefaults)]. m_List m} \<and>
    sorted (map fst ms) \<and>
    ServeGreeting [(''b'', moduleDefaults), (''h'', moduleDefaults\<lparr>m_List := False\<rparr>), (''a'', moduleDefaults)]
        \<lparr>c_in = client_out @ [1], c_out = open_writer []\<rparr>
      = (\<lparr>c_in = [1], c_out = open_writer server_out\<rparr>, Fail ModuleListRequested) \<and>
    DialGreeting [] \<lparr>c_in = server_out @ [2], c_out = open_writer []\<rparr>
      = (\<lparr>c_in = [2], c_out = open_writer client_out\<rparr>, Ok (map list_line ms))"
  by (rule module_listing)
    (simp_all add: list_line_def moduleDefaults_def line_ok_def maxLineLength_def hasPrefix_def)

end
