(* ===== verification/Paths.thy ===== *)
theory Paths
  imports GoStrings
begin

text \<open>
  Go's \<open>path/filepath\<close> on POSIX: \<open>Clean\<close>, \<open>Join\<close>, \<open>Dir\<close>, \<open>Base\<close>, \<open>IsAbs\<close>. \<open>FromSlash\<close> and \<open>ToSlash\<close> are
  the identity there. Lemmas give their effect on paths written from lists of plain components.
\<close>

named_theorems path_simps

abbreviation slash :: char where
  "slash \<equiv> CHR ''/''"

section \<open>The lexical functions\<close>

definition IsAbs :: "string \<Rightarrow> bool" where
  "IsAbs s \<longleftrightarrow> hasPrefix s ''/''"

text \<open>The elements of a path after \<open>Clean\<close>; \<open>acc\<close> is the reversed result so far.\<close>

fun clean_elems :: "bool \<Rightarrow> string list \<Rightarrow> string list \<Rightarrow> string list" where
  "clean_elems rooted acc [] = rev acc"
| "clean_elems rooted acc (c # cs) =
     (if c = [] \<or> c = ''.'' then clean_elems rooted acc cs
      else if c = ''..''
      then (case acc of
              [] \<Rightarrow> clean_elems rooted (if rooted then [] else [''..'']) cs
            | d # ds \<Rightarrow> (if d = ''..'' then clean_elems rooted (''..'' # acc) cs
                        else clean_elems rooted ds cs))
      else clean_elems rooted (c # acc) cs)"

definition Clean :: "string \<Rightarrow> string" where
  "Clean s =
     (let rooted = IsAbs s; elems = clean_elems rooted [] (splitOn slash s)
      in if rooted then ''/'' @ joinWith slash elems
         else if elems = [] then ''.'' else joinWith slash elems)"

definition Join :: "string \<Rightarrow> string \<Rightarrow> string" where
  "Join a b =
     (if a = [] then (if b = [] then [] else Clean b)
      else if b = [] then Clean a else Clean (a @ ''/'' @ b))"

definition Dir :: "string \<Rightarrow> string" where
  "Dir s = Clean (rev (dropWhile (\<lambda>c. c \<noteq> slash) (rev s)))"

definition Base :: "string \<Rightarrow> string" where
  "Base s =
     (if s = [] then ''.''
      else let t = trimRightChar slash s; b = rev (takeWhile (\<lambda>c. c \<noteq> slash) (rev t))
           in if b = [] then ''/'' else b)"

section \<open>Plain components\<close>

definition plain :: "string \<Rightarrow> bool" where
  "plain c \<longleftrightarrow> c \<noteq> [] \<and> c \<noteq> ''.'' \<and> c \<noteq> ''..'' \<and> slash \<notin> set c"

definition abs_path :: "string list \<Rightarrow> string" where
  "abs_path cs = ''/'' @ joinWith slash cs"

definition rel_path :: "string list \<Rightarrow> string" where
  "rel_path cs = joinWith slash cs"

lemma plain_no_slash: "list_all plain cs \<Longrightarrow> c \<in> set cs \<Longrightarrow> slash \<notin> set c"
  by (auto simp: list_all_iff plain_def)

lemma clean_elems_plain:
  "list_all plain cs \<Longrightarrow> clean_elems rooted acc (cs @ rest) = clean_elems rooted (rev cs @ acc) rest"
  by (induction cs arbitrary: acc) (auto simp: plain_def)

lemma splitOn_rel [path_simps]: "list_all plain cs \<Longrightarrow> cs \<noteq> [] \<Longrightarrow> splitOn slash (rel_path cs) = cs"
  unfolding rel_path_def by (rule splitOn_joinWith) (auto simp: plain_no_slash)

lemma splitOn_abs: "list_all plain cs \<Longrightarrow> splitOn slash (abs_path cs) = [] # (if cs = [] then [[]] else cs)"
  using splitOn_rel [of cs] by (auto simp: abs_path_def rel_path_def)

lemma IsAbs_abs [simp]: "IsAbs (abs_path cs)"
  by (simp add: IsAbs_def abs_path_def hasPrefix_def)

lemma joinWith_snoc: "cs \<noteq> [] \<Longrightarrow> joinWith x (cs @ [c]) = joinWith x cs @ x # c"
  by (induction x cs rule: joinWith.induct) auto

lemma joinWith_append: "cs \<noteq> [] \<Longrightarrow> ds \<noteq> [] \<Longrightarrow> joinWith x (cs @ ds) = joinWith x cs @ x # joinWith x ds"
  by (induction x cs rule: joinWith.induct) (auto simp: neq_Nil_conv)

lemma Clean_abs [path_simps]: "list_all plain cs \<Longrightarrow> Clean (abs_path cs) = abs_path cs"
  using clean_elems_plain [of cs True "[]" "[]"]
  by (cases "cs = []") (simp_all add: Clean_def splitOn_abs Let_def, simp_all add: abs_path_def)

lemma joinWith_nonempty: "cs \<noteq> [] \<Longrightarrow> hd cs \<noteq> [] \<Longrightarrow> joinWith x cs \<noteq> []"
  by (induction x cs rule: joinWith.induct) auto

lemma Clean_abs_slash: "list_all plain cs \<Longrightarrow> cs \<noteq> [] \<Longrightarrow> Clean (abs_path cs @ ''/'') = abs_path cs"
proof -
  assume cs: "list_all plain cs" "cs \<noteq> []"
  have "splitOn slash (abs_path cs @ slash # []) = splitOn slash (abs_path cs) @ splitOn slash []"
    by (rule splitOn_snoc)
  with cs have "splitOn slash (abs_path cs @ ''/'') = [] # cs @ [[]]"
    by (simp add: splitOn_abs)
  moreover have "IsAbs (abs_path cs @ ''/'')" by (simp add: IsAbs_def abs_path_def hasPrefix_def)
  ultimately show ?thesis
    using cs clean_elems_plain [of cs True "[]" "[[]]"] by (simp add: Clean_def Let_def abs_path_def)
qed

lemma Join_abs_rel [path_simps]:
  assumes "list_all plain ds" and "list_all plain es" and "es \<noteq> []"
  shows "Join (abs_path ds) (rel_path es) = abs_path (ds @ es)"
proof -
  have "rel_path es \<noteq> []"
    using assms(2,3) unfolding rel_path_def by (intro joinWith_nonempty) (auto simp: neq_Nil_conv plain_def)
  then have join: "Join (abs_path ds) (rel_path es) = Clean (abs_path ds @ ''/'' @ rel_path es)"
    by (simp add: Join_def abs_path_def)
  have "splitOn slash (abs_path ds @ slash # rel_path es) = splitOn slash (abs_path ds) @ splitOn slash (rel_path es)"
    by (rule splitOn_snoc)
  then have split: "splitOn slash (abs_path ds @ ''/'' @ rel_path es)
      = [] # (if ds = [] then [[]] else ds) @ es"
    using assms by (simp add: splitOn_abs splitOn_rel)
  have "IsAbs (abs_path ds @ ''/'' @ rel_path es)"
    by (simp add: IsAbs_def abs_path_def hasPrefix_def)
  moreover have "clean_elems True [] (splitOn slash (abs_path ds @ ''/'' @ rel_path es)) = ds @ es"
    using clean_elems_plain [of ds True "[]" es] clean_elems_plain [of es True "rev ds" "[]"] assms
    unfolding split by (cases "ds = []") simp_all
  ultimately show ?thesis unfolding join by (simp add: Clean_def Let_def abs_path_def)
qed

lemma dropWhile_component:
  "slash \<notin> set c \<Longrightarrow> rev (dropWhile (\<lambda>x. x \<noteq> slash) (rev (s @ slash # c))) = s @ ''/''"
proof -
  assume "slash \<notin> set c"
  then have "dropWhile (\<lambda>x. x \<noteq> slash) (rev c @ slash # rev s) = slash # rev s"
    by (subst dropWhile_append2) auto
  then show ?thesis by simp
qed

lemma abs_path_snoc: "abs_path (cs @ [c]) = (if cs = [] then [] else abs_path cs) @ slash # c"
  by (simp add: abs_path_def joinWith_snoc)

lemma Dir_abs [path_simps]:
  assumes "list_all plain cs" and "plain c"
  shows "Dir (abs_path (cs @ [c])) = abs_path cs"
proof -
  have "Dir (abs_path (cs @ [c])) = Clean ((if cs = [] then [] else abs_path cs) @ ''/'')"
    unfolding Dir_def abs_path_snoc using assms(2) by (subst dropWhile_component) (auto simp: plain_def)
  then show ?thesis
    using assms Clean_abs_slash [of cs] Clean_abs [of "[]"] by (auto simp: abs_path_def)
qed

lemma Base_slash:
  assumes "c \<noteq> []" and "slash \<notin> set c"
  shows "Base (s @ slash # c) = c"
proof -
  have "last (s @ slash # c) \<noteq> slash"
    using assms last_in_set [of c] by (auto simp del: last_in_set)
  then have t: "trimRightChar slash (s @ slash # c) = s @ slash # c"
    by (intro trimRightChar_id) simp
  have "takeWhile (\<lambda>x. x \<noteq> slash) (rev c @ slash # rev s) = rev c"
    using assms(2) by (subst takeWhile_append2) auto
  with t assms(1) show ?thesis by (simp add: Base_def)
qed

lemma Base_abs [path_simps]: "plain c \<Longrightarrow> Base (abs_path (cs @ [c])) = c"
  unfolding abs_path_snoc by (rule Base_slash) (auto simp: plain_def)

text \<open>The components a path names, for the kernel: empty ones and dots name nothing.\<close>

definition path_comps :: "string \<Rightarrow> string list" where
  "path_comps s = filter (\<lambda>c. c \<noteq> [] \<and> c \<noteq> ''.'') (splitOn slash s)"

lemma filter_plain [simp]: "list_all plain cs \<Longrightarrow> filter (\<lambda>c. c \<noteq> [] \<and> c \<noteq> ''.'') cs = cs"
  by (induction cs) (auto simp: plain_def)

lemma path_comps_abs [path_simps]: "list_all plain cs \<Longrightarrow> path_comps (abs_path cs) = cs"
  by (cases "cs = []") (simp_all add: path_comps_def splitOn_abs)

lemma path_comps_rel [path_simps]: "list_all plain cs \<Longrightarrow> path_comps (rel_path cs) = cs"
  by (cases "cs = []") (simp_all add: path_comps_def splitOn_rel, simp add: rel_path_def)

end
