(* ===== verification/Fs.thy ===== *)
theory Fs
  imports Prog Paths Entry "HOL-Library.AList" "HOL-Library.Sublist"
begin

text \<open>
  The operating system calls of Go's \<open>os\<close> package the program makes, on an explicit POSIX-like file
  system: names (absolute component lists) refer to inodes, so hard links share one; path
  resolution follows symbolic links, at most forty; directories remember when a name in them
  changed. Every call consumes one tick of a fault schedule: where the schedule has an entry, the
  call fails with \<open>Fault\<close> and no effect, except that a failing \<open>Write\<close> has written that many bytes.
  Permission checks are not modelled: a denied call is one of the faults.
\<close>

named_theorems fs_simps

section \<open>State\<close>

type_synonym fpath = "string list"

datatype content =
    FileData bytes | DirData | LinkData string | FifoData | SocketData | CharDeviceData | BlockDeviceData

record inode =
  in_content :: content
  in_perm :: fileMode
  in_mtime :: int
  in_uid :: u32
  in_gid :: u32

record fs =
  fs_names :: "(fpath \<times> nat) list"
  fs_inodes :: "nat \<Rightarrow> inode"
  fs_next :: nat
  fs_cwd :: fpath
  fs_umask :: fileMode
  fs_now :: int
  fs_tick :: nat
  fs_faults :: "nat \<Rightarrow> nat option"
  fs_random :: "nat \<Rightarrow> nat"

datatype os_error =
    ENOENT | EEXIST | ENOTDIR | EISDIR | ELOOP | ENOTEMPTY | EPERM | EINVAL | Fault | Blocks

definition ino_of :: "fs \<Rightarrow> fpath \<Rightarrow> nat option" where
  "ino_of s p = map_of (fs_names s) p"

definition lookup :: "fs \<Rightarrow> fpath \<Rightarrow> inode option" where
  "lookup s p = map_option (fs_inodes s) (ino_of s p)"

definition content_of :: "fs \<Rightarrow> fpath \<Rightarrow> content option" where
  "content_of s p = map_option in_content (lookup s p)"

section \<open>Path resolution\<close>

function (sequential) resolve :: "nat \<Rightarrow> fs \<Rightarrow> bool \<Rightarrow> fpath \<Rightarrow> string list \<Rightarrow> os_error + fpath" where
  "resolve links s follow cur [] = Ok cur"
| "resolve links s follow cur (c # rest) =
     (if c = ''..'' then resolve links s follow (butlast cur) rest
      else case content_of s (cur @ [c]) of
             None \<Rightarrow> (if rest = [] then Ok (cur @ [c]) else Fail ENOENT)
           | Some (LinkData t) \<Rightarrow>
               (if rest = [] \<and> \<not> follow then Ok (cur @ [c])
                else if links = 0 then Fail ELOOP
                else resolve (links - 1) s follow (if IsAbs t then [] else cur) (path_comps t @ rest))
           | Some DirData \<Rightarrow> resolve links s follow (cur @ [c]) rest
           | Some _ \<Rightarrow> (if rest = [] then Ok (cur @ [c]) else Fail ENOTDIR))"
  by pat_completeness auto
termination
  by (relation "measures [\<lambda>(links, s, follow, cur, rest). links, \<lambda>(links, s, follow, cur, rest). length rest]")
    auto

definition max_links :: nat where
  "max_links = 40"

definition resolve_path :: "fs \<Rightarrow> bool \<Rightarrow> string \<Rightarrow> os_error + fpath" where
  "resolve_path s follow path =
     (if path = [] then Fail ENOENT
      else resolve max_links s follow (if IsAbs path then [] else fs_cwd s) (path_comps path))"

section \<open>Calls\<close>

type_synonym 'a sys = "(fs, os_error, 'a) prog"

definition step :: "fs \<Rightarrow> fs" where
  "step s = s\<lparr>fs_tick := Suc (fs_tick s), fs_now := fs_now s + 1\<rparr>"

definition sys_call :: "'a sys \<Rightarrow> 'a sys" where
  "sys_call f s = (case fs_faults s (fs_tick s) of None \<Rightarrow> f (step s) | Some _ \<Rightarrow> (step s, Fail Fault))"

definition upd_inode :: "nat \<Rightarrow> (inode \<Rightarrow> inode) \<Rightarrow> fs \<Rightarrow> fs" where
  "upd_inode n f s = s\<lparr>fs_inodes := (fs_inodes s)(n := f (fs_inodes s n))\<rparr>"

definition touch :: "fpath \<Rightarrow> fs \<Rightarrow> fs" where
  "touch p s = (case ino_of s p of None \<Rightarrow> s | Some n \<Rightarrow> upd_inode n (\<lambda>i. i\<lparr>in_mtime := fs_now s\<rparr>) s)"

definition add_name :: "fpath \<Rightarrow> nat \<Rightarrow> fs \<Rightarrow> fs" where
  "add_name p n s = touch (butlast p) (s\<lparr>fs_names := AList.update p n (fs_names s)\<rparr>)"

definition del_name :: "fpath \<Rightarrow> fs \<Rightarrow> fs" where
  "del_name p s = touch (butlast p) (s\<lparr>fs_names := AList.delete p (fs_names s)\<rparr>)"

text \<open>A new inode under a new name; the result is its number.\<close>

definition create :: "fpath \<Rightarrow> content \<Rightarrow> fileMode \<Rightarrow> nat sys" where
  "create p c perm s =
     (if ino_of s p \<noteq> None then (s, Fail EEXIST)
      else if content_of s (butlast p) \<noteq> Some DirData then (s, Fail ENOENT)
      else let n = fs_next s;
               i = \<lparr>in_content = c, in_perm = perm, in_mtime = fs_now s, in_uid = 0, in_gid = 0\<rparr>
           in (add_name p n (s\<lparr>fs_inodes := (fs_inodes s)(n := i), fs_next := Suc n\<rparr>), Ok n))"

definition with_path :: "bool \<Rightarrow> string \<Rightarrow> (fpath \<Rightarrow> 'a sys) \<Rightarrow> 'a sys" where
  "with_path follow path f s = (case resolve_path s follow path of Inl e \<Rightarrow> (s, Fail e) | Inr p \<Rightarrow> f p s)"

definition with_inode :: "bool \<Rightarrow> string \<Rightarrow> (nat \<Rightarrow> 'a sys) \<Rightarrow> 'a sys" where
  "with_inode follow path f =
     with_path follow path (\<lambda>p s. case ino_of s p of None \<Rightarrow> (s, Fail ENOENT) | Some n \<Rightarrow> f n s)"

definition Lstat :: "string \<Rightarrow> (nat \<times> inode) sys" where
  "Lstat path = sys_call (with_inode False path (\<lambda>n s. (s, Ok (n, fs_inodes s n))))"

definition Stat :: "string \<Rightarrow> (nat \<times> inode) sys" where
  "Stat path = sys_call (with_inode True path (\<lambda>n s. (s, Ok (n, fs_inodes s n))))"

definition ReadFile :: "string \<Rightarrow> bytes sys" where
  "ReadFile path = sys_call (with_inode True path (\<lambda>n s. (s,
     case in_content (fs_inodes s n) of
       FileData d \<Rightarrow> Ok d | DirData \<Rightarrow> Fail EISDIR | FifoData \<Rightarrow> Fail Blocks
     | LinkData t \<Rightarrow> Fail ELOOP | SocketData \<Rightarrow> Fail EINVAL
     | CharDeviceData \<Rightarrow> Fail Blocks | BlockDeviceData \<Rightarrow> Fail Blocks)))"

definition Readlink :: "string \<Rightarrow> string sys" where
  "Readlink path = sys_call (with_inode False path (\<lambda>n s. (s,
     case in_content (fs_inodes s n) of LinkData t \<Rightarrow> Ok t | _ \<Rightarrow> Fail EINVAL)))"

definition Mkdir :: "string \<Rightarrow> fileMode \<Rightarrow> unit sys" where
  "Mkdir path perm = sys_call (with_path False path (\<lambda>p s.
     case create p DirData (perm AND NOT (fs_umask s)) s of (s', r) \<Rightarrow> (s', map_sum id (\<lambda>_. ()) r)))"

definition Chmod :: "string \<Rightarrow> fileMode \<Rightarrow> unit sys" where
  "Chmod path perm = sys_call (with_inode True path (\<lambda>n s. (upd_inode n (\<lambda>i. i\<lparr>in_perm := perm\<rparr>) s, Ok ())))"

definition Chtimes :: "string \<Rightarrow> int \<Rightarrow> unit sys" where
  "Chtimes path mtime =
     sys_call (with_inode True path (\<lambda>n s. (upd_inode n (\<lambda>i. i\<lparr>in_mtime := mtime\<rparr>) s, Ok ())))"

text \<open>\<open>os.Lchown\<close>: the id \<open>-1\<close>, here \<open>None\<close>, is left unchanged.\<close>

definition Lchown :: "string \<Rightarrow> u32 option \<Rightarrow> u32 option \<Rightarrow> unit sys" where
  "Lchown path uid gid = sys_call (with_inode False path (\<lambda>n s.
     (upd_inode n (\<lambda>i. i\<lparr>in_uid := (case uid of None \<Rightarrow> in_uid i | Some u \<Rightarrow> u),
                        in_gid := (case gid of None \<Rightarrow> in_gid i | Some g \<Rightarrow> g)\<rparr>) s, Ok ())))"

definition is_empty_dir :: "fs \<Rightarrow> fpath \<Rightarrow> bool" where
  "is_empty_dir s p \<longleftrightarrow> list_all (\<lambda>(q, n). q = [] \<or> butlast q \<noteq> p) (fs_names s)"

definition remove_at :: "fpath \<Rightarrow> unit sys" where
  "remove_at p s =
     (case content_of s p of
        None \<Rightarrow> (s, Fail ENOENT)
      | Some DirData \<Rightarrow> (if p = [] \<or> \<not> is_empty_dir s p then (s, Fail ENOTEMPTY) else (del_name p s, Ok ()))
      | Some _ \<Rightarrow> (del_name p s, Ok ()))"

definition Remove :: "string \<Rightarrow> unit sys" where
  "Remove path = sys_call (with_path False path remove_at)"

text \<open>\<open>os.Rename\<close> of something that is not a directory, which is all the program renames.\<close>

definition rename_at :: "fpath \<Rightarrow> fpath \<Rightarrow> unit sys" where
  "rename_at p q s =
     (case ino_of s p of
        None \<Rightarrow> (s, Fail ENOENT)
      | Some n \<Rightarrow>
          (if content_of s p = Some DirData then (s, Fail EISDIR)
           else if content_of s q = Some DirData then (s, Fail EEXIST)
           else if content_of s (butlast q) \<noteq> Some DirData then (s, Fail ENOENT)
           else if ino_of s q = Some n then (s, Ok ())
           else (add_name q n (del_name p s), Ok ())))"

definition Rename :: "string \<Rightarrow> string \<Rightarrow> unit sys" where
  "Rename old new = sys_call (with_path False old (\<lambda>p. with_path False new (rename_at p)))"

definition Link :: "string \<Rightarrow> string \<Rightarrow> unit sys" where
  "Link old new = sys_call (with_path False old (\<lambda>p. with_path False new (\<lambda>q s.
     case ino_of s p of
       None \<Rightarrow> (s, Fail ENOENT)
     | Some n \<Rightarrow>
         (if content_of s p = Some DirData then (s, Fail EPERM)
          else if ino_of s q \<noteq> None then (s, Fail EEXIST)
          else if content_of s (butlast q) \<noteq> Some DirData then (s, Fail ENOENT)
          else (add_name q n s, Ok ())))))"

definition Symlink :: "string \<Rightarrow> string \<Rightarrow> unit sys" where
  "Symlink target path = sys_call (with_path False path (\<lambda>p s.
     case create p (LinkData target) 511 s of (s', r) \<Rightarrow> (s', map_sum id (\<lambda>_. ()) r)))"

definition Mkfifo :: "string \<Rightarrow> fileMode \<Rightarrow> unit sys" where
  "Mkfifo path perm = sys_call (with_path False path (\<lambda>p s.
     case create p FifoData (perm AND NOT (fs_umask s)) s of (s', r) \<Rightarrow> (s', map_sum id (\<lambda>_. ()) r)))"

text \<open>\<open>os.MkdirAll\<close>, from the path's last element up.\<close>

function MkdirAll :: "string \<Rightarrow> fpath \<Rightarrow> fileMode \<Rightarrow> unit sys" where
  "MkdirAll root cs perm s =
     (let path = (if root = [] \<and> cs = [] then ''.'' else root @ joinWith slash cs) in
      case Stat path s of
        (s1, Inr (_, i)) \<Rightarrow> (if in_content i = DirData then (s1, Ok ()) else (s1, Fail ENOTDIR))
      | (s1, Inl _) \<Rightarrow>
          (if cs = [] then (s1, Fail ENOENT)
           else case MkdirAll root (butlast cs) perm s1 of
             (s2, Inl e) \<Rightarrow> (s2, Fail e)
           | (s2, Inr _) \<Rightarrow>
               (case Mkdir path perm s2 of
                  (s3, Inr _) \<Rightarrow> (s3, Ok ())
                | (s3, Inl e) \<Rightarrow>
                    (case Lstat path s3 of
                       (s4, Inr (_, i)) \<Rightarrow> (if in_content i = DirData then (s4, Ok ()) else (s4, Fail e))
                     | (s4, Inl _) \<Rightarrow> (s4, Fail e)))))"
  by pat_completeness auto
termination
  by (relation "measure (\<lambda>(root, cs, perm, s). length cs)") auto

declare MkdirAll.simps [simp del]

definition mkdir_all :: "string \<Rightarrow> unit sys" where
  "mkdir_all path = MkdirAll (if IsAbs path then ''/'' else []) (path_comps path) 493"

text \<open>
  \<open>os.CreateTemp(dir, pre + "*" + post)\<close>: the path and the inode of a file that did not exist,
  trying up to ten thousand random names.
\<close>

definition temp_name :: "string \<Rightarrow> string \<Rightarrow> string \<Rightarrow> nat \<Rightarrow> string" where
  "temp_name dir pre post rnd =
     (if hasSuffix dir ''/'' then dir else dir @ ''/'') @ pre @ format_nat rnd @ post"

definition open_excl :: "string \<Rightarrow> nat sys" where
  "open_excl path = sys_call (with_path False path (\<lambda>p s. create p (FileData []) (384 AND NOT (fs_umask s)) s))"

fun CreateTemp :: "nat \<Rightarrow> string \<Rightarrow> string \<Rightarrow> string \<Rightarrow> (string \<times> nat) sys" where
  "CreateTemp 0 dir pre post s = (s, Fail EEXIST)"
| "CreateTemp (Suc tries) dir pre post s =
     (let path = temp_name dir pre post (fs_random s (fs_tick s)) in
      case open_excl path s of
        (s1, Inr n) \<Rightarrow> (s1, Ok (path, n))
      | (s1, Inl e) \<Rightarrow> (if e = EEXIST then CreateTemp tries dir pre post s1 else (s1, Fail e)))"

definition max_temp_tries :: nat where
  "max_temp_tries = 10000"

text \<open>Writing to an open file appends at its offset, which is its length for a file just created.\<close>

definition append_data :: "int \<Rightarrow> bytes \<Rightarrow> inode \<Rightarrow> inode" where
  "append_data now d i =
     (case in_content i of
        FileData old \<Rightarrow> i\<lparr>in_content := FileData (old @ d), in_mtime := now\<rparr> | _ \<Rightarrow> i)"

definition Write :: "nat \<Rightarrow> bytes \<Rightarrow> fs \<Rightarrow> fs \<times> nat \<times> os_error option" where
  "Write n d s =
     (case fs_faults s (fs_tick s) of
        None \<Rightarrow> (upd_inode n (append_data (fs_now s) d) (step s), length d, None)
      | Some k \<Rightarrow> (upd_inode n (append_data (fs_now s) (take k d)) (step s), min k (length d), Some Fault))"

definition Fchmod :: "nat \<Rightarrow> fileMode \<Rightarrow> unit sys" where
  "Fchmod n perm = sys_call (\<lambda>s. (upd_inode n (\<lambda>i. i\<lparr>in_perm := perm\<rparr>) s, Ok ()))"

section \<open>Calls that only look\<close>

definition same_tree :: "fs \<Rightarrow> fs \<Rightarrow> bool" where
  "same_tree s t \<longleftrightarrow> fs_names t = fs_names s \<and> fs_inodes t = fs_inodes s \<and> fs_next t = fs_next s \<and>
     fs_cwd t = fs_cwd s \<and> fs_umask t = fs_umask s \<and> fs_faults t = fs_faults s \<and> fs_random t = fs_random s"

interpretation tree: frame_rel same_tree
  by unfold_locales (auto simp: same_tree_def)

lemma same_tree_step: "same_tree s (step s)"
  by (simp add: same_tree_def step_def)

lemma same_tree_ino: "same_tree s t \<Longrightarrow> ino_of t p = ino_of s p"
  by (simp add: same_tree_def ino_of_def)

lemma same_tree_lookup: "same_tree s t \<Longrightarrow> lookup t p = lookup s p"
  by (simp add: same_tree_def ino_of_def lookup_def)

lemma same_tree_content: "same_tree s t \<Longrightarrow> content_of t p = content_of s p"
  by (simp add: content_of_def same_tree_lookup)

lemma sys_call_looks:
  assumes "\<And>s. fst (f s) = s"
  shows "tree.keeps (sys_call f)"
  using assms by (intro tree.keepsI) (simp add: sys_call_def same_tree_step split: option.split)

lemma with_inode_looks: "(\<And>n s. fst (f n s) = s) \<Longrightarrow> fst (with_inode follow path f s) = s"
  by (simp add: with_inode_def with_path_def split: sum.split option.split)

lemma looks_keep_tree:
  "tree.keeps (Lstat path)" "tree.keeps (Stat path)" "tree.keeps (ReadFile path)" "tree.keeps (Readlink path)"
  unfolding Lstat_def Stat_def ReadFile_def Readlink_def
  by (intro sys_call_looks with_inode_looks; simp)+

section \<open>Well-formed trees\<close>

definition fs_wf :: "fs \<Rightarrow> bool" where
  "fs_wf s \<longleftrightarrow>
     distinct (map fst (fs_names s)) \<and> content_of s [] = Some DirData \<and>
     list_all (\<lambda>(p, n). n < fs_next s \<and> (p = [] \<or> plain (last p) \<and> content_of s (butlast p) = Some DirData))
       (fs_names s)"

lemma wf_parent:
  assumes "fs_wf s" and "ino_of s p \<noteq> None" and "p \<noteq> []"
  shows "content_of s (butlast p) = Some DirData" and "plain (last p)"
proof -
  from assms(2) obtain n where "(p, n) \<in> set (fs_names s)"
    by (auto simp: ino_of_def dest: map_of_SomeD)
  with assms(1,3) show "content_of s (butlast p) = Some DirData" and "plain (last p)"
    by (auto simp: fs_wf_def list_all_iff)
qed

lemma content_ino: "content_of s p \<noteq> None \<longleftrightarrow> ino_of s p \<noteq> None"
  by (simp add: content_of_def lookup_def)

lemma wf_prefix:
  assumes "fs_wf s"
  shows "ino_of s p \<noteq> None \<Longrightarrow> list_all plain p \<and> (\<forall>k < length p. content_of s (take k p) = Some DirData)"
proof (induction p rule: rev_induct)
  case (snoc c p)
  from wf_parent [OF assms snoc.prems] have dir: "content_of s p = Some DirData" and "plain c" by simp_all
  then have "ino_of s p \<noteq> None" using content_ino [of s p] by auto
  with snoc.IH dir \<open>plain c\<close> show ?case
    by (auto simp: less_Suc_eq)
qed simp

lemma resolve_dirs:
  assumes "list_all plain cs" and "\<forall>k. 0 < k \<and> k < length cs \<longrightarrow> content_of s (cur @ take k cs) = Some DirData"
    and "follow \<longrightarrow> (\<forall>t. content_of s (cur @ cs) \<noteq> Some (LinkData t))"
  shows "resolve links s follow cur cs = Ok (cur @ cs)"
  using assms
proof (induction cs arbitrary: cur)
  case (Cons c cs)
  have c: "c \<noteq> ''..''" using Cons.prems(1) by (auto simp: plain_def)
  show ?case
  proof (cases "cs = []")
    case True
    with c Cons.prems(3) show ?thesis by (auto split: option.split content.split)
  next
    case False
    then have "content_of s (cur @ [c]) = Some DirData"
      using Cons.prems(2) [rule_format, of 1] by simp
    moreover have "resolve links s follow (cur @ [c]) cs = Ok ((cur @ [c]) @ cs)"
    proof (rule Cons.IH)
      show "\<forall>k. 0 < k \<and> k < length cs \<longrightarrow> content_of s ((cur @ [c]) @ take k cs) = Some DirData"
      proof (intro allI impI)
        fix k
        assume "0 < k \<and> k < length cs"
        then show "content_of s ((cur @ [c]) @ take k cs) = Some DirData"
          using Cons.prems(2) [rule_format, of "Suc k"] by simp
      qed
    qed (use Cons.prems in simp_all)
    ultimately show ?thesis using c by simp
  qed
qed simp

text \<open>A path whose proper prefixes are directories; the last component need not exist.\<close>

definition dirs_above :: "fs \<Rightarrow> fpath \<Rightarrow> bool" where
  "dirs_above s p \<longleftrightarrow> list_all plain p \<and> list_all (\<lambda>k. content_of s (take k p) = Some DirData) [0..<length p]"

definition is_link :: "fs \<Rightarrow> fpath \<Rightarrow> bool" where
  "is_link s p \<longleftrightarrow> (case content_of s p of Some (LinkData t) \<Rightarrow> True | _ \<Rightarrow> False)"

lemma not_link: "\<not> is_link s p \<Longrightarrow> content_of s p \<noteq> Some (LinkData t)"
  by (auto simp: is_link_def)

lemma resolve_abs [fs_simps]:
  assumes "dirs_above s p" and "follow \<longrightarrow> \<not> is_link s p"
  shows "resolve_path s follow (abs_path p) = Ok p"
proof -
  have "abs_path p \<noteq> []" by (simp add: abs_path_def)
  moreover have "resolve max_links s follow [] p = Ok ([] @ p)"
    using assms by (intro resolve_dirs) (auto simp: dirs_above_def list_all_iff not_link)
  ultimately show ?thesis
    using assms(1) by (simp add: resolve_path_def path_comps_abs dirs_above_def)
qed

lemma wf_dirs_above: "fs_wf s \<Longrightarrow> ino_of s p \<noteq> None \<Longrightarrow> dirs_above s p"
  using wf_prefix [of s p] by (simp add: dirs_above_def list_all_iff)

lemma dirs_above_snoc: "dirs_above s p \<Longrightarrow> content_of s p = Some DirData \<Longrightarrow> plain c \<Longrightarrow> dirs_above s (p @ [c])"
  by (auto simp: dirs_above_def list_all_iff less_Suc_eq)

lemma dirs_above_butlast:
  "dirs_above s p \<Longrightarrow> p \<noteq> [] \<Longrightarrow> dirs_above s (butlast p) \<and> content_of s (butlast p) = Some DirData"
  by (cases p rule: rev_cases) (auto simp: dirs_above_def list_all_iff)

lemma same_tree_dirs_above: "same_tree s t \<Longrightarrow> dirs_above t p = dirs_above s p"
  by (simp add: dirs_above_def same_tree_content)

lemma same_tree_wf: "same_tree s t \<Longrightarrow> fs_wf t = fs_wf s"
  by (simp add: fs_wf_def same_tree_content same_tree_def [THEN iffD1, THEN conjunct1])
    (simp add: same_tree_def)

section \<open>Calls without faults\<close>

definition no_faults :: "fs \<Rightarrow> bool" where
  "no_faults s \<longleftrightarrow> fs_faults s = (\<lambda>_. None)"

lemma no_faults_step [simp]: "no_faults (step s) = no_faults s"
  by (simp add: no_faults_def step_def)

lemma sys_call_ok [fs_simps]: "no_faults s \<Longrightarrow> sys_call f s = f (step s)"
  by (simp add: sys_call_def no_faults_def)

lemma resolve_cong:
  "(\<And>p. content_of t p = content_of s p) \<Longrightarrow> resolve links t follow cur cs = resolve links s follow cur cs"
proof (induction links s follow cur cs rule: resolve.induct)
  case (2 links s follow cur c rest)
  show ?case
  proof (cases "content_of s (cur @ [c])")
    case None
    with 2 show ?thesis by (cases "c = ''..''") simp_all
  next
    case (Some x)
    with 2 show ?thesis by (cases "c = ''..''"; cases x) simp_all
  qed
qed simp

lemma step_simps [simp]:
  "ino_of (step s) p = ino_of s p" "lookup (step s) p = lookup s p" "content_of (step s) p = content_of s p"
  "resolve_path (step s) follow path = resolve_path s follow path" "fs_inodes (step s) = fs_inodes s"
  "fs_names (step s) = fs_names s" "dirs_above (step s) p = dirs_above s p" "fs_next (step s) = fs_next s"
  "fs_umask (step s) = fs_umask s" "fs_faults (step s) = fs_faults s" "fs_random (step s) = fs_random s"
proof -
  have lk: "ino_of (step s) p = ino_of s p" "lookup (step s) p = lookup s p" "content_of (step s) p = content_of s p" for p
    by (simp_all add: ino_of_def lookup_def content_of_def step_def)
  have "resolve n (step s) f cur cs = resolve n s f cur cs" for n f cur cs
    by (rule resolve_cong) (rule lk(3))
  then show "resolve_path (step s) follow path = resolve_path s follow path"
    by (simp add: resolve_path_def step_def)
  show "dirs_above (step s) p = dirs_above s p" by (simp add: dirs_above_def lk)
qed (simp_all add: ino_of_def lookup_def content_of_def step_def)

lemma with_path_abs [fs_simps]:
  "dirs_above s p \<Longrightarrow> (follow \<longrightarrow> \<not> is_link s p) \<Longrightarrow> with_path follow (abs_path p) f s = f p s"
  by (simp add: with_path_def resolve_abs)

lemma with_inode_abs [fs_simps]:
  "dirs_above s p \<Longrightarrow> (follow \<longrightarrow> \<not> is_link s p) \<Longrightarrow>
     with_inode follow (abs_path p) f s = (case ino_of s p of None \<Rightarrow> (s, Fail ENOENT) | Some n \<Rightarrow> f n s)"
  by (simp add: with_inode_def with_path_abs)

lemma is_link_step [simp]: "is_link (step s) p = is_link s p"
  by (simp add: is_link_def)

lemma Lstat_abs [fs_simps]:
  "no_faults s \<Longrightarrow> dirs_above s p \<Longrightarrow>
     Lstat (abs_path p) s = (step s, case ino_of s p of None \<Rightarrow> Fail ENOENT | Some n \<Rightarrow> Ok (n, fs_inodes s n))"
  by (simp add: Lstat_def sys_call_ok with_inode_abs split: option.split)

lemma Stat_abs [fs_simps]:
  "no_faults s \<Longrightarrow> dirs_above s p \<Longrightarrow> \<not> is_link s p \<Longrightarrow>
     Stat (abs_path p) s = (step s, case ino_of s p of None \<Rightarrow> Fail ENOENT | Some n \<Rightarrow> Ok (n, fs_inodes s n))"
  by (simp add: Stat_def sys_call_ok with_inode_abs split: option.split)

lemma ReadFile_abs [fs_simps]:
  "no_faults s \<Longrightarrow> dirs_above s p \<Longrightarrow> content_of s p = Some (FileData d) \<Longrightarrow> ReadFile (abs_path p) s = (step s, Ok d)"
  by (auto simp: ReadFile_def sys_call_ok with_inode_abs is_link_def content_of_def lookup_def)

section \<open>Effects on names and contents\<close>

lemma content_of_ino: "content_of s q = map_option (\<lambda>n. in_content (fs_inodes s n)) (ino_of s q)"
  by (cases "ino_of s q") (simp_all add: content_of_def lookup_def)

lemma upd_inode_simps [simp]:
  "ino_of (upd_inode n f s) q = ino_of s q" "fs_names (upd_inode n f s) = fs_names s"
  "fs_inodes (upd_inode n f s) = (fs_inodes s)(n := f (fs_inodes s n))" "fs_next (upd_inode n f s) = fs_next s"
  by (simp_all add: upd_inode_def ino_of_def)

lemma upd_inode_content:
  "(\<And>i. in_content (f i) = in_content i) \<Longrightarrow> content_of (upd_inode n f s) q = content_of s q"
  by (cases "ino_of s q") (simp_all add: content_of_ino)

lemma touch_simps [simp]:
  "ino_of (touch p s) q = ino_of s q" "fs_names (touch p s) = fs_names s"
  "content_of (touch p s) q = content_of s q" "fs_next (touch p s) = fs_next s"
  by (simp_all add: touch_def upd_inode_content split: option.split)

lemma ino_add_name [simp]: "ino_of (add_name p n s) = (ino_of s)(p \<mapsto> n)"
  by (auto simp: add_name_def fun_eq_iff) (simp_all add: ino_of_def update_conv')

lemma ino_del_name [simp]: "ino_of (del_name p s) = (ino_of s)(p := None)"
  by (auto simp: del_name_def fun_eq_iff) (simp_all add: ino_of_def delete_conv')

lemma content_names:
  "content_of (s\<lparr>fs_names := ns\<rparr>) q = map_option (\<lambda>n. in_content (fs_inodes s n)) (map_of ns q)"
  by (simp add: content_of_ino ino_of_def)

lemma content_add_name [simp]:
  "content_of (add_name p n s) = (content_of s)(p \<mapsto> in_content (fs_inodes s n))"
  by (auto simp: add_name_def content_names update_conv' fun_eq_iff) (simp add: content_of_ino ino_of_def)

lemma content_del_name [simp]: "content_of (del_name p s) = (content_of s)(p := None)"
  by (auto simp: del_name_def content_names delete_conv' fun_eq_iff) (simp add: content_of_ino ino_of_def)

lemma next_names [simp]: "fs_next (add_name p n s) = fs_next s" "fs_next (del_name p s) = fs_next s"
  by (simp_all add: add_name_def del_name_def)

lemma dirs_above_cong:
  "(\<And>q. strict_prefix q p \<Longrightarrow> content_of t q = content_of s q) \<Longrightarrow> dirs_above t p = dirs_above s p"
proof -
  assume same: "\<And>q. strict_prefix q p \<Longrightarrow> content_of t q = content_of s q"
  have "strict_prefix (take k p) p" if "k < length p" for k
    using that by (simp add: strict_prefix_def take_is_prefix)
  with same show ?thesis by (auto simp: dirs_above_def list_all_iff)
qed

lemma is_link_cong: "content_of t p = content_of s p \<Longrightarrow> is_link t p = is_link s p"
  by (simp add: is_link_def)

text \<open>Every call either does its work or, on a fault, only takes its step.\<close>

lemma sys_call_cases:
  obtains "sys_call f s = f (step s)" | "sys_call f s = (step s, Fail Fault)"
  by (cases "fs_faults s (fs_tick s)") (simp_all add: sys_call_def)

lemma Remove_abs_cases:
  assumes "dirs_above s p"
  obtains "Remove (abs_path p) s = remove_at p (step s)" | "Remove (abs_path p) s = (step s, Fail Fault)"
  using assms by (rule_tac sys_call_cases [of "with_path False (abs_path p) remove_at" s])
    (simp_all add: Remove_def with_path_abs)

lemma Rename_abs_cases:
  assumes "dirs_above s p" and "dirs_above s q"
  obtains "Rename (abs_path p) (abs_path q) s = rename_at p q (step s)"
    | "Rename (abs_path p) (abs_path q) s = (step s, Fail Fault)"
  using assms
  by (rule_tac sys_call_cases [of "with_path False (abs_path p) (\<lambda>p. with_path False (abs_path q) (rename_at p))" s])
    (simp_all add: Rename_def with_path_abs)

text \<open>A small tree for the witnesses.\<close>

definition dir_inode :: inode where
  "dir_inode = \<lparr>in_content = DirData, in_perm = 493, in_mtime = 7, in_uid = 1, in_gid = 1\<rparr>"

definition small_fs :: fs where
  "small_fs =
     \<lparr>fs_names = [([], 0), ([''src''], 1), ([''src'', ''d''], 2), ([''src'', ''d'', ''f''], 3)],
      fs_inodes = (\<lambda>n. if n = 3 then dir_inode\<lparr>in_content := FileData [1, 2, 3], in_perm := 420\<rparr> else dir_inode),
      fs_next = 4, fs_cwd = [], fs_umask = 18, fs_now = 100, fs_tick = 0,
      fs_faults = (\<lambda>_. None), fs_random = (\<lambda>n. n)\<rparr>"

lemma small_fs_ok: "fs_wf small_fs" "no_faults small_fs" "content_of small_fs [''src''] = Some DirData"
  by (simp_all add: fs_wf_def small_fs_def no_faults_def content_of_def lookup_def ino_of_def dir_inode_def plain_def)

end
