(* ===== verification/Auth.thy ===== *)
theory Auth
  imports Greeting Fs
begin

text \<open>
  \<open>internal/daemon/auth.go\<close>: challenge-response authentication. MD4 is the parameter \<open>md4\<close> (the digest of
  the bytes written to it); the random bytes of a challenge are the parameter \<open>rnd\<close>, \<open>None\<close> when
  \<open>rand.Read\<close> fails. The secrets file is read from the daemon's file system. The client's password
  function is given by its answers: \<open>password n\<close> is the answer to its call number \<open>n\<close>.
\<close>

section \<open>Hashing\<close>

definition base64_char :: "nat \<Rightarrow> char" where
  "base64_char n = ''ABCDEFGHIJKLMNOPQRSTUVWXYZabcdefghijklmnopqrstuvwxyz0123456789+/'' ! n"

text \<open>\<open>base64.RawStdEncoding\<close>: no padding.\<close>

fun base64 :: "bytes \<Rightarrow> string" where
  "base64 [] = []"
| "base64 [a] = [base64_char (unat a div 4), base64_char (unat a mod 4 * 16)]"
| "base64 [a, b] =
     [base64_char (unat a div 4), base64_char (unat a mod 4 * 16 + unat b div 16), base64_char (unat b mod 16 * 4)]"
| "base64 (a # b # c # s) =
     base64_char (unat a div 4) # base64_char (unat a mod 4 * 16 + unat b div 16) #
     base64_char (unat b mod 16 * 4 + unat c div 64) # base64_char (unat c mod 64) # base64 s"

definition md4Hash :: "(bytes \<Rightarrow> bytes) \<Rightarrow> string \<Rightarrow> string \<Rightarrow> string" where
  "md4Hash md4 secret challenge = base64 (md4 (text_bytes secret @ text_bytes challenge))"

definition generateChallenge :: "bytes option \<Rightarrow> string option" where
  "generateChallenge rnd = map_option base64 rnd"

section \<open>The server\<close>

definition AuthRequired :: "Module \<Rightarrow> bool" where
  "AuthRequired m \<longleftrightarrow> length (m_AuthUsers m) > 0"

record daemonState =
  ds_fs :: fs
  ds_conn :: "byte conn"

datatype auth_error =
    WritingOK
  | GeneratingChallenge
  | WritingAuthreqd
  | ReadingAuthResponse line_fault
  | MalformedAuthResponse
  | ErrAuthFailed
  | OpeningSecrets os_error
  | SecretsLineTooLong

definition on_dconn :: "('e \<Rightarrow> 'f) \<Rightarrow> (byte conn, 'e, 'a) prog \<Rightarrow> (daemonState, 'f, 'a) prog" where
  "on_dconn err p = on_part ds_conn (\<lambda>x s. s\<lparr>ds_conn := x\<rparr>) (wrap_err err p)"

definition on_dfs :: "(fs, 'e, 'a) prog \<Rightarrow> (daemonState, 'e, 'a) prog" where
  "on_dfs p = on_part ds_fs (\<lambda>x s. s\<lparr>ds_fs := x\<rparr>) p"

definition add_secret :: "string \<Rightarrow> (string \<times> string) list \<Rightarrow> (string \<times> string) list" where
  "add_secret line secrets =
     (if line = [] \<or> hasPrefix line ''#'' then secrets
      else (case cutAt line CHR '':'' of None \<Rightarrow> secrets | Some (name, secret) \<Rightarrow> AList.update name secret secrets))"

definition readSecretsFile :: "string \<Rightarrow> (fs, auth_error, (string \<times> string) list) prog" where
  "readSecretsFile path =
     bind (wrap_err OpeningSecrets (ReadFile path)) (\<lambda>data.
       (case scanLines (bytes_text data) of
          (ls, ok) \<Rightarrow> if ok then ret (fold add_secret ls []) else throw SecretsLineTooLong))"

definition userAllowed :: "string \<Rightarrow> string list \<Rightarrow> bool" where
  "userAllowed user allowed \<longleftrightarrow> list_ex (\<lambda>u. u = user) allowed"

definition ok_line :: string where "ok_line = ''@RSYNCD: OK''"
definition authReqdPrefix :: string where "authReqdPrefix = ''@RSYNCD: AUTHREQD ''"

definition auth_failed_line :: "Module \<Rightarrow> string" where
  "auth_failed_line m = ''@ERROR: auth failed on module '' @ m_Name m"

definition refuse_auth :: "Module \<Rightarrow> auth_error \<Rightarrow> (daemonState, auth_error, 'a) prog" where
  "refuse_auth m e =
     seq (on_dconn id (tryWriteLine (auth_failed_line m))) (throw e)"

definition check_response :: "(bytes \<Rightarrow> bytes) \<Rightarrow> Module \<Rightarrow> string \<Rightarrow> string \<Rightarrow> string \<Rightarrow> (daemonState, auth_error, string) prog" where
  "check_response md4 m challenge user response =
     (if \<not> userAllowed user (m_AuthUsers m) then refuse_auth m ErrAuthFailed
      else bind (attempt (on_dfs (readSecretsFile (m_SecretsFile m)))) (\<lambda>r.
        (case r of
           Inl _ \<Rightarrow> refuse_auth m ErrAuthFailed
         | Inr secrets \<Rightarrow>
             (case map_of secrets user of
                None \<Rightarrow> refuse_auth m ErrAuthFailed
              | Some secret \<Rightarrow>
                  if response \<noteq> md4Hash md4 secret challenge then refuse_auth m ErrAuthFailed
                  else seq (on_dconn (\<lambda>_. WritingOK) (writeLine ok_line)) (ret user)))))"

definition ServeAuth :: "(bytes \<Rightarrow> bytes) \<Rightarrow> bytes option \<Rightarrow> Module \<Rightarrow> (daemonState, auth_error, string) prog" where
  "ServeAuth md4 rnd m =
     (if \<not> AuthRequired m then seq (on_dconn (\<lambda>_. WritingOK) (writeLine ok_line)) (ret [])
      else (case generateChallenge rnd of
              None \<Rightarrow> throw GeneratingChallenge
            | Some challenge \<Rightarrow>
                seq (on_dconn (\<lambda>_. WritingAuthreqd) (writeLine (authReqdPrefix @ challenge)))
               (bind (on_dconn ReadingAuthResponse readLine) (\<lambda>line.
                  (case cutAt line CHR '' '' of
                     None \<Rightarrow> refuse_auth m MalformedAuthResponse
                   | Some (user, response) \<Rightarrow> check_response md4 m challenge user response)))))"

section \<open>The client\<close>

record dialState =
  dl_conn :: "byte conn"
  dl_asked :: nat

datatype 'p dial_error =
    ReadingResponse line_fault
  | ResolvingPassword 'p
  | WritingAuthResponse
  | DialAuthFailed string
  | UnexpectedLine string

definition StaticPassword :: "string \<Rightarrow> nat \<Rightarrow> 'p + string" where
  "StaticPassword pass n = Ok pass"

definition sent_user :: "string \<Rightarrow> string" where
  "sent_user user = (if user = [] then ''nobody'' else user)"

lemma writeLine_keeps_in: "writeLine s c = (c', r) \<Longrightarrow> c_in c' = c_in c"
  by (auto simp: writeLine_def split: prod.splits)

function DialAuth ::
  "(bytes \<Rightarrow> bytes) \<Rightarrow> string \<Rightarrow> (nat \<Rightarrow> 'p + string) \<Rightarrow> (dialState, 'p dial_error, unit) prog" where
  "DialAuth md4 user password d =
     (case readLine (dl_conn d) of
        (c, Inl f) \<Rightarrow> (d\<lparr>dl_conn := c\<rparr>, Fail (ReadingResponse f))
      | (c, Inr line) \<Rightarrow>
          (if hasPrefix line authReqdPrefix
           then (let challenge = trimPrefix line authReqdPrefix;
                     d1 = d\<lparr>dl_conn := c, dl_asked := Suc (dl_asked d)\<rparr>
                 in case password (dl_asked d) of
                      Inl e \<Rightarrow> (d1, Fail (ResolvingPassword e))
                    | Inr pass \<Rightarrow>
                        (case writeLine (sent_user user @ '' '' @ md4Hash md4 pass challenge) c of
                           (c', Inl _) \<Rightarrow> (d1\<lparr>dl_conn := c'\<rparr>, Fail WritingAuthResponse)
                         | (c', Inr _) \<Rightarrow> DialAuth md4 user password (d1\<lparr>dl_conn := c'\<rparr>)))
           else if line = ok_line then (d\<lparr>dl_conn := c\<rparr>, Ok ())
           else if hasPrefix line ''@ERROR'' then (d\<lparr>dl_conn := c\<rparr>, Fail (DialAuthFailed line))
           else (d\<lparr>dl_conn := c\<rparr>, Fail (UnexpectedLine line))))"
  by pat_completeness auto
termination
proof (relation "measure (\<lambda>(md4, user, password, d). length (c_in (dl_conn d)))", goal_cases)
  case 1
  then show ?case by simp
next
  case 2
  then show ?case by (fastforce dest!: writeLine_keeps_in [OF sym] readLine_shorter [OF sym])
qed

declare DialAuth.simps [simp del]

section \<open>Soundness\<close>

lemma on_dconn_run:
  "on_dconn err p s = (s\<lparr>ds_conn := fst (p (ds_conn s))\<rparr>, map_sum err id (snd (p (ds_conn s))))"
  by (simp add: on_dconn_def on_part_def wrap_err_def split: prod.split)

lemma on_dfs_run: "on_dfs p s = (s\<lparr>ds_fs := fst (p (ds_fs s))\<rparr>, snd (p (ds_fs s)))"
  by (simp add: on_dfs_def on_part_def split: prod.split)

lemma refuse_auth_fails: "snd (refuse_auth m e s) = Fail e"
  by (simp add: refuse_auth_def bind_def on_dconn_run tryWriteLine_def attempt_run throw_def ret_def)

lemma refuse_auth_not_Ok [simp]: "refuse_auth m e s \<noteq> (t, Ok u)"
proof
  assume "refuse_auth m e s = (t, Ok u)"
  then have "snd (refuse_auth m e s) = Ok u" by simp
  then show False by (simp add: refuse_auth_fails)
qed

lemma writeLine_in [simp]: "c_in (fst (writeLine s c)) = c_in c"
  by (simp add: writeLine_def split: prod.split)

lemma readLine_in: "c_in c = c_in c' \<Longrightarrow> snd (readLine c) = snd (readLine c')"
  by (simp add: readLine_def split: prod.split)

lemma check_response_sound:
  assumes "check_response md4 m challenge user response s = (t, Ok u)"
  shows "u = user \<and> user \<in> set (m_AuthUsers m) \<and>
    (\<exists>x secrets secret. readSecretsFile (m_SecretsFile m) (ds_fs s) = (x, Ok secrets) \<and>
       map_of secrets user = Some secret \<and> response = md4Hash md4 secret challenge)"
proof -
  have allowed: "user \<in> set (m_AuthUsers m)"
    using assms
    by (auto simp: check_response_def userAllowed_def list_ex_iff split: if_splits)
  then have "userAllowed user (m_AuthUsers m)" by (auto simp: userAllowed_def list_ex_iff)
  moreover obtain x r where r: "readSecretsFile (m_SecretsFile m) (ds_fs s) = (x, r)" by (meson surj_pair)
  ultimately show ?thesis
    using assms allowed
    by (cases r) (auto simp: check_response_def bind_def attempt_run on_dfs_run ret_def split: if_splits option.splits prod.splits sum.splits)
qed

text \<open>
  Authentication is sound: against any client, any failing calls and any random challenge, the
  server lets a client into a module that requires authentication only under a user name the module
  allows, with a secret for that user in the module's secrets file, and with a response that is the
  MD4 hash of that secret and the challenge it has just issued.
\<close>

theorem ServeAuth_sound:
  assumes "ServeAuth md4 rnd m s = (t, Ok u)" and "AuthRequired m"
  shows "u \<in> set (m_AuthUsers m) \<and>
    (\<exists>buf x secrets secret.
       rnd = Some buf \<and> readSecretsFile (m_SecretsFile m) (ds_fs s) = (x, Ok secrets) \<and> map_of secrets u = Some secret \<and>
       snd (readLine (ds_conn s)) = Ok (u @ '' '' @ md4Hash md4 secret (base64 buf)))"
proof -
  from assms obtain buf where buf: "rnd = Some buf"
    by (cases rnd) (auto simp: ServeAuth_def generateChallenge_def throw_def)
  let ?c1 = "fst (writeLine (authReqdPrefix @ base64 buf) (ds_conn s))"
  obtain line where line: "snd (readLine ?c1) = Ok line"
    and s1: "(case cutAt line CHR '' '' of
       None \<Rightarrow> refuse_auth m MalformedAuthResponse
     | Some (user, response) \<Rightarrow> check_response md4 m (base64 buf) user response) (s\<lparr>ds_conn := fst (readLine ?c1)\<rparr>) = (t, Ok u)"
    using assms buf
    by (auto simp: ServeAuth_def generateChallenge_def bind_def on_dconn_run map_sum_Ok split: sum.splits prod.splits)
  then obtain user response where cut: "cutAt line CHR '' '' = Some (user, response)"
    and check: "check_response md4 m (base64 buf) user response (s\<lparr>ds_conn := fst (readLine ?c1)\<rparr>) = (t, Ok u)"
    by (auto split: option.splits prod.splits)
  have "snd (readLine (ds_conn s)) = Ok line" using line readLine_in [of ?c1 "ds_conn s"] by simp
  with check_response_sound [OF check] cut buf show ?thesis by (auto simp: cutAt_Some)
qed


section \<open>Both sides together\<close>

definition base64_alphabet :: string where
  "base64_alphabet = ''ABCDEFGHIJKLMNOPQRSTUVWXYZabcdefghijklmnopqrstuvwxyz0123456789+/''"

lemma base64_char_in: "n < 64 \<Longrightarrow> base64_char n \<in> set base64_alphabet"
  unfolding base64_char_def base64_alphabet_def by (rule nth_mem) simp

lemma byte_parts:
  fixes a b :: byte
  shows "unat a div 4 < 64" "unat a mod 4 * 16 + unat b div 16 < 64" "unat a mod 4 * 16 < 64"
    "unat a mod 16 * 4 + unat b div 64 < 64" "unat a mod 16 * 4 < 64" "unat a mod 64 < 64"
  using unsigned_less [of a, where ?'a = nat] unsigned_less [of b, where ?'a = nat] by auto

lemma base64_chars: "set (base64 b) \<subseteq> set base64_alphabet"
  by (induction b rule: base64.induct) (auto intro!: base64_char_in byte_parts)

lemma base64_length: "length (base64 b) \<le> 2 * length b"
  by (induction b rule: base64.induct) simp_all

lemma base64_line:
  assumes "line_ok s" and "length s + 2 * length b \<le> maxLineLength" and "b \<noteq> []"
  shows "line_ok (s @ base64 b)"
proof -
  have "CHR 0x0A \<notin> set base64_alphabet" "CHR 0x0D \<notin> set base64_alphabet" by (simp_all add: base64_alphabet_def)
  then have chars: "CHR 0x0A \<notin> set (base64 b)" "CHR 0x0D \<notin> set (base64 b)" using base64_chars by blast+
  have "base64 b \<noteq> []" using assms(3) by (cases b rule: base64.cases) simp_all
  moreover from this have "last (base64 b) \<noteq> CHR 0x0D" using chars(2) last_in_set by metis
  moreover have "length (s @ base64 b) \<le> maxLineLength" using assms(2) base64_length [of b] by simp
  ultimately show ?thesis using assms(1) chars by (simp add: line_ok_def)
qed

text \<open>What each side writes, given the client's password.\<close>

definition challenge_line :: "bytes \<Rightarrow> string" where
  "challenge_line buf = authReqdPrefix @ base64 buf"

definition response_line :: "(bytes \<Rightarrow> bytes) \<Rightarrow> string \<Rightarrow> string \<Rightarrow> bytes \<Rightarrow> string" where
  "response_line md4 user pass buf = user @ '' '' @ md4Hash md4 pass (base64 buf)"

lemma on_dconn_write:
  "on_dconn err (writeLine l) \<lparr>ds_fs = s, ds_conn = \<lparr>c_in = i, c_out = open_writer cs\<rparr>\<rparr>
    = (\<lparr>ds_fs = s, ds_conn = \<lparr>c_in = i, c_out = open_writer (cs @ line_bytes l)\<rparr>\<rparr>, Ok ())"
  by (simp add: on_dconn_run writeLine_open)

lemma on_dconn_try_write:
  "on_dconn err (tryWriteLine l) \<lparr>ds_fs = s, ds_conn = \<lparr>c_in = i, c_out = open_writer cs\<rparr>\<rparr>
    = (\<lparr>ds_fs = s, ds_conn = \<lparr>c_in = i, c_out = open_writer (cs @ line_bytes l)\<rparr>\<rparr>, Ok ())"
  by (simp add: on_dconn_run tryWriteLine_open)

lemma on_dconn_read:
  "line_ok l \<Longrightarrow> on_dconn err readLine \<lparr>ds_fs = s, ds_conn = \<lparr>c_in = line_bytes l @ rest, c_out = w\<rparr>\<rparr>
    = (\<lparr>ds_fs = s, ds_conn = \<lparr>c_in = rest, c_out = w\<rparr>\<rparr>, Ok l)"
  by (simp add: on_dconn_run readLine_line)

lemma ServeAuth_exchange:
  assumes m: "AuthRequired m" "user \<in> set (m_AuthUsers m)" "CHR '' '' \<notin> set user"
    and secrets: "readSecretsFile (m_SecretsFile m) s = (s', Ok secrets)" "map_of secrets user = Some secret"
    and ok: "line_ok (response_line md4 user pass buf)"
  shows "ServeAuth md4 (Some buf) m
      \<lparr>ds_fs = s, ds_conn = \<lparr>c_in = line_bytes (response_line md4 user pass buf) @ rest, c_out = open_writer cs\<rparr>\<rparr> =
    (if md4Hash md4 pass (base64 buf) = md4Hash md4 secret (base64 buf)
     then (\<lparr>ds_fs = s', ds_conn = \<lparr>c_in = rest, c_out = open_writer (cs @ line_bytes (challenge_line buf) @ line_bytes ok_line)\<rparr>\<rparr>,
           Ok user)
     else (\<lparr>ds_fs = s', ds_conn = \<lparr>c_in = rest, c_out = open_writer (cs @ line_bytes (challenge_line buf) @
             line_bytes (auth_failed_line m))\<rparr>\<rparr>, Fail ErrAuthFailed))"
proof -
  have cut: "cutAt (response_line md4 user pass buf) CHR '' '' = Some (user, md4Hash md4 pass (base64 buf))"
    unfolding response_line_def using m(3) cutAt_append [of "CHR '' ''" user] by simp
  have "userAllowed user (m_AuthUsers m)" using m(2) by (auto simp: userAllowed_def list_ex_iff)
  then show ?thesis
    using m(1) secrets
    by (simp add: ServeAuth_def generateChallenge_def bind_def on_dconn_write on_dconn_try_write on_dconn_read [OF ok] cut check_response_def
        attempt_run on_dfs_run ret_def throw_def refuse_auth_def challenge_line_def)
qed


lemma DialAuth_challenge:
  assumes "line_ok (challenge_line buf)" and "password n = Ok pass"
  shows "DialAuth md4 user password \<lparr>dl_conn = \<lparr>c_in = line_bytes (challenge_line buf) @ rest, c_out = open_writer cs\<rparr>, dl_asked = n\<rparr>
    = DialAuth md4 user password
        \<lparr>dl_conn = \<lparr>c_in = rest, c_out = open_writer (cs @ line_bytes (response_line md4 (sent_user user) pass buf))\<rparr>,
         dl_asked = Suc n\<rparr>"
proof -
  have "hasPrefix (challenge_line buf) authReqdPrefix" "trimPrefix (challenge_line buf) authReqdPrefix = base64 buf"
    by (simp_all add: challenge_line_def)
  then show ?thesis
    by (subst DialAuth.simps) (simp add: readLine_line [OF assms(1)] assms(2) writeLine_open response_line_def)
qed

lemma DialAuth_end:
  "DialAuth md4 user password \<lparr>dl_conn = \<lparr>c_in = line_bytes ok_line @ rest, c_out = w\<rparr>, dl_asked = n\<rparr>
    = (\<lparr>dl_conn = \<lparr>c_in = rest, c_out = w\<rparr>, dl_asked = n\<rparr>, Ok ())"
proof -
  have "line_ok ok_line" by (simp add: ok_line_def line_ok_def maxLineLength_def)
  moreover have "\<not> hasPrefix ok_line authReqdPrefix" by (simp add: ok_line_def authReqdPrefix_def hasPrefix_def)
  ultimately show ?thesis by (subst DialAuth.simps) (simp add: readLine_line)
qed

lemma DialAuth_refused:
  assumes "line_ok (auth_failed_line m)"
  shows "DialAuth md4 user password \<lparr>dl_conn = \<lparr>c_in = line_bytes (auth_failed_line m) @ rest, c_out = w\<rparr>, dl_asked = n\<rparr>
    = (\<lparr>dl_conn = \<lparr>c_in = rest, c_out = w\<rparr>, dl_asked = n\<rparr>, Fail (DialAuthFailed (auth_failed_line m)))"
proof -
  have "\<not> hasPrefix (auth_failed_line m) authReqdPrefix" "auth_failed_line m \<noteq> ok_line" "hasPrefix (auth_failed_line m) ''@ERROR''"
    by (simp_all add: auth_failed_line_def authReqdPrefix_def ok_line_def hasPrefix_def)
  then show ?thesis by (subst DialAuth.simps) (simp add: readLine_line [OF assms])
qed

text \<open>
  C20. Authentication agrees: a client whose user the module allows, with any password, against a server
  with any challenge: when the password hashes like the user's secret, both sides succeed, and otherwise
  both fail, the server with \<open>ErrAuthFailed\<close> and the client with the server's refusal; the password is asked for
  once, the file system is only read, and each side has consumed exactly what the other wrote.
\<close>

theorem auth_agreement:
  assumes "AuthRequired m" and "user \<in> set (m_AuthUsers m)" and "CHR '' '' \<notin> set user" and "user \<noteq> []"
    and "readSecretsFile (m_SecretsFile m) s = (s', Ok secrets)" and "map_of secrets user = Some secret"
    and "length buf = 16" and "\<forall>x. length (md4 x) = 16"
    and "line_ok user" and "length user < 8000" and "line_ok (auth_failed_line m)"
  shows "\<exists>server_out client_out sr cr.
    ServeAuth md4 (Some buf) m \<lparr>ds_fs = s, ds_conn = \<lparr>c_in = client_out @ rest, c_out = open_writer []\<rparr>\<rparr>
      = (\<lparr>ds_fs = s', ds_conn = \<lparr>c_in = rest, c_out = open_writer server_out\<rparr>\<rparr>, sr) \<and>
    DialAuth md4 user (StaticPassword pass) \<lparr>dl_conn = \<lparr>c_in = server_out @ tail, c_out = open_writer []\<rparr>, dl_asked = 0\<rparr>
      = (\<lparr>dl_conn = \<lparr>c_in = tail, c_out = open_writer client_out\<rparr>, dl_asked = 1\<rparr>, cr) \<and>
    (if md4Hash md4 pass (base64 buf) = md4Hash md4 secret (base64 buf) then sr = Ok user \<and> cr = Ok ()
     else sr = Fail ErrAuthFailed \<and> cr = Fail (DialAuthFailed (auth_failed_line m)))"
proof -
  have challenge: "line_ok (challenge_line buf)"
    unfolding challenge_line_def
    by (rule base64_line) (use assms(7) in \<open>auto simp: line_ok_def authReqdPrefix_def maxLineLength_def\<close>)
  have nonempty: "md4 (text_bytes pass @ text_bytes (base64 buf)) \<noteq> []"
    using assms(8) by (metis list.size(3) zero_neq_numeral)
  have "line_ok ((user @ '' '') @ base64 (md4 (text_bytes pass @ text_bytes (base64 buf))))"
    by (rule base64_line) (use nonempty assms(8-10) in \<open>auto simp: line_ok_def maxLineLength_def\<close>)
  then have response: "line_ok (response_line md4 user pass buf)" by (simp add: response_line_def md4Hash_def)
  have "sent_user user = user" using assms(4) by (simp add: sent_user_def)
  note server = ServeAuth_exchange [OF assms(1-3,5,6) response, of rest "[]"]
  show ?thesis
  proof (cases "md4Hash md4 pass (base64 buf) = md4Hash md4 secret (base64 buf)")
    case True
    show ?thesis
      by (rule exI [of _ "line_bytes (challenge_line buf) @ line_bytes ok_line"],
          rule exI [of _ "line_bytes (response_line md4 user pass buf)"], rule exI [of _ "Ok user"], rule exI [of _ "Ok ()"])
        (use True server \<open>sent_user user = user\<close> in \<open>simp add: DialAuth_challenge [OF challenge, where pass = pass] StaticPassword_def DialAuth_end\<close>)
  next
    case False
    show ?thesis
      by (rule exI [of _ "line_bytes (challenge_line buf) @ line_bytes (auth_failed_line m)"],
          rule exI [of _ "line_bytes (response_line md4 user pass buf)"], rule exI [of _ "Fail ErrAuthFailed"],
          rule exI [of _ "Fail (DialAuthFailed (auth_failed_line m))"])
        (use False server \<open>sent_user user = user\<close> in \<open>simp add: DialAuth_challenge [OF challenge, where pass = pass] StaticPassword_def DialAuth_refused [OF assms(11)]\<close>)
  qed
qed


definition secrets_fs :: fs where
  "secrets_fs = small_fs\<lparr>fs_inodes := (fs_inodes small_fs)
     (3 := dir_inode\<lparr>in_content := FileData (text_bytes (''ann:sesame'' @ [CHR 0x0A]))\<rparr>)\<rparr>"

definition toy_md4 :: "bytes \<Rightarrow> bytes" where
  "toy_md4 b = take 16 (b @ replicate 16 0)"

definition auth_module :: Module where
  "auth_module = moduleDefaults\<lparr>m_Name := ''data'', m_Path := ''/src'', m_AuthUsers := [''ann''], m_SecretsFile := ''/src/d/f''\<rparr>"

lemma secrets_fs_read: "\<exists>s'. readSecretsFile ''/src/d/f'' secrets_fs = (s', Ok [(''ann'', ''sesame'')])"
proof -
  have "snd (ReadFile ''/src/d/f'' secrets_fs) = Ok (text_bytes (''ann:sesame'' @ [CHR 0x0A]))" by code_simp
  then obtain s' where "ReadFile ''/src/d/f'' secrets_fs = (s', Ok (text_bytes (''ann:sesame'' @ [CHR 0x0A])))"
    by (cases "ReadFile ''/src/d/f'' secrets_fs") simp
  moreover have "scanLines (''ann:sesame'' @ [CHR 0x0A]) = ([''ann:sesame''], True)"
    by (simp add: scan_lines_simps)
  moreover have "add_secret ''ann:sesame'' [] = [(''ann'', ''sesame'')]" by code_simp
  ultimately show ?thesis
    unfolding readSecretsFile_def bind_def wrap_err_def by (simp only: prod.case map_sum.simps sum.case bytes_text_bytes) (simp add: ret_def)
qed

theorem auth_agreement_witness:
  "\<exists>s' server_out client_out sr cr.
    ServeAuth toy_md4 (Some (replicate 16 7)) auth_module
        \<lparr>ds_fs = secrets_fs, ds_conn = \<lparr>c_in = client_out @ [1], c_out = open_writer []\<rparr>\<rparr>
      = (\<lparr>ds_fs = s', ds_conn = \<lparr>c_in = [1], c_out = open_writer server_out\<rparr>\<rparr>, sr) \<and>
    DialAuth toy_md4 ''ann'' (StaticPassword ''sesame'') \<lparr>dl_conn = \<lparr>c_in = server_out @ [2], c_out = open_writer []\<rparr>, dl_asked = 0\<rparr>
      = (\<lparr>dl_conn = \<lparr>c_in = [2], c_out = open_writer client_out\<rparr>, dl_asked = 1\<rparr>, cr :: unit dial_error + unit) \<and>
    sr = Ok ''ann'' \<and> cr = Ok ()"
proof -
  obtain s' where secrets: "readSecretsFile (m_SecretsFile auth_module) secrets_fs = (s', Ok [(''ann'', ''sesame'')])"
    using secrets_fs_read by (auto simp: auth_module_def)
  have "\<exists>server_out client_out sr cr.
    ServeAuth toy_md4 (Some (replicate 16 7)) auth_module
        \<lparr>ds_fs = secrets_fs, ds_conn = \<lparr>c_in = client_out @ [1], c_out = open_writer []\<rparr>\<rparr>
      = (\<lparr>ds_fs = s', ds_conn = \<lparr>c_in = [1], c_out = open_writer server_out\<rparr>\<rparr>, sr) \<and>
    DialAuth toy_md4 ''ann'' (StaticPassword ''sesame'') \<lparr>dl_conn = \<lparr>c_in = server_out @ [2], c_out = open_writer []\<rparr>, dl_asked = 0\<rparr>
      = (\<lparr>dl_conn = \<lparr>c_in = [2], c_out = open_writer client_out\<rparr>, dl_asked = 1\<rparr>, cr :: unit dial_error + unit) \<and>
    (if md4Hash toy_md4 ''sesame'' (base64 (replicate 16 7)) = md4Hash toy_md4 ''sesame'' (base64 (replicate 16 7))
     then sr = Ok ''ann'' \<and> cr = Ok ()
     else sr = Fail ErrAuthFailed \<and> cr = Fail (DialAuthFailed (auth_failed_line auth_module)))"
    by (rule auth_agreement [OF _ _ _ _ secrets])
      (simp_all add: auth_module_def moduleDefaults_def AuthRequired_def toy_md4_def min_def line_ok_def maxLineLength_def auth_failed_line_def)
  then show ?thesis by auto
qed

theorem ServeAuth_sound_witness:
  "\<exists>x secrets secret. readSecretsFile ''/src/d/f'' secrets_fs = (x, Ok secrets) \<and> map_of secrets ''ann'' = Some secret"
proof -
  obtain s' where secrets: "readSecretsFile (m_SecretsFile auth_module) secrets_fs = (s', Ok [(''ann'', ''sesame'')])"
    using secrets_fs_read by (auto simp: auth_module_def)
  have ok: "line_ok (response_line toy_md4 ''ann'' ''sesame'' [7])"
  proof -
    have "line_ok ((''ann'' @ '' '') @ base64 (toy_md4 (text_bytes ''sesame'' @ text_bytes (base64 [7]))))"
      by (rule base64_line) (simp_all add: line_ok_def maxLineLength_def toy_md4_def text_bytes_def)
    then show ?thesis by (simp add: response_line_def md4Hash_def)
  qed
  have auth: "AuthRequired auth_module" by (simp add: auth_module_def AuthRequired_def)
  obtain t where "ServeAuth toy_md4 (Some [7]) auth_module
      \<lparr>ds_fs = secrets_fs, ds_conn = \<lparr>c_in = line_bytes (response_line toy_md4 ''ann'' ''sesame'' [7]) @ [], c_out = open_writer []\<rparr>\<rparr>
      = (t, Ok ''ann'')"
    using ServeAuth_exchange [OF auth _ _ secrets _ ok, where rest = "[]" and cs = "[]" and secret = "''sesame''"]
    by (simp add: auth_module_def)
  from ServeAuth_sound [OF this auth] show ?thesis by (auto simp: auth_module_def)
qed

text \<open>
  The password is not asked for at most once: a server that sends \<open>n\<close> challenges before it lets the
  client in makes \<open>DialAuth\<close> call the password function \<open>n\<close> times and answer every challenge with a hash of the
  password.
\<close>

theorem password_asked_repeatedly:
  assumes "list_all (\<lambda>buf. line_ok (challenge_line buf)) bufs"
  shows "DialAuth md4 user (StaticPassword pass)
      \<lparr>dl_conn = \<lparr>c_in = concat (map (\<lambda>buf. line_bytes (challenge_line buf)) bufs) @ line_bytes ok_line @ rest,
         c_out = open_writer cs\<rparr>, dl_asked = k\<rparr>
    = (\<lparr>dl_conn = \<lparr>c_in = rest,
         c_out = open_writer (cs @ concat (map (\<lambda>buf. line_bytes (response_line md4 (sent_user user) pass buf)) bufs))\<rparr>,
        dl_asked = k + length bufs\<rparr>, Ok ())"
  using assms
proof (induction bufs arbitrary: cs k)
  case Nil
  then show ?case by (simp add: DialAuth_end)
next
  case (Cons buf bufs)
  then show ?case by (simp add: DialAuth_challenge [where pass = pass] StaticPassword_def)
qed

theorem password_asked_repeatedly_witness:
  "dl_asked (fst (DialAuth toy_md4 ''ann'' (StaticPassword ''sesame'' :: nat \<Rightarrow> unit + string)
      \<lparr>dl_conn = \<lparr>c_in = concat (map (\<lambda>buf. line_bytes (challenge_line buf)) [[7], [8]]) @ line_bytes ok_line @ [],
         c_out = open_writer []\<rparr>, dl_asked = 0\<rparr>)) = 2"
proof -
  have "list_all (\<lambda>buf. line_ok (challenge_line buf)) [[7], [8]]"
    by (simp add: challenge_line_def authReqdPrefix_def base64_char_def line_ok_def maxLineLength_def)
  then show ?thesis by (simp only: password_asked_repeatedly fst_conv dialState.simps) simp
qed

end
