(* ===== verification/Credentials.thy ===== *)
theory Credentials
  imports Auth
begin

unbundle bit_operations_syntax

text \<open>
  \<open>internal/cli/credentials.go\<close> and \<open>passwordfile_unix.go\<close>: the user name and the password for a daemon.
  The environment is a function from variable names to their values. The terminal is the parameter of
  the state: \<open>None\<close> when standard input is not a terminal, otherwise the outcome of reading from it
  without echo (\<open>None\<close>: an error). A \<open>bufio.Scanner\<close> on standard input may take more than the first line;
  the model takes it all, which nothing can observe, since it is read once.
\<close>

type_synonym environ = "string \<Rightarrow> string option"

definition Getenv :: "environ \<Rightarrow> string \<Rightarrow> string" where
  "Getenv env name = (case env name of None \<Rightarrow> [] | Some v \<Rightarrow> v)"

definition resolveUser :: "environ \<Rightarrow> string \<Rightarrow> string" where
  "resolveUser env urlUser =
     (if urlUser \<noteq> [] then urlUser
      else if Getenv env ''USER'' \<noteq> [] then Getenv env ''USER''
      else Getenv env ''LOGNAME'')"

datatype password_error =
    CheckingPasswordFile os_error
  | WorldReadable string
  | OpeningPasswordFile os_error
  | ReadingPasswordFile
  | EmptyPasswordFile
  | ReadingPassword

record credentialState =
  cd_fs :: fs
  cd_stdin :: bytes
  cd_terminal :: "string option option"
  cd_prompts :: nat
  cd_once :: "(password_error + string) option"

type_synonym 'a cred = "(credentialState, password_error, 'a) prog"

definition cred_fs :: "(os_error \<Rightarrow> password_error) \<Rightarrow> 'a sys \<Rightarrow> 'a cred" where
  "cred_fs err p = on_part cd_fs (\<lambda>x s. s\<lparr>cd_fs := x\<rparr>) (wrap_err err p)"

text \<open>\<open>info.Mode().Perm()&0o004\<close>\<close>

definition world_readable :: "inode \<Rightarrow> bool" where
  "world_readable i \<longleftrightarrow> in_perm i AND 4 \<noteq> 0"

lemma world_readable_bit: "world_readable i \<longleftrightarrow> bit (in_perm i) 2"
  using and_exp_eq_0_iff_not_bit [of "in_perm i" 2] by (simp add: world_readable_def)

definition checkPasswordFilePermissions :: "string \<Rightarrow> unit cred" where
  "checkPasswordFilePermissions path =
     bind (cred_fs CheckingPasswordFile (Stat path)) (\<lambda>(n, i).
       if world_readable i then throw (WorldReadable path) else skip)"

definition first_line :: "bytes \<Rightarrow> password_error + string" where
  "first_line content =
     (case scanLines (bytes_text content) of
        (l # _, _) \<Rightarrow> Ok l
      | ([], ok) \<Rightarrow> if ok then Fail EmptyPasswordFile else Fail ReadingPasswordFile)"

text \<open>A directory can be opened and not read.\<close>

definition open_failure :: "os_error \<Rightarrow> password_error" where
  "open_failure e = (if e = EISDIR then ReadingPasswordFile else OpeningPasswordFile e)"

definition readPasswordFile :: "string \<Rightarrow> string cred" where
  "readPasswordFile path =
     (if path = ''-'' then bind (get_state cd_stdin) (\<lambda>content.
        seq (modify (\<lambda>s. s\<lparr>cd_stdin := []\<rparr>)) (\<lambda>s. (s, first_line content)))
      else seq (checkPasswordFilePermissions path)
             (bind (cred_fs open_failure (ReadFile path)) (\<lambda>content s. (s, first_line content))))"

definition promptForPassword :: "string cred" where
  "promptForPassword =
     bind (get_state cd_terminal) (\<lambda>t.
       case t of
         None \<Rightarrow> ret []
       | Some r \<Rightarrow>
           seq (modify (\<lambda>s. s\<lparr>cd_prompts := Suc (cd_prompts s)\<rparr>))
               (case r of None \<Rightarrow> throw ReadingPassword | Some pass \<Rightarrow> ret pass))"

definition doResolvePassword :: "environ \<Rightarrow> string \<Rightarrow> string cred" where
  "doResolvePassword env passwordFile =
     (if passwordFile \<noteq> [] then readPasswordFile passwordFile
      else case env ''RSYNC_PASSWORD'' of Some pass \<Rightarrow> ret pass | None \<Rightarrow> promptForPassword)"

text \<open>The function \<open>resolvePassword\<close> returns: \<open>sync.Once\<close> and its two variables are \<open>cd_once\<close>.\<close>

definition resolvePassword :: "environ \<Rightarrow> string \<Rightarrow> string cred" where
  "resolvePassword env passwordFile s =
     (case cd_once s of
        Some r \<Rightarrow> (s, r)
      | None \<Rightarrow> (case doResolvePassword env passwordFile s of (t, r) \<Rightarrow> (t\<lparr>cd_once := Some r\<rparr>, r)))"

fun ask_times :: "environ \<Rightarrow> string \<Rightarrow> nat \<Rightarrow> credentialState \<Rightarrow> credentialState \<times> (password_error + string) list" where
  "ask_times env passwordFile 0 s = (s, [])"
| "ask_times env passwordFile (Suc n) s =
     (case resolvePassword env passwordFile s of
        (t, r) \<Rightarrow> (case ask_times env passwordFile n t of (u, rs) \<Rightarrow> (u, r # rs)))"

lemma ask_again: "cd_once s = Some r \<Longrightarrow> ask_times env passwordFile n s = (s, replicate n r)"
  by (induction n) (simp_all add: resolvePassword_def)

lemma cred_fs_keeps: "cd_prompts (fst (cred_fs err p s)) = cd_prompts s" "cd_once (fst (cred_fs err p s)) = cd_once s"
  by (simp_all add: cred_fs_def on_part_def split: prod.split)

lemma doResolvePassword_prompts: "cd_prompts (fst (doResolvePassword env passwordFile s)) \<le> Suc (cd_prompts s)"
proof -
  have fs: "cd_prompts t = cd_prompts s" if "cred_fs err p s = (t, r)" for err p t r and s :: credentialState
    using that cred_fs_keeps(1) [of err p s] by simp
  show ?thesis
    by (auto simp: doResolvePassword_def readPasswordFile_def promptForPassword_def checkPasswordFilePermissions_def
        prog_simps bind_def split: option.split prod.split sum.split dest!: fs)
qed

section \<open>Properties\<close>

text \<open>
  C21. The password is resolved once: however often the function that \<open>resolvePassword\<close> returns is called
  (by every source's connection, and by every challenge on a connection), the file, standard input or the
  terminal are consulted by the first call only, every call has the same answer, an error included, and
  the user sees at most one prompt.
\<close>

theorem password_resolved_once:
  assumes "cd_once s = None"
  shows "(\<exists>t r. resolvePassword env passwordFile s = (t, r) \<and>
      ask_times env passwordFile (Suc n) s = (t, replicate (Suc n) r) \<and> cd_prompts t \<le> Suc (cd_prompts s))"
proof -
  obtain u r where do: "doResolvePassword env passwordFile s = (u, r)" by (meson surj_pair)
  define t where "t = u\<lparr>cd_once := Some r\<rparr>"
  have first: "resolvePassword env passwordFile s = (t, r)" using assms do by (simp add: resolvePassword_def t_def)
  have "ask_times env passwordFile n t = (t, replicate n r)" by (rule ask_again) (simp add: t_def)
  with first have "ask_times env passwordFile (Suc n) s = (t, replicate (Suc n) r)" by simp
  moreover have "cd_prompts t \<le> Suc (cd_prompts s)"
    using doResolvePassword_prompts [of env passwordFile s] do by (simp add: t_def)
  ultimately show ?thesis using first by blast
qed

definition at_terminal :: credentialState where
  "at_terminal = \<lparr>cd_fs = small_fs, cd_stdin = [], cd_terminal = Some (Some ''pw''), cd_prompts = 0, cd_once = None\<rparr>"

theorem password_resolved_once_witness:
  "\<exists>t. ask_times (\<lambda>_. None) [] (Suc 2) at_terminal = (t, replicate (Suc 2) (Ok ''pw'')) \<and> cd_prompts t \<le> 1"
proof -
  obtain t r where "resolvePassword (\<lambda>_. None) [] at_terminal = (t, r)"
    and t: "ask_times (\<lambda>_. None) [] (Suc 2) at_terminal = (t, replicate (Suc 2) r)" "cd_prompts t \<le> Suc (cd_prompts at_terminal)"
    using password_resolved_once [of at_terminal "\<lambda>_. None" "[]" 2] by (auto simp: at_terminal_def)
  moreover have "snd (resolvePassword (\<lambda>_. None) [] at_terminal) = Ok ''pw''" by code_simp
  ultimately show ?thesis by (simp add: at_terminal_def)
qed

text \<open>
  C22. A named password file is used only if others cannot read it: when a password comes out of
  \<open>--password-file\<close> (other than standard input), the file was checked and its mode does not allow
  others to read it (bit 2), the password is the first line of its content, and neither the environment nor the
  terminal nor standard input had a part in it.
\<close>

theorem password_file_protected:
  assumes "doResolvePassword env passwordFile s = (t, Ok pass)" and "passwordFile \<noteq> []" and "passwordFile \<noteq> ''-''"
  shows "(\<exists>x n i y content. Stat passwordFile (cd_fs s) = (x, Ok (n, i)) \<and> \<not> bit (in_perm i) 2 \<and>
      ReadFile passwordFile x = (y, Ok content) \<and> first_line content = Ok pass) \<and>
    cd_stdin t = cd_stdin s \<and> cd_prompts t = cd_prompts s \<and> same_tree (cd_fs s) (cd_fs t) \<and>
    (\<forall>env'. doResolvePassword env' passwordFile s = (t, Ok pass))"
proof -
  have run: "doResolvePassword e passwordFile s =
      seq (checkPasswordFilePermissions passwordFile)
        (bind (cred_fs open_failure (ReadFile passwordFile)) (\<lambda>content s. (s, first_line content))) s" for e
    using assms(2,3) by (simp add: doResolvePassword_def readPasswordFile_def)
  obtain x r where stat: "Stat passwordFile (cd_fs s) = (x, r)" by (meson surj_pair)
  from assms(1) obtain n i where r: "r = Ok (n, i)" and mode: "\<not> world_readable i"
    unfolding run
    by (cases r) (auto simp: checkPasswordFilePermissions_def bind_def cred_fs_def on_part_def wrap_err_def stat
        prog_simps split: if_splits)
  obtain y c where read: "ReadFile passwordFile x = (y, c)" by (meson surj_pair)
  have check: "checkPasswordFilePermissions passwordFile s = (s\<lparr>cd_fs := x\<rparr>, Ok ())"
    by (simp add: checkPasswordFilePermissions_def bind_def cred_fs_def on_part_def wrap_err_def stat r mode prog_simps)
  from assms(1) obtain content where c: "c = Ok content" and line: "first_line content = Ok pass" and t: "t = s\<lparr>cd_fs := y\<rparr>"
    unfolding run
    by (cases c) (auto simp: bind_def check cred_fs_def on_part_def wrap_err_def read)
  have "same_tree (cd_fs s) x" using tree.keepsD' [OF looks_keep_tree(2) stat] .
  moreover have "same_tree x y" using tree.keepsD' [OF looks_keep_tree(3) read] .
  ultimately have "same_tree (cd_fs s) (cd_fs t)" unfolding t by (auto intro: tree.frame_trans)
  moreover have "doResolvePassword env' passwordFile s = (t, Ok pass)" for env'
    using assms(1) unfolding run .
  ultimately show ?thesis using stat r mode [unfolded world_readable_bit] read c line t by auto
qed

definition password_fs :: fs where
  "password_fs = small_fs\<lparr>fs_inodes := (fs_inodes small_fs)
     (3 := dir_inode\<lparr>in_content := FileData (text_bytes (''pw'' @ [CHR 0x0A])), in_perm := 384\<rparr>)\<rparr>"

lemma password_fs_reads:
  "\<exists>x i y. Stat ''/src/d/f'' password_fs = (x, Ok (3, i)) \<and> \<not> world_readable i \<and>
     ReadFile ''/src/d/f'' x = (y, Ok (text_bytes (''pw'' @ [CHR 0x0A])))"
proof -
  have "snd (Stat ''/src/d/f'' password_fs) = Ok (3, fs_inodes password_fs 3)"
    "snd (ReadFile ''/src/d/f'' (fst (Stat ''/src/d/f'' password_fs))) = Ok (text_bytes (''pw'' @ [CHR 0x0A]))"
    "\<not> world_readable (fs_inodes password_fs 3)"
    by code_simp+
  then show ?thesis by (metis prod.collapse)
qed

theorem password_file_protected_witness:
  "\<exists>t. doResolvePassword (\<lambda>_. None) ''/src/d/f'' (at_terminal\<lparr>cd_fs := password_fs\<rparr>) = (t, Ok ''pw'') \<and>
     cd_prompts t = 0 \<and> same_tree password_fs (cd_fs t)"
proof -
  obtain x i y where reads: "Stat ''/src/d/f'' password_fs = (x, Ok (3, i))" "\<not> world_readable i"
    "ReadFile ''/src/d/f'' x = (y, Ok (text_bytes (''pw'' @ [CHR 0x0A])))"
    using password_fs_reads by blast
  have "scanLines (''pw'' @ [CHR 0x0A]) = ([''pw''], True)" by (simp add: scan_lines_simps)
  then have line: "first_line (text_bytes (''pw'' @ [CHR 0x0A])) = Ok ''pw''" unfolding first_line_def bytes_text_bytes by simp
  have "doResolvePassword (\<lambda>_. None) ''/src/d/f'' (at_terminal\<lparr>cd_fs := password_fs\<rparr>)
      = (at_terminal\<lparr>cd_fs := y\<rparr>, Ok ''pw'')"
    unfolding doResolvePassword_def readPasswordFile_def checkPasswordFilePermissions_def bind_def cred_fs_def
      on_part_def wrap_err_def using reads
    by (simp add: prog_simps line [simplified] at_terminal_def)
  from password_file_protected [OF this] this show ?thesis by (simp add: at_terminal_def)
qed

end
