(* ===== verification/FsInv.thy ===== *)
theory FsInv
  imports Fs
begin

text \<open>
  The file system invariant: names form a tree of directories with plain components and every name
  refers to an allocated inode. Every call keeps it, whatever path it is given and wherever it fails.
\<close>

section \<open>The invariant\<close>

definition fs_inv :: "fs \<Rightarrow> bool" where
  "fs_inv s \<longleftrightarrow> fs_wf s \<and> list_all plain (fs_cwd s)"

interpretation inv: frame_rel "\<lambda>s t. fs_inv s \<longrightarrow> fs_inv t"
  by unfold_locales auto

definition comp_ok :: "string \<Rightarrow> bool" where
  "comp_ok c \<longleftrightarrow> c \<noteq> [] \<and> c \<noteq> ''.'' \<and> slash \<notin> set c"

lemma path_comps_ok: "list_all comp_ok (path_comps p)"
  using splitOn_no_sep [of _ slash p] by (auto simp: path_comps_def list_all_iff comp_ok_def)

lemma resolve_plain:
  "resolve links s follow cur cs = Ok p \<Longrightarrow> list_all plain cur \<Longrightarrow> list_all comp_ok cs \<Longrightarrow> list_all plain p"
proof (induction links s follow cur cs rule: resolve.induct)
  case (2 links s follow cur c rest)
  have but: "list_all plain (butlast cur)"
    using "2.prems"(2) by (cases cur rule: rev_cases) auto
  have c: "plain c" if "c \<noteq> ''..''" using that "2.prems"(3) by (simp add: plain_def comp_ok_def)
  show ?case
  proof (cases "c = ''..''")
    case True
    with 2 but show ?thesis by simp
  next
    case False
    show ?thesis
    proof (cases "content_of s (cur @ [c])")
      case None
      with False "2.prems" c show ?thesis by (auto split: if_splits)
    next
      case (Some x)
      note dir = "2.IH"(2) [OF False Some] and link = "2.IH"(3) [OF False Some]
      show ?thesis
      proof (cases x)
        case DirData
        with False Some "2.prems" c dir [OF DirData] show ?thesis by simp
      next
        case (LinkData t)
        show ?thesis
        proof (cases "(rest = [] \<and> \<not> follow) \<or> links = 0")
          case True
          with False Some LinkData "2.prems" c show ?thesis by (auto split: if_splits)
        next
          case go: False
          then have g: "\<not> (rest = [] \<and> \<not> follow)" "links \<noteq> 0" by simp_all
          have "resolve (links - 1) s follow (if IsAbs t then [] else cur) (path_comps t @ rest) = Ok p"
            using False Some LinkData "2.prems"(1) g by simp
          then show ?thesis
            using link [OF LinkData g] "2.prems" path_comps_ok [of t] by (cases "IsAbs t") simp_all
        qed
      qed (use False Some "2.prems" c in \<open>auto split: if_splits\<close>)
    qed
  qed
qed simp

lemma resolve_path_plain: "resolve_path s follow path = Ok p \<Longrightarrow> list_all plain (fs_cwd s) \<Longrightarrow> list_all plain p"
  using resolve_plain [of max_links s follow "if IsAbs path then [] else fs_cwd s" "path_comps path" p]
    path_comps_ok [of path]
  by (cases "IsAbs path") (simp_all add: resolve_path_def split: if_splits)

lemma fs_inv_step [simp]: "fs_inv (step s) = fs_inv s"
  using same_tree_wf [OF same_tree_step, of s] by (simp add: fs_inv_def step_def)

lemma inv_sys_call: "(\<And>s. fs_inv s \<Longrightarrow> fs_inv (fst (f s))) \<Longrightarrow> inv.keeps (sys_call f)"
  by (intro inv.keepsI) (auto simp: sys_call_def split: option.split)

lemma inv_with_path:
  assumes "\<And>p s. fs_inv s \<Longrightarrow> list_all plain p \<Longrightarrow> fs_inv (fst (f p s))" and "fs_inv s"
  shows "fs_inv (fst (with_path follow path f s))"
  using assms resolve_path_plain [of s follow path]
  by (auto simp: with_path_def fs_inv_def split: sum.split)

lemma wf_alt:
  "fs_wf s \<longleftrightarrow> distinct (map fst (fs_names s)) \<and> content_of s [] = Some DirData \<and>
     (\<forall>p n. ino_of s p = Some n \<longrightarrow> n < fs_next s \<and> (p = [] \<or> plain (last p) \<and> content_of s (butlast p) = Some DirData))"
proof -
  have "(\<forall>(p, n) \<in> set (fs_names s). P p n) \<longleftrightarrow> (\<forall>p n. map_of (fs_names s) p = Some n \<longrightarrow> P p n)"
    if "distinct (map fst (fs_names s))" for P
    unfolding map_of_eq_Some_iff [OF that] by auto
  from this [of "\<lambda>p n. n < fs_next s \<and> (p = [] \<or> plain (last p) \<and> content_of s (butlast p) = Some DirData)"]
  show ?thesis unfolding fs_wf_def list_all_iff ino_of_def by (intro conj_cong refl) (assumption | rule)+
qed

lemma inv_upd_inode:
  "(\<And>i. in_content (f i) = DirData \<longleftrightarrow> in_content i = DirData) \<Longrightarrow> fs_inv s \<Longrightarrow> fs_inv (upd_inode n f s)"
proof -
  assume f: "\<And>i. in_content (f i) = DirData \<longleftrightarrow> in_content i = DirData" and s: "fs_inv s"
  have "content_of (upd_inode n f s) q = Some DirData \<longleftrightarrow> content_of s q = Some DirData" for q
    using f by (cases "ino_of s q") (auto simp: content_of_ino)
  then have "fs_wf (upd_inode n f s) = fs_wf s" by (simp only: wf_alt upd_inode_simps)
  with s show ?thesis by (simp add: fs_inv_def) (simp add: upd_inode_def)
qed

lemma inv_touch: "fs_inv s \<Longrightarrow> fs_inv (touch p s)"
  by (simp add: touch_def inv_upd_inode split: option.split)

lemma inv_add_name:
  assumes "fs_wf s" and "list_all plain (fs_cwd s)" and "n < fs_next s" and "plain (last p)" and "p \<noteq> []"
    and "content_of s (butlast p) = Some DirData" and "content_of s p \<noteq> Some DirData"
  shows "fs_inv (add_name p n s)"
proof -
  let ?t = "s\<lparr>fs_names := AList.update p n (fs_names s)\<rparr>"
  have ino: "ino_of ?t = (ino_of s)(p \<mapsto> n)"
    by (simp add: fun_eq_iff ino_of_def update_conv')
  have cont: "content_of ?t q = (if q = p then Some (in_content (fs_inodes s n)) else content_of s q)" for q
    by (simp add: content_of_ino ino)
  have "distinct (map fst (AList.update p n (fs_names s)))"
    using assms(1) by (simp add: fs_wf_def distinct_update)
  moreover have "butlast q \<noteq> p" if "ino_of s q = Some m" "q \<noteq> []" for q m
    using assms(1,7) that by (auto simp: wf_alt)
  moreover have "butlast p \<noteq> p" using assms(5) by (metis append_butlast_last_id append_self_conv list.distinct(1))
  moreover have "content_of ?t (butlast q) = Some DirData"
    if "ino_of s q = Some m" "q \<noteq> []" for q m
    using assms(1) that calculation(2) [OF that] by (auto simp: wf_alt cont)
  moreover have "content_of ?t [] = Some DirData" using assms(1,5) by (simp add: fs_wf_def cont)
  ultimately have "fs_wf ?t"
    using assms unfolding wf_alt by (auto simp: ino cont split: if_splits)
  then show ?thesis using assms(2) inv_touch [of ?t] by (simp add: add_name_def fs_inv_def)
qed

lemma inv_del_name:
  assumes "fs_inv s" and "p \<noteq> []" and "\<And>q m. ino_of s q = Some m \<Longrightarrow> q \<noteq> [] \<Longrightarrow> butlast q \<noteq> p"
  shows "fs_inv (del_name p s)"
proof -
  let ?t = "s\<lparr>fs_names := AList.delete p (fs_names s)\<rparr>"
  have ino: "ino_of ?t = (ino_of s)(p := None)"
    by (simp add: fun_eq_iff ino_of_def delete_conv')
  have cont: "content_of ?t q = (if q = p then None else content_of s q)" for q
    by (simp add: content_of_ino ino)
  have "distinct (map fst (AList.delete p (fs_names s)))"
    using assms(1) by (simp add: fs_inv_def fs_wf_def distinct_delete)
  then have "fs_wf ?t"
    using assms by (auto simp: fs_inv_def wf_alt ino cont)
  then show ?thesis using assms(1) inv_touch [of ?t] by (simp add: del_name_def fs_inv_def)
qed

lemma no_child: "fs_wf s \<Longrightarrow> content_of s p \<noteq> Some DirData \<Longrightarrow> ino_of s q = Some m \<Longrightarrow> q \<noteq> [] \<Longrightarrow> butlast q \<noteq> p"
  by (auto simp: wf_alt)

lemma inv_create:
  assumes "fs_inv s" and "list_all plain p"
  shows "fs_inv (fst (create p c perm s))"
proof (cases "ino_of s p \<noteq> None \<or> content_of s (butlast p) \<noteq> Some DirData")
  case True
  with assms(1) show ?thesis by (auto simp: create_def)
next
  case False
  let ?i = "\<lparr>in_content = c, in_perm = perm, in_mtime = fs_now s, in_uid = 0, in_gid = 0\<rparr>"
  let ?t = "s\<lparr>fs_inodes := (fs_inodes s)(fs_next s := ?i), fs_next := Suc (fs_next s)\<rparr>"
  have wf: "fs_wf s" using assms(1) by (simp add: fs_inv_def)
  have ino: "ino_of ?t = ino_of s" by (simp add: fun_eq_iff ino_of_def)
  have "ino_of s q \<noteq> Some (fs_next s)" for q using wf by (auto simp: wf_alt)
  then have cont: "content_of ?t q = content_of s q" for q
    by (cases "ino_of s q") (auto simp: content_of_ino ino)
  have "p \<noteq> []" using False wf content_ino [of s "[]"] by (auto simp: fs_wf_def)
  moreover have "fs_wf ?t" using wf by (auto simp: wf_alt ino cont less_SucI)
  ultimately have "fs_inv (add_name p (fs_next s) ?t)"
    using False assms content_ino [of s p]
    by (intro inv_add_name) (auto simp: cont fs_inv_def list_all_iff)
  then show ?thesis using False by (simp add: create_def Let_def)
qed

lemma inv_remove_at: "fs_inv s \<Longrightarrow> fs_inv (fst (remove_at p s))"
proof -
  assume s: "fs_inv s"
  have empty: "butlast q \<noteq> p" if "is_empty_dir s p" "ino_of s q = Some m" "q \<noteq> []" for q m
    using that by (auto simp: is_empty_dir_def list_all_iff ino_of_def dest!: map_of_SomeD)
  show "fs_inv (fst (remove_at p s))"
  proof (cases "content_of s p")
    case None
    with s show ?thesis by (simp add: remove_at_def)
  next
    case (Some x)
    show ?thesis
    proof (cases "x = DirData")
      case True
      have "fs_inv (del_name p s)" if "p \<noteq> []" "is_empty_dir s p"
        using s that(1) empty [OF that(2)] by (rule inv_del_name)
      with True Some s show ?thesis by (auto simp: remove_at_def)
    next
      case False
      with Some s have "fs_inv (del_name p s)"
        by (intro inv_del_name no_child [of s p]) (auto simp: fs_inv_def fs_wf_def)
      moreover have "remove_at p s = (del_name p s, Ok ())"
        using False Some by (cases x) (simp_all add: remove_at_def)
      ultimately show ?thesis by simp
    qed
  qed
qed

lemma inv_rename_at:
  assumes "fs_inv s" and "list_all plain q"
  shows "fs_inv (fst (rename_at p q s))"
proof (cases "fst (rename_at p q s) = s")
  case False
  then obtain n where n: "ino_of s p = Some n" "content_of s p \<noteq> Some DirData" "content_of s q \<noteq> Some DirData"
      "content_of s (butlast q) = Some DirData" "ino_of s q \<noteq> Some n"
    and run: "rename_at p q s = (add_name q n (del_name p s), Ok ())"
    by (auto simp: rename_at_def split: option.splits if_splits)
  have wf: "fs_wf s" using assms(1) by (simp add: fs_inv_def)
  have p: "p \<noteq> []" and q: "q \<noteq> []" using n wf by (auto simp: fs_wf_def)
  have del: "fs_inv (del_name p s)"
    using assms(1) p by (rule inv_del_name) (rule no_child [OF wf n(2)])
  have "n < fs_next s" using wf n(1) by (simp add: wf_alt)
  moreover have "content_of (del_name p s) (butlast q) = Some DirData"
    using n(2,4) by auto
  ultimately have "fs_inv (add_name q n (del_name p s))"
    using del n q assms(2) by (intro inv_add_name) (auto simp: fs_inv_def list_all_iff)
  with run show ?thesis by simp
qed (use assms(1) in simp)

lemmas inv_intros = inv.keeps_intros

lemma looks_keep_inv:
  "inv.keeps (Lstat path)" "inv.keeps (Stat path)" "inv.keeps (ReadFile path)" "inv.keeps (Readlink path)"
proof -
  have same: "fs_inv s \<longrightarrow> fs_inv t" if "same_tree s t" for s t
    using same_tree_wf [OF that] that by (simp add: fs_inv_def same_tree_def)
  show "inv.keeps (Lstat path)" "inv.keeps (Stat path)" "inv.keeps (ReadFile path)" "inv.keeps (Readlink path)"
    by (intro inv.keepsI same tree.keepsD looks_keep_tree)+
qed

lemma inv_with_inode:
  "(\<And>n s. fs_inv s \<Longrightarrow> fs_inv (fst (f n s))) \<Longrightarrow> fs_inv s \<Longrightarrow> fs_inv (fst (with_inode follow path f s))"
  unfolding with_inode_def by (rule inv_with_path) (auto split: option.split)

lemma changes_keep_inv:
  "inv.keeps (Remove path)" "inv.keeps (Rename old new)" "inv.keeps (Link old new)"
  "inv.keeps (Symlink target path)" "inv.keeps (Mkdir path perm)" "inv.keeps (Mkfifo path perm)"
  "inv.keeps (open_excl path)" "inv.keeps (Chmod path perm)" "inv.keeps (Chtimes path now)"
  "inv.keeps (Lchown path uid gid)" "inv.keeps (Fchmod n perm)"
proof -
  show "inv.keeps (Remove path)"
    unfolding Remove_def by (intro inv_sys_call inv_with_path inv_remove_at)
  show "inv.keeps (Rename old new)"
    unfolding Rename_def by (intro inv_sys_call inv_with_path inv_rename_at)
  show "inv.keeps (Link old new)"
    unfolding Link_def
  proof (intro inv_sys_call inv_with_path)
    fix s p q
    assume s: "fs_inv s" and q: "list_all plain q"
    show "fs_inv (fst (case ino_of s p of None \<Rightarrow> (s, Fail ENOENT)
        | Some n \<Rightarrow> (if content_of s p = Some DirData then (s, Fail EPERM)
            else if ino_of s q \<noteq> None then (s, Fail EEXIST)
            else if content_of s (butlast q) \<noteq> Some DirData then (s, Fail ENOENT)
            else (add_name q n s, Ok ()))))"
    proof (cases "ino_of s p")
      case (Some n)
      have "fs_inv (add_name q n s)" if "ino_of s q = None" "content_of s (butlast q) = Some DirData"
      proof (rule inv_add_name)
        show "q \<noteq> []" using that(1) s content_ino [of s "[]"] by (auto simp: fs_inv_def fs_wf_def)
        then show "plain (last q)" using q by (simp add: list_all_iff)
      qed (use s that Some content_ino [of s q] in \<open>auto simp: fs_inv_def wf_alt\<close>)
      with Some s show ?thesis by auto
    qed (use s in simp)
  qed
  have made: "fs_inv (fst (case create p c m s of (s', r) \<Rightarrow> (s', map_sum id (\<lambda>_. ()) r)))"
    if "fs_inv s" "list_all plain p" for s p c m
    using inv_create [OF that, of c m] by (cases "create p c m s") simp
  show "inv.keeps (Symlink target path)" "inv.keeps (Mkdir path perm)" "inv.keeps (Mkfifo path perm)"
    unfolding Symlink_def Mkdir_def Mkfifo_def by (intro inv_sys_call inv_with_path made; assumption)+
  show "inv.keeps (open_excl path)"
    unfolding open_excl_def by (intro inv_sys_call inv_with_path inv_create)
  show "inv.keeps (Chmod path perm)" "inv.keeps (Chtimes path now)" "inv.keeps (Lchown path uid gid)"
    unfolding Chmod_def Chtimes_def Lchown_def by (intro inv_sys_call inv_with_inode; simp add: inv_upd_inode)+
  show "inv.keeps (Fchmod n perm)"
    unfolding Fchmod_def by (intro inv_sys_call) (simp add: inv_upd_inode)
qed

lemma Write_keeps_inv: "fs_inv s \<Longrightarrow> fs_inv (fst (Write n d s))"
proof -
  have "in_content (append_data now e i) = DirData \<longleftrightarrow> in_content i = DirData" for now e i
    by (cases "in_content i") (simp_all add: append_data_def)
  then show "fs_inv s \<Longrightarrow> fs_inv (fst (Write n d s))"
    by (simp add: Write_def inv_upd_inode split: option.split)
qed

lemma CreateTemp_keeps_inv: "inv.keeps (CreateTemp tries dir pre post)"
proof (intro inv.keepsI impI)
  fix s
  assume "fs_inv s"
  then show "fs_inv (fst (CreateTemp tries dir pre post s))"
  proof (induction tries arbitrary: s)
    case (Suc tries)
    let ?o = "open_excl (temp_name dir pre post (fs_random s (fs_tick s))) s"
    have "fs_inv (fst ?o)" using inv.keepsD [OF changes_keep_inv(7), of s] Suc.prems by simp
    with Suc.IH [of "fst ?o"] show ?case
      by (auto simp: Let_def split: prod.split sum.split)
  qed simp
qed

lemma MkdirAll_keeps_inv: "inv.keeps (MkdirAll root cs perm)"
proof (intro inv.keepsI impI)
  fix s
  assume "fs_inv s"
  then show "fs_inv (fst (MkdirAll root cs perm s))"
  proof (induction root cs perm s rule: MkdirAll.induct)
    case (1 root cs perm s)
    let ?p = "if root = [] \<and> cs = [] then ''.'' else root @ joinWith slash cs"
    obtain s1 r1 where st: "Stat ?p s = (s1, r1)" by (cases "Stat ?p s") auto
    have s1: "fs_inv s1" using inv.keepsD' [OF looks_keep_inv(2) st] "1.prems" by simp
    obtain s2 r2 where rec: "MkdirAll root (butlast cs) perm s1 = (s2, r2)"
      by (cases "MkdirAll root (butlast cs) perm s1") auto
    obtain s3 r3 where mk: "Mkdir ?p perm s2 = (s3, r3)" by (cases "Mkdir ?p perm s2") auto
    obtain s4 r4 where ls: "Lstat ?p s3 = (s4, r4)" by (cases "Lstat ?p s3") auto
    have "fs_inv s2" if "cs \<noteq> []" "r1 = Inl e" for e
      using "1.IH" [OF refl st [symmetric] that(2) that(1)] s1 rec by simp
    moreover have "fs_inv s3" if "fs_inv s2" using inv.keepsD' [OF changes_keep_inv(5) mk] that by simp
    moreover have "fs_inv s4" if "fs_inv s3" using inv.keepsD' [OF looks_keep_inv(1) ls] that by simp
    ultimately show ?case
      using s1 st rec mk ls
      by (subst MkdirAll.simps) (auto simp: Let_def split: sum.split prod.split)
  qed
qed

end
