(* ===== verification/Attributes.thy ===== *)
theory Attributes
  imports FsInv
begin

unbundle bit_operations_syntax

text \<open>
  \<open>internal/sync/attributes.go\<close>, \<open>specialfiles.go\<close> and \<open>hardlinks.go\<close>: applying permissions, times,
  ownership and symbolic links to a destination path, creating named pipes, and detecting and
  recreating groups of hard links.
\<close>

section \<open>attributes.go\<close>

record attrResult =
  PermsApplied :: bool
  TimesApplied :: bool
  OwnerApplied :: bool
  OwnerSkipped :: bool
  LinkApplied :: bool

datatype attr_error =
    NotASymlink string
  | NoLinkTarget string
  | RemoveExistingFailed os_error
  | SymlinkFailed os_error
  | PermsFailed os_error
  | TimesFailed os_error
  | OwnershipFailed os_error

definition applyPerms :: "string \<Rightarrow> fileMode \<Rightarrow> (fs, attr_error, unit) prog" where
  "applyPerms path mode = wrap_err PermsFailed (Chmod path (Perm mode))"

definition applyTimes :: "string \<Rightarrow> int \<Rightarrow> (fs, attr_error, unit) prog" where
  "applyTimes path modTime = wrap_err TimesFailed (Chtimes path modTime)"

text \<open>The result is the pair \<open>applied\<close>, \<open>skipped\<close>.\<close>

definition applyOwnership :: "string \<Rightarrow> fileEntry \<Rightarrow> bool \<Rightarrow> bool \<Rightarrow> (fs, attr_error, bool \<times> bool) prog" where
  "applyOwnership path entry applyOwner applyGroup =
     (if \<not> applyOwner \<and> \<not> applyGroup then ret (False, False)
      else if \<not> fe_OwnershipAvailable entry then ret (False, True)
      else bind (wrap_err OwnershipFailed
                   (Lchown path (if applyOwner then Some (fe_UID entry) else None)
                                (if applyGroup then Some (fe_GID entry) else None)))
             (\<lambda>_. ret (True, False)))"

definition applySymlink :: "string \<Rightarrow> fileEntry \<Rightarrow> (fs, attr_error, unit) prog" where
  "applySymlink destPath entry =
     (if fe_Mode entry AND ModeSymlink = 0 then throw (NotASymlink (fe_Path entry))
      else if fe_LinkTarget entry = [] then throw (NoLinkTarget (fe_Path entry))
      else bind (attempt (Remove destPath)) (\<lambda>r.
        (case r of
           Inl e \<Rightarrow> (if e = ENOENT then wrap_err SymlinkFailed (Symlink (fe_LinkTarget entry) destPath)
                     else throw (RemoveExistingFailed e))
         | Inr _ \<Rightarrow> wrap_err SymlinkFailed (Symlink (fe_LinkTarget entry) destPath))))"

definition no_result :: attrResult where
  "no_result = \<lparr>PermsApplied = False, TimesApplied = False, OwnerApplied = False, OwnerSkipped = False,
     LinkApplied = False\<rparr>"

text \<open>The three steps of \<open>ApplyAttributes\<close>: the link or the permissions and times, then ownership.\<close>

definition apply_first :: "fileEntry \<Rightarrow> string \<Rightarrow> attrOptions \<Rightarrow> (fs, attr_error, attrResult) prog" where
  "apply_first entry destPath opts =
     (if fe_Mode entry AND ModeSymlink \<noteq> 0
      then (if ao_Links opts
            then bind (applySymlink destPath entry) (\<lambda>_. ret (no_result\<lparr>LinkApplied := True\<rparr>))
            else ret no_result)
      else bind (if ao_Perms opts then applyPerms destPath (fe_Mode entry) else skip) (\<lambda>_.
           bind (if ao_Times opts then applyTimes destPath (fe_ModTime entry) else skip) (\<lambda>_.
           ret (no_result\<lparr>PermsApplied := ao_Perms opts, TimesApplied := ao_Times opts\<rparr>))))"

definition ApplyAttributes :: "fileEntry \<Rightarrow> string \<Rightarrow> attrOptions \<Rightarrow> (fs, attr_error, attrResult) prog" where
  "ApplyAttributes entry destPath opts =
     bind (apply_first entry destPath opts) (\<lambda>result.
       if ao_Owner opts \<or> ao_Group opts
       then bind (applyOwnership destPath entry (ao_Owner opts) (ao_Group opts)) (\<lambda>(applied, skipped).
              ret (result\<lparr>OwnerApplied := applied, OwnerSkipped := skipped\<rparr>))
       else ret result)"

section \<open>specialfiles.go\<close>

datatype special_error =
    SpecialFileUnsupported string
  | NotASpecialFile string
  | MkfifoFailed os_error

definition applyNamedPipe :: "string \<Rightarrow> fileMode \<Rightarrow> (fs, special_error, unit) prog" where
  "applyNamedPipe destPath mode = wrap_err MkfifoFailed (Mkfifo destPath (Perm mode))"

definition ApplySpecialFile :: "string \<Rightarrow> fileEntry \<Rightarrow> (fs, special_error, unit) prog" where
  "ApplySpecialFile destPath entry =
     (case ClassifySpecialFile entry of
        NamedPipe \<Rightarrow> applyNamedPipe destPath (fe_Mode entry)
      | Socket \<Rightarrow> throw (SpecialFileUnsupported (fe_Path entry))
      | CharDevice \<Rightarrow> throw (SpecialFileUnsupported (fe_Path entry))
      | BlockDevice \<Rightarrow> throw (SpecialFileUnsupported (fe_Path entry))
      | NotSpecial \<Rightarrow> throw (NotASpecialFile (fe_Path entry)))"

section \<open>hardlinks.go\<close>

datatype link_error =
    StatFailed string os_error
  | ParentFailed string os_error
  | UnlinkFailed string os_error
  | LinkFailed string string os_error

text \<open>
  The identity of a file. The file that is compiled depends on the platform: \<open>lookupHardLinkKey\<close> and
  \<open>HardLinksSupported\<close> here are those of POSIX, theory \<open>Windows\<close> has the others, and what uses the lookup
  takes it as an argument. The model has one device.
\<close>

record hardLinkKey =
  Dev :: nat
  Ino :: nat

definition lookupHardLinkKey :: "nat \<times> inode \<Rightarrow> hardLinkKey option" where
  "lookupHardLinkKey info = Some \<lparr>Dev = 0, Ino = fst info\<rparr>"

definition HardLinksSupported :: bool where
  "HardLinksSupported = True"

text \<open>\<open>byKey\<close>: the paths of each key, in the order they are found.\<close>

fun add_link :: "'k \<Rightarrow> string \<Rightarrow> ('k \<times> string list) list \<Rightarrow> ('k \<times> string list) list" where
  "add_link k p [] = [(k, [p])]"
| "add_link k p ((j, ps) # m) = (if j = k then (j, ps @ [p]) # m else (j, ps) # add_link k p m)"

definition group_links :: "('k \<times> string list) list \<Rightarrow> hardLinkGroup list" where
  "group_links byKey =
     sort_key hd (map sort (filter (\<lambda>ps. \<not> length ps < 2) (map snd byKey)))"

fun collect_links ::
  "(nat \<times> inode \<Rightarrow> 'k option) \<Rightarrow> string \<Rightarrow> ('k \<times> string list) list \<Rightarrow> fileEntry list \<Rightarrow>
     (fs, link_error, ('k \<times> string list) list) prog" where
  "collect_links ident root byKey [] = ret byKey"
| "collect_links ident root byKey (e # es) =
     (if fe_IsDir e \<or> fe_Mode e AND ModeSymlink \<noteq> 0 then collect_links ident root byKey es
      else bind (wrap_err (StatFailed (fe_Path e)) (Lstat (Join root (fe_Path e)))) (\<lambda>info.
             collect_links ident root
               (case ident info of None \<Rightarrow> byKey | Some key \<Rightarrow> add_link key (fe_Path e) byKey) es))"

definition DetectHardLinks ::
  "(nat \<times> inode \<Rightarrow> 'k option) \<Rightarrow> string \<Rightarrow> fileEntry list \<Rightarrow> (fs, link_error, hardLinkGroup list) prog" where
  "DetectHardLinks ident root entries =
     bind (collect_links ident root [] entries) (\<lambda>byKey. ret (group_links byKey))"

definition apply_link :: "string \<Rightarrow> string \<Rightarrow> string \<Rightarrow> (fs, link_error, unit) prog" where
  "apply_link destRoot first p =
     (let source = Join destRoot first; dest = Join destRoot p in
      bind (wrap_err (ParentFailed p) (mkdir_all (Dir dest))) (\<lambda>_.
      bind (attempt (Remove dest)) (\<lambda>r.
        (case r of
           Inl e \<Rightarrow> (if e = ENOENT then wrap_err (LinkFailed p first) (Link source dest)
                     else throw (UnlinkFailed dest e))
         | Inr _ \<Rightarrow> wrap_err (LinkFailed p first) (Link source dest)))))"

definition ApplyHardLinks :: "string \<Rightarrow> hardLinkGroup \<Rightarrow> (fs, link_error, unit) prog" where
  "ApplyHardLinks destRoot grp =
     (if length grp < 2 then skip
      else each (apply_link destRoot (hd grp)) (tl grp))"

section \<open>The calls keep the invariant\<close>

lemma mkdir_all_keeps_inv: "inv.keeps (mkdir_all path)"
  by (simp add: mkdir_all_def MkdirAll_keeps_inv)

lemmas inv_calls =
  changes_keep_inv looks_keep_inv mkdir_all_keeps_inv inv.keeps_attempt inv.keeps_wrap_err inv.keeps_throw
  inv.keeps_ret inv.keeps_bind

lemma applySymlink_keeps_inv: "inv.keeps (applySymlink destPath entry)"
  unfolding applySymlink_def by (auto intro!: inv_calls split: sum.split)

lemma apply_first_keeps_inv: "inv.keeps (apply_first entry destPath opts)"
  unfolding apply_first_def applyPerms_def applyTimes_def
  by (auto intro!: inv_calls applySymlink_keeps_inv)

lemma ApplyAttributes_keeps_inv: "inv.keeps (ApplyAttributes entry destPath opts)"
  unfolding ApplyAttributes_def applyOwnership_def
  by (auto intro!: inv_calls apply_first_keeps_inv split: prod.split)

lemma ApplyHardLinks_keeps_inv: "inv.keeps (ApplyHardLinks destRoot grp)"
  unfolding ApplyHardLinks_def apply_link_def Let_def
  by (auto intro!: inv_calls inv.keeps_each split: sum.split)

end
