(* ===== verification/Partial.thy ===== *)
theory Partial
  imports FsInv Itemize
begin

text \<open>
  \<open>internal/pipeline/partial.go\<close>: a regular file is written to a temporary file beside its destination
  and renamed into place; \<open>--partial\<close> and \<open>--partial-dir\<close> decide what becomes of the temporary file
  when that fails. The progress reports of the chunked writer are not modelled, its chunks are.
\<close>

section \<open>Writing\<close>

datatype write_error =
    WriteFailed os_error
  | RenameFailed os_error

text \<open>The temporary file's path and inode; a failing \<open>Chmod\<close> is ignored.\<close>

definition createTempFile :: "string \<Rightarrow> (fs, os_error, string \<times> nat) prog" where
  "createTempFile destPath =
     bind (CreateTemp max_temp_tries (Dir destPath) (''.'' @ Base destPath @ ''.'') ''.grsync-tmp'') (\<lambda>(path, n).
     bind (attempt (Fchmod n 420)) (\<lambda>_ :: os_error + unit. ret (path, n)))"

definition progressWriteChunkSize :: nat where
  "progressWriteChunkSize = 262144"

function write_chunks :: "nat \<Rightarrow> bytes \<Rightarrow> fs \<Rightarrow> fs \<times> os_error option" where
  "write_chunks n data s =
     (if data = [] then (s, None)
      else case Write n (take progressWriteChunkSize data) s of
        (s1, k, Some e) \<Rightarrow> (s1, Some e)
      | (s1, k, None) \<Rightarrow> write_chunks n (drop progressWriteChunkSize data) s1)"
  by pat_completeness auto
termination
  by (relation "measure (\<lambda>(n, data, s). length data)") (auto simp: progressWriteChunkSize_def)

declare write_chunks.simps [simp del]

text \<open>The result is \<open>tmpPath\<close> and \<open>err\<close>; both are returned even on an error.\<close>

definition writeToTempFileWithProgress ::
  "string \<Rightarrow> bytes \<Rightarrow> bool \<Rightarrow> fs \<Rightarrow> fs \<times> string \<times> write_error option" where
  "writeToTempFileWithProgress destPath data progress s =
     (case createTempFile destPath s of
        (s1, Inl e) \<Rightarrow> (s1, [], Some (WriteFailed e))
      | (s1, Inr (tmpPath, n)) \<Rightarrow>
          (if \<not> progress \<or> length data \<le> progressWriteChunkSize
           then (case Write n data s1 of (s2, k, e) \<Rightarrow> (s2, tmpPath, map_option WriteFailed e))
           else (case write_chunks n data s1 of (s2, e) \<Rightarrow> (s2, tmpPath, map_option WriteFailed e))))"

section \<open>Keeping or dropping the temporary file\<close>

definition partialFilePath :: "string \<Rightarrow> string \<Rightarrow> string \<Rightarrow> string" where
  "partialFilePath destPath partialDir relPath =
     (if IsAbs partialDir then Join partialDir relPath
      else Join (Join (Dir destPath) partialDir) (Base destPath))"

definition loadPartialBasis ::
  "string \<Rightarrow> receiverOptions \<Rightarrow> string \<Rightarrow> (fs, 'e, bytes option) prog" where
  "loadPartialBasis destPath ropts relPath =
     (if ro_PartialDir ropts = [] then ret None
      else bind (attempt (ReadFile (partialFilePath destPath (ro_PartialDir ropts) relPath)))
             (\<lambda>r. ret (case r of Inl e \<Rightarrow> None | Inr data \<Rightarrow> Some data)))"

text \<open>Best-effort calls: the result is thrown away.\<close>

definition ignoring :: "'a sys \<Rightarrow> (fs, 'e, unit) prog" where
  "ignoring m = bind (attempt m) (\<lambda>_. skip)"

definition abandonOrKeep ::
  "string \<Rightarrow> string \<Rightarrow> receiverOptions \<Rightarrow> string \<Rightarrow> write_error \<Rightarrow> (fs, write_error, unit) prog" where
  "abandonOrKeep tmpPath destPath ropts relPath origErr =
     (if \<not> KeepPartial ropts then seq (ignoring (Remove tmpPath)) (throw origErr)
      else let keep = (\<lambda>target. bind (attempt (Rename tmpPath target)) (\<lambda>r.
                 (case r of Inl e \<Rightarrow> seq (ignoring (Remove tmpPath)) (throw origErr)
                  | Inr _ \<Rightarrow> throw origErr)))
           in if ro_PartialDir ropts \<noteq> []
              then (let target = partialFilePath destPath (ro_PartialDir ropts) relPath
                    in bind (attempt (mkdir_all (Dir target))) (\<lambda>r.
                         (case r of Inl e \<Rightarrow> seq (ignoring (Remove tmpPath)) (throw origErr)
                          | Inr _ \<Rightarrow> keep target)))
              else keep destPath)"

definition finishRegularFileWrite ::
  "string \<Rightarrow> string \<Rightarrow> write_error option \<Rightarrow> receiverOptions \<Rightarrow> string \<Rightarrow> bool \<Rightarrow> (fs, write_error, unit) prog" where
  "finishRegularFileWrite tmpPath destPath writeErr ropts relPath usedPartialBasis =
     (case writeErr of
        None \<Rightarrow>
          bind (attempt (Rename tmpPath destPath)) (\<lambda>r.
            (case r of
               Inl e \<Rightarrow> abandonOrKeep tmpPath destPath ropts relPath (RenameFailed e)
             | Inr _ \<Rightarrow>
                 (if usedPartialBasis
                  then ignoring (Remove (partialFilePath destPath (ro_PartialDir ropts) relPath))
                  else skip)))
      | Some e \<Rightarrow> abandonOrKeep tmpPath destPath ropts relPath e)"

text \<open>The two calls as \<open>receiveRegularFile\<close> makes them, one after the other.\<close>

definition replace_file ::
  "string \<Rightarrow> bytes \<Rightarrow> bool \<Rightarrow> receiverOptions \<Rightarrow> string \<Rightarrow> bool \<Rightarrow> (fs, write_error, unit) prog" where
  "replace_file destPath data progress ropts relPath usedPartialBasis s =
     (case writeToTempFileWithProgress destPath data progress s of
        (s1, tmpPath, werr) \<Rightarrow> finishRegularFileWrite tmpPath destPath werr ropts relPath usedPartialBasis s1)"

section \<open>The temporary file while it is written\<close>

text \<open>
  \<open>temp_at s0 s p n d\<close>: the state differs from \<open>s0\<close> only in that the new name \<open>p\<close> refers to a new
  inode \<open>n\<close> that holds \<open>d\<close>.
\<close>

definition temp_at :: "fs \<Rightarrow> fs \<Rightarrow> fpath \<Rightarrow> nat \<Rightarrow> bytes \<Rightarrow> bool" where
  "temp_at s0 s p n d \<longleftrightarrow>
     ino_of s0 p = None \<and> n \<notin> ran (ino_of s0) \<and> ino_of s = (ino_of s0)(p \<mapsto> n) \<and>
     content_of s = (content_of s0)(p \<mapsto> FileData d)"

lemma temp_at_step: "temp_at s0 s p n d \<Longrightarrow> temp_at s0 (step s) p n d"
  by (simp add: temp_at_def fun_eq_iff)

lemma temp_at_inode: "temp_at s0 s p n d \<Longrightarrow> in_content (fs_inodes s n) = FileData d"
  by (auto simp: temp_at_def content_of_ino fun_eq_iff dest: spec [of _ p])

lemma temp_at_other:
  assumes "temp_at s0 s p n d" and "q \<noteq> p"
  shows "ino_of s q \<noteq> Some n"
  using assms by (auto simp: temp_at_def ran_def)

lemma temp_at_fchmod: "temp_at s0 s p n d \<Longrightarrow> temp_at s0 (fst (Fchmod m perm s)) p n d"
  unfolding Fchmod_def
  by (rule sys_call_cases [of "\<lambda>s. (upd_inode m (\<lambda>i. i\<lparr>in_perm := perm\<rparr>) s, Ok ())" s])
    (simp_all add: temp_at_def fun_eq_iff upd_inode_content)

lemma temp_at_append:
  assumes "temp_at s0 s p n d"
  shows "temp_at s0 (upd_inode n (append_data now e) (step s)) p n (d @ e)"
proof -
  let ?t = "upd_inode n (append_data now e) (step s)"
  note inode = temp_at_inode [OF assms]
  have "content_of ?t q = ((content_of s0)(p \<mapsto> FileData (d @ e))) q" for q
  proof (cases "q = p")
    case True
    with assms inode show ?thesis
      by (simp add: content_of_ino temp_at_def append_data_def)
  next
    case False
    with temp_at_other [OF assms False] assms have "content_of ?t q = content_of s q"
      by (cases "ino_of s q") (simp_all add: content_of_ino)
    with False assms show ?thesis by (simp add: temp_at_def)
  qed
  with assms show ?thesis by (simp add: temp_at_def fun_eq_iff)
qed

lemma Write_cases:
  assumes "temp_at s0 s p n d" and "Write n e s = (s1, k, err)"
  shows "\<exists>m. temp_at s0 s1 p n (d @ take m e) \<and> (err = None \<longrightarrow> take m e = e)"
proof (cases "fs_faults s (fs_tick s)")
  case None
  with assms temp_at_append [OF assms(1), of "fs_now s" e] show ?thesis
    by (auto simp: Write_def intro!: exI [of _ "length e"])
next
  case (Some m)
  with assms temp_at_append [OF assms(1), of "fs_now s" "take m e"] show ?thesis
    by (auto simp: Write_def intro!: exI [of _ m])
qed

lemma write_chunks_step:
  "e \<noteq> [] \<Longrightarrow> Write n (take progressWriteChunkSize e) s = (s2, k, err) \<Longrightarrow>
     write_chunks n e s =
       (case err of Some x \<Rightarrow> (s2, Some x) | None \<Rightarrow> write_chunks n (drop progressWriteChunkSize e) s2)"
  by (subst write_chunks.simps) (simp split: option.split)

lemma write_chunks_Nil: "write_chunks n [] s = (s, None)"
  by (subst write_chunks.simps) simp

lemma write_chunks_cases:
  "temp_at s0 s p n d \<Longrightarrow> write_chunks n e s = (s1, err) \<Longrightarrow>
     \<exists>m. temp_at s0 s1 p n (d @ take m e) \<and> (err = None \<longrightarrow> take m e = e)"
proof (induction n e s arbitrary: d rule: write_chunks.induct)
  case (1 n e s)
  show ?case
  proof (cases "e = []")
    case True
    with 1 show ?thesis by (auto simp: write_chunks_Nil)
  next
    case False
    let ?c = progressWriteChunkSize
    obtain s2 k err2 where w: "Write n (take ?c e) s = (s2, k, err2)"
      by (cases "Write n (take ?c e) s") auto
    obtain m where m: "temp_at s0 s2 p n (d @ take m (take ?c e))" "err2 = None \<longrightarrow> take m (take ?c e) = take ?c e"
      using Write_cases [OF "1.prems"(1) w] by blast
    show ?thesis
    proof (cases err2)
      case (Some x)
      with write_chunks_step [OF False w] "1.prems"(2) have "s1 = s2" "err \<noteq> None"
        by auto
      with m(1) show ?thesis by (auto simp: take_take)
    next
      case None
      with write_chunks_step [OF False w] "1.prems"(2) have rec: "write_chunks n (drop ?c e) s2 = (s1, err)"
        by simp
      from None m have "temp_at s0 s2 p n (d @ take ?c e)" by simp
      from "1.IH" [OF False w [symmetric] refl None this rec] obtain j
        where j: "temp_at s0 s1 p n ((d @ take ?c e) @ take j (drop ?c e))" "err = None \<longrightarrow> take j (drop ?c e) = drop ?c e"
        by blast
      have "take ?c e @ take j (drop ?c e) = take (?c + j) e" by (simp add: take_add)
      with j show ?thesis by (metis append.assoc append_take_drop_id)
    qed
  qed
qed

lemma wf_fresh: "fs_wf s \<Longrightarrow> fs_next s \<notin> ran (ino_of s)"
  by (auto simp: fs_wf_def list_all_iff ran_def ino_of_def dest!: map_of_SomeD)

lemma create_cases:
  assumes "fs_wf s0" and "same_tree s0 s" and "create p (FileData []) perm s = (s1, r)"
  shows "(\<exists>e. r = Fail e \<and> same_tree s0 s1) \<or> (\<exists>n. r = Ok n \<and> temp_at s0 s1 p n [])"
proof (cases "ino_of s p \<noteq> None \<or> content_of s (butlast p) \<noteq> Some DirData")
  case True
  with assms show ?thesis by (auto simp: create_def split: if_splits)
next
  case False
  let ?i = "\<lparr>in_content = FileData [], in_perm = perm, in_mtime = fs_now s, in_uid = 0, in_gid = 0\<rparr>"
  let ?t = "s\<lparr>fs_inodes := (fs_inodes s)(fs_next s := ?i), fs_next := Suc (fs_next s)\<rparr>"
  have fresh: "fs_next s \<notin> ran (ino_of s)"
    using assms(1,2) wf_fresh [of s] same_tree_wf by blast
  have "s1 = add_name p (fs_next s) ?t" and r: "r = Ok (fs_next s)"
    using False assms(3) by (auto simp: create_def Let_def)
  moreover have "content_of ?t q = content_of s q" for q
    using fresh by (cases "ino_of s q") (auto simp: content_of_ino ran_def ino_of_def)
  moreover have "ino_of ?t = ino_of s" by (simp add: ino_of_def fun_eq_iff)
  ultimately have "temp_at s0 s1 p (fs_next s) []"
    using False fresh assms(2) same_tree_ino [OF assms(2)] same_tree_content [OF assms(2)]
    by (simp add: temp_at_def fun_eq_iff) (simp add: ran_def)
  with r show ?thesis by blast
qed

lemma open_excl_cases:
  assumes "fs_wf s0" and "same_tree s0 s" and "dirs_above s0 p" and "open_excl (abs_path p) s = (s1, r)"
  shows "(\<exists>e. r = Fail e \<and> same_tree s0 s1) \<or> (\<exists>n. r = Ok n \<and> temp_at s0 s1 p n [])"
proof -
  have step: "same_tree s0 (step s)" by (rule tree.frame_trans [OF assms(2) same_tree_step])
  show ?thesis
  proof (rule sys_call_cases [of "with_path False (abs_path p) (\<lambda>p s. create p (FileData []) (384 AND NOT (fs_umask s)) s)" s])
    assume "sys_call (with_path False (abs_path p) (\<lambda>p s. create p (FileData []) (384 AND NOT (fs_umask s)) s)) s
      = with_path False (abs_path p) (\<lambda>p s. create p (FileData []) (384 AND NOT (fs_umask s)) s) (step s)"
    with assms(3,4) same_tree_dirs_above [OF assms(2), of p]
    have "create p (FileData []) (384 AND NOT (fs_umask (step s))) (step s) = (s1, r)"
      by (simp add: open_excl_def with_path_abs)
    from create_cases [OF assms(1) step this] show ?thesis .
  next
    assume "sys_call (with_path False (abs_path p) (\<lambda>p s. create p (FileData []) (384 AND NOT (fs_umask s)) s)) s
      = (step s, Fail Fault)"
    with assms(4) step show ?thesis by (auto simp: open_excl_def)
  qed
qed

definition temp_component :: "string \<Rightarrow> nat \<Rightarrow> string" where
  "temp_component b r = ''.'' @ b @ ''.'' @ format_nat r @ ''.grsync-tmp''"

lemma digit_not_slash: "d < 10 \<Longrightarrow> digit_char d \<noteq> slash"
proof -
  assume "d < 10"
  then have "d \<in> {0, 1, 2, 3, 4, 5, 6, 7, 8, 9}" by auto
  then show ?thesis by (auto simp: digit_char_def char_of_def bit_0)
qed

lemma plain_temp: "plain b \<Longrightarrow> plain (temp_component b r)"
proof -
  have "slash \<notin> set (format_nat r)" using format_nat_chars [of slash r] digit_not_slash by metis
  then show "plain b \<Longrightarrow> plain (temp_component b r)" by (auto simp: plain_def temp_component_def)
qed

lemma temp_component_neq: "temp_component b r \<noteq> b"
proof
  assume "temp_component b r = b"
  from arg_cong [OF this, of length] show False by (simp add: temp_component_def)
qed

lemma temp_name_abs:
  assumes "list_all plain D"
  shows "temp_name (abs_path D) (''.'' @ b @ ''.'') ''.grsync-tmp'' r = abs_path (D @ [temp_component b r])"
proof (cases D rule: rev_cases)
  case Nil
  then show ?thesis by (simp add: temp_name_def abs_path_def temp_component_def hasSuffix_one)
next
  case (snoc D' c)
  with assms have "plain c" by simp
  then have "last (abs_path D) \<noteq> slash"
    using last_in_set [of c] unfolding snoc abs_path_snoc by (auto simp: plain_def simp del: last_in_set)
  then show ?thesis
    using snoc abs_path_snoc [of D "temp_component b r"] by (simp add: temp_name_def hasSuffix_one temp_component_def)
qed

lemma CreateTemp_cases:
  assumes "fs_wf s0" and "list_all plain D" and "plain b" and "content_of s0 D = Some DirData"
  shows "same_tree s0 s \<Longrightarrow>
    CreateTemp tries (abs_path D) (''.'' @ b @ ''.'') ''.grsync-tmp'' s = (s1, r) \<Longrightarrow>
    (\<exists>e. r = Fail e \<and> same_tree s0 s1) \<or>
    (\<exists>n x. r = Ok (abs_path (D @ [temp_component b x]), n) \<and> temp_at s0 s1 (D @ [temp_component b x]) n [])"
proof (induction tries arbitrary: s)
  case (Suc tries)
  define x where "x = fs_random s (fs_tick s)"
  have name: "temp_name (abs_path D) (''.'' @ b @ ''.'') ''.grsync-tmp'' x = abs_path (D @ [temp_component b x])"
    using assms(2) by (rule temp_name_abs)
  have "ino_of s0 D \<noteq> None" using assms(4) content_ino [of s0 D] by simp
  then have above: "dirs_above s0 (D @ [temp_component b x])"
    using assms by (intro dirs_above_snoc wf_dirs_above plain_temp)
  obtain s2 r2 where o: "open_excl (abs_path (D @ [temp_component b x])) s = (s2, r2)"
    by (cases "open_excl (abs_path (D @ [temp_component b x])) s") auto
  from open_excl_cases [OF assms(1) Suc.prems(1) above o]
  consider (fail) e where "r2 = Fail e" "same_tree s0 s2"
    | (ok) n where "r2 = Ok n" "temp_at s0 s2 (D @ [temp_component b x]) n []" by blast
  then show ?case
  proof cases
    case fail
    show ?thesis
    proof (cases "e = EEXIST")
      case True
      with fail o name Suc.prems(2) have "CreateTemp tries (abs_path D) (''.'' @ b @ ''.'') ''.grsync-tmp'' s2 = (s1, r)"
        by (simp add: x_def Let_def)
      from Suc.IH [OF fail(2) this] show ?thesis .
    next
      case False
      with fail o name Suc.prems(2) have "s1 = s2" "r = Fail e" by (simp_all add: x_def Let_def)
      with fail(2) show ?thesis by blast
    qed
  next
    case ok
    with o name Suc.prems(2) show ?thesis by (auto simp: x_def Let_def)
  qed
qed auto

lemma same_tree_temp:
  "temp_at s0 s p n d \<Longrightarrow> same_tree s t \<Longrightarrow> temp_at s0 t p n d"
  by (simp add: temp_at_def fun_eq_iff same_tree_ino same_tree_content)

lemma temp_at_dirs:
  assumes "temp_at s0 s p n d" and "dirs_above s0 q" and "\<not> strict_prefix p q"
  shows "dirs_above s q"
proof -
  have "content_of s x = content_of s0 x" if "strict_prefix x q" for x
    using assms that by (auto simp: temp_at_def)
  from dirs_above_cong [OF this] assms(2) show ?thesis by simp
qed

lemma Remove_temp_cases:
  assumes "temp_at s0 s p n d" and "dirs_above s0 p" and "Remove (abs_path p) s = (s1, r)"
  shows "(\<exists>e. r = Fail e \<and> temp_at s0 s1 p n d) \<or> (r = Ok () \<and> content_of s1 = content_of s0 \<and> ino_of s1 = ino_of s0)"
proof -
  have data: "content_of s p = Some (FileData d)" using assms(1) by (simp add: temp_at_def)
  from temp_at_dirs [OF assms(1,2)] have "dirs_above s p" by simp
  then show ?thesis
  proof (rule Remove_abs_cases)
    assume "Remove (abs_path p) s = remove_at p (step s)"
    with assms(3) data have "s1 = del_name p (step s)" "r = Ok ()"
      by (simp_all add: remove_at_def)
    then show ?thesis
      using assms(1) content_ino [of s0 p] by (auto simp: temp_at_def fun_eq_iff)
  next
    assume "Remove (abs_path p) s = (step s, Fail Fault)"
    with assms(1,3) show ?thesis by (auto simp: temp_at_step)
  qed
qed

lemma rename_at_temp:
  assumes "temp_at s0 s p n d" and "p \<noteq> q" and "rename_at p q s = (s1, r)"
  shows "(\<exists>e. r = Fail e \<and> s1 = s) \<or> (r = Ok () \<and> content_of s1 = (content_of s0)(q \<mapsto> FileData d))"
proof -
  have p: "content_of s p = Some (FileData d)" "ino_of s p = Some n" using assms(1) by (simp_all add: temp_at_def)
  have q: "ino_of s q \<noteq> Some n" using temp_at_other [OF assms(1)] assms(2) by metis
  show ?thesis
  proof (cases "content_of s q = Some DirData \<or> content_of s (butlast q) \<noteq> Some DirData")
    case True
    with p assms(3) show ?thesis by (auto simp: rename_at_def split: if_splits)
  next
    case False
    with p q assms(3) have s1: "s1 = add_name q n (del_name p s)" "r = Ok ()"
      by (simp_all add: rename_at_def)
    have "in_content (fs_inodes (del_name p s) n) = FileData d"
      using temp_at_inode [OF assms(1)] by (simp add: del_name_def touch_def split: option.split)
    then have "content_of s1 = ((content_of s)(p := None))(q \<mapsto> FileData d)"
      by (simp add: s1)
    moreover have "content_of s0 p = None" using assms(1) content_ino [of s0 p] by (simp add: temp_at_def)
    ultimately have "content_of s1 = (content_of s0)(q \<mapsto> FileData d)"
      using assms(1) by (auto simp: temp_at_def fun_eq_iff)
    with s1(2) show ?thesis by simp
  qed
qed

lemma Rename_temp_cases:
  assumes "temp_at s0 s p n d" and "dirs_above s0 p" and "dirs_above s0 q" and "p \<noteq> q"
    and "\<not> strict_prefix p q" and "Rename (abs_path p) (abs_path q) s = (s1, r)"
  shows "(\<exists>e. r = Fail e \<and> temp_at s0 s1 p n d) \<or> (r = Ok () \<and> content_of s1 = (content_of s0)(q \<mapsto> FileData d))"
proof -
  from temp_at_dirs [OF assms(1,2)] temp_at_dirs [OF assms(1,3,5)]
  have "dirs_above s p" "dirs_above s q" by simp_all
  then show ?thesis
  proof (rule Rename_abs_cases)
    assume "Rename (abs_path p) (abs_path q) s = rename_at p q (step s)"
    with rename_at_temp [OF temp_at_step [OF assms(1)] assms(4)] assms(6) temp_at_step [OF assms(1)]
    show ?thesis by metis
  next
    assume "Rename (abs_path p) (abs_path q) s = (step s, Fail Fault)"
    with assms(1,6) show ?thesis by (auto simp: temp_at_step)
  qed
qed

text \<open>A destination that a regular file may be written to.\<close>

definition file_target :: "fs \<Rightarrow> fpath \<Rightarrow> string \<Rightarrow> bool" where
  "file_target s D b \<longleftrightarrow>
     fs_wf s \<and> list_all plain D \<and> plain b \<and> content_of s D = Some DirData \<and>
     content_of s (D @ [b]) \<noteq> Some DirData"

lemma file_target_above:
  assumes "file_target s D b" and "plain c"
  shows "dirs_above s (D @ [c])"
proof -
  from assms(1) have "ino_of s D \<noteq> None" using content_ino [of s D] by (simp add: file_target_def)
  with assms show ?thesis by (intro dirs_above_snoc wf_dirs_above) (simp_all add: file_target_def)
qed

lemma createTempFile_cases:
  assumes "file_target s D b" and "createTempFile (abs_path (D @ [b])) s = (s1, r)"
  shows "(\<exists>e. r = Fail e \<and> same_tree s s1) \<or>
    (\<exists>n x. r = Ok (abs_path (D @ [temp_component b x]), n) \<and> temp_at s s1 (D @ [temp_component b x]) n [])"
proof -
  have target: "fs_wf s" "list_all plain D" "plain b" "content_of s D = Some DirData"
    using assms(1) by (simp_all add: file_target_def)
  obtain s2 r2 where c: "CreateTemp max_temp_tries (abs_path D) (''.'' @ b @ ''.'') ''.grsync-tmp'' s = (s2, r2)"
    by (cases "CreateTemp max_temp_tries (abs_path D) (''.'' @ b @ ''.'') ''.grsync-tmp'' s") auto
  have run: "createTempFile (abs_path (D @ [b])) s = (case r2 of
      Inl e \<Rightarrow> (s2, Fail e) | Inr (path, n) \<Rightarrow> (fst (Fchmod n 420 s2), Ok (path, n)))"
    using c target
    by (simp add: createTempFile_def Dir_abs Base_abs bind_def attempt_run ret_def split: sum.split prod.split)
  from CreateTemp_cases [OF target tree.frame_refl c]
  show ?thesis using run assms(2) temp_at_fchmod by fastforce
qed

lemma writeToTempFile_cases:
  assumes "file_target s D b"
    and "writeToTempFileWithProgress (abs_path (D @ [b])) data progress s = (s1, tmp, err)"
  shows "(tmp = [] \<and> err \<noteq> None \<and> same_tree s s1) \<or>
    (\<exists>x n m. tmp = abs_path (D @ [temp_component b x]) \<and>
       temp_at s s1 (D @ [temp_component b x]) n (take m data) \<and> (err = None \<longrightarrow> take m data = data))"
proof -
  obtain s2 r where c: "createTempFile (abs_path (D @ [b])) s = (s2, r)"
    by (cases "createTempFile (abs_path (D @ [b])) s") auto
  from createTempFile_cases [OF assms(1) c]
  show ?thesis
  proof (elim disjE exE conjE)
    fix e
    assume "r = Fail e" "same_tree s s2"
    with c assms(2) show ?thesis by (auto simp: writeToTempFileWithProgress_def)
  next
    fix n x
    assume r: "r = Ok (abs_path (D @ [temp_component b x]), n)"
      and t: "temp_at s s2 (D @ [temp_component b x]) n []"
    show ?thesis
    proof (cases "\<not> progress \<or> length data \<le> progressWriteChunkSize")
      case True
      obtain s3 k e where w: "Write n data s2 = (s3, k, e)" by (cases "Write n data s2") auto
      with True c r assms(2) have "s1 = s3" "tmp = abs_path (D @ [temp_component b x])" "err = map_option WriteFailed e"
        by (auto simp: writeToTempFileWithProgress_def)
      with Write_cases [OF t w] show ?thesis by auto
    next
      case False
      obtain s3 e where w: "write_chunks n data s2 = (s3, e)" by (cases "write_chunks n data s2") auto
      with False c r assms(2) have "s1 = s3" "tmp = abs_path (D @ [temp_component b x])" "err = map_option WriteFailed e"
        by (auto simp: writeToTempFileWithProgress_def)
      with write_chunks_cases [OF t w] show ?thesis by auto
    qed
  qed
qed

text \<open>What is left of the temporary file after a failure: nothing, or the file itself.\<close>

definition leftover :: "fs \<Rightarrow> fs \<Rightarrow> fpath \<Rightarrow> string \<Rightarrow> bytes \<Rightarrow> bool" where
  "leftover s s' D b data \<longleftrightarrow>
     content_of s' = content_of s \<or>
     (\<exists>x m. content_of s (D @ [temp_component b x]) = None \<and>
            content_of s' = (content_of s)(D @ [temp_component b x] \<mapsto> FileData (take m data)))"

lemma Remove_leftover:
  assumes "file_target s D b" and "temp_at s s1 (D @ [temp_component b x]) n (take m data)"
  shows "leftover s (fst (Remove (abs_path (D @ [temp_component b x])) s1)) D b data"
proof -
  obtain s2 r where run: "Remove (abs_path (D @ [temp_component b x])) s1 = (s2, r)"
    by (cases "Remove (abs_path (D @ [temp_component b x])) s1") auto
  have "plain (temp_component b x)" using assms(1) by (simp add: file_target_def plain_temp)
  from Remove_temp_cases [OF assms(2) file_target_above [OF assms(1) this] run]
  have "(\<exists>e. temp_at s s2 (D @ [temp_component b x]) n (take m data)) \<or> content_of s2 = content_of s" by blast
  then show ?thesis
    using run content_ino [of s "D @ [temp_component b x]"] by (auto simp: leftover_def temp_at_def)
qed

lemma ignoring_run: "ignoring m s = (fst (m s), Ok ())"
  by (simp add: ignoring_def bind_def attempt_run ret_def)

lemma Remove_empty_path: "same_tree s (fst (Remove [] s))"
  by (rule sys_call_cases [of "with_path False [] remove_at" s])
    (simp_all add: Remove_def with_path_def resolve_path_def same_tree_step)

text \<open>The destination has a beginning of the new data, or all of it: what \<open>--partial\<close> may leave after a failure.\<close>

definition truncated :: "fs \<Rightarrow> fs \<Rightarrow> fpath \<Rightarrow> bytes \<Rightarrow> bool" where
  "truncated s s' p data \<longleftrightarrow> (\<exists>m. content_of s' = (content_of s)(p \<mapsto> FileData (take m data)))"

lemma not_Ok_unit: "(r :: 'e + unit) \<noteq> Ok () \<longleftrightarrow> (\<exists>e. r = Fail e)"
  by (cases r) simp_all

lemma abandon_cases:
  assumes target: "file_target s D b" and dir: "ro_PartialDir ropts = []"
    and temp: "temp_at s s1 (D @ [temp_component b x]) n (take m data)"
    and run: "abandonOrKeep (abs_path (D @ [temp_component b x])) (abs_path (D @ [b])) ropts relPath e s1 = (s', r)"
  shows "r = Fail e \<and> (leftover s s' D b data \<or> ro_Partial ropts \<and> truncated s s' (D @ [b]) data)"
proof (cases "ro_Partial ropts")
  case False
  with run dir Remove_leftover [OF target temp] show ?thesis
    by (auto simp: abandonOrKeep_def KeepPartial_def bind_def ignoring_run throw_def)
next
  case True
  let ?p = "D @ [temp_component b x]"
  have plain: "plain b" "plain (temp_component b x)" using target by (simp_all add: file_target_def plain_temp)
  obtain s2 r2 where ren: "Rename (abs_path ?p) (abs_path (D @ [b])) s1 = (s2, r2)" by (meson surj_pair)
  have "(\<exists>e. r2 = Fail e \<and> temp_at s s2 ?p n (take m data)) \<or>
      (r2 = Ok () \<and> content_of s2 = (content_of s)(D @ [b] \<mapsto> FileData (take m data)))"
    using temp ren file_target_above [OF target plain(2)] file_target_above [OF target plain(1)] temp_component_neq
    by (intro Rename_temp_cases) (auto simp: strict_prefix_def)
  with run dir True ren Remove_leftover [OF target, of s2] show ?thesis
    by (auto simp: abandonOrKeep_def KeepPartial_def Let_def bind_def attempt_run ignoring_run throw_def truncated_def)
qed

lemma abandon_no_file:
  assumes "ro_PartialDir ropts = []" and "abandonOrKeep [] dest ropts relPath e s = (s', r)"
  shows "r = Fail e \<and> same_tree s s'"
proof -
  have "same_tree s (fst (Rename [] q s)) \<and> snd (Rename [] q s) \<noteq> Ok ()" for q s
    by (rule sys_call_cases [of "with_path False [] (\<lambda>p. with_path False q (rename_at p))" s])
      (simp_all add: Rename_def with_path_def resolve_path_def same_tree_step)
  then have gone: "same_tree s (fst (Rename [] dest s))" "\<exists>x. snd (Rename [] dest s) = Fail x"
    by (auto simp: not_Ok_unit)
  with assms Remove_empty_path tree.frame_trans [OF gone(1) Remove_empty_path] show ?thesis
    by (auto simp: abandonOrKeep_def Let_def bind_def attempt_run ignoring_run throw_def split: if_splits)
qed

lemma replace_file_atomic_aux:
  assumes target: "file_target s D b" and dir: "ro_PartialDir ropts = []"
    and run: "replace_file (abs_path (D @ [b])) data progress ropts relPath False s = (s', r)"
  shows "(r = Ok () \<and> content_of s' = (content_of s)(D @ [b] \<mapsto> FileData data)) \<or>
    ((\<exists>e. r = Fail e) \<and> (leftover s s' D b data \<or> ro_Partial ropts \<and> truncated s s' (D @ [b]) data))"
proof -
  obtain s1 tmp err where w: "writeToTempFileWithProgress (abs_path (D @ [b])) data progress s = (s1, tmp, err)"
    by (rule prod_cases3)
  with run have fin: "finishRegularFileWrite tmp (abs_path (D @ [b])) err ropts relPath False s1 = (s', r)"
    by (simp add: replace_file_def)
  from writeToTempFile_cases [OF target w] show ?thesis
  proof (elim disjE exE conjE)
    assume "tmp = []" "err \<noteq> None" and same: "same_tree s s1"
    with fin obtain e where "abandonOrKeep [] (abs_path (D @ [b])) ropts relPath e s1 = (s', r)"
      by (auto simp: finishRegularFileWrite_def)
    from abandon_no_file [OF dir this] have "r = Fail e" "same_tree s s'" using tree.frame_trans [OF same] by auto
    then show ?thesis by (simp add: leftover_def same_tree_content fun_eq_iff)
  next
    fix x n m
    let ?p = "D @ [temp_component b x]"
    assume tmp: "tmp = abs_path ?p" and t: "temp_at s s1 ?p n (take m data)"
      and all: "err = None \<longrightarrow> take m data = data"
    have plain: "plain b" "plain (temp_component b x)" using target by (simp_all add: file_target_def plain_temp)
    show ?thesis
    proof (cases err)
      case (Some e)
      with fin tmp have "abandonOrKeep (abs_path ?p) (abs_path (D @ [b])) ropts relPath e s1 = (s', r)"
        by (simp add: finishRegularFileWrite_def)
      from abandon_cases [OF target dir t this] show ?thesis by blast
    next
      case None
      obtain s2 r2 where ren: "Rename (abs_path ?p) (abs_path (D @ [b])) s1 = (s2, r2)" by (meson surj_pair)
      have "(\<exists>e. r2 = Fail e \<and> temp_at s s2 ?p n (take m data)) \<or>
          (r2 = Ok () \<and> content_of s2 = (content_of s)(D @ [b] \<mapsto> FileData (take m data)))"
        using t ren file_target_above [OF target plain(2)] file_target_above [OF target plain(1)] temp_component_neq
        by (intro Rename_temp_cases) (auto simp: strict_prefix_def)
      then show ?thesis
      proof (elim disjE exE conjE)
        fix e
        assume e: "r2 = Fail e" and t2: "temp_at s s2 ?p n (take m data)"
        with fin None ren tmp have "abandonOrKeep (abs_path ?p) (abs_path (D @ [b])) ropts relPath (RenameFailed e) s2 = (s', r)"
          by (simp add: finishRegularFileWrite_def bind_def attempt_run)
        from abandon_cases [OF target dir t2 this] show ?thesis by blast
      next
        assume "r2 = Ok ()" "content_of s2 = (content_of s)(D @ [b] \<mapsto> FileData (take m data))"
        with fin None ren tmp all show ?thesis
          by (simp add: finishRegularFileWrite_def bind_def attempt_run ret_def)
      qed
    qed
  qed
qed

text \<open>
  C32. What a failing replacement leaves, without \<open>--partial-dir\<close>. Whatever calls fail, and wherever a write stops
  short: either the destination holds exactly the new data and nothing else in the tree has changed its content;
  or an error is returned, the destination is what it was, and at most the temporary file is left beside it; or,
  and only with \<open>--partial\<close>, an error is returned and the temporary file has been moved over the destination,
  which then holds a beginning of the new data. So without \<open>--partial\<close> a replacement is all or nothing; with it
  a write that stops short can leave a truncated file in place, although \<open>partial.go\<close> says that writing is all or
  nothing then too and that \<open>--partial\<close> does not decide how a half-written file is left.
\<close>

theorem replace_file_atomic:
  assumes "file_target s D b" and "ro_PartialDir ropts = []"
    and "replace_file (abs_path (D @ [b])) data progress ropts relPath False s = (s', r)"
  shows "(r = Ok () \<and> content_of s' = (content_of s)(D @ [b] \<mapsto> FileData data)) \<or>
    ((\<exists>e. r = Fail e) \<and> content_of s' (D @ [b]) = content_of s (D @ [b]) \<and> leftover s s' D b data) \<or>
    (ro_Partial ropts \<and> (\<exists>e. r = Fail e) \<and> (\<exists>m. content_of s' = (content_of s)(D @ [b] \<mapsto> FileData (take m data))))"
  using replace_file_atomic_aux [OF assms] temp_component_neq [of b, symmetric]
  by (auto simp: leftover_def truncated_def)

definition plain_ropts :: receiverOptions where
  "plain_ropts = \<lparr>ro_DryRun = False, ro_Itemize = False, ro_Verbose = False, ro_Progress = False, ro_Stats = False,
     ro_Partial = False, ro_PartialDir = [], ro_Append = False, ro_AppendVerify = False\<rparr>"

definition failing_write :: fs where
  "failing_write = small_fs\<lparr>fs_faults := (\<lambda>t. if t = 2 then Some 1 else None)\<rparr>"

text \<open>A disk that takes one byte of the new file: without \<open>--partial\<close> the old file stays, with it one byte remains.\<close>

theorem replace_file_atomic_witness:
  "\<exists>s e t f. replace_file (abs_path ([''src'', ''d''] @ [''f''])) [9, 8] False plain_ropts ''d/f'' False failing_write = (s, Fail e) \<and>
     content_of s [''src'', ''d'', ''f''] = Some (FileData [1, 2, 3]) \<and> leftover failing_write s [''src'', ''d''] ''f'' [9, 8] \<and>
     replace_file (abs_path ([''src'', ''d''] @ [''f''])) [9, 8] False (plain_ropts\<lparr>ro_Partial := True\<rparr>) ''d/f'' False failing_write
       = (t, Fail f) \<and>
     (\<exists>m. content_of t = (content_of failing_write)([''src'', ''d''] @ [''f''] \<mapsto> FileData (take m [9, 8]))) \<and>
     content_of t [''src'', ''d'', ''f''] = Some (FileData [9])"
proof -
  let ?run = "\<lambda>ropts. replace_file (abs_path ([''src'', ''d''] @ [''f''])) [9, 8] False ropts ''d/f'' False failing_write"
  have target: "file_target failing_write [''src'', ''d''] ''f''"
    by (simp add: file_target_def fs_wf_def failing_write_def small_fs_def content_of_def lookup_def ino_of_def dir_inode_def plain_def)
  have old: "content_of failing_write ([''src'', ''d''] @ [''f'']) = Some (FileData [1, 2, 3])"
    by (simp add: failing_write_def small_fs_def content_of_def lookup_def ino_of_def dir_inode_def)
  have dirs: "ro_PartialDir plain_ropts = []" "ro_PartialDir (plain_ropts\<lparr>ro_Partial := True\<rparr>) = []" "\<not> ro_Partial plain_ropts"
    by (simp_all add: plain_ropts_def)
  have "case ?run plain_ropts of (s, r) \<Rightarrow> r \<noteq> Ok ()" by code_simp
  then obtain s e where s: "?run plain_ropts = (s, Fail e)" by (auto simp: not_Ok_unit split: prod.splits)
  have "case ?run (plain_ropts\<lparr>ro_Partial := True\<rparr>) of (t, r) \<Rightarrow>
      r \<noteq> Ok () \<and> content_of t [''src'', ''d'', ''f''] = Some (FileData [9])" by code_simp
  then obtain t f where t: "?run (plain_ropts\<lparr>ro_Partial := True\<rparr>) = (t, Fail f)"
    "content_of t [''src'', ''d'', ''f''] = Some (FileData [9])" by (auto simp: not_Ok_unit split: prod.splits)
  have "\<not> leftover failing_write t [''src'', ''d''] ''f'' [9, 8] \<or> content_of t ([''src'', ''d''] @ [''f'']) \<noteq> content_of failing_write ([''src'', ''d''] @ [''f''])"
    using t(2) old by simp
  with replace_file_atomic [OF target dirs(1) s] replace_file_atomic [OF target dirs(2) t(1)] s t old dirs(3) show ?thesis by auto
qed

section \<open>The calls keep the invariant\<close>

lemma createTempFile_keeps_inv: "inv.keeps (createTempFile destPath)"
  unfolding createTempFile_def
  by (auto intro!: inv.keeps_bind inv.keeps_attempt inv.keeps_ret CreateTemp_keeps_inv changes_keep_inv split: prod.split)

lemma write_chunks_keeps_inv: "fs_inv s \<Longrightarrow> fs_inv (fst (write_chunks n d s))"
proof (induction n d s rule: write_chunks.induct)
  case (1 n d s)
  show ?case
  proof (cases "d = []")
    case True
    with 1 show ?thesis by (simp add: write_chunks_Nil)
  next
    case False
    obtain s2 k err where w: "Write n (take progressWriteChunkSize d) s = (s2, k, err)"
      by (cases "Write n (take progressWriteChunkSize d) s") auto
    have "fs_inv s2" using Write_keeps_inv [OF "1.prems", of n "take progressWriteChunkSize d"] w by simp
    with "1.IH" [OF False w [symmetric] refl] False w show ?thesis
      by (cases err) (simp_all add: write_chunks_step)
  qed
qed

lemma writeToTempFile_keeps_inv:
  assumes "fs_inv s"
  shows "fs_inv (fst (writeToTempFileWithProgress destPath data progress s))"
proof -
  obtain s1 r where c: "createTempFile destPath s = (s1, r)" by (cases "createTempFile destPath s") auto
  have s1: "fs_inv s1" using inv.keepsD' [OF createTempFile_keeps_inv c] assms by simp
  show ?thesis
  proof (cases r)
    case (Inl e)
    with c s1 show ?thesis by (simp add: writeToTempFileWithProgress_def)
  next
    case (Inr pn)
    obtain tmp n where "pn = (tmp, n)" by (cases pn)
    moreover obtain s2 k e where "Write n data s1 = (s2, k, e)" by (cases "Write n data s1") auto
    moreover obtain s3 f where "write_chunks n data s1 = (s3, f)" by (cases "write_chunks n data s1") auto
    ultimately show ?thesis
      using Inr c Write_keeps_inv [OF s1, of n data] write_chunks_keeps_inv [OF s1, of n data]
      by (simp add: writeToTempFileWithProgress_def)
  qed
qed

lemma abandonOrKeep_keeps_inv: "inv.keeps (abandonOrKeep tmp dest ropts relPath e)"
  unfolding abandonOrKeep_def ignoring_def Let_def mkdir_all_def
  by (auto intro!: inv.keeps_bind inv.keeps_attempt inv.keeps_ret inv.keeps_throw changes_keep_inv MkdirAll_keeps_inv
      split: sum.split)

lemma finishRegularFileWrite_keeps_inv: "inv.keeps (finishRegularFileWrite tmp dest err ropts relPath used)"
  unfolding finishRegularFileWrite_def ignoring_def
  by (auto intro!: inv.keeps_bind inv.keeps_attempt inv.keeps_ret abandonOrKeep_keeps_inv changes_keep_inv
      split: option.split sum.split)

lemma replace_file_keeps_inv: "inv.keeps (replace_file dest data progress ropts relPath used)"
proof (intro inv.keepsI impI)
  fix s
  assume "fs_inv s"
  obtain s1 tmp err where w: "writeToTempFileWithProgress dest data progress s = (s1, tmp, err)"
    by (cases "writeToTempFileWithProgress dest data progress s") auto
  have "fs_inv s1" using writeToTempFile_keeps_inv [OF \<open>fs_inv s\<close>, of dest data progress] w by simp
  then show "fs_inv (fst (replace_file dest data progress ropts relPath used s))"
    using w inv.keepsD [OF finishRegularFileWrite_keeps_inv, of s1] by (simp add: replace_file_def)
qed

section \<open>Without faults\<close>

lemma no_faults_upd [simp]: "no_faults (upd_inode n f s) = no_faults s"
  by (simp add: no_faults_def upd_inode_def)

lemma no_faults_touch [simp]: "no_faults (touch p s) = no_faults s"
  by (simp add: touch_def split: option.split)

lemma no_faults_names [simp]: "no_faults (add_name p n s) = no_faults s" "no_faults (del_name p s) = no_faults s"
  by (simp_all add: add_name_def del_name_def) (simp_all add: no_faults_def)

lemma no_faults_create [simp]: "no_faults (fst (create p c perm s)) = no_faults s"
  by (simp add: create_def Let_def) (simp add: no_faults_def)

lemma CreateTemp_Suc:
  "CreateTemp (Suc tries) dir pre post s =
     (case open_excl (temp_name dir pre post (fs_random s (fs_tick s))) s of
        (s1, Inr n) \<Rightarrow> (s1, Ok (temp_name dir pre post (fs_random s (fs_tick s)), n))
      | (s1, Inl e) \<Rightarrow> (if e = EEXIST then CreateTemp tries dir pre post s1 else (s1, Fail e)))"
  by (simp add: Let_def)

lemma open_excl_ok:
  assumes "no_faults s" and "dirs_above s (D @ [c])" and "\<not> is_link s (D @ [c])"
    and "ino_of s (D @ [c]) = None" and "content_of s D = Some DirData"
  obtains s1 where "open_excl (abs_path (D @ [c])) s = (s1, Ok (fs_next s))" and "no_faults s1"
proof -
  obtain s1 where c: "create (D @ [c]) (FileData []) (384 AND NOT (fs_umask s)) (step s) = (s1, Ok (fs_next s))"
    using assms(4,5) by (simp add: create_def Let_def)
  then have "no_faults s1"
    using no_faults_create [of "D @ [c]" "FileData []" "384 AND NOT (fs_umask s)" "step s"] assms(1) by simp
  with c show ?thesis
    using assms by (intro that [of s1]) (simp_all add: open_excl_def sys_call_ok with_path_abs)
qed

lemma createTempFile_ok:
  assumes "file_target s D b" and "no_faults s"
    and "ino_of s (D @ [temp_component b (fs_random s (fs_tick s))]) = None"
  obtains s1 n where "createTempFile (abs_path (D @ [b])) s
      = (s1, Ok (abs_path (D @ [temp_component b (fs_random s (fs_tick s))]), n))" and "no_faults s1"
proof -
  define c where "c = temp_component b (fs_random s (fs_tick s))"
  have target: "fs_wf s" "list_all plain D" "plain b" "content_of s D = Some DirData"
    using assms(1) by (simp_all add: file_target_def)
  have above: "dirs_above s (D @ [c])"
    unfolding c_def by (rule file_target_above [OF assms(1) plain_temp [OF target(3)]])
  have free: "ino_of s (D @ [c]) = None" using assms(3) by (simp add: c_def)
  then have "\<not> is_link s (D @ [c])" by (simp add: is_link_def content_of_ino)
  from open_excl_ok [OF assms(2) above this free target(4)] obtain s1
    where o: "open_excl (abs_path (D @ [c])) s = (s1, Ok (fs_next s))" and "no_faults s1" .
  have name: "temp_name (abs_path D) (''.'' @ b @ ''.'') ''.grsync-tmp'' (fs_random s (fs_tick s)) = abs_path (D @ [c])"
    unfolding c_def by (rule temp_name_abs [OF target(2)])
  obtain k where k: "max_temp_tries = Suc k" by (simp add: max_temp_tries_def numeral_eq_Suc)
  have "CreateTemp max_temp_tries (abs_path D) (''.'' @ b @ ''.'') ''.grsync-tmp'' s
      = (s1, Ok (abs_path (D @ [c]), fs_next s))"
    unfolding k CreateTemp_Suc name o by simp
  then have "createTempFile (abs_path (D @ [b])) s
      = (fst (Fchmod (fs_next s) 420 s1), Ok (abs_path (D @ [c]), fs_next s))"
    using target unfolding createTempFile_def Dir_abs [OF target(2)]
    by (simp add: Dir_abs Base_abs bind_def attempt_run ret_def)
  moreover have "no_faults (fst (Fchmod (fs_next s) 420 s1))"
    using \<open>no_faults s1\<close> by (simp add: Fchmod_def sys_call_ok)
  ultimately show ?thesis unfolding c_def by (rule that)
qed

end
