(* ===== verification/Checksum.thy ===== *)
theory Checksum
  imports Prelude
begin

text \<open>
  The block checksums of \<open>internal/sync\<close>: \<open>blocks.go\<close> (splitting a file into blocks),
  \<open>checksum.go\<close> (the rolling weak checksum, on \<open>uint32\<close> with its wrap-around) and
  \<open>signature.go\<close>. MD5 (\<open>crypto/md5\<close>) is the parameter \<open>strong\<close> of the definitions that use
  it; nothing here assumes anything of it.
\<close>

section \<open>blocks.go\<close>

definition DefaultBlockSize :: int where
  "DefaultBlockSize = 700"

text \<open>The loop of \<open>splitBlocks\<close> from offset \<open>start\<close>; the guard \<open>0 < bs\<close> is its early return.\<close>

function split_from :: "bytes \<Rightarrow> nat \<Rightarrow> nat \<Rightarrow> bytes list" where
  "split_from data bs start =
     (if 0 < bs \<and> start < length data
      then go_slice data start (if start + bs > length data then length data else start + bs)
             # split_from data bs (start + bs)
      else [])"
  by pat_completeness auto
termination
  by (relation "measure (\<lambda>(data, bs, start). length data - start)") auto

declare split_from.simps [simp del]

definition splitBlocks :: "bytes \<Rightarrow> int \<Rightarrow> bytes list" where
  "splitBlocks data blockSize = (if blockSize \<le> 0 then [] else split_from data (nat blockSize) 0)"

section \<open>checksum.go\<close>

record weakChecksum =
  wc_a :: u32
  wc_b :: u32
  wc_length :: u32

definition rollingChecksumModulus :: u32 where
  "rollingChecksumModulus = 65536"

text \<open>The loop of \<open>newWeakChecksum\<close>: \<open>i\<close> counts up, \<open>n\<close> is \<open>uint32(len(window))\<close>.\<close>

fun weak_loop :: "u32 \<Rightarrow> nat \<Rightarrow> bytes \<Rightarrow> u32 \<Rightarrow> u32 \<Rightarrow> u32 \<times> u32" where
  "weak_loop n i [] a b = (a, b)"
| "weak_loop n i (c # cs) a b =
     weak_loop n (Suc i) cs (a + ucast c) (b + (n - of_nat i) * ucast c)"

definition newWeakChecksum :: "bytes \<Rightarrow> weakChecksum" where
  "newWeakChecksum window =
     (let n = of_nat (length window); (a, b) = weak_loop n 0 window 0 0
      in \<lparr>wc_a = a mod rollingChecksumModulus, wc_b = b mod rollingChecksumModulus, wc_length = n\<rparr>)"

definition weak_sum :: "weakChecksum \<Rightarrow> u32" where
  "weak_sum w = wc_a w + wc_b w * rollingChecksumModulus"

definition roll :: "weakChecksum \<Rightarrow> byte \<Rightarrow> byte \<Rightarrow> weakChecksum" where
  "roll w out inb =
     (let a = (wc_a w - ucast out + ucast inb) mod rollingChecksumModulus;
          b = (wc_b w - wc_length w * ucast out + a) mod rollingChecksumModulus
      in \<lparr>wc_a = a, wc_b = b, wc_length = wc_length w\<rparr>)"

section \<open>signature.go\<close>

record 'h blockSignature =
  bs_weak :: u32
  bs_strong :: 'h

record 'h signature =
  sig_BlockSize :: int
  sig_Blocks :: "'h blockSignature list"

definition block_signature :: "(bytes \<Rightarrow> 'h) \<Rightarrow> bytes \<Rightarrow> 'h blockSignature" where
  "block_signature strong block =
     \<lparr>bs_weak = weak_sum (newWeakChecksum block), bs_strong = strong block\<rparr>"

definition GenerateSignatureWithBlockSize :: "(bytes \<Rightarrow> 'h) \<Rightarrow> bytes \<Rightarrow> int \<Rightarrow> 'h signature" where
  "GenerateSignatureWithBlockSize strong data blockSize =
     \<lparr>sig_BlockSize = blockSize,
      sig_Blocks = map (block_signature strong) (splitBlocks data blockSize)\<rparr>"

definition GenerateSignature :: "(bytes \<Rightarrow> 'h) \<Rightarrow> bytes \<Rightarrow> 'h signature" where
  "GenerateSignature strong data = GenerateSignatureWithBlockSize strong data DefaultBlockSize"

section \<open>Blocks of a file\<close>

definition num_blocks :: "nat \<Rightarrow> nat \<Rightarrow> nat" where
  "num_blocks len bs = (len + bs - 1) div bs"

definition nth_block :: "bytes \<Rightarrow> nat \<Rightarrow> nat \<Rightarrow> bytes" where
  "nth_block data bs i = take bs (drop (i * bs) data)"

lemma num_blocks_0 [simp]: "0 < bs \<Longrightarrow> num_blocks 0 bs = 0"
  by (simp add: num_blocks_def)

lemma num_blocks_step:
  assumes "0 < bs" and "0 < n"
  shows "num_blocks n bs = Suc (num_blocks (n - bs) bs)"
proof (cases "bs \<le> n")
  case True
  with assms have "n + bs - 1 = (n - bs + bs - 1) + bs" by arith
  then have "(n + bs - 1) div bs = Suc ((n - bs + bs - 1) div bs)"
    using assms(1) by (simp only: div_add_self2)
  then show ?thesis by (simp only: num_blocks_def)
next
  case False
  with assms have split: "n + bs - 1 = (n - 1) + bs" and lt: "n - 1 < bs" and z: "n - bs = 0"
    by arith+
  have "(n + bs - 1) div bs = Suc ((n - 1) div bs)"
    unfolding split using assms(1) by (simp only: div_add_self2)
  then have "num_blocks n bs = Suc 0"
    unfolding num_blocks_def using lt by (simp only: div_less)
  with assms(1) z show ?thesis by simp
qed

lemma split_from_conv:
  "0 < bs \<Longrightarrow> split_from data bs start
     = map (\<lambda>i. take bs (drop (start + i * bs) data)) [0..<num_blocks (length data - start) bs]"
proof (induction data bs start rule: split_from.induct)
  case (1 data bs start)
  show ?case
  proof (cases "start < length data")
    case True
    have first: "go_slice data start (if start + bs > length data then length data else start + bs)
        = take bs (drop start data)"
      by (simp add: go_slice_def)
    have "num_blocks (length data - start) bs = Suc (num_blocks (length data - (start + bs)) bs)"
      using True "1.prems" by (simp add: num_blocks_step)
    moreover have "[0..<Suc m] = 0 # map Suc [0..<m]" for m
      by (simp add: upt_conv_Cons map_Suc_upt del: upt_Suc)
    ultimately show ?thesis
      using True "1.prems" "1.IH" first
      by (subst split_from.simps) (simp add: add.assoc del: upt_Suc)
  next
    case False
    with "1.prems" show ?thesis by (subst split_from.simps) simp
  qed
qed

lemma splitBlocks_conv:
  "0 < bs \<Longrightarrow> splitBlocks data (int bs) = map (nth_block data bs) [0..<num_blocks (length data) bs]"
  by (simp add: splitBlocks_def split_from_conv nth_block_def)

lemma splitBlocks_nonpos [simp]: "bs \<le> 0 \<Longrightarrow> splitBlocks data bs = []"
  by (simp add: splitBlocks_def)

lemma num_blocks_less: "0 < bs \<Longrightarrow> i < num_blocks n bs \<longleftrightarrow> i * bs < n"
proof (induction n arbitrary: i rule: less_induct)
  case (less n)
  show ?case
  proof (cases "n = 0")
    case True
    with less.prems show ?thesis by simp
  next
    case False
    with less.prems have step: "num_blocks n bs = Suc (num_blocks (n - bs) bs)"
      by (simp add: num_blocks_step)
    show ?thesis
    proof (cases i)
      case 0
      with False step show ?thesis by simp
    next
      case (Suc j)
      have "j < num_blocks (n - bs) bs \<longleftrightarrow> j * bs < n - bs"
        using less False by simp
      with Suc step show ?thesis by auto
    qed
  qed
qed

lemma concat_nth_blocks: "0 < bs \<Longrightarrow> concat (map (nth_block data bs) [0..<k]) = take (k * bs) data"
proof (induction k)
  case (Suc k)
  have "take (k * bs) data @ take bs (drop (k * bs) data) = take (k * bs + bs) data"
    by (simp add: take_add)
  with Suc show ?case by (simp add: nth_block_def add.commute)
qed simp

section \<open>The rolling checksum\<close>

text \<open>
  The contract the delta generator relies on: advancing a window by one byte gives the checksum
  that a fresh computation over the new window gives.
\<close>

locale rolling_window =
  fixes fresh :: "'b list \<Rightarrow> 'c"
    and advance :: "'c \<Rightarrow> 'b \<Rightarrow> 'b \<Rightarrow> 'c"
  assumes advance_fresh: "advance (fresh (x # w)) x y = fresh (w @ [y])"
begin

lemma advance_slice:
  assumes "i < j" and "j < length data"
  shows "advance (fresh (go_slice data i j)) (data ! i) (data ! j)
           = fresh (go_slice data (Suc i) (Suc j))"
  using assms by (simp add: go_slice_roll advance_fresh)

lemma advance_prefix:
  assumes "fold (\<lambda>(x, y) c. advance c x y) (zip data (drop n data)) (fresh (take n data)) = c"
    and "n \<le> length data" and "0 < n"
  shows "c = fresh (drop (length data - n) data)"
  using assms
proof (induction "length data - n" arbitrary: data)
  case 0
  then have "length data = n" by simp
  with 0 show ?case by simp
next
  case (Suc k)
  then obtain x rest where data: "data = x # rest" and long: "n \<le> length rest"
    by (cases data) auto
  from Suc.prems obtain m where m: "n = Suc m" by (cases n) auto
  with long have lt: "m < length rest" by simp
  from m lt have dropn: "drop n data = rest ! m # drop n rest"
    by (simp add: data Cons_nth_drop_Suc)
  have take_rest: "take m rest @ [rest ! m] = take n rest"
    using m lt by (simp add: take_Suc_conv_app_nth)
  have "fold (\<lambda>(x, y) c. advance c x y) (zip rest (drop n rest)) (fresh (take n rest)) = c"
    using Suc.prems(1) unfolding dropn unfolding data m
    by (simp add: advance_fresh take_rest [unfolded m])
  moreover have "k = length rest - n" using Suc.hyps(2) long by (simp add: data)
  ultimately have "c = fresh (drop (length rest - n) rest)"
    using Suc.hyps(1) long Suc.prems(3) by blast
  moreover have "drop (length data - n) data = drop (length rest - n) rest"
    using long by (simp add: data Suc_diff_le)
  ultimately show ?case by simp
qed

end

text \<open>Closed forms of the two accumulators of \<open>newWeakChecksum\<close>, still on \<open>uint32\<close>.\<close>

definition byte_sum :: "bytes \<Rightarrow> u32" where
  "byte_sum w = sum_list (map ucast w)"

fun weighted_sum :: "bytes \<Rightarrow> u32" where
  "weighted_sum [] = 0"
| "weighted_sum (c # cs) = of_nat (Suc (length cs)) * ucast c + weighted_sum cs"

lemma weak_loop_conv:
  "weak_loop (of_nat (i + length w)) i w a b = (a + byte_sum w, b + weighted_sum w)"
proof (induction w arbitrary: i a b)
  case (Cons c w)
  have "(of_nat (i + length (c # w)) :: u32) = of_nat (Suc i + length w)" by simp
  moreover have "(of_nat (i + length (c # w)) - of_nat i :: u32) = of_nat (Suc (length w))" by simp
  ultimately show ?case
    using Cons.IH [of "Suc i"] by (simp only: weak_loop.simps) (simp add: byte_sum_def add.assoc)
qed (simp add: byte_sum_def)

lemma newWeakChecksum_conv:
  "newWeakChecksum w = \<lparr>wc_a = byte_sum w mod 65536, wc_b = weighted_sum w mod 65536,
                         wc_length = of_nat (length w)\<rparr>"
  using weak_loop_conv [of 0 w 0 0] by (simp add: newWeakChecksum_def rollingChecksumModulus_def)

lemma weighted_sum_append: "weighted_sum (w @ [y]) = weighted_sum w + byte_sum w + ucast y"
  by (induction w) (simp_all add: byte_sum_def algebra_simps)

lemma u32_mod_add:
  fixes x y :: u32
  shows "(x mod 65536 + y) mod 65536 = (x + y) mod 65536"
    and "(x + y mod 65536) mod 65536 = (x + y) mod 65536"
proof -
  have shrink: "n mod 4294967296 mod 65536 = n mod 65536" for n :: nat
    by (simp add: mod_mod_cancel)
  show "(x mod 65536 + y) mod 65536 = (x + y) mod 65536"
    by (simp add: word_unat_eq_iff unat_word_ariths shrink mod_add_left_eq)
  show "(x + y mod 65536) mod 65536 = (x + y) mod 65536"
    by (simp add: word_unat_eq_iff unat_word_ariths shrink mod_add_right_eq)
qed

lemma roll_newWeakChecksum: "roll (newWeakChecksum (x # w)) x y = newWeakChecksum (w @ [y])"
proof -
  let ?L = "of_nat (Suc (length w)) :: u32"
  have a: "(byte_sum (x # w) mod 65536 - ucast x + ucast y) mod 65536
      = byte_sum (w @ [y]) mod 65536"
    using u32_mod_add(1) [of "byte_sum (x # w)" "ucast y - ucast x"]
    by (simp add: byte_sum_def algebra_simps)
  have "(weighted_sum (x # w) mod 65536 - ?L * ucast x + byte_sum (w @ [y]) mod 65536) mod 65536
      = (weighted_sum (x # w) mod 65536 + (byte_sum (w @ [y]) - ?L * ucast x)) mod 65536"
    using u32_mod_add(2) [of "weighted_sum (x # w) mod 65536 - ?L * ucast x" "byte_sum (w @ [y])"]
    by (simp add: algebra_simps)
  also have "\<dots> = (weighted_sum (x # w) + (byte_sum (w @ [y]) - ?L * ucast x)) mod 65536"
    by (rule u32_mod_add(1))
  also have "weighted_sum (x # w) + (byte_sum (w @ [y]) - ?L * ucast x) = weighted_sum (w @ [y])"
    by (simp add: weighted_sum_append byte_sum_def)
  finally show ?thesis
    using a by (simp add: newWeakChecksum_conv roll_def rollingChecksumModulus_def)
qed

interpretation wc: rolling_window newWeakChecksum roll
  by unfold_locales (rule roll_newWeakChecksum)

section \<open>The weak checksum as a number\<close>

text \<open>
  What the wrap-around on \<open>uint32\<close> leaves: both accumulators are the mathematical sums modulo
  \<open>2 ^ 16\<close>, because \<open>2 ^ 16\<close> divides \<open>2 ^ 32\<close>.
\<close>

definition position_weighted :: "nat list \<Rightarrow> nat" where
  "position_weighted cs = (\<Sum>i < length cs. (length cs - i) * cs ! i)"

lemma position_weighted_Cons:
  "position_weighted (c # cs) = Suc (length cs) * c + position_weighted cs"
  unfolding position_weighted_def by (simp add: sum.lessThan_Suc_shift del: sum.lessThan_Suc)

lemma byte_sum_of_nat: "byte_sum w = of_nat (sum_list (map unat w))"
  by (induction w) (simp_all add: byte_sum_def)

lemma weighted_sum_of_nat: "weighted_sum w = of_nat (position_weighted (map unat w))"
proof (induction w)
  case Nil
  then show ?case by (simp add: position_weighted_def)
next
  case (Cons c w)
  have "(ucast c :: u32) = of_nat (unat c)" by simp
  with Cons show ?case by (simp add: position_weighted_Cons algebra_simps)
qed

lemma u32_of_nat_mod: "unat ((of_nat n :: u32) mod 65536) = n mod 65536"
  by (simp add: unat_word_ariths unat_of_nat mod_mod_cancel)

lemma weak_sum_digits:
  "unat (weak_sum (newWeakChecksum w))
     = unat (wc_a (newWeakChecksum w)) + 65536 * unat (wc_b (newWeakChecksum w))"
proof -
  have "unat (wc_a (newWeakChecksum w)) < 65536" and "unat (wc_b (newWeakChecksum w)) < 65536"
    by (simp_all add: newWeakChecksum_conv unat_word_ariths)
  then show ?thesis
    by (simp add: weak_sum_def rollingChecksumModulus_def unat_word_ariths)
qed

lemma newWeakChecksum_length [simp]: "wc_length (newWeakChecksum w) = of_nat (length w)"
  by (simp add: newWeakChecksum_conv)

text \<open>
  The fresh checksum of a window computes rsync's formula: the sum of the bytes and the sum
  of the bytes weighted by their distance to the window's end, both modulo 65536, combined into
  one \<open>uint32\<close> whose low half is the first and whose high half is the second, whatever
  overflows on the way.
\<close>

theorem newWeakChecksum_spec:
  "unat (weak_sum (newWeakChecksum w))
     = sum_list (map unat w) mod 65536 + 65536 * (position_weighted (map unat w) mod 65536)"
  unfolding weak_sum_digits
  by (simp add: newWeakChecksum_conv byte_sum_of_nat weighted_sum_of_nat u32_of_nat_mod)

text \<open>
  C16. \<open>roll\<close> is exact: moving the window of \<open>data\<close> from \<open>[i, j)\<close> to \<open>[i+1, j+1)\<close> by one \<open>roll\<close>
  gives the very record \<open>newWeakChecksum\<close> computes from scratch over the new window, the
  underflowing subtractions included.
\<close>

theorem roll_exact:
  assumes "i < j" and "j < length data"
  shows "roll (newWeakChecksum (go_slice data i j)) (data ! i) (data ! j)
           = newWeakChecksum (go_slice data (Suc i) (Suc j))"
  using assms by (rule wc.advance_slice)

theorem roll_exact_witness:
  "roll (newWeakChecksum (go_slice [1, 2, 255, 7] 0 2)) 1 255 = newWeakChecksum [2, 255]"
  using roll_exact [of 0 2 "[1, 2, 255, 7]"] by (simp add: go_slice_def eval_nat_numeral)

end
