(* ===== verification/Delta.thy ===== *)
theory Delta
  imports Checksum
begin

text \<open>
  \<open>internal/sync/delta.go\<close>: the delta generator with its rolling window and weak-checksum index,
  and the reconstruction of a file from a delta. \<open>int\<close> values that come from a delta (block
  indices, block sizes) are integers with the 64-bit wrap-around of Go written out; the out-of-range
  slice expression, which panics in Go, is the error \<open>SliceBoundsPanic\<close>.
\<close>

section \<open>Delta operations\<close>

datatype deltaOp = CopyOp (BlockIndex: int) | DataOp (op_Bytes: bytes)

datatype delta_error =
    InvalidBlockSize nat int
  | BlockIndexOutOfRange nat int nat
  | SliceBoundsPanic nat

section \<open>GenerateDelta\<close>

definition effective_block_size :: "'h signature \<Rightarrow> nat" where
  "effective_block_size sig =
     nat (if sig_BlockSize sig \<le> 0 then DefaultBlockSize else sig_BlockSize sig)"

lemma effective_block_size_pos [simp]: "0 < effective_block_size sig"
  by (simp add: effective_block_size_def DefaultBlockSize_def)

text \<open>\<open>weakIndex\<close>: every weak checksum of the signature with its block indices, in order.\<close>

fun weak_index_from ::
    "nat \<Rightarrow> 'h blockSignature list \<Rightarrow> (u32 \<rightharpoonup> nat list) \<Rightarrow> (u32 \<rightharpoonup> nat list)" where
  "weak_index_from i [] m = m"
| "weak_index_from i (b # bs) m =
     weak_index_from (Suc i) bs
       (m(bs_weak b \<mapsto> (case m (bs_weak b) of None \<Rightarrow> [] | Some l \<Rightarrow> l) @ [i]))"

definition weak_index :: "'h signature \<Rightarrow> (u32 \<rightharpoonup> nat list)" where
  "weak_index sig = weak_index_from 0 (sig_Blocks sig) Map.empty"

definition flushPending :: "deltaOp list \<Rightarrow> bytes \<Rightarrow> deltaOp list" where
  "flushPending ops pending = (if length pending = 0 then ops else ops @ [DataOp pending])"

definition tryMatch ::
    "(bytes \<Rightarrow> 'h) \<Rightarrow> 'h signature \<Rightarrow> bytes \<Rightarrow> nat \<Rightarrow> weakChecksum \<Rightarrow> nat option" where
  "tryMatch strong sig newData at weak =
     (case weak_index sig (weak_sum weak) of
        None \<Rightarrow> None
      | Some candidates \<Rightarrow>
          (let s = strong (go_slice newData at (at + effective_block_size sig))
           in find (\<lambda>idx. bs_strong (sig_Blocks sig ! idx) = s) candidates))"

text \<open>
  The two nested loops: \<open>delta_outer\<close> is the \<open>for pos < n\<close> loop with the final flush,
  \<open>delta_inner\<close> the \<open>for\<close> loop that rolls the checksum. \<open>pending\<close> and \<open>ops\<close> are the
  variables the closures share.
\<close>

function (sequential)
  delta_outer :: "(bytes \<Rightarrow> 'h) \<Rightarrow> 'h signature \<Rightarrow> bytes \<Rightarrow> nat \<Rightarrow> bytes \<Rightarrow> deltaOp list \<Rightarrow> deltaOp list"
and
  delta_inner :: "(bytes \<Rightarrow> 'h) \<Rightarrow> 'h signature \<Rightarrow> bytes \<Rightarrow> nat \<Rightarrow> weakChecksum \<Rightarrow> bytes \<Rightarrow> deltaOp list
     \<Rightarrow> deltaOp list"
where
  "delta_outer strong sig newData pos pending ops =
     (if pos < length newData
      then (if pos + effective_block_size sig > length newData
            then flushPending ops (pending @ drop pos newData)
            else delta_inner strong sig newData pos
                   (newWeakChecksum (go_slice newData pos (pos + effective_block_size sig)))
                   pending ops)
      else flushPending ops pending)"
| "delta_inner strong sig newData pos weak pending ops =
     (case tryMatch strong sig newData pos weak of
        Some idx \<Rightarrow>
          delta_outer strong sig newData (pos + effective_block_size sig) []
            (flushPending ops pending @ [CopyOp (int idx)])
      | None \<Rightarrow>
          (if Suc pos + effective_block_size sig > length newData
           then delta_outer strong sig newData (Suc pos) (pending @ [newData ! pos]) ops
           else delta_inner strong sig newData (Suc pos)
                  (roll weak (newData ! pos) (newData ! (Suc pos + effective_block_size sig - 1)))
                  (pending @ [newData ! pos]) ops))"
  by pat_completeness auto
termination
proof (relation "measure (\<lambda>x. case x of
      Inl (strong, sig, d, pos, _, _) \<Rightarrow> (if pos < length d then 2 * (length d - pos) + 2 else 0)
    | Inr (strong, sig, d, pos, _, _, _) \<Rightarrow> 2 * (length d - pos) + 1)", goal_cases)
  case (5 strong sig newData pos)
  then show ?case using effective_block_size_pos [of sig] by (auto simp del: effective_block_size_pos)
qed auto

declare delta_outer.simps [simp del] delta_inner.simps [simp del]

definition GenerateDelta :: "(bytes \<Rightarrow> 'h) \<Rightarrow> 'h signature \<Rightarrow> bytes \<Rightarrow> deltaOp list" where
  "GenerateDelta strong sig newData = delta_outer strong sig newData 0 [] []"

section \<open>ApplyDelta\<close>

text \<open>
  \<open>start\<close> and \<open>end\<close> are the wrapped products and sums of the code; \<open>oldData[start:end]\<close> panics
  unless \<open>0 \<le> start \<le> end\<close>.
\<close>

fun apply_ops :: "nat \<Rightarrow> bytes \<Rightarrow> int \<Rightarrow> deltaOp list \<Rightarrow> bytes \<Rightarrow> delta_error + bytes" where
  "apply_ops i oldData blockSize [] out = Ok out"
| "apply_ops i oldData blockSize (CopyOp idx # ops) out =
     (if blockSize \<le> 0 then Fail (InvalidBlockSize i blockSize)
      else let start = wrap64 (idx * blockSize) in
        if idx < 0 \<or> start \<ge> int (length oldData)
        then Fail (BlockIndexOutOfRange i idx (length oldData))
        else let end0 = wrap64 (start + blockSize);
                 end1 = (if end0 > int (length oldData) then int (length oldData) else end0)
             in if start < 0 \<or> end1 < start then Fail (SliceBoundsPanic i)
                else apply_ops (Suc i) oldData blockSize ops
                       (out @ go_slice oldData (nat start) (nat end1)))"
| "apply_ops i oldData blockSize (DataOp bs # ops) out =
     apply_ops (Suc i) oldData blockSize ops (out @ bs)"

definition ApplyDelta :: "bytes \<Rightarrow> deltaOp list \<Rightarrow> 'h signature \<Rightarrow> delta_error + bytes" where
  "ApplyDelta oldData ops sig = apply_ops 0 oldData (sig_BlockSize sig) ops []"

section \<open>The weak-checksum index\<close>

definition first_match :: "(bytes \<Rightarrow> 'h) \<Rightarrow> 'h signature \<Rightarrow> bytes \<Rightarrow> nat option" where
  "first_match strong sig window =
     find (\<lambda>i. bs_weak (sig_Blocks sig ! i) = weak_sum (newWeakChecksum window)
             \<and> bs_strong (sig_Blocks sig ! i) = strong window)
       [0..<length (sig_Blocks sig)]"

definition index_entry :: "(u32 \<rightharpoonup> nat list) \<Rightarrow> u32 \<Rightarrow> nat list" where
  "index_entry m w = (case m w of None \<Rightarrow> [] | Some l \<Rightarrow> l)"

lemma weak_index_from_snoc:
  "weak_index_from i (bs @ [b]) m
     = (weak_index_from i bs m)(bs_weak b \<mapsto> index_entry (weak_index_from i bs m) (bs_weak b) @ [i + length bs])"
  by (induction bs arbitrary: i m) (simp_all add: index_entry_def)

lemma index_entry_weak_index_from:
  "index_entry (weak_index_from 0 bs Map.empty) w
     = filter (\<lambda>i. bs_weak (bs ! i) = w) [0..<length bs]"
proof (induction bs rule: rev_induct)
  case Nil
  then show ?case by (simp add: index_entry_def)
next
  case (snoc b bs)
  have "filter (\<lambda>i. bs_weak ((bs @ [b]) ! i) = w) [0..<length bs]
      = filter (\<lambda>i. bs_weak (bs ! i) = w) [0..<length bs]"
    by (rule filter_cong) (auto simp: nth_append)
  with snoc show ?case
    by (auto simp: weak_index_from_snoc index_entry_def)
qed

lemma find_filter: "find P (filter Q xs) = find (\<lambda>x. Q x \<and> P x) xs"
  by (induction xs) auto

lemma tryMatch_fresh:
  "tryMatch strong sig d at (newWeakChecksum (go_slice d at (at + effective_block_size sig)))
     = first_match strong sig (go_slice d at (at + effective_block_size sig))"
proof -
  have "tryMatch strong sig d at w
      = find (\<lambda>i. bs_strong (sig_Blocks sig ! i) = strong (go_slice d at (at + effective_block_size sig)))
          (index_entry (weak_index_from 0 (sig_Blocks sig) Map.empty) (weak_sum w))" for w
    by (simp add: tryMatch_def weak_index_def index_entry_def Let_def split: option.split)
  then show ?thesis
    by (simp add: index_entry_weak_index_from find_filter first_match_def)
qed

lemma first_match_Some:
  "first_match strong sig w = Some i \<Longrightarrow>
     i < length (sig_Blocks sig) \<and> bs_strong (sig_Blocks sig ! i) = strong w
       \<and> bs_weak (sig_Blocks sig ! i) = weak_sum (newWeakChecksum w)"
  by (auto simp: first_match_def find_Some_iff)

lemma first_match_ex:
  assumes "i < length (sig_Blocks sig)" and "sig_Blocks sig ! i = block_signature strong w"
  shows "\<exists>k. first_match strong sig w = Some k"
proof (cases "first_match strong sig w")
  case None
  with assms show ?thesis
    by (auto simp: first_match_def find_None_iff block_signature_def dest!: spec [of _ i])
qed simp

section \<open>The generator without the rolling checksum\<close>

text \<open>
  The naive generator the code's comment compares itself with: it hashes every window from
  scratch, and looks for a block by scanning the signature.
\<close>

function naive_delta ::
    "(bytes \<Rightarrow> 'h) \<Rightarrow> 'h signature \<Rightarrow> bytes \<Rightarrow> nat \<Rightarrow> bytes \<Rightarrow> deltaOp list \<Rightarrow> deltaOp list" where
  "naive_delta strong sig d pos pending ops =
     (if pos + effective_block_size sig \<le> length d
      then (case first_match strong sig (go_slice d pos (pos + effective_block_size sig)) of
              Some i \<Rightarrow> naive_delta strong sig d (pos + effective_block_size sig) []
                          (flushPending ops pending @ [CopyOp (int i)])
            | None \<Rightarrow> naive_delta strong sig d (Suc pos) (pending @ [d ! pos]) ops)
      else flushPending ops (pending @ drop pos d))"
  by pat_completeness auto
termination
proof (relation "measure (\<lambda>(strong, sig, d, pos, _, _). length d - pos)", goal_cases)
  case (2 strong sig d pos)
  then show ?case using effective_block_size_pos [of sig] by (auto simp del: effective_block_size_pos)
next
  case (3 strong sig d pos)
  then show ?case using effective_block_size_pos [of sig] by (auto simp del: effective_block_size_pos)
qed auto

declare naive_delta.simps [simp del]

lemma delta_loops_naive:
  fixes d :: bytes
  shows "pos \<le> length d \<Longrightarrow>
      delta_outer strong sig d pos pending ops = naive_delta strong sig d pos pending ops"
    and "pos + effective_block_size sig \<le> length d \<Longrightarrow>
      weak = newWeakChecksum (go_slice d pos (pos + effective_block_size sig)) \<Longrightarrow>
      delta_inner strong sig d pos weak pending ops = naive_delta strong sig d pos pending ops"
proof (induction strong sig d pos pending ops and strong sig d pos weak pending ops
    rule: delta_outer_delta_inner.induct)
  case (1 strong sig d pos pending ops)
  show ?case
  proof (cases "pos + effective_block_size sig \<le> length d")
    case True
    with effective_block_size_pos [of sig] have "pos < length d" by linarith
    with True 1 show ?thesis
      by (simp add: delta_outer.simps [of strong sig d pos])
  next
    case False
    with 1 show ?thesis
      by (auto simp: delta_outer.simps [of strong sig d pos] naive_delta.simps [of strong sig d pos])
  qed
next
  case (2 strong sig d pos weak pending ops)
  let ?b = "effective_block_size sig"
  have pos: "pos < length d"
    using "2.prems"(1) effective_block_size_pos [of sig] by linarith
  have match: "tryMatch strong sig d pos weak = first_match strong sig (go_slice d pos (pos + ?b))"
    using "2.prems"(2) by (simp add: tryMatch_fresh)
  show ?case
  proof (cases "first_match strong sig (go_slice d pos (pos + ?b))")
    case (Some i)
    with 2 match show ?thesis
      by (simp add: delta_inner.simps [of strong sig d pos] naive_delta.simps [of strong sig d pos])
  next
    case None
    show ?thesis
    proof (cases "Suc pos + ?b \<le> length d")
      case True
      have "roll weak (d ! pos) (d ! (Suc pos + ?b - 1))
          = newWeakChecksum (go_slice d (Suc pos) (Suc pos + ?b))"
        using wc.advance_slice [of pos "pos + ?b" d] "2.prems"(2) True
        by simp
      with 2 None match True show ?thesis
        by (simp add: delta_inner.simps [of strong sig d pos] naive_delta.simps [of strong sig d pos])
    next
      case False
      with 2 None match pos show ?thesis
        by (simp add: delta_inner.simps [of strong sig d pos] naive_delta.simps [of strong sig d pos])
    qed
  qed
qed

lemma GenerateDelta_naive: "GenerateDelta strong sig d = naive_delta strong sig d 0 [] []"
  by (simp add: GenerateDelta_def delta_loops_naive(1))

section \<open>What a delta means\<close>

text \<open>
  \<open>op_bytes\<close> is what an operation stands for over the old file, without the integer arithmetic of
  the code; \<open>op_ok\<close> says that a copy refers to one of \<open>n\<close> blocks and that a literal is not empty.
\<close>

fun op_bytes :: "bytes \<Rightarrow> nat \<Rightarrow> deltaOp \<Rightarrow> bytes" where
  "op_bytes old b (CopyOp i) = nth_block old b (nat i)"
| "op_bytes old b (DataOp xs) = xs"

fun op_ok :: "nat \<Rightarrow> deltaOp \<Rightarrow> bool" where
  "op_ok n (CopyOp i) \<longleftrightarrow> 0 \<le> i \<and> i < int n"
| "op_ok n (DataOp xs) \<longleftrightarrow> xs \<noteq> []"

fun literal_length :: "deltaOp \<Rightarrow> nat" where
  "literal_length (CopyOp i) = 0"
| "literal_length (DataOp xs) = length xs"

fun is_copy :: "deltaOp \<Rightarrow> bool" where
  "is_copy (CopyOp i) = True"
| "is_copy (DataOp xs) = False"

definition data_op :: "bytes \<Rightarrow> deltaOp list" where
  "data_op xs = (if xs = [] then [] else [DataOp xs])"

lemma flushPending_conv: "flushPending ops pending = ops @ data_op pending"
  by (simp add: flushPending_def data_op_def)

lemma data_op_simps [simp]:
  "concat (map (op_bytes old b) (data_op xs)) = xs"
  "list_all (op_ok n) (data_op xs)"
  "sum_list (map literal_length (data_op xs)) = length xs"
  "filter is_copy (data_op xs) = []"
  by (simp_all add: data_op_def)

lemma naive_delta_ops_ok:
  "list_all (op_ok (length (sig_Blocks sig))) ops \<Longrightarrow>
   list_all (op_ok (length (sig_Blocks sig))) (naive_delta strong sig d pos pending ops)"
proof (induction strong sig d pos pending ops rule: naive_delta.induct)
  case (1 strong sig d pos pending ops)
  then show ?case
    by (subst naive_delta.simps)
      (auto simp: flushPending_conv dest: first_match_Some split: option.split)
qed

lemma naive_delta_bytes:
  assumes "\<And>i pos. pos + effective_block_size sig \<le> length d \<Longrightarrow>
      first_match strong sig (go_slice d pos (pos + effective_block_size sig)) = Some i \<Longrightarrow>
      nth_block old (effective_block_size sig) i = go_slice d pos (pos + effective_block_size sig)"
  shows "concat (map (op_bytes old (effective_block_size sig)) (naive_delta strong sig d pos pending ops))
    = concat (map (op_bytes old (effective_block_size sig)) ops) @ pending @ drop pos d"
  using assms
proof (induction strong sig d pos pending ops rule: naive_delta.induct)
  case (1 strong sig d pos pending ops)
  let ?b = "effective_block_size sig"
  show ?case
  proof (cases "pos + ?b \<le> length d")
    case True
    show ?thesis
    proof (cases "first_match strong sig (go_slice d pos (pos + ?b))")
      case (Some i)
      have "nth_block old ?b i @ drop (pos + ?b) d = drop pos d"
        using "1.prems" [OF True Some] by (simp add: go_slice_append_drop)
      with True Some "1.IH"(2) [OF True Some "1.prems"] show ?thesis
        by (subst naive_delta.simps) (simp add: flushPending_conv)
    next
      case None
      have "pos < length d" using True effective_block_size_pos [of sig] by linarith
      then have "drop pos d = d ! pos # drop (Suc pos) d" by (simp add: Cons_nth_drop_Suc)
      with True None "1.IH"(1) [OF True None "1.prems"] show ?thesis
        by (subst naive_delta.simps) simp
    qed
  next
    case False
    then show ?thesis by (subst naive_delta.simps) (simp add: flushPending_conv)
  qed
qed

lemma naive_delta_length:
  "sum_list (map literal_length (naive_delta strong sig d pos pending ops))
     + effective_block_size sig * length (filter is_copy (naive_delta strong sig d pos pending ops))
   = sum_list (map literal_length ops) + effective_block_size sig * length (filter is_copy ops)
     + length pending + (length d - pos)"
proof (induction strong sig d pos pending ops rule: naive_delta.induct)
  case (1 strong sig d pos pending ops)
  let ?b = "effective_block_size sig"
  show ?case
  proof (cases "pos + ?b \<le> length d")
    case True
    then have "length d - pos = ?b + (length d - (pos + ?b))"
      and "length d - pos = Suc (length d - Suc pos)"
      using effective_block_size_pos [of sig] by linarith+
    with True 1 show ?thesis
      by (subst (1 2) naive_delta.simps)
        (auto simp: flushPending_conv algebra_simps split: option.split)
  next
    case False
    then show ?thesis by (subst (1 2) naive_delta.simps) (simp add: flushPending_conv)
  qed
qed

section \<open>Applying valid deltas\<close>

lemma go_slice_block:
  "go_slice old (i * b) (if i * b + b > length old then length old else i * b + b) = nth_block old b i"
  by (simp add: go_slice_def nth_block_def)

lemma apply_copy_step:
  assumes "0 \<le> i" and prod: "i * int b = int x" and "x < length old" and "0 < b"
    and "int (length old) + int b < 2 ^ 63"
  shows "apply_ops k old (int b) (CopyOp i # ops) out
    = apply_ops (Suc k) old (int b) ops
        (out @ go_slice old x (if x + b > length old then length old else x + b))"
proof -
  have "fits64 (int x)" "fits64 (int x + int b)"
    using assms by (simp_all add: fits64_def)
  moreover have "nat (if int x + int b > int (length old) then int (length old) else int x + int b)
      = (if x + b > length old then length old else x + b)"
    by auto
  ultimately show ?thesis
    using assms by (simp add: prod Let_def)
qed

lemma apply_ops_prefix:
  assumes "0 < b" and "int (length old) + int b < 2 ^ 63"
  shows "list_all (op_ok (num_blocks (length old) b)) ops \<Longrightarrow>
    apply_ops k old (int b) (ops @ rest) out
      = apply_ops (k + length ops) old (int b) rest (out @ concat (map (op_bytes old b) ops))"
proof (induction ops arbitrary: k out)
  case (Cons oper ops)
  show ?case
  proof (cases oper)
    case (CopyOp i)
    with Cons.prems have "0 \<le> i" and "i < int (num_blocks (length old) b)" by simp_all
    then obtain j where j: "i = int j" and "j < num_blocks (length old) b"
      by (metis nonneg_int_cases of_nat_less_iff)
    with assms Cons show ?thesis
      by (simp add: CopyOp apply_copy_step [where x = "j * b"] num_blocks_less go_slice_block
          del: apply_ops.simps)
  next
    case (DataOp xs)
    with Cons show ?thesis by simp
  qed
qed simp

lemma apply_ops_valid:
  assumes "0 < b" and "int (length old) + int b < 2 ^ 63"
    and "list_all (op_ok (num_blocks (length old) b)) ops"
  shows "apply_ops k old (int b) ops out = Ok (out @ concat (map (op_bytes old b) ops))"
  using apply_ops_prefix [OF assms, where rest = "[]"] by simp

lemma apply_ops_data_only:
  "list_all (op_ok 0) ops \<Longrightarrow>
     apply_ops k old bs ops out = Ok (out @ concat (map (op_bytes old b) ops))"
proof (induction ops arbitrary: k out)
  case (Cons oper ops)
  then show ?case by (cases oper) auto
qed simp

lemma GenerateDelta_ops_ok: "list_all (op_ok (length (sig_Blocks sig))) (GenerateDelta strong sig d)"
  by (simp add: GenerateDelta_naive naive_delta_ops_ok)

lemma signature_simps [simp]:
  "sig_BlockSize (GenerateSignatureWithBlockSize strong old bs) = bs"
  "sig_Blocks (GenerateSignatureWithBlockSize strong old bs)
     = map (block_signature strong) (splitBlocks old bs)"
  by (simp_all add: GenerateSignatureWithBlockSize_def)

lemma ApplyDelta_generated:
  assumes "int (length old) + bs < 2 ^ 63"
    and "sig = GenerateSignatureWithBlockSize strong old bs"
  shows "ApplyDelta old (GenerateDelta strong sig d) sig
    = Ok (concat (map (op_bytes old (effective_block_size sig)) (GenerateDelta strong sig d)))"
proof (cases "0 < bs")
  case True
  then obtain b where b: "bs = int b" "0 < b" by (metis pos_int_cases)
  with assms have "list_all (op_ok (num_blocks (length old) b)) (GenerateDelta strong sig d)"
    using GenerateDelta_ops_ok [of sig strong d] by (simp add: splitBlocks_conv)
  moreover have "effective_block_size sig = b"
    using b assms(2) by (simp add: effective_block_size_def)
  ultimately show ?thesis
    using apply_ops_valid [of b old] b assms by (simp add: ApplyDelta_def)
next
  case False
  with assms have "list_all (op_ok 0) (GenerateDelta strong sig d)"
    using GenerateDelta_ops_ok [of sig strong d] by simp
  then show ?thesis by (simp add: ApplyDelta_def apply_ops_data_only [where b = "effective_block_size sig"])
qed

text \<open>
  The one thing the round trip needs of the strong checksum: no block of the old file and
  full window of the new one are different and share it.
\<close>

definition strong_separates :: "(bytes \<Rightarrow> 'h) \<Rightarrow> bytes \<Rightarrow> int \<Rightarrow> bytes \<Rightarrow> bool" where
  "strong_separates strong old bs new \<longleftrightarrow>
     list_all (\<lambda>block. list_all (\<lambda>i. strong block = strong (go_slice new i (i + nat bs)) \<longrightarrow>
         i + nat bs \<le> length new \<longrightarrow> block = go_slice new i (i + nat bs)) [0..<length new])
       (splitBlocks old bs)"

lemma strong_separatesD:
  assumes "strong_separates strong old bs new" and "block \<in> set (splitBlocks old bs)"
    and "strong block = strong (go_slice new i (i + nat bs))" and "i + nat bs \<le> length new"
    and "0 < bs"
  shows "block = go_slice new i (i + nat bs)"
  using assms by (auto simp: strong_separates_def list_all_iff)

lemma reconstruct:
  assumes "strong_separates strong old bs new"
    and sig: "sig = GenerateSignatureWithBlockSize strong old bs"
  shows "concat (map (op_bytes old (effective_block_size sig)) (GenerateDelta strong sig new)) = new"
proof -
  have "nth_block old (effective_block_size sig) i = go_slice new pos (pos + effective_block_size sig)"
    if long: "pos + effective_block_size sig \<le> length new"
      and hit: "first_match strong sig (go_slice new pos (pos + effective_block_size sig)) = Some i"
    for i pos
  proof -
    have bs: "0 < bs"
    proof (rule ccontr)
      assume "\<not> 0 < bs"
      with sig hit show False by (auto dest!: first_match_Some)
    qed
    with sig have eff: "effective_block_size sig = nat bs"
      by (simp add: effective_block_size_def)
    have blocks: "splitBlocks old bs = map (nth_block old (nat bs)) [0..<num_blocks (length old) (nat bs)]"
      using bs splitBlocks_conv [of "nat bs" old] by simp
    have "sig_Blocks sig = map (block_signature strong) (splitBlocks old bs)"
      by (simp add: sig)
    with first_match_Some [OF hit]
    have "i < num_blocks (length old) (nat bs)"
      and "strong (nth_block old (nat bs) i) = strong (go_slice new pos (pos + nat bs))"
      by (auto simp: blocks block_signature_def eff)
    then show ?thesis
      using strong_separatesD [OF assms(1), of "nth_block old (nat bs) i" pos] long bs
      by (simp add: eff blocks)
  qed
  then show ?thesis
    by (simp add: GenerateDelta_naive naive_delta_bytes)
qed

section \<open>Shape of a generated delta\<close>

definition delta_normal :: "nat \<Rightarrow> deltaOp list \<Rightarrow> bool" where
  "delta_normal n ops \<longleftrightarrow>
     list_all (op_ok n) ops \<and> successively (\<lambda>x y. is_copy x \<or> is_copy y) ops"

lemma naive_delta_alternates:
  "successively (\<lambda>x y. is_copy x \<or> is_copy y) ops \<Longrightarrow> ops = [] \<or> is_copy (last ops) \<Longrightarrow>
   successively (\<lambda>x y. is_copy x \<or> is_copy y) (naive_delta strong sig d pos pending ops)"
proof (induction strong sig d pos pending ops rule: naive_delta.induct)
  case (1 strong sig d pos pending ops)
  have "successively (\<lambda>x y. is_copy x \<or> is_copy y) (ops @ data_op xs)" for xs
    using "1.prems" by (auto simp: data_op_def successively_append_iff)
  moreover have "successively (\<lambda>x y. is_copy x \<or> is_copy y) ((ops @ data_op xs) @ [CopyOp j])" for xs j
    using calculation by (subst successively_append_iff) auto
  ultimately show ?case
    using 1 by (subst naive_delta.simps) (auto simp: flushPending_conv split: option.split)
qed

lemma naive_delta_self:
  assumes b: "0 < b" and sig: "sig = GenerateSignatureWithBlockSize strong d (int b)"
    and "k \<le> length d div b"
  shows "\<exists>idxs. length idxs = length d div b - k \<and>
      naive_delta strong sig d (k * b) [] ops
        = ops @ map (\<lambda>i. CopyOp (int i)) idxs @ data_op (drop (length d div b * b) d)"
  using assms(3)
proof (induction "length d div b - k" arbitrary: k ops)
  case 0
  then have k: "k = length d div b" by simp
  have "\<not> k * b + b \<le> length d"
    using b by (simp add: k) (metis add.commute div_mult_mod_eq mod_less_divisor nat_add_left_cancel_less not_less)
  moreover have eff: "effective_block_size sig = b" using b sig by (simp add: effective_block_size_def)
  ultimately show ?case
    using k by (subst naive_delta.simps) (simp add: flushPending_conv)
next
  case (Suc m)
  then have "Suc k \<le> length d div b" by simp
  with b have long: "k * b + b \<le> length d"
    by (metis add.commute div_times_less_eq_dividend le_trans mult_Suc mult_le_mono1)
  have eff: "effective_block_size sig = b" using b sig by (simp add: effective_block_size_def)
  have blk: "sig_Blocks sig ! k = block_signature strong (go_slice d (k * b) (k * b + b))"
    and in_range: "k < length (sig_Blocks sig)"
    using b long by (simp_all add: sig splitBlocks_conv num_blocks_less nth_block_def go_slice_def)
  obtain i where hit: "first_match strong sig (go_slice d (k * b) (k * b + b)) = Some i"
    using first_match_ex [OF in_range blk] by blast
  from Suc obtain idxs where "length idxs = length d div b - Suc k"
    and rest: "naive_delta strong sig d (Suc k * b) [] (ops @ [CopyOp (int i)])
        = (ops @ [CopyOp (int i)]) @ map (\<lambda>i. CopyOp (int i)) idxs @ data_op (drop (length d div b * b) d)"
    by (metis Suc_leI Suc_diff_Suc Suc_inject \<open>Suc k \<le> length d div b\<close> less_eq_Suc_le)
  then have "length (i # idxs) = length d div b - k"
    and "naive_delta strong sig d (k * b) [] ops
        = ops @ map (\<lambda>i. CopyOp (int i)) (i # idxs) @ data_op (drop (length d div b * b) d)"
    using long hit \<open>Suc k \<le> length d div b\<close>
    by (simp, subst naive_delta.simps)
      (simp add: eff flushPending_conv data_op_def add.commute)
  then show ?case by blast
qed

section \<open>Properties\<close>

text \<open>
  C14. Round trip: the delta that \<open>GenerateDelta\<close> computes for the new data against the signature
  of the old data, applied by \<open>ApplyDelta\<close> to the old data, reproduces the new data exactly, for
  every block size (zero and negative ones included), provided the strong checksum does not
  confuse an old block with a different full window of the new data and the sizes fit Go's int.
\<close>

theorem delta_roundtrip:
  assumes "strong_separates strong old bs new"
    and "int (length old) + bs < 2 ^ 63"
  shows "ApplyDelta old (GenerateDelta strong (GenerateSignatureWithBlockSize strong old bs) new)
           (GenerateSignatureWithBlockSize strong old bs) = Ok new"
  using ApplyDelta_generated [OF assms(2) refl, where strong = strong and d = new]
    reconstruct [OF assms(1) refl] by simp

theorem delta_roundtrip_witness:
  "strong_separates (\<lambda>w. w) [1, 2, 3, 4, 5] 2 [9, 3, 4, 1, 2, 5] \<and>
   GenerateDelta (\<lambda>w. w) (GenerateSignatureWithBlockSize (\<lambda>w. w) [1, 2, 3, 4, 5] 2) [9, 3, 4, 1, 2, 5]
     = [DataOp [9], CopyOp 1, CopyOp 0, DataOp [5]] \<and>
   ApplyDelta [1, 2, 3, 4, 5]
     (GenerateDelta (\<lambda>w. w) (GenerateSignatureWithBlockSize (\<lambda>w. w) [1, 2, 3, 4, 5] 2) [9, 3, 4, 1, 2, 5])
     (GenerateSignatureWithBlockSize (\<lambda>w. w) [1, 2, 3, 4, 5] 2) = Ok [9, 3, 4, 1, 2, 5]"
proof -
  have sep: "strong_separates (\<lambda>w. w) [1, 2, 3, 4, 5] 2 [9, 3, 4, 1, 2, 5]"
    by (simp add: strong_separates_def list_all_iff)
  moreover have "GenerateDelta (\<lambda>w. w) (GenerateSignatureWithBlockSize (\<lambda>w. w) [1, 2, 3, 4, 5] 2)
      [9, 3, 4, 1, 2, 5] = [DataOp [9], CopyOp 1, CopyOp 0, DataOp [5]]"
    by code_simp
  ultimately show ?thesis
    using delta_roundtrip [OF sep] by simp
qed

text \<open>
  C17. Whatever the strong checksum does, colliding or not, a generated delta is accepted: every
  copy refers to a block of the signature, no index arithmetic overflows, and \<open>ApplyDelta\<close>
  returns data, never an error and never a panic.
\<close>

theorem generated_delta_accepted:
  assumes "int (length old) + bs < 2 ^ 63"
  shows "\<exists>out. ApplyDelta old
      (GenerateDelta strong (GenerateSignatureWithBlockSize strong old bs) new)
      (GenerateSignatureWithBlockSize strong old bs) = Ok out"
  using ApplyDelta_generated [OF assms refl] by blast

theorem generated_delta_accepted_witness:
  "\<exists>out. ApplyDelta [1, 2, 3]
      (GenerateDelta (\<lambda>w. ()) (GenerateSignatureWithBlockSize (\<lambda>w. ()) [1, 2, 3] 2) [3, 0, 9, 9])
      (GenerateSignatureWithBlockSize (\<lambda>w. ()) [1, 2, 3] 2) = Ok out"
  by (rule generated_delta_accepted) simp

text \<open>
  C15. The optimised generator (rolling checksum, weak-checksum index) computes the same delta as
  the naive one that checksums every window afresh and scans the signature for the first block
  with both checksums equal.
\<close>

theorem GenerateDelta_eq_naive: "GenerateDelta strong sig d = naive_delta strong sig d 0 [] []"
  by (rule GenerateDelta_naive)

text \<open>
  A generated delta is in normal form: all copy indices name blocks of the signature, no
  literal is empty, and two literals never follow each other, so pending bytes are merged.
\<close>

theorem GenerateDelta_normal: "delta_normal (length (sig_Blocks sig)) (GenerateDelta strong sig d)"
  using GenerateDelta_ops_ok [of sig strong d]
  by (simp add: delta_normal_def GenerateDelta_naive naive_delta_alternates)

text \<open>
  Accounting: literal bytes plus one full block for every copy make up the new file, so a
  delta never carries more literal data than the file itself.
\<close>

theorem GenerateDelta_accounting:
  "sum_list (map literal_length (GenerateDelta strong sig d))
     + effective_block_size sig * length (filter is_copy (GenerateDelta strong sig d)) = length d"
  using naive_delta_length [of strong sig d 0 "[]" "[]"] by (simp add: GenerateDelta_naive)

text \<open>
  Re-syncing an unchanged file: against its own signature, its delta is one copy for every
  full block followed by the short tail, if there is one, as literal data. Only the tail of fewer
  than \<open>blockSize\<close> bytes is sent again: the last short block of a signature never matches.
\<close>

theorem unchanged_file_delta:
  assumes "0 < b"
  shows "\<exists>idxs. length idxs = length d div b \<and>
      GenerateDelta strong (GenerateSignatureWithBlockSize strong d (int b)) d
        = map (\<lambda>i. CopyOp (int i)) idxs @ data_op (drop (length d div b * b) d)"
  using naive_delta_self [OF assms refl, where k = 0 and ops = "[]" and strong = strong and d = d] by (simp add: GenerateDelta_naive)

theorem unchanged_file_delta_witness:
  "\<exists>idxs. length idxs = length [1, 1, 1, 1, 7 :: byte] div 2 \<and>
      GenerateDelta (\<lambda>w. w) (GenerateSignatureWithBlockSize (\<lambda>w. w) [1, 1, 1, 1, 7] (int 2)) [1, 1, 1, 1, 7]
        = map (\<lambda>i. CopyOp (int i)) idxs @ data_op (drop (length [1, 1, 1, 1, 7 :: byte] div 2 * 2) [1, 1, 1, 1, 7])"
  by (rule unchanged_file_delta) simp

text \<open>
  The check of a received delta: after any prefix of valid operations, the first copy whose
  index is negative or not below the number of blocks of the old file is refused, with its
  position in the delta, as long as the product of index and block size fits Go's 64-bit int.
\<close>

theorem bad_copy_rejected:
  assumes "sig_BlockSize sig = int b" and "0 < b" and "int (length old) + int b < 2 ^ 63"
    and "list_all (op_ok (num_blocks (length old) b)) pre"
    and "\<not> op_ok (num_blocks (length old) b) (CopyOp i)" and "fits64 (i * int b)"
  shows "ApplyDelta old (pre @ CopyOp i # post) sig
           = Fail (BlockIndexOutOfRange (length pre) i (length old))"
proof -
  have "i < 0 \<or> int (length old) \<le> i * int b"
  proof (cases "i < 0")
    case False
    then obtain j where "i = int j" by (metis nonneg_int_cases not_less)
    with assms(2,5) have "\<not> j * b < length old" by (simp add: num_blocks_less [symmetric])
    then show ?thesis by (simp add: \<open>i = int j\<close> flip: of_nat_mult)
  qed simp
  with assms(2,6) show ?thesis
    by (simp add: ApplyDelta_def assms(1) apply_ops_prefix [OF assms(2-4)])
qed

theorem bad_copy_rejected_witness:
  "ApplyDelta [7, 8, 9] ([CopyOp 1] @ CopyOp 2 # [DataOp [1]])
     (GenerateSignatureWithBlockSize (\<lambda>w. w) [7, 8, 9] 2)
     = Fail (BlockIndexOutOfRange (length [CopyOp 1]) 2 (length [7, 8, 9 :: byte]))"
  by (rule bad_copy_rejected [where b = 2]) (simp_all add: num_blocks_def fits64_def)

text \<open>
  C18. Without that bound the check fails: the product of a copy's index and the block size is
  computed in wrapping 64-bit arithmetic before it is compared with the file's length. With the
  default block size, an index just above \<open>2 ^ 63 / 700\<close> makes \<open>ApplyDelta\<close> panic on a negative
  slice bound for every old file, and index \<open>2 ^ 62\<close> is accepted and silently copies block 0.
\<close>

theorem copy_index_overflow:
  "ApplyDelta old [CopyOp (2 ^ 63 div 700 + 1)] (GenerateSignature strong old)
     = Fail (SliceBoundsPanic 0) \<and>
   ApplyDelta (x # xs) [CopyOp (2 ^ 62)] (GenerateSignature strong (x # xs)) = Ok (take 700 (x # xs))"
proof
  have "wrap64 ((2 ^ 63 div 700 + 1) * 700) < 0"
    by (simp add: wrap64_def)
  then show "ApplyDelta old [CopyOp (2 ^ 63 div 700 + 1)] (GenerateSignature strong old)
      = Fail (SliceBoundsPanic 0)"
    by (simp add: ApplyDelta_def GenerateSignature_def DefaultBlockSize_def Let_def)
  have "wrap64 (2 ^ 62 * 700) = 0" and "wrap64 700 = 700"
    by (simp_all add: wrap64_def)
  then show "ApplyDelta (x # xs) [CopyOp (2 ^ 62)] (GenerateSignature strong (x # xs))
      = Ok (take 700 (x # xs))"
    by (simp add: ApplyDelta_def GenerateSignature_def DefaultBlockSize_def Let_def go_slice_def)
qed

end
