(* ===== verification/Messages.thy ===== *)
theory Messages
  imports Delta Frame Entry Compress
begin

text \<open>
  \<open>internal/pipeline/messages.go\<close>: the three messages of a transfer (file list, signature, delta),
  their wire form and their frames. \<open>encoding/gob\<close> is a parameter, a record of encoders (\<open>None\<close> is
  an encoding error) and decoders for the three message types; \<open>gob_ok\<close> says that it round-trips.
\<close>

section \<open>Delta operations on the wire\<close>

definition deltaOpKindCopy :: byte where "deltaOpKindCopy = 0"
definition deltaOpKindData :: byte where "deltaOpKindData = 1"

record wireDeltaOp =
  w_Kind :: byte
  w_BlockIndex :: int
  w_Bytes :: bytes
  w_Length :: int

datatype convert_error =
    DecompressFailed
  | LiteralTooShort nat int nat
  | UnknownKind nat byte
  | LiteralSlicePanic nat

fun literal_bytes :: "deltaOp \<Rightarrow> bytes" where
  "literal_bytes (CopyOp i) = []"
| "literal_bytes (DataOp bs) = bs"

fun wire_op :: "bool \<Rightarrow> deltaOp \<Rightarrow> wireDeltaOp" where
  "wire_op compressed (CopyOp i) =
     \<lparr>w_Kind = deltaOpKindCopy, w_BlockIndex = i, w_Bytes = [], w_Length = 0\<rparr>"
| "wire_op compressed (DataOp bs) =
     (if compressed
      then \<lparr>w_Kind = deltaOpKindData, w_BlockIndex = 0, w_Bytes = [], w_Length = int (length bs)\<rparr>
      else \<lparr>w_Kind = deltaOpKindData, w_BlockIndex = 0, w_Bytes = bs, w_Length = 0\<rparr>)"

definition toWireDeltaOps ::
  "deflate \<Rightarrow> deltaOp list \<Rightarrow> string \<Rightarrow> compressOptions \<Rightarrow> wireDeltaOp list \<times> bool \<times> bytes" where
  "toWireDeltaOps deflate ops path copts =
     (let tryCompress = co_Enabled copts \<and> \<not> skipCompressSuffix path (co_SkipSuffixes copts);
          concatenated = (if tryCompress then concat (map literal_bytes ops) else []);
          packed = (if length concatenated > 0
                    then compressLiteral deflate concatenated (co_Level copts) else None)
      in case packed of
           None \<Rightarrow> (map (wire_op False) ops, False, [])
         | Some c \<Rightarrow> (map (wire_op True) ops, True, c))"

text \<open>
  The loop of \<open>fromWireDeltaOps\<close>: \<open>i\<close> is the index of the operation, \<open>pos\<close> the offset in the
  decompressed literal stream. The sum of \<open>pos\<close> and the received length is Go's 64-bit sum; a
  slice expression whose upper bound is below the lower one panics.
\<close>

fun from_wire_ops ::
  "bytes \<Rightarrow> bool \<Rightarrow> nat \<Rightarrow> nat \<Rightarrow> wireDeltaOp list \<Rightarrow> convert_error + deltaOp list" where
  "from_wire_ops decompressed compressed i pos [] = Ok []"
| "from_wire_ops decompressed compressed i pos (w # wire) =
     (if w_Kind w = deltaOpKindCopy
      then res_bind (from_wire_ops decompressed compressed (Suc i) pos wire)
             (\<lambda>ops. Ok (CopyOp (w_BlockIndex w) # ops))
      else if w_Kind w = deltaOpKindData
      then (if \<not> compressed
            then res_bind (from_wire_ops decompressed compressed (Suc i) pos wire)
                   (\<lambda>ops. Ok (DataOp (w_Bytes w) # ops))
            else (let end = wrap64 (int pos + w_Length w) in
                  if w_Length w < 0 \<or> end > int (length decompressed)
                  then Fail (LiteralTooShort i (w_Length w) pos)
                  else if end < int pos then Fail (LiteralSlicePanic i)
                  else res_bind (from_wire_ops decompressed compressed (Suc i) (nat end) wire)
                         (\<lambda>ops. Ok (DataOp (go_slice decompressed pos (nat end)) # ops))))
      else Fail (UnknownKind i (w_Kind w)))"

definition fromWireDeltaOps ::
  "inflate \<Rightarrow> wireDeltaOp list \<Rightarrow> bool \<Rightarrow> bytes \<Rightarrow> convert_error + deltaOp list" where
  "fromWireDeltaOps inflate wire compressed literal =
     (if compressed
      then (case inflate literal of
              None \<Rightarrow> Fail DecompressFailed
            | Some decompressed \<Rightarrow> from_wire_ops decompressed True 0 0 wire)
      else from_wire_ops [] False 0 0 wire)"

section \<open>Messages\<close>

type_synonym appendAction = byte

definition appendNone :: appendAction where "appendNone = 0"
definition appendTail :: appendAction where "appendTail = 1"
definition appendSkip :: appendAction where "appendSkip = 2"

lemmas append_actions = appendNone_def appendTail_def appendSkip_def

record 'h signatureMessage =
  sm_Path :: string
  sm_Sig :: "'h signature"
  sm_Append :: appendAction

record deltaMessage =
  dm_Path :: string
  dm_Ops :: "wireDeltaOp list"
  dm_Compressed :: bool
  dm_Literal :: bytes

record fileListMessage =
  fl_Entries :: "fileEntry list"
  fl_HardLinkGroups :: "hardLinkGroup list"

record 'h gob =
  encFileList :: "fileListMessage \<Rightarrow> bytes option"
  decFileList :: "bytes \<Rightarrow> fileListMessage option"
  encSignature :: "'h signatureMessage \<Rightarrow> bytes option"
  decSignature :: "bytes \<Rightarrow> 'h signatureMessage option"
  encDelta :: "deltaMessage \<Rightarrow> bytes option"
  decDelta :: "bytes \<Rightarrow> deltaMessage option"

definition gob_ok :: "'h gob \<Rightarrow> bool" where
  "gob_ok g \<longleftrightarrow>
     (\<forall>m b. encFileList g m = Some b \<longrightarrow> decFileList g b = Some m) \<and>
     (\<forall>m b. encSignature g m = Some b \<longrightarrow> decSignature g b = Some m) \<and>
     (\<forall>m b. encDelta g m = Some b \<longrightarrow> decDelta g b = Some m)"

datatype message_error =
    EncodeFailed
  | DecodeFailed
  | FrameWriteFailed frame_error
  | FrameReadFailed frame_error
  | RemoteError bytes
  | WrongFrameType frameType frameType
  | ConvertFailed convert_error

definition readTypedFrame :: "frameType \<Rightarrow> byte conn \<Rightarrow> byte conn \<times> (message_error + frame)" where
  "readTypedFrame want c =
     (case ReadFrame (c_in c) of
        Inl e \<Rightarrow> (c, Fail (FrameReadFailed e))
      | Inr (f, rest) \<Rightarrow>
          (c\<lparr>c_in := rest\<rparr>,
           if fr_Type f = FrameError then Fail (RemoteError (fr_Payload f))
           else if fr_Type f \<noteq> want then Fail (WrongFrameType want (fr_Type f))
           else Ok f))"

text \<open>The common end of the three senders and the common body of the three receivers.\<close>

definition send_payload_to ::
  "('w \<Rightarrow> bytes \<Rightarrow> 'w \<times> bool) \<Rightarrow> frameType \<Rightarrow> bytes option \<Rightarrow> 'w \<Rightarrow> 'w \<times> message_error option" where
  "send_payload_to write ft payload w =
     (case payload of
        None \<Rightarrow> (w, Some EncodeFailed)
      | Some p \<Rightarrow>
          (case write_frame_to write w \<lparr>fr_Type = ft, fr_Payload = p\<rparr> of
             (w', e) \<Rightarrow> (w', map_option FrameWriteFailed e)))"

definition conn_write :: "byte conn \<Rightarrow> bytes \<Rightarrow> byte conn \<times> bool" where
  "conn_write c data = (case write_all (c_out c) data of (w, ok) \<Rightarrow> (c\<lparr>c_out := w\<rparr>, ok))"

abbreviation send_payload :: "frameType \<Rightarrow> bytes option \<Rightarrow> byte conn \<Rightarrow> byte conn \<times> message_error option" where
  "send_payload \<equiv> send_payload_to conn_write"

definition recv_payload ::
  "frameType \<Rightarrow> (bytes \<Rightarrow> 'm option) \<Rightarrow> byte conn \<Rightarrow> byte conn \<times> (message_error + 'm)" where
  "recv_payload ft dec c =
     (case readTypedFrame ft c of
        (c1, Inl e) \<Rightarrow> (c1, Fail e)
      | (c1, Inr f) \<Rightarrow> (c1, case dec (fr_Payload f) of None \<Rightarrow> Fail DecodeFailed | Some m \<Rightarrow> Ok m))"

definition sendFileList_to ::
  "('w \<Rightarrow> bytes \<Rightarrow> 'w \<times> bool) \<Rightarrow> 'h gob \<Rightarrow> fileEntry list \<Rightarrow> hardLinkGroup list \<Rightarrow> 'w \<Rightarrow> 'w \<times> message_error option" where
  "sendFileList_to write g entries groups =
     send_payload_to write FrameFileList (encFileList g \<lparr>fl_Entries = entries, fl_HardLinkGroups = groups\<rparr>)"

abbreviation sendFileList ::
  "'h gob \<Rightarrow> fileEntry list \<Rightarrow> hardLinkGroup list \<Rightarrow> byte conn \<Rightarrow> byte conn \<times> message_error option" where
  "sendFileList \<equiv> sendFileList_to conn_write"

definition recvFileList ::
  "'h gob \<Rightarrow> byte conn \<Rightarrow> byte conn \<times> (message_error + (fileEntry list \<times> hardLinkGroup list))" where
  "recvFileList g c =
     (case recv_payload FrameFileList (decFileList g) c of
        (c1, r) \<Rightarrow> (c1, map_sum id (\<lambda>m. (fl_Entries m, fl_HardLinkGroups m)) r))"

definition sendSignature ::
  "'h gob \<Rightarrow> string \<Rightarrow> 'h signature \<Rightarrow> appendAction \<Rightarrow> byte conn \<Rightarrow> byte conn \<times> message_error option" where
  "sendSignature g path sig act =
     send_payload FrameSignature (encSignature g \<lparr>sm_Path = path, sm_Sig = sig, sm_Append = act\<rparr>)"

definition recvSignature ::
  "'h gob \<Rightarrow> byte conn \<Rightarrow> byte conn \<times> (message_error + 'h signatureMessage)" where
  "recvSignature g = recv_payload FrameSignature (decSignature g)"

definition delta_message :: "deflate \<Rightarrow> string \<Rightarrow> deltaOp list \<Rightarrow> compressOptions \<Rightarrow> deltaMessage" where
  "delta_message deflate path ops copts =
     (case toWireDeltaOps deflate ops path copts of
        (wire, compressed, literal) \<Rightarrow>
          \<lparr>dm_Path = path, dm_Ops = wire, dm_Compressed = compressed, dm_Literal = literal\<rparr>)"

definition sendDelta_to ::
  "('w \<Rightarrow> bytes \<Rightarrow> 'w \<times> bool) \<Rightarrow> 'h gob \<Rightarrow> deflate \<Rightarrow> string \<Rightarrow> deltaOp list \<Rightarrow> compressOptions \<Rightarrow> 'w
     \<Rightarrow> 'w \<times> message_error option" where
  "sendDelta_to write g deflate path ops copts =
     send_payload_to write FrameDelta (encDelta g (delta_message deflate path ops copts))"

abbreviation sendDelta ::
  "'h gob \<Rightarrow> deflate \<Rightarrow> string \<Rightarrow> deltaOp list \<Rightarrow> compressOptions \<Rightarrow> byte conn
     \<Rightarrow> byte conn \<times> message_error option" where
  "sendDelta \<equiv> sendDelta_to conn_write"

definition recvDelta ::
  "'h gob \<Rightarrow> inflate \<Rightarrow> byte conn \<Rightarrow> byte conn \<times> (message_error + (string \<times> deltaOp list))" where
  "recvDelta g inflate c =
     (case recv_payload FrameDelta (decDelta g) c of
        (c1, Inl e) \<Rightarrow> (c1, Fail e)
      | (c1, Inr msg) \<Rightarrow>
          (c1, case fromWireDeltaOps inflate (dm_Ops msg) (dm_Compressed msg) (dm_Literal msg) of
                 Inl e \<Rightarrow> Fail (ConvertFailed e)
               | Inr ops \<Rightarrow> Ok (dm_Path msg, ops)))"

section \<open>Lemmas\<close>

lemma delta_kinds [simp]: "deltaOpKindData \<noteq> deltaOpKindCopy" "deltaOpKindCopy \<noteq> deltaOpKindData"
  by (simp_all add: deltaOpKindCopy_def deltaOpKindData_def)

lemma from_wire_plain: "from_wire_ops d False i pos (map (wire_op False) ops) = Ok ops"
proof (induction ops arbitrary: i)
  case (Cons op ops)
  then show ?case by (cases op) simp_all
qed simp

lemma from_wire_packed:
  "decompressed = pre @ concat (map literal_bytes ops) \<Longrightarrow> int (length decompressed) < 2 ^ 63 \<Longrightarrow>
     from_wire_ops decompressed True i (length pre) (map (wire_op True) ops) = Ok ops"
proof (induction ops arbitrary: i pre)
  case (Cons op ops)
  show ?case
  proof (cases op)
    case (CopyOp j)
    with Cons show ?thesis by simp
  next
    case (DataOp bs)
    with Cons.prems have fits: "fits64 (int (length pre) + int (length bs))"
      by (simp add: fits64_def)
    have "from_wire_ops decompressed True (Suc i) (length (pre @ bs)) (map (wire_op True) ops) = Ok ops"
      using Cons.prems DataOp by (intro Cons.IH) simp_all
    moreover have "go_slice decompressed (length pre) (length pre + length bs) = bs"
      using Cons.prems DataOp by (simp add: go_slice_def)
    ultimately show ?thesis
      using Cons.prems DataOp fits by (simp add: Let_def flip: of_nat_add)
  qed
qed simp

lemma wire_roundtrip:
  assumes "zlib_ok deflate inflate" and "int (length (concat (map literal_bytes ops))) < 2 ^ 63"
    and "toWireDeltaOps deflate ops path copts = (wire, compressed, literal)"
  shows "fromWireDeltaOps inflate wire compressed literal = Ok ops"
proof (cases compressed)
  case False
  with assms(3) have "wire = map (wire_op False) ops"
    by (auto simp: toWireDeltaOps_def Let_def split: option.splits)
  with False show ?thesis by (simp add: fromWireDeltaOps_def from_wire_plain)
next
  case True
  with assms(3) have "wire = map (wire_op True) ops"
    and "compressLiteral deflate (concat (map literal_bytes ops)) (co_Level copts) = Some literal"
    by (auto simp: toWireDeltaOps_def Let_def split: option.splits if_splits)
  with True assms(1,2) from_wire_packed [of _ "[]" ops 0] show ?thesis
    by (auto simp: fromWireDeltaOps_def dest!: compressLiteral_Some zlib_okD)
qed

lemma conn_frame:
  "write_frame_to conn_write c f = (c\<lparr>c_out := fst (WriteFrame (c_out c) f)\<rparr>, snd (WriteFrame (c_out c) f))"
  by (simp add: write_frame_to_def WriteFrame_def conn_write_def split: prod.split bool.split)

lemma send_payload_open:
  assumes "payload = Some p" and "length p \<le> maxFramePayload"
  shows "send_payload ft payload \<lparr>c_in = s, c_out = open_writer cs\<rparr>
    = (\<lparr>c_in = s, c_out = open_writer (cs @ frame_bytes \<lparr>fr_Type = ft, fr_Payload = p\<rparr>)\<rparr>, None)"
  using assms WriteFrame_open [of "\<lparr>fr_Type = ft, fr_Payload = p\<rparr>" cs]
  by (simp add: send_payload_to_def conn_frame frame_valid_def)

lemma recv_payload_frame:
  assumes "length p \<le> maxFramePayload" and "ft \<noteq> FrameError" and "dec p = Some m"
  shows "recv_payload ft dec \<lparr>c_in = frame_bytes \<lparr>fr_Type = ft, fr_Payload = p\<rparr> @ s, c_out = w\<rparr>
    = (\<lparr>c_in = s, c_out = w\<rparr>, Ok m)"
  using assms by (simp add: recv_payload_def readTypedFrame_def fc.dec_enc frame_valid_def)

text \<open>The bytes of each message, and when they can be sent.\<close>

definition payload_fits :: "bytes option \<Rightarrow> bool" where
  "payload_fits p \<longleftrightarrow> (case p of None \<Rightarrow> False | Some b \<Rightarrow> length b \<le> maxFramePayload)"

definition message_bytes :: "frameType \<Rightarrow> bytes option \<Rightarrow> bytes" where
  "message_bytes ft p = frame_bytes \<lparr>fr_Type = ft, fr_Payload = the p\<rparr>"

lemma send_payload_bytes:
  "payload_fits p \<Longrightarrow> send_payload ft p \<lparr>c_in = s, c_out = open_writer cs\<rparr>
     = (\<lparr>c_in = s, c_out = open_writer (cs @ message_bytes ft p)\<rparr>, None)"
  by (auto simp: payload_fits_def message_bytes_def send_payload_open split: option.splits)

lemma recv_payload_bytes:
  "payload_fits p \<Longrightarrow> ft \<noteq> FrameError \<Longrightarrow> (\<And>b. p = Some b \<Longrightarrow> dec b = Some m) \<Longrightarrow>
     recv_payload ft dec \<lparr>c_in = message_bytes ft p @ s, c_out = w\<rparr> = (\<lparr>c_in = s, c_out = w\<rparr>, Ok m)"
  by (auto simp: payload_fits_def message_bytes_def recv_payload_frame split: option.splits)

definition fileList_bytes :: "'h gob \<Rightarrow> fileEntry list \<Rightarrow> hardLinkGroup list \<Rightarrow> bytes" where
  "fileList_bytes g es gs = message_bytes FrameFileList (encFileList g \<lparr>fl_Entries = es, fl_HardLinkGroups = gs\<rparr>)"

definition signature_bytes :: "'h gob \<Rightarrow> string \<Rightarrow> 'h signature \<Rightarrow> appendAction \<Rightarrow> bytes" where
  "signature_bytes g path sig act =
     message_bytes FrameSignature (encSignature g \<lparr>sm_Path = path, sm_Sig = sig, sm_Append = act\<rparr>)"

definition delta_bytes :: "'h gob \<Rightarrow> deflate \<Rightarrow> string \<Rightarrow> deltaOp list \<Rightarrow> compressOptions \<Rightarrow> bytes" where
  "delta_bytes g deflate path ops copts =
     message_bytes FrameDelta (encDelta g (delta_message deflate path ops copts))"

lemma sendFileList_open:
  "payload_fits (encFileList g \<lparr>fl_Entries = es, fl_HardLinkGroups = gs\<rparr>) \<Longrightarrow>
     sendFileList g es gs \<lparr>c_in = s, c_out = open_writer cs\<rparr>
       = (\<lparr>c_in = s, c_out = open_writer (cs @ fileList_bytes g es gs)\<rparr>, None)"
  by (simp add: sendFileList_to_def fileList_bytes_def send_payload_bytes)

lemma recvFileList_bytes:
  assumes "gob_ok g" and "payload_fits (encFileList g \<lparr>fl_Entries = es, fl_HardLinkGroups = gs\<rparr>)"
  shows "recvFileList g \<lparr>c_in = fileList_bytes g es gs @ s, c_out = w\<rparr> = (\<lparr>c_in = s, c_out = w\<rparr>, Ok (es, gs))"
proof -
  have "recv_payload FrameFileList (decFileList g) \<lparr>c_in = fileList_bytes g es gs @ s, c_out = w\<rparr>
      = (\<lparr>c_in = s, c_out = w\<rparr>, Ok \<lparr>fl_Entries = es, fl_HardLinkGroups = gs\<rparr>)"
    unfolding fileList_bytes_def using assms
    by (intro recv_payload_bytes) (auto simp: gob_ok_def FrameFileList_def FrameError_def)
  then show ?thesis by (simp add: recvFileList_def)
qed

lemma sendSignature_open:
  "payload_fits (encSignature g \<lparr>sm_Path = path, sm_Sig = sig, sm_Append = act\<rparr>) \<Longrightarrow>
     sendSignature g path sig act \<lparr>c_in = s, c_out = open_writer cs\<rparr>
       = (\<lparr>c_in = s, c_out = open_writer (cs @ signature_bytes g path sig act)\<rparr>, None)"
  by (simp add: sendSignature_def signature_bytes_def send_payload_bytes)

lemma recvSignature_bytes:
  assumes "gob_ok g" and "payload_fits (encSignature g \<lparr>sm_Path = path, sm_Sig = sig, sm_Append = act\<rparr>)"
  shows "recvSignature g \<lparr>c_in = signature_bytes g path sig act @ s, c_out = w\<rparr>
    = (\<lparr>c_in = s, c_out = w\<rparr>, Ok \<lparr>sm_Path = path, sm_Sig = sig, sm_Append = act\<rparr>)"
  unfolding recvSignature_def signature_bytes_def using assms
  by (intro recv_payload_bytes) (auto simp: gob_ok_def FrameSignature_def FrameError_def)

lemma sendDelta_open:
  "payload_fits (encDelta g (delta_message deflate path ops copts)) \<Longrightarrow>
     sendDelta g deflate path ops copts \<lparr>c_in = s, c_out = open_writer cs\<rparr>
       = (\<lparr>c_in = s, c_out = open_writer (cs @ delta_bytes g deflate path ops copts)\<rparr>, None)"
  by (simp add: sendDelta_to_def delta_bytes_def send_payload_bytes)

lemma recvDelta_bytes:
  assumes "gob_ok g" and "zlib_ok deflate inflate"
    and "payload_fits (encDelta g (delta_message deflate path ops copts))"
    and "int (length (concat (map literal_bytes ops))) < 2 ^ 63"
  shows "recvDelta g inflate \<lparr>c_in = delta_bytes g deflate path ops copts @ s, c_out = w\<rparr>
    = (\<lparr>c_in = s, c_out = w\<rparr>, Ok (path, ops))"
proof -
  have "recv_payload FrameDelta (decDelta g) \<lparr>c_in = delta_bytes g deflate path ops copts @ s, c_out = w\<rparr>
      = (\<lparr>c_in = s, c_out = w\<rparr>, Ok (delta_message deflate path ops copts))"
    unfolding delta_bytes_def using assms
    by (intro recv_payload_bytes) (auto simp: gob_ok_def FrameDelta_def FrameError_def)
  moreover have "fromWireDeltaOps inflate (dm_Ops m) (dm_Compressed m) (dm_Literal m) = Ok ops \<and> dm_Path m = path"
    if "m = delta_message deflate path ops copts" for m
    using that wire_roundtrip [OF assms(2,4)] by (auto simp: delta_message_def split: prod.splits)
  ultimately show ?thesis by (simp add: recvDelta_def)
qed

lemma from_wire_consumes:
  "from_wire_ops d True i pos wire = Ok ops \<Longrightarrow> pos \<le> length d \<Longrightarrow>
     \<exists>n. pos \<le> n \<and> n \<le> length d \<and> concat (map literal_bytes ops) = go_slice d pos n"
proof (induction wire arbitrary: i pos ops)
  case Nil
  then show ?case by (auto simp: go_slice_def intro!: exI [of _ pos])
next
  case (Cons w wire)
  show ?case
  proof (cases "w_Kind w = deltaOpKindCopy")
    case True
    with Cons show ?thesis by (auto simp: res_bind_Ok_conv)
  next
    case False
    define e where "e = wrap64 (int pos + w_Length w)"
    from False Cons.prems obtain rest
      where bounds: "\<not> e < int pos" "\<not> int (length d) < e"
        and rec: "from_wire_ops d True (Suc i) (nat e) wire = Ok rest"
        and ops: "ops = DataOp (go_slice d pos (nat e)) # rest"
      by (auto simp: e_def Let_def res_bind_Ok_conv split: if_splits)
    from bounds have le: "pos \<le> nat e" "nat e \<le> length d" by linarith+
    with Cons.IH [OF rec] obtain n where n: "nat e \<le> n" "n \<le> length d"
      "concat (map literal_bytes rest) = go_slice d (nat e) n" by blast
    with le n ops show ?thesis by (auto simp: go_slice_join intro!: exI [of _ n])
  qed
qed

section \<open>Properties\<close>

text \<open>
  The wire form of a delta is lossless: whatever the options, level, path and skip list, and
  whether or not compression was worth it, the operations the receiver reconstructs are the
  operations the sender computed, provided zlib round-trips and the literal data fits Go's int.
\<close>

theorem wire_delta_roundtrip:
  assumes "zlib_ok deflate inflate" and "int (length (concat (map literal_bytes ops))) < 2 ^ 63"
  shows "(case toWireDeltaOps deflate ops path copts of
            (wire, compressed, literal) \<Rightarrow> fromWireDeltaOps inflate wire compressed literal) = Ok ops"
  using wire_roundtrip [OF assms] by (auto split: prod.split)

text \<open>A run-length compressor for the witnesses: it packs five equal bytes into two.\<close>

definition toy_deflate :: deflate where
  "toy_deflate level data =
     (case data of [] \<Rightarrow> Some [0] | x # xs \<Rightarrow> Some (if xs = [x, x, x, x] then [1, x] else 0 # data))"

definition toy_inflate :: inflate where
  "toy_inflate buf =
     (case buf of [] \<Rightarrow> None
      | k # rest \<Rightarrow> (if k = 0 then Some rest else case rest of [x] \<Rightarrow> Some [x, x, x, x, x] | _ \<Rightarrow> None))"

lemma toy_zlib_ok: "zlib_ok toy_deflate toy_inflate"
  by (auto simp: zlib_ok_def toy_deflate_def toy_inflate_def split: list.splits if_splits)

theorem wire_delta_roundtrip_witness:
  "(case toWireDeltaOps toy_deflate [DataOp [7, 7], CopyOp 3, DataOp [7, 7, 7]] ''a.txt''
      \<lparr>co_Enabled = True, co_Level = 6, co_SkipSuffixes = [''gz'']\<rparr> of
      (wire, compressed, literal) \<Rightarrow> fromWireDeltaOps toy_inflate wire compressed literal)
     = Ok [DataOp [7, 7], CopyOp 3, DataOp [7, 7, 7]]
   \<and> fst (snd (toWireDeltaOps toy_deflate [DataOp [7, 7], CopyOp 3, DataOp [7, 7, 7]] ''a.txt''
      \<lparr>co_Enabled = True, co_Level = 6, co_SkipSuffixes = [''gz'']\<rparr>))"
proof
  show "(case toWireDeltaOps toy_deflate [DataOp [7, 7], CopyOp 3, DataOp [7, 7, 7]] ''a.txt''
      \<lparr>co_Enabled = True, co_Level = 6, co_SkipSuffixes = [''gz'']\<rparr> of
      (wire, compressed, literal) \<Rightarrow> fromWireDeltaOps toy_inflate wire compressed literal)
     = Ok [DataOp [7, 7], CopyOp 3, DataOp [7, 7, 7]]"
    by (rule wire_delta_roundtrip) (simp_all add: toy_zlib_ok)
qed code_simp

text \<open>
  What reaches the applier comes out of the decompressed stream: however the peer chose the
  lengths, the literal data of an accepted compressed delta is a prefix of the decompressed
  stream, in order, nothing read twice or beyond its end.
\<close>

theorem wire_literals_prefix:
  assumes "fromWireDeltaOps inflate wire True literal = Ok ops"
  shows "\<exists>d n. inflate literal = Some d \<and> n \<le> length d \<and> concat (map literal_bytes ops) = take n d"
proof -
  from assms obtain d where d: "inflate literal = Some d" "from_wire_ops d True 0 0 wire = Ok ops"
    by (auto simp: fromWireDeltaOps_def split: option.splits)
  from from_wire_consumes [OF d(2)] d(1) show ?thesis by (auto simp: go_slice_def)
qed

theorem wire_literals_prefix_witness:
  "\<exists>d n. toy_inflate [0, 5, 6, 7] = Some d \<and> n \<le> length d \<and>
     concat (map literal_bytes [DataOp [5, 6]]) = take n d"
  by (rule wire_literals_prefix [where wire =
      "[\<lparr>w_Kind = deltaOpKindData, w_BlockIndex = 0, w_Bytes = [], w_Length = 2\<rparr>]"])
    (simp add: fromWireDeltaOps_def toy_inflate_def deltaOpKindData_def deltaOpKindCopy_def go_slice_def wrap64_def)

text \<open>
  Compressing pays: when a delta is sent compressed, its literal stream is strictly shorter
  than the literal bytes it stands for; otherwise the operations carry exactly those bytes.
\<close>

theorem compressed_delta_smaller:
  "case toWireDeltaOps deflate ops path copts of
     (wire, compressed, literal) \<Rightarrow>
       (if compressed then length literal < length (concat (map literal_bytes ops)) \<and> concat (map w_Bytes wire) = []
        else literal = [] \<and> concat (map w_Bytes wire) = concat (map literal_bytes ops))"
proof -
  have "w_Bytes (wire_op False op) = literal_bytes op" and "w_Bytes (wire_op True op) = []" for op
    by (cases op; simp)+
  then show ?thesis
    by (auto simp: toWireDeltaOps_def Let_def comp_def split: option.split if_splits dest: compressLiteral_Some)
qed

text \<open>
  C33. A delta message crosses the connection: what \<open>sendDelta\<close> writes, \<open>recvDelta\<close> turns back into
  the same path and operations, and it leaves what follows on the stream unread.
\<close>

theorem delta_message_transfer:
  assumes "gob_ok g" and "zlib_ok deflate inflate"
    and "payload_fits (encDelta g (delta_message deflate path ops copts))"
    and "int (length (concat (map literal_bytes ops))) < 2 ^ 63"
  shows "recvDelta g inflate
      (open_conn (w_written (c_out (fst (sendDelta g deflate path ops copts (open_conn [])))) @ rest))
    = (open_conn rest, Ok (path, ops))"
  using recvDelta_bytes [OF assms] sendDelta_open [OF assms(3), of "[]" "[]"]
  by (simp add: open_conn_def)

text \<open>A gob for the witnesses: a message of a fixed table is encoded as its index.\<close>

definition table_enc :: "'m list \<Rightarrow> 'm \<Rightarrow> bytes option" where
  "table_enc ms m = map_option (\<lambda>i. [of_nat i]) (find (\<lambda>i. ms ! i = m) [0..<length ms])"

definition table_dec :: "'m list \<Rightarrow> bytes \<Rightarrow> 'm option" where
  "table_dec ms b =
     (case b of [i] \<Rightarrow> (if unat i < length ms then Some (ms ! unat i) else None) | _ \<Rightarrow> None)"

definition table_gob :: "fileListMessage list \<Rightarrow> 'h signatureMessage list \<Rightarrow> deltaMessage list \<Rightarrow> 'h gob" where
  "table_gob fs ss ds =
     \<lparr>encFileList = table_enc fs, decFileList = table_dec fs,
      encSignature = table_enc ss, decSignature = table_dec ss,
      encDelta = table_enc ds, decDelta = table_dec ds\<rparr>"

lemma table_gob_simps [simp]:
  "encFileList (table_gob fs ss ds) = table_enc fs" "encSignature (table_gob fs ss ds) = table_enc ss"
  "encDelta (table_gob fs ss ds) = table_enc ds"
  by (simp_all add: table_gob_def)

lemma table_dec_enc: "length ms \<le> 256 \<Longrightarrow> table_enc ms m = Some b \<Longrightarrow> table_dec ms b = Some m"
  by (auto simp: table_enc_def table_dec_def find_Some_iff unat_of_nat)

lemma table_gob_ok:
  "length fs \<le> 256 \<Longrightarrow> length ss \<le> 256 \<Longrightarrow> length ds \<le> 256 \<Longrightarrow> gob_ok (table_gob fs ss ds)"
  by (simp add: gob_ok_def table_gob_def table_dec_enc)

theorem delta_message_transfer_witness:
  "recvDelta (table_gob [] [] [delta_message toy_deflate ''f'' [DataOp [9]] \<lparr>co_Enabled = False, co_Level = 6, co_SkipSuffixes = []\<rparr>] :: unit gob)
      toy_inflate
      (open_conn (w_written (c_out (fst (sendDelta
         (table_gob [] [] [delta_message toy_deflate ''f'' [DataOp [9]] \<lparr>co_Enabled = False, co_Level = 6, co_SkipSuffixes = []\<rparr>] :: unit gob)
         toy_deflate ''f'' [DataOp [9]] \<lparr>co_Enabled = False, co_Level = 6, co_SkipSuffixes = []\<rparr> (open_conn [])))) @ [4]))
    = (open_conn [4], Ok (''f'', [DataOp [9]]))"
  by (rule delta_message_transfer)
    (simp_all add: table_gob_ok toy_zlib_ok payload_fits_def table_enc_def maxFramePayload_def)

text \<open>
  C34. The length check can be passed by overflow: after at least one literal byte, an operation whose
  length is the largest 64-bit integer wraps the end offset below zero, so the check accepts it
  and the slice expression panics.
\<close>

theorem literal_length_overflow:
  assumes "inflate literal = Some (x # d)"
  shows "fromWireDeltaOps inflate
      (map (\<lambda>n. \<lparr>w_Kind = deltaOpKindData, w_BlockIndex = 0, w_Bytes = [], w_Length = n\<rparr>) [1, 2 ^ 63 - 1])
      True literal = Fail (LiteralSlicePanic 1)"
proof -
  have "wrap64 1 = 1" and "wrap64 (2 ^ 63) = - (2 ^ 63)" by (simp_all add: wrap64_def)
  then show ?thesis using assms by (simp add: fromWireDeltaOps_def)
qed

theorem literal_length_overflow_witness:
  "fromWireDeltaOps toy_inflate
      (map (\<lambda>n. \<lparr>w_Kind = deltaOpKindData, w_BlockIndex = 0, w_Bytes = [], w_Length = n\<rparr>) [1, 2 ^ 63 - 1])
      True [0, 8] = Fail (LiteralSlicePanic 1)"
  by (rule literal_length_overflow) (simp add: toy_inflate_def)

end
