(* ===== verification/Walk.thy ===== *)
theory Walk
  imports Fs FilterRules "HOL-Library.Multiset"
begin

unbundle bit_operations_syntax

text \<open>
  \<open>internal/sync/walk.go\<close> with \<open>uidgid_unix.go\<close>: building a \<open>FileEntry\<close> from what \<open>Lstat\<close> reports, and
  the walk over a source tree. \<open>filepath.WalkDir\<close> is modelled as the recursion it is; \<open>fuel\<close> bounds
  its depth by the longest name of the file system, which is never reached.
\<close>

section \<open>Entries from inodes\<close>

fun type_bits :: "content \<Rightarrow> fileMode" where
  "type_bits (FileData d) = 0"
| "type_bits DirData = ModeDir"
| "type_bits (LinkData t) = ModeSymlink"
| "type_bits FifoData = ModeNamedPipe"
| "type_bits SocketData = ModeSocket"
| "type_bits CharDeviceData = ModeDevice OR ModeCharDevice"
| "type_bits BlockDeviceData = ModeDevice"

definition mode_of :: "inode \<Rightarrow> fileMode" where
  "mode_of i = type_bits (in_content i) OR Perm (in_perm i)"

text \<open>\<open>info.Size()\<close>: the length in bytes; what the system reports for the other types is taken as 0.\<close>

definition size_of :: "inode \<Rightarrow> int" where
  "size_of i = (case in_content i of FileData d \<Rightarrow> int (length d) | LinkData t \<Rightarrow> int (length t) | _ \<Rightarrow> 0)"

text \<open>\<open>lookupUIDGID\<close>: on POSIX the owner is always available.\<close>

definition lookupUIDGID :: "inode \<Rightarrow> u32 \<times> u32 \<times> bool" where
  "lookupUIDGID i = (in_uid i, in_gid i, True)"

definition entry_base :: "inode \<Rightarrow> fileEntry" where
  "entry_base i =
     (case lookupUIDGID i of (uid, gid, ok) \<Rightarrow>
       \<lparr>fe_Path = [], fe_Size = size_of i, fe_ModTime = in_mtime i, fe_Mode = mode_of i,
        fe_UID = uid, fe_GID = gid, fe_OwnershipAvailable = ok, fe_LinkTarget = [],
        fe_IsDir = (in_content i = DirData)\<rparr>)"

definition buildFileEntry :: "string \<Rightarrow> inode \<Rightarrow> (fs, os_error, fileEntry) prog" where
  "buildFileEntry path i =
     (if fe_Mode (entry_base i) AND ModeSymlink \<noteq> 0
      then bind (Readlink path) (\<lambda>target. ret ((entry_base i)\<lparr>fe_LinkTarget := target\<rparr>))
      else ret (entry_base i))"

definition LstatEntry :: "string \<Rightarrow> (fs, os_error, fileEntry) prog" where
  "LstatEntry path = bind (Lstat path) (\<lambda>(n, i). buildFileEntry path i)"

section \<open>Walking\<close>

text \<open>\<open>os.ReadDir\<close>: the names in a directory, sorted, and which of them are directories.\<close>

definition children :: "fs \<Rightarrow> fpath \<Rightarrow> string list" where
  "children s p = sort (map last (filter (\<lambda>q. q \<noteq> [] \<and> butlast q = p) (map fst (fs_names s))))"

definition ReadDir :: "string \<Rightarrow> (string \<times> bool) list sys" where
  "ReadDir path = sys_call (with_path True path (\<lambda>p s.
     (s, if content_of s p = None then Fail ENOENT
         else if content_of s p \<noteq> Some DirData then Fail ENOTDIR
         else Ok (map (\<lambda>c. (c, content_of s (p @ [c]) = Some DirData)) (children s p)))))"

text \<open>
  The callback on one entry followed by the descent into it. \<open>path\<close> and \<open>rel\<close> are the directory as
  \<open>WalkDir\<close> joins it and its components relative to the root, which is what \<open>filepath.Rel\<close> gives.
\<close>

fun walk_children :: "nat \<Rightarrow> walkOptions \<Rightarrow> string \<Rightarrow> string list \<Rightarrow> (fs, os_error, fileEntry list) prog" where
  "walk_children 0 opts path rel = throw ELOOP"
| "walk_children (Suc fuel) opts path rel =
     bind (ReadDir path) (collect (\<lambda>(name, isDir).
       (let p = Join path name; r = rel @ [name] in
        if \<not> Recursive opts \<and> isDir \<and> \<not> Dirs opts then ret []
        else bind (LstatEntry p) (\<lambda>entry.
          (let e = entry\<lparr>fe_Path := rel_path r\<rparr> in
           if \<not> isDir \<or> \<not> Recursive opts then ret [e]
           else bind (walk_children fuel opts p r) (\<lambda>es. ret (e # es)))))))"

definition fs_depth :: "fs \<Rightarrow> nat" where
  "fs_depth s = Max (insert 0 (set (map (length \<circ> fst) (fs_names s))))"

text \<open>\<open>sort.Slice\<close> by path, after \<open>WalkDir\<close> (whose first step is an \<open>Lstat\<close> of the root).\<close>

definition Walk :: "string \<Rightarrow> walkOptions \<Rightarrow> (fs, os_error, fileEntry list) prog" where
  "Walk root opts =
     bind (get_state fs_depth) (\<lambda>depth.
     bind (Lstat root) (\<lambda>(n, i).
       if in_content i \<noteq> DirData then ret []
       else bind (walk_children (Suc depth) opts root []) (\<lambda>entries. ret (sort_key fe_Path entries))))"

lemma ReadDir_keeps_tree: "tree.keeps (ReadDir path)"
  unfolding ReadDir_def
  by (rule sys_call_looks) (simp add: with_path_def split: sum.split)

lemma buildFileEntry_keeps_tree: "tree.keeps (buildFileEntry path i)"
  by (auto simp: buildFileEntry_def intro!: tree.keeps_intros looks_keep_tree)

lemma LstatEntry_keeps_tree: "tree.keeps (LstatEntry path)"
  by (auto simp: LstatEntry_def intro!: tree.keeps_bind looks_keep_tree buildFileEntry_keeps_tree split: prod.split)

lemma walk_children_keeps_tree: "tree.keeps (walk_children fuel opts path rel)"
proof (induction fuel arbitrary: path rel)
  case (Suc fuel)
  then show ?case
    by (auto simp: Let_def intro!: tree.keeps_intros ReadDir_keeps_tree LstatEntry_keeps_tree)
qed (simp add: tree.keeps_throw)

lemma Walk_keeps_tree: "tree.keeps (Walk root opts)"
  unfolding Walk_def
  by (auto intro!: tree.keeps_intros looks_keep_tree walk_children_keeps_tree)

section \<open>What a walk finds\<close>

definition entry_of :: "inode \<Rightarrow> fileEntry" where
  "entry_of i = (entry_base i)\<lparr>fe_LinkTarget := (case in_content i of LinkData t \<Rightarrow> t | _ \<Rightarrow> [])\<rparr>"

definition entry_at :: "fs \<Rightarrow> fpath \<Rightarrow> string list \<Rightarrow> fileEntry" where
  "entry_at s ds r = (entry_of (the (lookup s (ds @ r))))\<lparr>fe_Path := rel_path r\<rparr>"

lemma mode_of_bits:
  "bit (mode_of i) 27 \<longleftrightarrow> (\<exists>t. in_content i = LinkData t)"
  "bit (mode_of i) 31 \<longleftrightarrow> in_content i = DirData"
  by (cases "in_content i"; simp add: mode_of_def mode_defs bit_or_iff Perm_bits bit_push_bit_iff bit_1_iff)+

lemma symlink_mode: "mode_of i AND ModeSymlink \<noteq> 0 \<longleftrightarrow> (\<exists>t. in_content i = LinkData t)"
  unfolding mode_bits mode_of_bits ..

lemma entry_base_simps [simp]:
  "fe_Path (entry_base i) = []" "fe_Mode (entry_base i) = mode_of i"
  "fe_IsDir (entry_base i) \<longleftrightarrow> in_content i = DirData" "fe_LinkTarget (entry_base i) = []"
  by (simp_all add: entry_base_def lookupUIDGID_def)

lemma entry_of_simps [simp]:
  "fe_Path (entry_of i) = []" "fe_Mode (entry_of i) = mode_of i" "fe_IsDir (entry_of i) \<longleftrightarrow> in_content i = DirData"
  by (simp_all add: entry_of_def)

lemma entry_at_simps [simp]: "fe_Path (entry_at s ds r) = rel_path r"
  by (simp add: entry_at_def)

lemma LstatEntry_abs [fs_simps]:
  assumes "no_faults s" and "dirs_above s p" and "ino_of s p = Some n"
  shows "\<exists>t. LstatEntry (abs_path p) s = (t, Ok (entry_of (fs_inodes s n))) \<and> same_tree s t"
proof -
  let ?i = "fs_inodes s n"
  have step: "same_tree s (step s)" by (rule same_tree_step)
  have lstat: "Lstat (abs_path p) s = (step s, Ok (n, ?i))"
    using assms by (simp add: Lstat_abs)
  show ?thesis
  proof (cases "\<exists>t. in_content ?i = LinkData t")
    case True
    then obtain t where t: "in_content ?i = LinkData t" ..
    have "Readlink (abs_path p) (step s) = (step (step s), Ok t)"
      using assms t by (simp add: Readlink_def sys_call_ok with_inode_abs)
    then have "LstatEntry (abs_path p) s = (step (step s), Ok (entry_of ?i))"
      using lstat t symlink_mode [of ?i]
      by (simp add: LstatEntry_def buildFileEntry_def prog_simps entry_of_def)
    moreover have "same_tree s (step (step s))"
      by (rule tree.frame_trans [OF step same_tree_step])
    ultimately show ?thesis by blast
  next
    case False
    then have "LstatEntry (abs_path p) s = (step s, Ok (entry_base ?i))"
      using lstat symlink_mode [of ?i] by (simp add: LstatEntry_def buildFileEntry_def prog_simps)
    moreover have "entry_base ?i = entry_of ?i"
      using False by (cases "in_content ?i") (simp_all add: entry_of_def entry_base_def lookupUIDGID_def)
    ultimately show ?thesis using step by auto
  qed
qed

lemma set_children: "c \<in> set (children s p) \<longleftrightarrow> ino_of s (p @ [c]) \<noteq> None"
proof -
  have "c \<in> set (children s p) \<longleftrightarrow> (\<exists>q \<in> fst ` set (fs_names s). q \<noteq> [] \<and> butlast q = p \<and> last q = c)"
    by (auto simp: children_def image_iff)
  also have "\<dots> \<longleftrightarrow> p @ [c] \<in> fst ` set (fs_names s)"
    by (metis append_butlast_last_id append_is_Nil_conv butlast_snoc last_snoc list.distinct(1))
  finally show ?thesis by (simp add: ino_of_def map_of_eq_None_iff)
qed

lemma distinct_children: "fs_wf s \<Longrightarrow> distinct (children s p)"
proof -
  assume "fs_wf s"
  then have "distinct (filter (\<lambda>q. q \<noteq> [] \<and> butlast q = p) (map fst (fs_names s)))"
    by (simp add: fs_wf_def)
  moreover have "inj_on last (set (filter (\<lambda>q. q \<noteq> [] \<and> butlast q = p) (map fst (fs_names s))))"
    by (rule inj_onI) (metis (mono_tags, lifting) append_butlast_last_id mem_Collect_eq set_filter)
  ultimately show ?thesis by (simp add: children_def distinct_map)
qed

lemma ReadDir_abs [fs_simps]:
  "no_faults s \<Longrightarrow> dirs_above s p \<Longrightarrow> content_of s p = Some DirData \<Longrightarrow>
     ReadDir (abs_path p) s = (step s, Ok (map (\<lambda>c. (c, content_of s (p @ [c]) = Some DirData)) (children s p)))"
  by (simp add: ReadDir_def sys_call_ok with_path_abs is_link_def children_def)

text \<open>The components of what a recursive walk finds below \<open>ds @ rel\<close>, in the order it visits them.\<close>

fun walk_rels :: "nat \<Rightarrow> fs \<Rightarrow> fpath \<Rightarrow> string list \<Rightarrow> string list list" where
  "walk_rels 0 s ds rel = []"
| "walk_rels (Suc fuel) s ds rel =
     concat (map (\<lambda>c. (rel @ [c]) #
                     (if content_of s (ds @ rel @ [c]) = Some DirData then walk_rels fuel s ds (rel @ [c]) else []))
            (children s (ds @ rel)))"

lemma walk_rels_append:
  "r \<in> set (walk_rels fuel s ds rel) \<Longrightarrow> \<exists>q. q \<noteq> [] \<and> r = rel @ q \<and> ino_of s (ds @ r) \<noteq> None"
proof (induction fuel arbitrary: rel)
  case (Suc fuel)
  then obtain c where c: "ino_of s (ds @ rel @ [c]) \<noteq> None"
    and r: "r = rel @ [c] \<or> r \<in> set (walk_rels fuel s ds (rel @ [c]))"
    by (auto simp: set_children [of _ s "ds @ rel", simplified] split: if_splits)
  from r show ?case
  proof
    assume "r \<in> set (walk_rels fuel s ds (rel @ [c]))"
    from Suc.IH [OF this] show ?thesis by auto
  qed (use c in auto)
qed simp

lemma fs_depth_ge: "ino_of s p \<noteq> None \<Longrightarrow> length p \<le> fs_depth s"
proof -
  assume "ino_of s p \<noteq> None"
  then have "length p \<in> insert 0 (set (map (length \<circ> fst) (fs_names s)))"
    by (force simp: ino_of_def dest: map_of_SomeD)
  then show ?thesis unfolding fs_depth_def by (intro Max_ge) simp_all
qed

lemma walk_rels_complete:
  assumes "fs_wf s"
  shows "q \<noteq> [] \<Longrightarrow> ino_of s (ds @ rel @ q) \<noteq> None \<Longrightarrow> length q \<le> fuel \<Longrightarrow>
    rel @ q \<in> set (walk_rels fuel s ds rel)"
proof (induction fuel arbitrary: rel q)
  case (Suc fuel)
  from Suc.prems(1) obtain c q' where q: "q = c # q'" by (cases q) auto
  have pre: "content_of s (take k (ds @ rel @ q)) = Some DirData" if "k < length (ds @ rel @ q)" for k
    using wf_prefix [OF assms Suc.prems(2)] that by blast
  show ?case
  proof (cases "q' = []")
    case True
    with Suc.prems(2) q have "c \<in> set (children s (ds @ rel))" by (simp add: set_children)
    with True q show ?thesis by auto
  next
    case False
    have dir: "content_of s (ds @ rel @ [c]) = Some DirData"
      using pre [of "length (ds @ rel @ [c])"] False q by simp
    then have "c \<in> set (children s (ds @ rel))"
      using content_ino [of s "ds @ rel @ [c]"] by (simp add: set_children)
    moreover have "(rel @ [c]) @ q' \<in> set (walk_rels fuel s ds (rel @ [c]))"
      using Suc.prems False q by (intro Suc.IH) simp_all
    ultimately show ?thesis using dir q by auto
  qed
qed simp

lemma walk_rels_distinct:
  assumes "fs_wf s"
  shows "distinct (walk_rels fuel s ds rel)"
proof (induction fuel arbitrary: rel)
  case (Suc fuel)
  let ?block = "\<lambda>c. (rel @ [c]) #
    (if content_of s (ds @ rel @ [c]) = Some DirData then walk_rels fuel s ds (rel @ [c]) else [])"
  have head: "\<exists>q. r = rel @ c # q" if "r \<in> set (?block c)" for r c
    using that walk_rels_append [of r fuel s ds "rel @ [c]"] by (auto split: if_splits)
  have "distinct (?block c)" for c
    using Suc.IH walk_rels_append [of "rel @ [c]" fuel s ds "rel @ [c]"] by auto
  moreover have "set (?block c) \<inter> set (?block d) = {}" if "c \<noteq> d" for c d
    using head that by (metis (no_types, lifting) disjoint_iff list.inject same_append_eq)
  ultimately have "distinct (concat (map ?block (children s (ds @ rel))))"
    by (intro distinct_concat_map distinct_children [OF assms])
  then show ?case by simp
qed simp

lemma collect_same_tree:
  assumes "\<And>x t. x \<in> set xs \<Longrightarrow> same_tree s t \<Longrightarrow> \<exists>u. f x t = (u, Ok (g x)) \<and> same_tree s u"
  shows "same_tree s t \<Longrightarrow> \<exists>u. collect f xs t = (u, Ok (concat (map g xs))) \<and> same_tree s u"
  using assms
proof (induction xs arbitrary: t)
  case (Cons x xs)
  from Cons.prems(2) [of x t] Cons.prems(1) obtain u where u: "f x t = (u, Ok (g x))" "same_tree s u" by auto
  from Cons.IH [OF u(2)] Cons.prems(2) obtain v
    where "collect f xs u = (v, Ok (concat (map g xs)))" "same_tree s v" by auto
  with u show ?case by simp
qed auto

lemma no_faults_tree: "same_tree s t \<Longrightarrow> no_faults t = no_faults s"
  by (simp add: same_tree_def no_faults_def)

lemma children_tree: "same_tree s t \<Longrightarrow> children t p = children s p"
  by (simp add: same_tree_def children_def)

lemma entry_of_tree:
  assumes "same_tree s t" and "no_faults s" and "fs_wf s" and "ino_of s p \<noteq> None"
  shows "\<exists>u. LstatEntry (abs_path p) t = (u, Ok (entry_of (the (lookup s p)))) \<and> same_tree s u"
proof -
  from assms(4) obtain n where n: "ino_of s p = Some n" by blast
  have "\<exists>u. LstatEntry (abs_path p) t = (u, Ok (entry_of (fs_inodes t n))) \<and> same_tree t u"
    using assms n wf_dirs_above [OF assms(3,4)]
    by (intro LstatEntry_abs) (simp_all add: no_faults_tree same_tree_dirs_above same_tree_ino)
  moreover have "fs_inodes t n = the (lookup s p)"
    using assms(1) n by (simp add: same_tree_def lookup_def)
  ultimately show ?thesis using tree.frame_trans [OF assms(1)] by auto
qed

lemma walk_children_rels:
  assumes "fs_wf s" and "no_faults s" and "Recursive opts"
  shows "same_tree s t \<Longrightarrow> list_all plain (ds @ rel) \<Longrightarrow> content_of s (ds @ rel) = Some DirData \<Longrightarrow>
    fs_depth s < fuel + length (ds @ rel) \<Longrightarrow>
    \<exists>u. walk_children fuel opts (abs_path (ds @ rel)) rel t
          = (u, Ok (map (entry_at s ds) (walk_rels fuel s ds rel))) \<and> same_tree s u"
proof (induction fuel arbitrary: rel t)
  case 0
  then have "ino_of s (ds @ rel) \<noteq> None" using content_ino [of s "ds @ rel"] by simp
  with 0 fs_depth_ge [of s "ds @ rel"] show ?case by simp
next
  case (Suc fuel)
  let ?f = "\<lambda>(name, isDir).
       (let p = Join (abs_path (ds @ rel)) name; r = rel @ [name] in
        if \<not> Recursive opts \<and> isDir \<and> \<not> Dirs opts then ret []
        else bind (LstatEntry p) (\<lambda>entry.
          (let e = entry\<lparr>fe_Path := rel_path r\<rparr> in
           if \<not> isDir \<or> \<not> Recursive opts then ret [e]
           else bind (walk_children fuel opts p r) (\<lambda>es. ret (e # es)))))"
  let ?g = "\<lambda>(c, isDir). entry_at s ds (rel @ [c]) #
       map (entry_at s ds) (if isDir then walk_rels fuel s ds (rel @ [c]) else [])"
  let ?kids = "map (\<lambda>c. (c, content_of s (ds @ rel @ [c]) = Some DirData)) (children s (ds @ rel))"
  have ino: "ino_of s (ds @ rel) \<noteq> None" using Suc.prems(3) content_ino [of s "ds @ rel"] by simp
  have "ReadDir (abs_path (ds @ rel)) t = (step t, Ok ?kids)"
    using Suc.prems assms wf_dirs_above [OF assms(1) ino]
    by (simp add: ReadDir_abs no_faults_tree same_tree_dirs_above same_tree_content children_tree)
  moreover have "same_tree s (step t)"
    using tree.frame_trans [OF Suc.prems(1) same_tree_step] .
  moreover have "\<exists>u. ?f x v = (u, Ok (?g x)) \<and> same_tree s u"
    if x: "x \<in> set ?kids" and v: "same_tree s v" for x v
  proof -
    from x obtain c where x: "x = (c, content_of s (ds @ rel @ [c]) = Some DirData)"
      and c: "ino_of s (ds @ rel @ [c]) \<noteq> None"
      by (auto simp: set_children)
    have plain: "list_all plain (ds @ rel @ [c])" using wf_prefix [OF assms(1) c] by simp
    have join: "Join (abs_path (ds @ rel)) c = abs_path (ds @ rel @ [c])"
      using Join_abs_rel [of "ds @ rel" "[c]"] plain by (simp add: rel_path_def)
    from entry_of_tree [OF v assms(2,1) c] obtain w
      where w: "LstatEntry (abs_path (ds @ rel @ [c])) v = (w, Ok (entry_of (the (lookup s (ds @ rel @ [c])))))"
        "same_tree s w" by blast
    show ?thesis
    proof (cases "content_of s (ds @ rel @ [c]) = Some DirData")
      case True
      then obtain u where "walk_children fuel opts (abs_path (ds @ rel @ [c])) (rel @ [c]) w
          = (u, Ok (map (entry_at s ds) (walk_rels fuel s ds (rel @ [c]))))" "same_tree s u"
        using Suc.IH [OF w(2), of "rel @ [c]"] plain Suc.prems(4) by auto
      with True x join w assms(3) show ?thesis
        by (auto simp: Let_def bind_def ret_def entry_at_def)
    next
      case False
      with x join w assms(3) show ?thesis
        by (auto simp: Let_def bind_def ret_def entry_at_def)
    qed
  qed
  ultimately obtain u where "collect ?f ?kids (step t) = (u, Ok (concat (map ?g ?kids)))" "same_tree s u"
    using collect_same_tree [of ?kids s ?f ?g "step t"] by blast
  moreover have "concat (map ?g ?kids) = map (entry_at s ds) (walk_rels (Suc fuel) s ds rel)"
    by (simp add: map_concat comp_def)
  ultimately show ?case
    using \<open>ReadDir (abs_path (ds @ rel)) t = (step t, Ok ?kids)\<close> by (simp add: bind_def)
qed

lemma rel_path_inj: "list_all plain p \<Longrightarrow> list_all plain q \<Longrightarrow> rel_path p = rel_path q \<Longrightarrow> p = q"
  by (metis path_comps_rel)

lemma rel_path_less: "p \<noteq> [] \<Longrightarrow> q \<noteq> [] \<Longrightarrow> rel_path p < rel_path (p @ q)"
proof -
  assume "p \<noteq> []" "q \<noteq> []"
  then have "rel_path (p @ q) = rel_path p @ slash # rel_path q"
    by (simp add: rel_path_def joinWith_append)
  moreover have "xs < xs @ y # ys" for xs ys :: string and y
    by (induction xs) simp_all
  ultimately show ?thesis by metis
qed

lemma sort_key_sorted_map: "sorted (map f (sort_key f xs))"
  by simp

lemma Walk_recursive:
  assumes "fs_wf s" and "no_faults s" and "Recursive opts"
    and "list_all plain ds" and "content_of s ds = Some DirData"
  obtains t es where "Walk (abs_path ds) opts s = (t, Ok es)" and "same_tree s t"
    and "sorted_wrt (<) (map fe_Path es)"
    and "set es = entry_at s ds ` {r. r \<noteq> [] \<and> ino_of s (ds @ r) \<noteq> None}"
proof -
  define rels where "rels = walk_rels (Suc (fs_depth s)) s ds []"
  have ino: "ino_of s ds \<noteq> None" using assms(5) content_ino [of s ds] by simp
  then obtain n where n: "ino_of s ds = Some n" by blast
  have lstat: "Lstat (abs_path ds) s = (step s, Ok (n, fs_inodes s n))"
    using assms n wf_dirs_above [OF assms(1) ino] by (simp add: Lstat_abs)
  have dir: "in_content (fs_inodes s n) = DirData"
    using assms(5) n by (simp add: content_of_def lookup_def)
  have "\<exists>u. walk_children (Suc (fs_depth s)) opts (abs_path (ds @ [])) [] (step s)
      = (u, Ok (map (entry_at s ds) rels)) \<and> same_tree s u"
    unfolding rels_def using assms by (intro walk_children_rels same_tree_step) simp_all
  then obtain u where u: "walk_children (Suc (fs_depth s)) opts (abs_path ds) [] (step s)
      = (u, Ok (map (entry_at s ds) rels))" "same_tree s u" by auto
  let ?es = "sort_key fe_Path (map (entry_at s ds) rels)"
  have run: "Walk (abs_path ds) opts s = (u, Ok ?es)"
    unfolding Walk_def using lstat dir u(1) by (simp add: prog_simps del: walk_children.simps)
  have rels: "set rels = {r. r \<noteq> [] \<and> ino_of s (ds @ r) \<noteq> None}"
  proof (intro set_eqI iffI)
    fix r
    assume "r \<in> set rels"
    from walk_rels_append [OF this [unfolded rels_def]] show "r \<in> {r. r \<noteq> [] \<and> ino_of s (ds @ r) \<noteq> None}" by auto
  next
    fix r
    assume "r \<in> {r. r \<noteq> [] \<and> ino_of s (ds @ r) \<noteq> None}"
    then show "r \<in> set rels"
      unfolding rels_def
      using walk_rels_complete [OF assms(1), of r ds "[]" "Suc (fs_depth s)"] fs_depth_ge [of s "ds @ r"]
      by (simp del: walk_rels.simps)
  qed
  have plain: "list_all plain r" if "r \<in> set rels" for r
    using that rels wf_prefix [OF assms(1), of "ds @ r"] by auto
  have "distinct (map rel_path rels)"
    unfolding distinct_map
  proof
    show "distinct rels" unfolding rels_def by (rule walk_rels_distinct [OF assms(1)])
    show "inj_on rel_path (set rels)" using plain by (intro inj_onI rel_path_inj) auto
  qed
  moreover have "mset (map fe_Path ?es) = mset (map rel_path rels)"
    by (simp add: multiset.map_comp comp_def)
  ultimately have "distinct (map fe_Path ?es)"
    using mset_eq_imp_distinct_iff by blast
  then have "sorted_wrt (<) (map fe_Path ?es)"
    using sorted_sort_key [of fe_Path "map (entry_at s ds) rels"] by (simp only: strict_sorted_iff)
  with run u(2) show ?thesis
    by (rule that) (simp add: rels)
qed

section \<open>Properties\<close>

text \<open>
  C35. A recursive walk of a source directory lists every file system name below it exactly once,
  in strictly increasing byte order of the relative paths, with the type, size, mode, owner and
  link target of its inode, and changes nothing on disk.
\<close>

theorem Walk_complete:
  assumes "fs_wf s" and "no_faults s" and "Recursive opts"
    and "list_all plain ds" and "content_of s ds = Some DirData"
  shows "\<exists>t es. Walk (abs_path ds) opts s = (t, Ok es) \<and> same_tree s t \<and>
    sorted_wrt (<) (map fe_Path es) \<and>
    set es = entry_at s ds ` {r. r \<noteq> [] \<and> ino_of s (ds @ r) \<noteq> None}"
  by (rule Walk_recursive [OF assms]) blast

theorem Walk_complete_witness:
  "\<exists>t es. Walk (abs_path [''src'']) \<lparr>Recursive = True, Dirs = False\<rparr> small_fs = (t, Ok es) \<and>
    same_tree small_fs t \<and> sorted_wrt (<) (map fe_Path es) \<and>
    set es = entry_at small_fs [''src''] ` {r. r \<noteq> [] \<and> ino_of small_fs ([''src''] @ r) \<noteq> None}"
  by (rule Walk_complete) (simp_all add: small_fs_ok plain_def)

text \<open>
  Parents come first: whatever entry below a subdirectory the walk lists, the entry of that
  subdirectory itself, marked as a directory, stands before it in the list.
\<close>

theorem Walk_parent_first:
  assumes "fs_wf s" and "no_faults s" and "Recursive opts"
    and "list_all plain ds" and "content_of s ds = Some DirData"
    and "Walk (abs_path ds) opts s = (t, Ok (pre @ e # post))"
    and "fe_Path e = rel_path (r @ [c])" and "list_all plain (r @ [c])" and "r \<noteq> []"
  shows "\<exists>d \<in> set pre. fe_Path d = rel_path r \<and> fe_IsDir d"
proof -
  let ?es = "pre @ e # post"
  obtain t' es where run: "Walk (abs_path ds) opts s = (t', Ok es)"
    and es: "sorted_wrt (<) (map fe_Path es)" "set es = entry_at s ds ` {r. r \<noteq> [] \<and> ino_of s (ds @ r) \<noteq> None}"
    by (rule Walk_recursive [OF assms(1-5)])
  from run assms(6) have "es = ?es" by simp
  with es have sorted: "sorted_wrt (<) (map fe_Path ?es)"
    and set: "set ?es = entry_at s ds ` {r. r \<noteq> [] \<and> ino_of s (ds @ r) \<noteq> None}" by simp_all
  have "e \<in> set ?es" by simp
  with set obtain q where q: "ino_of s (ds @ q) \<noteq> None" "e = entry_at s ds q" by blast
  have "list_all plain q" using wf_prefix [OF assms(1) q(1)] by simp
  with q(2) assms(7,8) have "q = r @ [c]" by (auto intro: rel_path_inj)
  with q(1) have "content_of s (ds @ r) = Some DirData"
    using wf_parent(1) [OF assms(1), of "ds @ r @ [c]"] by (simp add: butlast_append)
  then have "ino_of s (ds @ r) \<noteq> None" and dir: "fe_IsDir (entry_at s ds r)"
    using content_ino [of s "ds @ r"] by (auto simp: entry_at_def content_of_def)
  with assms(9) set have "entry_at s ds r \<in> set ?es" by blast
  moreover have "rel_path r < fe_Path e" using assms(7,9) rel_path_less [of r "[c]"] by simp
  moreover have "fe_Path x > fe_Path e" if "x \<in> set post" for x
    using sorted that by (auto simp: sorted_wrt_append)
  ultimately have "entry_at s ds r \<in> set pre"
    by (metis Un_iff entry_at_simps less_irrefl less_trans set_ConsD set_append)
  with dir show ?thesis by (intro bexI [of _ "entry_at s ds r"]) simp_all
qed

theorem Walk_parent_first_witness:
  "\<exists>d \<in> set [entry_at small_fs [''src''] [''d'']]. fe_Path d = rel_path [''d''] \<and> fe_IsDir d"
proof -
  have "snd (Walk (abs_path [''src'']) \<lparr>Recursive = True, Dirs = False\<rparr> small_fs)
      = Ok [entry_at small_fs [''src''] [''d''], entry_at small_fs [''src''] [''d'', ''f'']]"
    by code_simp
  then obtain t where "Walk (abs_path [''src'']) \<lparr>Recursive = True, Dirs = False\<rparr> small_fs
      = (t, Ok ([entry_at small_fs [''src''] [''d'']] @ entry_at small_fs [''src''] [''d'', ''f''] # []))"
    by (cases "Walk (abs_path [''src'']) \<lparr>Recursive = True, Dirs = False\<rparr> small_fs") simp
  then show ?thesis
    by (rule Walk_parent_first [where c = "''f''", rotated 5]) (simp_all add: small_fs_ok plain_def)
qed

end
