(* ===== verification/Stats.thy ===== *)
theory Stats
  imports GoStrings
begin

text \<open>
  \<open>internal/pipeline/stats.go\<close>: the counters of \<open>--stats\<close> and their formatting. Floating-point arithmetic is a
  parameter, the record \<open>floatOps\<close> (theory \<open>Rounding\<close> has an exact instance). The rate and the speedup
  are arguments of \<open>formatStats\<close>, already formatted by \<open>commaFloat2\<close>; the elapsed time is an argument of
  \<open>BytesPerSecond\<close> and left out of the record.
\<close>

record stats =
  st_RegularFiles :: int
  st_Directories :: int
  st_Symlinks :: int
  st_CreatedRegularFiles :: int
  st_CreatedDirectories :: int
  st_CreatedSymlinks :: int
  st_RegularFilesTransferred :: int
  st_TotalFileSize :: int
  st_TotalTransferredFileSize :: int
  st_LiteralData :: int
  st_MatchedData :: int
  st_BytesSent :: int
  st_BytesReceived :: int

definition zero_stats :: stats where
  "zero_stats = \<lparr>st_RegularFiles = 0, st_Directories = 0, st_Symlinks = 0, st_CreatedRegularFiles = 0,
     st_CreatedDirectories = 0, st_CreatedSymlinks = 0, st_RegularFilesTransferred = 0, st_TotalFileSize = 0,
     st_TotalTransferredFileSize = 0, st_LiteralData = 0, st_MatchedData = 0, st_BytesSent = 0,
     st_BytesReceived = 0\<rparr>"

definition NumFiles :: "stats \<Rightarrow> int" where
  "NumFiles s = st_RegularFiles s + st_Directories s + st_Symlinks s"

definition NumCreatedFiles :: "stats \<Rightarrow> int" where
  "NumCreatedFiles s = st_CreatedRegularFiles s + st_CreatedDirectories s + st_CreatedSymlinks s"

text \<open>The loop of \<open>commaInt\<close> over the digits; \<open>first\<close> is \<open>i = 0\<close>.\<close>

fun comma_digits :: "bool \<Rightarrow> string \<Rightarrow> string" where
  "comma_digits first [] = []"
| "comma_digits first (d # ds) =
     (if \<not> first \<and> Suc (length ds) mod 3 = 0 then [CHR '','', d] else [d]) @ comma_digits False ds"

definition commaInt :: "int \<Rightarrow> string" where
  "commaInt n =
     (let s = formatInt n; neg = hasPrefix s ''-''; out = comma_digits True (if neg then drop 1 s else s)
      in if neg then ''-'' @ out else out)"

section \<open>Floating-point numbers\<close>

record 'f floatOps =
  fo_of_int :: "int \<Rightarrow> 'f"
  fo_add :: "'f \<Rightarrow> 'f \<Rightarrow> 'f"
  fo_sub :: "'f \<Rightarrow> 'f \<Rightarrow> 'f"
  fo_mul :: "'f \<Rightarrow> 'f \<Rightarrow> 'f"
  fo_div :: "'f \<Rightarrow> 'f \<Rightarrow> 'f"
  fo_less :: "'f \<Rightarrow> 'f \<Rightarrow> bool"
  fo_le :: "'f \<Rightarrow> 'f \<Rightarrow> bool"
  fo_trunc :: "'f \<Rightarrow> int"
  fo_fixed2 :: "'f \<Rightarrow> string"

text \<open>\<open>time.Duration.Seconds\<close> of a duration in nanoseconds.\<close>

definition duration_seconds :: "'f floatOps \<Rightarrow> int \<Rightarrow> 'f" where
  "duration_seconds fo d =
     fo_add fo (fo_of_int fo (d div 1000000000)) (fo_div fo (fo_of_int fo (d mod 1000000000)) (fo_of_int fo 1000000000))"

definition pad2 :: "int \<Rightarrow> string" where
  "pad2 n = (let s = formatInt n in if length s < 2 then CHR ''0'' # s else s)"

definition SpeedupRatio :: "'f floatOps \<Rightarrow> stats \<Rightarrow> 'f" where
  "SpeedupRatio fo s =
     (let total_bytes = wrap64 (st_BytesSent s + st_BytesReceived s) in
      if total_bytes = 0 then fo_of_int fo 0
      else fo_div fo (fo_of_int fo (st_TotalFileSize s)) (fo_of_int fo total_bytes))"

definition BytesPerSecond :: "'f floatOps \<Rightarrow> stats \<Rightarrow> int \<Rightarrow> 'f" where
  "BytesPerSecond fo s elapsed =
     (if elapsed \<le> 0 then fo_of_int fo 0
      else fo_div fo (fo_of_int fo (wrap64 (st_BytesSent s + st_BytesReceived s))) (duration_seconds fo elapsed))"

text \<open>\<open>0.5\<close> is the exact half.\<close>

definition commaFloat2 :: "'f floatOps \<Rightarrow> 'f \<Rightarrow> string" where
  "commaFloat2 fo f =
     (let neg = fo_less fo f (fo_of_int fo 0);
          f1 = (if neg then fo_sub fo (fo_of_int fo 0) f else f);
          whole = fo_trunc fo f1;
          frac = fo_trunc fo (fo_add fo (fo_mul fo (fo_sub fo f1 (fo_of_int fo whole)) (fo_of_int fo 100))
                               (fo_div fo (fo_of_int fo 1) (fo_of_int fo 2)));
          (whole1, frac1) = (if frac \<ge> 100 then (whole + 1, frac - 100) else (whole, frac))
      in (if neg then ''-'' else []) @ commaInt whole1 @ ''.'' @ pad2 frac1)"

section \<open>Text\<close>

definition typeBreakdown :: "int \<Rightarrow> int \<Rightarrow> int \<Rightarrow> string" where
  "typeBreakdown reg dir link =
     (let parts = (if reg > 0 then [''reg: '' @ formatInt reg] else []) @
                  (if dir > 0 then [''dir: '' @ formatInt dir] else []) @
                  (if link > 0 then [''link: '' @ formatInt link] else [])
      in if parts = [] then [] else '' ('' @ concat (map (\<lambda>p. p @ '', '') (butlast parts)) @ last parts @ '')'')"

definition formatStats :: "stats \<Rightarrow> bool \<Rightarrow> string \<Rightarrow> string \<Rightarrow> string" where
  "formatStats s dryRun rate speedup =
     [CHR 0x0A] @
     ''Number of files: '' @ commaInt (NumFiles s) @
       typeBreakdown (st_RegularFiles s) (st_Directories s) (st_Symlinks s) @ [CHR 0x0A] @
     (if NumCreatedFiles s > 0
      then ''Number of created files: '' @ commaInt (NumCreatedFiles s) @
        typeBreakdown (st_CreatedRegularFiles s) (st_CreatedDirectories s) (st_CreatedSymlinks s) @ [CHR 0x0A]
      else []) @
     ''Number of regular files transferred: '' @ commaInt (st_RegularFilesTransferred s) @ [CHR 0x0A] @
     ''Total file size: '' @ commaInt (st_TotalFileSize s) @ '' bytes'' @ [CHR 0x0A] @
     ''Total transferred file size: '' @ commaInt (st_TotalTransferredFileSize s) @ '' bytes'' @ [CHR 0x0A] @
     ''Literal data: '' @ commaInt (st_LiteralData s) @ '' bytes'' @ [CHR 0x0A] @
     ''Matched data: '' @ commaInt (st_MatchedData s) @ '' bytes'' @ [CHR 0x0A] @
     ''Total bytes sent: '' @ commaInt (st_BytesSent s) @ [CHR 0x0A] @
     ''Total bytes received: '' @ commaInt (st_BytesReceived s) @ [CHR 0x0A] @
     [CHR 0x0A] @
     ''sent '' @ commaInt (st_BytesSent s) @ '' bytes  received '' @ commaInt (st_BytesReceived s) @
       '' bytes  '' @ rate @ '' bytes/sec'' @ [CHR 0x0A] @
     ''total size is '' @ commaInt (st_TotalFileSize s) @ ''  speedup is '' @ speedup @
       (if dryRun then '' (DRY RUN)'' else []) @ [CHR 0x0A]"

section \<open>Lemmas\<close>

lemma comma_digits_filter:
  "CHR '','' \<notin> set ds \<Longrightarrow> filter (\<lambda>c. c \<noteq> CHR '','') (comma_digits b ds) = ds"
  by (induction b ds rule: comma_digits.induct) auto

lemma comma_digits_pieces:
  "CHR '','' \<notin> set ds \<Longrightarrow>
     length (hd (splitOn CHR '','' (comma_digits False ds))) = length ds mod 3 \<and>
     list_all (\<lambda>p. length p = 3) (tl (splitOn CHR '','' (comma_digits False ds)))"
proof (induction ds)
  case (Cons d ds)
  obtain p ps where p: "splitOn CHR '','' (comma_digits False ds) = p # ps"
    by (cases "splitOn CHR '','' (comma_digits False ds)") auto
  with Cons have IH: "length p = length ds mod 3" "list_all (\<lambda>p. length p = 3) ps" and "d \<noteq> CHR '',''"
    by auto
  then show ?case
    using p by (auto simp: mod_Suc)
qed simp

lemma comma_digits_first:
  assumes "CHR '','' \<notin> set ds" and "ds \<noteq> []"
  shows "length (hd (splitOn CHR '','' (comma_digits True ds))) \<in> {1, 2, 3} \<and>
    list_all (\<lambda>p. length p = 3) (tl (splitOn CHR '','' (comma_digits True ds)))"
proof -
  from assms obtain d es where ds: "ds = d # es" "d \<noteq> CHR '',''" "CHR '','' \<notin> set es"
    by (cases ds) auto
  obtain p ps where p: "splitOn CHR '','' (comma_digits False es) = p # ps"
    by (cases "splitOn CHR '','' (comma_digits False es)") auto
  have "length es mod 3 < 3" by simp
  with comma_digits_pieces [OF ds(3)] p ds show ?thesis by auto
qed

lemma digit_not_special: "d < 10 \<Longrightarrow> digit_char d \<notin> {CHR '','', CHR ''-''}"
proof -
  assume "d < 10"
  then have "d \<in> {0, 1, 2, 3, 4, 5, 6, 7, 8, 9}" by auto
  then show ?thesis by (auto simp: digit_char_def char_of_def bit_0)
qed

lemma format_nat_special: "CHR '','' \<notin> set (format_nat n) \<and> CHR ''-'' \<notin> set (format_nat n) \<and> format_nat n \<noteq> []"
proof -
  have "c \<notin> {CHR '','', CHR ''-''}" if "c \<in> set (format_nat n)" for c
    using format_nat_chars [OF that] digit_not_special by auto
  moreover have "format_nat n \<noteq> []" using format_nat_head [of n] by auto
  ultimately show ?thesis by blast
qed

lemma commaInt_conv:
  "commaInt n = (if n < 0 then ''-'' else []) @ comma_digits True (format_nat (nat \<bar>n\<bar>))"
proof (cases "n < 0")
  case True
  then show ?thesis by (simp add: commaInt_def formatInt_def Let_def hasPrefix_def)
next
  case False
  have "\<not> hasPrefix (format_nat (nat n)) ''-''"
    using format_nat_special [of "nat n"] by (auto simp: hasPrefix_conv)
  with False show ?thesis by (simp add: commaInt_def formatInt_def Let_def)
qed

section \<open>Properties\<close>

text \<open>
  \<open>commaInt\<close> only inserts separators: without its commas the text is the decimal number,
  negative ones included, and the commas cut the digits into groups of exactly three, the first
  of one to three digits after the sign.
\<close>

theorem commaInt_groups:
  "filter (\<lambda>c. c \<noteq> CHR '','') (commaInt n) = formatInt n \<and>
   length (trimPrefix (hd (splitOn CHR '','' (commaInt n))) ''-'') \<in> {1, 2, 3} \<and>
   list_all (\<lambda>p. length p = 3) (tl (splitOn CHR '','' (commaInt n)))"
proof -
  define ds where "ds = format_nat (nat \<bar>n\<bar>)"
  note ds = format_nat_special [of "nat \<bar>n\<bar>", folded ds_def]
  obtain p ps where p: "splitOn CHR '','' (comma_digits True ds) = p # ps"
    by (cases "splitOn CHR '','' (comma_digits True ds)") auto
  have first: "length p \<in> {1, 2, 3}" "list_all (\<lambda>p. length p = 3) ps"
    using comma_digits_first [of ds] ds p by auto
  have filt: "filter (\<lambda>c. c \<noteq> CHR '','') (comma_digits True ds) = ds"
    using ds by (simp add: comma_digits_filter)
  have "CHR ''-'' \<notin> set (comma_digits True ds)"
  proof
    assume "CHR ''-'' \<in> set (comma_digits True ds)"
    then have "CHR ''-'' \<in> set (filter (\<lambda>c. c \<noteq> CHR '','') (comma_digits True ds))" by simp
    with filt ds show False by simp
  qed
  moreover have "joinWith CHR '','' (p # ps) = comma_digits True ds"
    using joinWith_splitOn [of "CHR '',''" "comma_digits True ds"] unfolding p .
  moreover have "set p \<subseteq> set (joinWith CHR '','' (p # ps))" by (cases ps) auto
  ultimately have "CHR ''-'' \<notin> set p" by auto
  then have trim: "trimPrefix p ''-'' = p" "trimPrefix (CHR ''-'' # p) ''-'' = p"
    using trimPrefix_append [of "''-''" p] by (auto simp: trimPrefix_def hasPrefix_conv)
  have "commaInt n = (if n < 0 then ''-'' else []) @ comma_digits True ds"
    and "formatInt n = (if n < 0 then ''-'' else []) @ ds"
    unfolding ds_def by (rule commaInt_conv) (simp add: formatInt_def)
  then show ?thesis
    using first filt p trim by simp
qed

end
