(* ===== verification/Receiver.thy ===== *)
theory Receiver
  imports Attributes Partial Messages Walk Stats
begin

unbundle bit_operations_syntax

text \<open>
  \<open>internal/pipeline/receiver.go\<close> with the counting connection of \<open>stats.go\<close>: the receiving side of a
  sync, over any input of the peer and any fault schedule. The state is the file system, the
  connection and what \<open>receiveContext\<close> keeps; \<open>rs_out\<close> is what was written to \<open>ropts.Output\<close> (the
  progress goroutine's lines, which depend on timing, are left out).
\<close>

section \<open>Parameters and state\<close>

text \<open>
  What the code uses and does not define: MD5, the gob encoding, zlib, and the floating-point numbers
  of the summary, already formatted.
\<close>

record 'h env =
  env_strong :: "bytes \<Rightarrow> 'h"
  env_gob :: "'h gob"
  env_deflate :: deflate
  env_inflate :: inflate
  env_rate :: "stats \<Rightarrow> string"
  env_speedup :: "stats \<Rightarrow> string"

text \<open>The environment of a run whose \<open>stats.Elapsed\<close> is \<open>elapsed\<close> nanoseconds.\<close>

definition timed_env :: "'f floatOps \<Rightarrow> int \<Rightarrow> 'h env \<Rightarrow> 'h env" where
  "timed_env fo elapsed env =
     env\<lparr>env_rate := (\<lambda>st. commaFloat2 fo (BytesPerSecond fo st elapsed)),
         env_speedup := (\<lambda>st. commaFloat2 fo (SpeedupRatio fo st))\<rparr>"

record countingReadWriter =
  crw_rw :: "byte conn"
  crw_read :: int
  crw_written :: int

text \<open>Whatever a call reads and writes is counted.\<close>

definition counted :: "(byte conn, 'e, 'a) prog \<Rightarrow> (countingReadWriter, 'e, 'a) prog" where
  "counted m c =
     (case m (crw_rw c) of (rw, r) \<Rightarrow>
        (\<lparr>crw_rw = rw,
          crw_read = crw_read c + (int (length (c_in (crw_rw c))) - int (length (c_in rw))),
          crw_written = crw_written c +
            (int (length (w_written (c_out rw))) - int (length (w_written (c_out (crw_rw c)))))\<rparr>, r))"

record receiveState =
  rs_fs :: fs
  rs_conn :: countingReadWriter
  rs_stats :: stats
  rs_out :: "string list"
  rs_processed :: int
  rs_xferNum :: int

datatype recv_error =
    ReceivingFileList message_error
  | GroupSlicePanic
  | CheckingExisting string os_error
  | CreatingDirectory string os_error
  | CreatingParent string os_error
  | CreatingSymlink string attr_error
  | ReadingExisting string os_error
  | SendingSignature string message_error
  | ReceivingDelta string message_error
  | DeltaOutOfOrder string string
  | ApplyingDelta string delta_error
  | WritingFile string write_error
  | ApplyingAttributes string attr_error
  | LinkingGroup string link_error
  | ApplyingDirAttributes string attr_error

type_synonym 'a recv = "(receiveState, recv_error, 'a) prog"

definition on_fs :: "('e \<Rightarrow> recv_error) \<Rightarrow> (fs, 'e, 'a) prog \<Rightarrow> 'a recv" where
  "on_fs err m = on_part rs_fs (\<lambda>x s. s\<lparr>rs_fs := x\<rparr>) (wrap_err err m)"

definition on_conn :: "(message_error \<Rightarrow> recv_error) \<Rightarrow> (byte conn, message_error, 'a) prog \<Rightarrow> 'a recv" where
  "on_conn err m = on_part rs_conn (\<lambda>x s. s\<lparr>rs_conn := x\<rparr>) (wrap_err err (counted m))"

definition count :: "receiverOptions \<Rightarrow> (stats \<Rightarrow> stats) \<Rightarrow> unit recv" where
  "count ropts f = (if ro_Stats ropts then modify (\<lambda>s. s\<lparr>rs_stats := f (rs_stats s)\<rparr>) else skip)"

definition report :: "receiverOptions \<Rightarrow> string option \<Rightarrow> fileEntry \<Rightarrow> unit recv" where
  "report ropts code entry = modify (\<lambda>s. s\<lparr>rs_out := rs_out s @ reportChange ropts code entry\<rparr>)"

text \<open>The errors of \<open>os.Lstat\<close> that \<open>os.IsNotExist\<close> recognises become \<open>existed = false\<close>.\<close>

definition lstatExisting :: "string \<Rightarrow> (fs, os_error, fileEntry \<times> bool) prog" where
  "lstatExisting path =
     bind (attempt (LstatEntry path)) (\<lambda>r.
       (case r of
          Inl e \<Rightarrow> (if e = ENOENT then ret (zero_entry, False) else throw e)
        | Inr entry \<Rightarrow> ret (entry, True)))"

section \<open>Directories and symbolic links\<close>

definition receiveDir :: "attrOptions \<Rightarrow> receiverOptions \<Rightarrow> string \<Rightarrow> fileEntry \<Rightarrow> unit recv" where
  "receiveDir attrOpts ropts destPath entry =
     bind (on_fs (CheckingExisting (fe_Path entry)) (lstatExisting destPath)) (\<lambda>(old, existed).
     seq (if ro_DryRun ropts then skip else on_fs (CreatingDirectory (fe_Path entry)) (mkdir_all destPath))
    (seq (count ropts (\<lambda>st. st\<lparr>st_Directories := st_Directories st + 1,
            st_CreatedDirectories := st_CreatedDirectories st + (if existed then 0 else 1)\<rparr>))
         (report ropts (itemizeDir entry old existed attrOpts) entry)))"

definition receiveSymlink :: "attrOptions \<Rightarrow> receiverOptions \<Rightarrow> string \<Rightarrow> fileEntry \<Rightarrow> unit recv" where
  "receiveSymlink attrOpts ropts destPath entry =
     (if \<not> ao_Links attrOpts then skip
      else
        bind (on_fs (CheckingExisting (fe_Path entry)) (lstatExisting destPath)) (\<lambda>(old, existed).
        seq (if ro_DryRun ropts then skip
             else seq (on_fs (CreatingParent (fe_Path entry)) (mkdir_all (Dir destPath)))
                      (bind (on_fs (CreatingSymlink (fe_Path entry)) (ApplyAttributes entry destPath attrOpts))
                        (\<lambda>_. skip)))
       (seq (count ropts (\<lambda>st. st\<lparr>st_Symlinks := st_Symlinks st + 1,
               st_CreatedSymlinks := st_CreatedSymlinks st + (if existed then 0 else 1)\<rparr>))
            (report ropts (itemizeSymlink entry old existed attrOpts) entry))))"

section \<open>Regular files\<close>

text \<open>The bytes the delta is taken against, and whether they come from a partial-dir file.\<close>

definition load_basis :: "receiverOptions \<Rightarrow> string \<Rightarrow> string \<Rightarrow> (fs, os_error, bytes \<times> bool) prog" where
  "load_basis ropts destPath path =
     bind (if AppendMode ropts then ret None else loadPartialBasis destPath ropts path) (\<lambda>basis.
       (case basis of
          Some oldData \<Rightarrow> ret (oldData, True)
        | None \<Rightarrow>
            bind (attempt (ReadFile destPath)) (\<lambda>r.
              (case r of
                 Inl e \<Rightarrow> (if e = ENOENT then ret ([], False) else throw e)
               | Inr oldData \<Rightarrow> ret (oldData, False)))))"

definition sign_plan ::
  "(bytes \<Rightarrow> 'h) \<Rightarrow> receiverOptions \<Rightarrow> bool \<Rightarrow> bytes \<Rightarrow> fileEntry \<Rightarrow> 'h signature \<times> appendAction" where
  "sign_plan strong ropts existed oldData entry =
     (if \<not> AppendMode ropts \<or> \<not> existed then (GenerateSignature strong oldData, appendNone)
      else if int (length oldData) \<ge> fe_Size entry then (\<lparr>sig_BlockSize = 0, sig_Blocks = []\<rparr>, appendSkip)
      else if ro_AppendVerify ropts then (GenerateSignature strong oldData, appendNone)
      else (\<lparr>sig_BlockSize = int (length oldData), sig_Blocks = []\<rparr>, appendTail))"

text \<open>The bounds of a copied block are computed with Go's wrapping \<open>int\<close>.\<close>

fun count_ops :: "int \<Rightarrow> nat \<Rightarrow> deltaOp list \<Rightarrow> int \<Rightarrow> int \<Rightarrow> int \<times> int" where
  "count_ops blockSize oldDataLen [] literal matched = (literal, matched)"
| "count_ops blockSize oldDataLen (DataOp bs # ops) literal matched =
     count_ops blockSize oldDataLen ops (wrap64 (literal + int (length bs))) matched"
| "count_ops blockSize oldDataLen (CopyOp idx # ops) literal matched =
     (let start = wrap64 (idx * blockSize);
          end0 = wrap64 (start + blockSize);
          end1 = (if end0 > int oldDataLen then int oldDataLen else end0)
      in count_ops blockSize oldDataLen ops literal
           (if end1 > start then wrap64 (matched + wrap64 (end1 - start)) else matched))"

definition deltaByteCounts :: "deltaOp list \<Rightarrow> int \<Rightarrow> nat \<Rightarrow> int \<times> int" where
  "deltaByteCounts ops blockSize oldDataLen = count_ops blockSize oldDataLen ops 0 0"

definition new_data ::
  "appendAction \<Rightarrow> bytes \<Rightarrow> deltaOp list \<Rightarrow> 'h signature \<Rightarrow> delta_error + bytes" where
  "new_data act oldData ops sig = (if act = appendSkip then Ok oldData else ApplyDelta oldData ops sig)"

definition count_file ::
  "bool \<Rightarrow> bool \<Rightarrow> fileEntry \<Rightarrow> int \<times> int \<Rightarrow> stats \<Rightarrow> stats" where
  "count_file existed transferred entry counts st =
     st\<lparr>st_RegularFiles := st_RegularFiles st + 1,
        st_TotalFileSize := wrap64 (st_TotalFileSize st + fe_Size entry),
        st_LiteralData := wrap64 (st_LiteralData st + fst counts),
        st_MatchedData := wrap64 (st_MatchedData st + snd counts),
        st_CreatedRegularFiles := st_CreatedRegularFiles st + (if existed then 0 else 1),
        st_RegularFilesTransferred := st_RegularFilesTransferred st + (if transferred then 1 else 0),
        st_TotalTransferredFileSize :=
          (if transferred then wrap64 (st_TotalTransferredFileSize st + fe_Size entry)
           else st_TotalTransferredFileSize st)\<rparr>"

text \<open>What is written to disk when this is not a dry run.\<close>

definition write_regular ::
  "attrOptions \<Rightarrow> receiverOptions \<Rightarrow> string \<Rightarrow> fileEntry \<Rightarrow> bytes \<Rightarrow> bool \<Rightarrow> bool \<Rightarrow> unit recv" where
  "write_regular attrOpts ropts destPath entry newData transferred usedPartialBasis =
     seq (on_fs (CreatingParent (fe_Path entry)) (mkdir_all (Dir destPath)))
    (seq (if transferred
          then seq (modify (\<lambda>s. s\<lparr>rs_xferNum := rs_xferNum s + 1\<rparr>))
                   (on_fs (WritingFile (fe_Path entry))
                     (replace_file destPath newData (ro_Progress ropts) ropts (fe_Path entry) usedPartialBasis))
          else skip)
         (bind (on_fs (ApplyingAttributes (fe_Path entry)) (ApplyAttributes entry destPath attrOpts))
           (\<lambda>_. skip)))"

definition receiveRegularFile ::
  "'h env \<Rightarrow> attrOptions \<Rightarrow> receiverOptions \<Rightarrow> string \<Rightarrow> fileEntry \<Rightarrow> unit recv" where
  "receiveRegularFile env attrOpts ropts destPath entry =
     bind (on_fs (CheckingExisting (fe_Path entry)) (lstatExisting destPath)) (\<lambda>(old, existed).
     bind (on_fs (ReadingExisting (fe_Path entry)) (load_basis ropts destPath (fe_Path entry)))
       (\<lambda>(oldData, usedPartialBasis).
     (case sign_plan (env_strong env) ropts existed oldData entry of (sig, act) \<Rightarrow>
       seq (on_conn (SendingSignature (fe_Path entry))
             (of_err (sendSignature (env_gob env) (fe_Path entry) sig act)))
      (bind (on_conn (ReceivingDelta (fe_Path entry)) (recvDelta (env_gob env) (env_inflate env)))
         (\<lambda>(deltaPath, ops).
       if deltaPath \<noteq> fe_Path entry then throw (DeltaOutOfOrder deltaPath (fe_Path entry))
       else (case new_data act oldData ops sig of
               Inl e \<Rightarrow> throw (ApplyingDelta (fe_Path entry) e)
             | Inr newData \<Rightarrow>
                 (let contentChanged = (act \<noteq> appendSkip \<and> oldData \<noteq> newData);
                      transferred = (act \<noteq> appendSkip \<and> (\<not> existed \<or> contentChanged))
                  in seq (count ropts (count_file existed transferred entry
                            (deltaByteCounts ops (sig_BlockSize sig) (length oldData))))
                    (seq (if ro_DryRun ropts then skip
                          else write_regular attrOpts ropts destPath entry newData transferred usedPartialBasis)
                         (report ropts (itemizeFile entry old existed contentChanged attrOpts) entry)))))))))"

section \<open>The whole receiver\<close>

text \<open>Every member of a group but the first; \<open>group[1:]\<close> panics on an empty group.\<close>

definition secondary_paths :: "hardLinkGroup list \<Rightarrow> string list" where
  "secondary_paths groups = concat (map tl groups)"

definition receive_entry ::
  "'h env \<Rightarrow> string \<Rightarrow> attrOptions \<Rightarrow> receiverOptions \<Rightarrow> hardLinkGroup list \<Rightarrow> fileEntry \<Rightarrow> unit recv" where
  "receive_entry env dest attrOpts ropts groups entry =
     (let destPath = Join dest (fe_Path entry) in
      seq (if fe_IsDir entry then receiveDir attrOpts ropts destPath entry
           else if fe_Mode entry AND ModeSymlink \<noteq> 0 then receiveSymlink attrOpts ropts destPath entry
           else if List.member (secondary_paths groups) (fe_Path entry)
           then report ropts (Some itemizeHardLink) entry
           else receiveRegularFile env attrOpts ropts destPath entry)
          (modify (\<lambda>s. s\<lparr>rs_processed := rs_processed s + 1\<rparr>)))"

definition link_groups :: "string \<Rightarrow> hardLinkGroup list \<Rightarrow> unit recv" where
  "link_groups dest groups = each (\<lambda>grp. on_fs (LinkingGroup (hd grp)) (ApplyHardLinks dest grp)) groups"

text \<open>The directories' attributes, deepest first.\<close>

definition dir_attributes :: "string \<Rightarrow> attrOptions \<Rightarrow> fileEntry list \<Rightarrow> unit recv" where
  "dir_attributes dest attrOpts entries =
     each (\<lambda>entry. bind (on_fs (ApplyingDirAttributes (fe_Path entry))
                          (ApplyAttributes entry (Join dest (fe_Path entry)) attrOpts)) (\<lambda>_. skip))
       (rev (filter fe_IsDir entries))"

definition final_stats :: "'h env \<Rightarrow> receiverOptions \<Rightarrow> unit recv" where
  "final_stats env ropts =
     (if ro_Stats ropts
      then modify (\<lambda>s. let st = (rs_stats s)\<lparr>st_BytesSent := crw_written (rs_conn s), st_BytesReceived := crw_read (rs_conn s)\<rparr>
                       in s\<lparr>rs_stats := st,
                            rs_out := rs_out s @ [formatStats st (ro_DryRun ropts) (env_rate env st) (env_speedup env st)]\<rparr>)
      else skip)"

definition Receiver :: "'h env \<Rightarrow> string \<Rightarrow> attrOptions \<Rightarrow> receiverOptions \<Rightarrow> unit recv" where
  "Receiver env dest attrOpts ropts =
     bind (on_conn ReceivingFileList (recvFileList (env_gob env))) (\<lambda>(entries, groups).
     if list_ex (\<lambda>grp. grp = []) groups then throw GroupSlicePanic
     else
       seq (each (receive_entry env dest attrOpts ropts groups) entries)
      (seq (if ro_DryRun ropts then skip else link_groups dest groups)
      (seq (if ro_DryRun ropts then skip else dir_attributes dest attrOpts entries)
           (final_stats env ropts))))"

text \<open>The state a call of \<open>Receiver\<close> starts in.\<close>

definition receiver_start :: "fs \<Rightarrow> byte conn \<Rightarrow> receiveState" where
  "receiver_start s c =
     \<lparr>rs_fs = s, rs_conn = \<lparr>crw_rw = c, crw_read = 0, crw_written = 0\<rparr>, rs_stats = zero_stats, rs_out = [],
      rs_processed = 0, rs_xferNum = 0\<rparr>"

section \<open>A dry run changes nothing; every run keeps the tree well formed\<close>

interpretation rtree: frame_rel "\<lambda>s t. same_tree (rs_fs s) (rs_fs t)"
  by unfold_locales (auto intro: tree.frame_refl tree.frame_trans)

interpretation rinv: frame_rel "\<lambda>s t. fs_inv (rs_fs s) \<longrightarrow> fs_inv (rs_fs t)"
  by unfold_locales auto

lemma on_fs_run:
  "on_fs err m s = (s\<lparr>rs_fs := fst (m (rs_fs s))\<rparr>, map_sum err id (snd (m (rs_fs s))))"
  by (simp add: on_fs_def on_part_def wrap_err_def split: prod.split)

lemma on_conn_run:
  "on_conn err m s = (s\<lparr>rs_conn := fst (counted m (rs_conn s))\<rparr>, map_sum err id (snd (counted m (rs_conn s))))"
  by (simp add: on_conn_def on_part_def wrap_err_def split: prod.split)

lemma on_fs_keeps:
  "tree.keeps m \<Longrightarrow> rtree.keeps (on_fs err m)" "inv.keeps m \<Longrightarrow> rinv.keeps (on_fs err m)"
  by (simp_all add: rtree.keeps_def rinv.keeps_def tree.keeps_def inv.keeps_def on_fs_run)

lemma others_keep:
  "rtree.keeps (on_conn err c)" "rinv.keeps (on_conn err c)"
  "rtree.keeps (count ropts f)" "rinv.keeps (count ropts f)"
  "rtree.keeps (report ropts code entry)" "rinv.keeps (report ropts code entry)"
  "rtree.keeps (final_stats env ropts)" "rinv.keeps (final_stats env ropts)"
  by (simp_all add: rtree.keeps_def rinv.keeps_def on_conn_run count_def report_def final_stats_def modify_def ret_def
      Let_def tree.frame_refl)

lemma modify_keeps:
  "rtree.keeps (modify (\<lambda>s. s\<lparr>rs_processed := f s\<rparr>))" "rinv.keeps (modify (\<lambda>s. s\<lparr>rs_processed := f s\<rparr>))"
  "rinv.keeps (modify (\<lambda>s. s\<lparr>rs_xferNum := f s\<rparr>))"
  by (simp_all add: rtree.keeps_def rinv.keeps_def modify_def tree.frame_refl)

lemma lstatExisting_keeps_tree: "tree.keeps (lstatExisting path)"
  unfolding lstatExisting_def
  by (auto intro!: tree.keeps_bind tree.keeps_attempt tree.keeps_ret tree.keeps_throw LstatEntry_keeps_tree
      split: sum.split)

lemma loadPartialBasis_keeps_tree: "tree.keeps (loadPartialBasis destPath ropts path)"
  unfolding loadPartialBasis_def
  by (auto intro!: tree.keeps_bind tree.keeps_attempt tree.keeps_ret looks_keep_tree)

lemma load_basis_keeps_tree: "tree.keeps (load_basis ropts destPath path)"
  unfolding load_basis_def
  by (auto intro!: tree.keeps_bind tree.keeps_attempt tree.keeps_ret tree.keeps_throw looks_keep_tree
      loadPartialBasis_keeps_tree split: sum.split option.split)

text \<open>A call that keeps the tree keeps the invariant.\<close>

lemma tree_keeps_inv: "tree.keeps m \<Longrightarrow> inv.keeps m"
proof (intro inv.keepsI impI)
  fix s
  assume "tree.keeps m" and "fs_inv s"
  then have "same_tree s (fst (m s))" by (simp add: tree.keepsD)
  with same_tree_wf [OF this] \<open>fs_inv s\<close> show "fs_inv (fst (m s))"
    by (simp add: fs_inv_def same_tree_def)
qed

lemmas recv_looks = lstatExisting_keeps_tree load_basis_keeps_tree

lemma receiveRegularFile_dry: "ro_DryRun ropts \<Longrightarrow> rtree.keeps (receiveRegularFile env attrOpts ropts destPath entry)"
  unfolding receiveRegularFile_def Let_def
  by (auto intro!: rtree.keeps_bind rtree.keeps_ret rtree.keeps_throw on_fs_keeps others_keep recv_looks
      split: prod.split sum.split)

lemma receive_entry_dry: "ro_DryRun ropts \<Longrightarrow> rtree.keeps (receive_entry env dest attrOpts ropts groups entry)"
  unfolding receive_entry_def Let_def receiveDir_def receiveSymlink_def
  by (auto intro!: rtree.keeps_bind rtree.keeps_ret on_fs_keeps others_keep recv_looks modify_keeps
      receiveRegularFile_dry split: prod.split)

lemma Receiver_dry: "ro_DryRun ropts \<Longrightarrow> rtree.keeps (Receiver env dest attrOpts ropts)"
  unfolding Receiver_def
  by (auto intro!: rtree.keeps_bind rtree.keeps_ret rtree.keeps_throw rtree.keeps_each others_keep receive_entry_dry
      split: prod.split)

lemma write_regular_keeps_inv:
  "rinv.keeps (write_regular attrOpts ropts destPath entry newData transferred used)"
  unfolding write_regular_def
  by (auto intro!: rinv.keeps_bind rinv.keeps_ret on_fs_keeps modify_keeps replace_file_keeps_inv
      ApplyAttributes_keeps_inv mkdir_all_keeps_inv)

lemma receiveRegularFile_keeps_inv: "rinv.keeps (receiveRegularFile env attrOpts ropts destPath entry)"
  unfolding receiveRegularFile_def Let_def
  by (auto intro!: rinv.keeps_bind rinv.keeps_ret rinv.keeps_throw on_fs_keeps others_keep recv_looks tree_keeps_inv
      write_regular_keeps_inv split: prod.split sum.split)

lemma receive_entry_keeps_inv: "rinv.keeps (receive_entry env dest attrOpts ropts groups entry)"
  unfolding receive_entry_def Let_def receiveDir_def receiveSymlink_def
  by (auto intro!: rinv.keeps_bind rinv.keeps_ret on_fs_keeps others_keep recv_looks tree_keeps_inv modify_keeps
      receiveRegularFile_keeps_inv ApplyAttributes_keeps_inv mkdir_all_keeps_inv split: prod.split)

lemma Receiver_keeps_inv: "rinv.keeps (Receiver env dest attrOpts ropts)"
  unfolding Receiver_def link_groups_def dir_attributes_def
  by (auto intro!: rinv.keeps_bind rinv.keeps_ret rinv.keeps_throw rinv.keeps_each on_fs_keeps others_keep
      receive_entry_keeps_inv ApplyHardLinks_keeps_inv ApplyAttributes_keeps_inv split: prod.split)

section \<open>Properties\<close>

text \<open>
  A dry run is harmless: whatever the peer sends, whichever calls fail and however the run ends,
  \<open>--dry-run\<close> leaves every name, inode, content and attribute of the file system as it was.
\<close>

theorem dry_run_harmless:
  assumes "ro_DryRun ropts" and "Receiver env dest attrOpts ropts (receiver_start s c) = (t, r)"
  shows "same_tree s (rs_fs t)"
  using rtree.keepsD' [OF Receiver_dry [OF assms(1)] assms(2)] by (simp add: receiver_start_def)

text \<open>The parameters of the witnesses: no hashing, an empty encoding and the toy compressor.\<close>

definition toy_env :: "fileListMessage list \<Rightarrow> bytes signatureMessage list \<Rightarrow> deltaMessage list \<Rightarrow> bytes env" where
  "toy_env fls sigs deltas =
     \<lparr>env_strong = (\<lambda>b. b), env_gob = table_gob fls sigs deltas, env_deflate = toy_deflate,
      env_inflate = toy_inflate, env_rate = (\<lambda>_. ''0.00''), env_speedup = (\<lambda>_. ''0.00'')\<rparr>"

theorem dry_run_harmless_witness:
  "\<exists>t r. Receiver (toy_env [] [] []) ''/src'' \<lparr>ao_Perms = True, ao_Times = True, ao_Owner = True, ao_Group = True,
        ao_Links = True, ao_HardLinks = True, ao_Devices = True\<rparr> (plain_ropts\<lparr>ro_DryRun := True\<rparr>)
        (receiver_start small_fs (open_conn [1, 2])) = (t, r) \<and> same_tree small_fs (rs_fs t)"
proof -
  obtain t r where run: "Receiver (toy_env [] [] []) ''/src'' \<lparr>ao_Perms = True, ao_Times = True, ao_Owner = True,
        ao_Group = True, ao_Links = True, ao_HardLinks = True, ao_Devices = True\<rparr> (plain_ropts\<lparr>ro_DryRun := True\<rparr>)
        (receiver_start small_fs (open_conn [1, 2])) = (t, r)"
    by (meson surj_pair)
  then have "same_tree small_fs (rs_fs t)" by (rule dry_run_harmless [rotated]) simp
  with run show ?thesis by blast
qed

end
