(* ===== verification/Sender.thy ===== *)
theory Sender
  imports Attributes Receiver
begin

unbundle bit_operations_syntax

text \<open>
  \<open>internal/pipeline/sender.go\<close>: the sending side of a sync. It walks and filters the source, sends the
  file list with the hard-link groups, and answers one signature with one delta for every regular
  file that is not a group's secondary member. The writer it is given is the connection alone or an
  \<open>io.MultiWriter\<close> of the connection and an open batch file.
\<close>

record sendState =
  ss_fs :: fs
  ss_conn :: "byte conn"

datatype send_error =
    Walking string os_error
  | DetectingHardLinks string link_error
  | SenderSlicePanic
  | SendingFileList message_error
  | ReceivingSignature string message_error
  | SignatureOutOfOrder string string
  | ReadingSource string os_error
  | FileShrank string nat int
  | AppendSlicePanic string int
  | SendingDelta string message_error

type_synonym 'a snd = "(sendState, send_error, 'a) prog"

definition src_fs :: "('e \<Rightarrow> send_error) \<Rightarrow> (fs, 'e, 'a) prog \<Rightarrow> 'a snd" where
  "src_fs err m = on_part ss_fs (\<lambda>x s. s\<lparr>ss_fs := x\<rparr>) (wrap_err err m)"

definition src_conn :: "(message_error \<Rightarrow> send_error) \<Rightarrow> (byte conn, message_error, 'a) prog \<Rightarrow> 'a snd" where
  "src_conn err m = on_part ss_conn (\<lambda>x s. s\<lparr>ss_conn := x\<rparr>) (wrap_err err m)"

text \<open>
  \<open>Write\<close> on the sender's writer: the connection first, then the batch file, if there is one, by its inode.
  The first error ends the call.
\<close>

definition multi_write :: "nat option \<Rightarrow> sendState \<Rightarrow> bytes \<Rightarrow> sendState \<times> bool" where
  "multi_write batch s data =
     (case conn_write (ss_conn s) data of
        (c, False) \<Rightarrow> (s\<lparr>ss_conn := c\<rparr>, False)
      | (c, True) \<Rightarrow>
          (case batch of
             None \<Rightarrow> (s\<lparr>ss_conn := c\<rparr>, True)
           | Some n \<Rightarrow> (case Write n data (ss_fs s) of (x, k, e) \<Rightarrow> (s\<lparr>ss_fs := x, ss_conn := c\<rparr>, e = None))))"

definition src_send :: "(message_error \<Rightarrow> send_error) \<Rightarrow> (sendState \<Rightarrow> sendState \<times> message_error option) \<Rightarrow> unit snd" where
  "src_send err m = wrap_err err (of_err m)"

text \<open>\<open>data[trustedLen:]\<close> panics when the received length is negative.\<close>

definition appendTailOps :: "string \<Rightarrow> int \<Rightarrow> bytes \<Rightarrow> send_error + deltaOp list" where
  "appendTailOps path trustedLen data =
     (if trustedLen > int (length data) then Fail (FileShrank path (length data) trustedLen)
      else if trustedLen < 0 then Fail (AppendSlicePanic path trustedLen)
      else let tail = drop (nat trustedLen) data
           in Ok ((if trustedLen > 0 then [CopyOp 0] else []) @ (if length tail > 0 then [DataOp tail] else [])))"

definition sender_ops :: "(bytes \<Rightarrow> 'h) \<Rightarrow> string \<Rightarrow> 'h signatureMessage \<Rightarrow> bytes \<Rightarrow> send_error + deltaOp list" where
  "sender_ops strong path sigMsg data =
     (if sm_Append sigMsg = appendTail then appendTailOps path (sig_BlockSize (sm_Sig sigMsg)) data
      else Ok (GenerateDelta strong (sm_Sig sigMsg) data))"

definition send_delta :: "nat option \<Rightarrow> 'h env \<Rightarrow> compressOptions \<Rightarrow> string \<Rightarrow> deltaOp list \<Rightarrow> unit snd" where
  "send_delta batch env copts path ops =
     src_send (SendingDelta path) (sendDelta_to (multi_write batch) (env_gob env) (env_deflate env) path ops copts)"

definition send_entry :: "nat option \<Rightarrow> 'h env \<Rightarrow> string \<Rightarrow> compressOptions \<Rightarrow> string list \<Rightarrow> fileEntry \<Rightarrow> unit snd" where
  "send_entry batch env src copts secondary entry =
     (if fe_IsDir entry \<or> fe_Mode entry AND ModeSymlink \<noteq> 0 \<or> List.member secondary (fe_Path entry) then skip
      else
        bind (src_conn (ReceivingSignature (fe_Path entry)) (recvSignature (env_gob env))) (\<lambda>sigMsg.
        if sm_Path sigMsg \<noteq> fe_Path entry then throw (SignatureOutOfOrder (sm_Path sigMsg) (fe_Path entry))
        else if sm_Append sigMsg = appendSkip then send_delta batch env copts (fe_Path entry) []
        else
          bind (src_fs (ReadingSource (fe_Path entry)) (ReadFile (Join src (fe_Path entry)))) (\<lambda>data.
          (case sender_ops (env_strong env) (fe_Path entry) sigMsg data of
             Inl e \<Rightarrow> throw e
           | Inr ops \<Rightarrow> send_delta batch env copts (fe_Path entry) ops))))"

definition Sender_to ::
  "nat option \<Rightarrow> 'h env \<Rightarrow> string \<Rightarrow> walkOptions \<Rightarrow> rule list \<Rightarrow> bool \<Rightarrow> compressOptions \<Rightarrow> unit snd" where
  "Sender_to batch env src walkOpts rules hardLinks copts =
     bind (src_fs (Walking src) (Walk src walkOpts)) (\<lambda>walked.
     let entries = FilterEntries walked rules in
     bind (if hardLinks \<and> HardLinksSupported
           then src_fs (DetectingHardLinks src) (DetectHardLinks lookupHardLinkKey src entries) else ret []) (\<lambda>groups.
     seq (src_send SendingFileList (sendFileList_to (multi_write batch) (env_gob env) entries groups))
         (if list_ex (\<lambda>grp. grp = []) groups then throw SenderSlicePanic
          else each (send_entry batch env src copts (secondary_paths groups)) entries)))"

text \<open>Without a batch file the writer is the connection.\<close>

abbreviation Sender ::
  "'h env \<Rightarrow> string \<Rightarrow> walkOptions \<Rightarrow> rule list \<Rightarrow> bool \<Rightarrow> compressOptions \<Rightarrow> unit snd" where
  "Sender \<equiv> Sender_to None"

lemma frame_plain:
  "write_frame_to (multi_write None) s f
     = (case write_frame_to conn_write (ss_conn s) f of (c, e) \<Rightarrow> (s\<lparr>ss_conn := c\<rparr>, e))"
proof -
  obtain c b where "conn_write (ss_conn s) (frame_header f) = (c, b)" by (meson surj_pair)
  moreover obtain c' b' where "conn_write c (fr_Payload f) = (c', b')" by (meson surj_pair)
  ultimately show ?thesis by (cases b; cases b') (simp_all add: write_frame_to_def multi_write_def)
qed

lemma src_send_plain:
  "src_send err (send_payload_to (multi_write None) ft payload) = src_conn err (of_err (send_payload ft payload))"
  by (rule ext)
    (simp add: src_send_def src_conn_def send_payload_to_def frame_plain of_err_def on_part_def wrap_err_def
      split: prod.split option.split)

lemma send_plain:
  "src_send err (sendDelta_to (multi_write None) g deflate path ops copts)
     = src_conn err (of_err (sendDelta g deflate path ops copts))"
  "src_send err (sendFileList_to (multi_write None) g entries groups)
     = src_conn err (of_err (sendFileList g entries groups))"
  by (simp_all add: sendDelta_to_def sendFileList_to_def src_send_plain)

end
