(* ===== verification/DaemonSession.thy ===== *)
theory DaemonSession
  imports Auth Sender
begin

text \<open>
  \<open>internal/daemon/session.go\<close>, \<open>server.go\<close> and \<open>client.go\<close>: the session of a module after
  authentication, and the whole connection on either side. The state is the side's own file system and
  its connection; \<open>Sender\<close> and \<open>Receiver\<close> run on both, as in the code, on the connection the handshake
  has left. \<open>Serve\<close> itself, a goroutine per accepted connection, is in theory \<open>Serve\<close>.
\<close>

section \<open>Directions and refusals\<close>

definition DirectionGet :: string where "DirectionGet = ''get''"
definition DirectionPut :: string where "DirectionPut = ''put''"
definition transferDone :: string where "transferDone = ''@GRSYNC: DONE''"
definition dryRunToken :: string where "dryRunToken = ''--dry-run''"

datatype session_error =
    ReadingDirection line_fault
  | InvalidDirection string
  | ReadOnlyModule string
  | WritingSessionOK
  | CompilingExcludes string filter_error
  | SendFailed send_error
  | ReceiveFailed recv_error
  | WritingDone
  | WaitingForDone line_fault
  | UnexpectedDone string
  | SendingDirection
  | ReadingAck line_fault
  | SessionRefused string
  | GreetingFailed greet_error
  | AuthenticationFailed auth_error
  | DialAuthenticationFailed "string dial_error"
  | MissingModuleName

type_synonym session = "(daemonState, session_error, unit) prog"

definition waitForTransferDone :: session where
  "waitForTransferDone =
     bind (on_dconn WaitingForDone readLine) (\<lambda>line.
       if line \<noteq> transferDone then throw (UnexpectedDone line) else skip)"

definition moduleRules :: "Module \<Rightarrow> filter_error + rule list" where
  "moduleRules m =
     CompileRules (\<lambda>_. None) (map (\<lambda>pattern. \<lparr>Kind = RuleExclude, raw_Pattern = pattern\<rparr>) (m_Exclude m))"

definition moduleAttrOptions :: attrOptions where
  "moduleAttrOptions =
     \<lparr>ao_Perms = True, ao_Times = True, ao_Owner = True, ao_Group = True, ao_Links = True, ao_HardLinks = True,
      ao_Devices = False\<rparr>"

definition module_ropts :: "bool \<Rightarrow> receiverOptions" where
  "module_ropts dryRun =
     \<lparr>ro_DryRun = dryRun, ro_Itemize = False, ro_Verbose = False, ro_Progress = False, ro_Stats = False,
      ro_Partial = False, ro_PartialDir = [], ro_Append = False, ro_AppendVerify = False\<rparr>"

definition module_copts :: compressOptions where
  "module_copts = \<lparr>co_Enabled = False, co_Level = 0, co_SkipSuffixes = []\<rparr>"

section \<open>The two ends of a transfer on a daemon connection\<close>

definition run_sender ::
  "'h env \<Rightarrow> string \<Rightarrow> walkOptions \<Rightarrow> rule list \<Rightarrow> bool \<Rightarrow> compressOptions \<Rightarrow> session" where
  "run_sender env src walkOpts rules hardLinks copts s =
     (case Sender env src walkOpts rules hardLinks copts \<lparr>ss_fs = ds_fs s, ss_conn = ds_conn s\<rparr> of
        (t, r) \<Rightarrow> (\<lparr>ds_fs = ss_fs t, ds_conn = ss_conn t\<rparr>, map_sum SendFailed id r))"

definition run_receiver :: "'h env \<Rightarrow> string \<Rightarrow> attrOptions \<Rightarrow> receiverOptions \<Rightarrow> session" where
  "run_receiver env dest attrOpts ropts s =
     (case Receiver env dest attrOpts ropts (receiver_start (ds_fs s) (ds_conn s)) of
        (t, r) \<Rightarrow> (\<lparr>ds_fs = rs_fs t, ds_conn = crw_rw (rs_conn t)\<rparr>, map_sum ReceiveFailed id r))"

definition refuse :: "string \<Rightarrow> session_error \<Rightarrow> session" where
  "refuse line e = seq (on_dconn id (tryWriteLine line)) (throw e)"

section \<open>The server\<close>

definition serve_get :: "'h env \<Rightarrow> Module \<Rightarrow> session" where
  "serve_get env m =
     (case moduleRules m of
        Inl e \<Rightarrow> throw (CompilingExcludes (m_Name m) e)
      | Inr rules \<Rightarrow>
          seq (run_sender env (m_Path m) \<lparr>Recursive = True, Dirs = False\<rparr> rules (ao_HardLinks moduleAttrOptions) module_copts)
              waitForTransferDone)"

definition serve_put :: "'h env \<Rightarrow> Module \<Rightarrow> bool \<Rightarrow> session" where
  "serve_put env m dryRun =
     seq (run_receiver env (m_Path m) moduleAttrOptions (module_ropts dryRun))
         (on_dconn (\<lambda>_. WritingDone) (writeLine transferDone))"

definition ServeModule :: "'h env \<Rightarrow> Module \<Rightarrow> session" where
  "ServeModule env m =
     bind (on_dconn ReadingDirection readLine) (\<lambda>line.
       (let words = GoStrings.fields line in
        if words = [] then refuse (''@ERROR: invalid direction '' @ quote line) (InvalidDirection line)
        else
          (let direction = hd words;
               dryRun = (direction = DirectionPut \<and> length words > 1 \<and> words ! 1 = dryRunToken)
           in if direction = DirectionPut \<and> m_ReadOnly m
              then refuse ''@ERROR: module is read only'' (ReadOnlyModule (m_Name m))
              else if direction \<noteq> DirectionGet \<and> direction \<noteq> DirectionPut
              then refuse (''@ERROR: invalid direction '' @ quote line) (InvalidDirection line)
              else seq (on_dconn (\<lambda>_. WritingSessionOK) (writeLine ok_line))
                       (if direction = DirectionGet then serve_get env m else serve_put env m dryRun))))"

definition ServeConn ::
  "(bytes \<Rightarrow> bytes) \<Rightarrow> bytes option \<Rightarrow> 'h env \<Rightarrow> Config \<Rightarrow> session" where
  "ServeConn md4 rnd env cfg =
     bind (on_dconn GreetingFailed (ServeGreeting cfg)) (\<lambda>m.
     bind (wrap_err AuthenticationFailed (ServeAuth md4 rnd m)) (\<lambda>_.
       ServeModule env m))"

section \<open>The client\<close>

definition direction_line :: "string \<Rightarrow> bool \<Rightarrow> string" where
  "direction_line direction dryRun =
     (if direction = DirectionPut \<and> dryRun then direction @ '' '' @ dryRunToken else direction)"

definition DialModule ::
  "'h env \<Rightarrow> string \<Rightarrow> string \<Rightarrow> rule list \<Rightarrow> walkOptions \<Rightarrow> attrOptions \<Rightarrow> receiverOptions \<Rightarrow> compressOptions \<Rightarrow> session" where
  "DialModule env direction localPath rules walkOpts attrOpts ropts copts =
     seq (on_dconn (\<lambda>_. SendingDirection) (writeLine (direction_line direction (ro_DryRun ropts))))
    (bind (on_dconn ReadingAck readLine) (\<lambda>ack.
       if ack \<noteq> ok_line then throw (SessionRefused ack)
       else if direction = DirectionGet
       then seq (run_receiver env localPath attrOpts ropts) (on_dconn (\<lambda>_. WritingDone) (writeLine transferDone))
       else if direction = DirectionPut
       then seq (run_sender env localPath walkOpts rules (ao_HardLinks attrOpts) copts) waitForTransferDone
       else throw (InvalidDirection direction)))"

definition run_dial_auth :: "(bytes \<Rightarrow> bytes) \<Rightarrow> string \<Rightarrow> (nat \<Rightarrow> string + string) \<Rightarrow> session" where
  "run_dial_auth md4 user password s =
     (case DialAuth md4 user password \<lparr>dl_conn = ds_conn s, dl_asked = 0\<rparr> of
        (d, r) \<Rightarrow> (s\<lparr>ds_conn := dl_conn d\<rparr>, map_sum DialAuthenticationFailed id r))"

definition DialClient ::
  "'h env \<Rightarrow> (bytes \<Rightarrow> bytes) \<Rightarrow> string \<Rightarrow> string \<Rightarrow> (nat \<Rightarrow> string + string) \<Rightarrow> string \<Rightarrow> string \<Rightarrow> rule list \<Rightarrow>
     walkOptions \<Rightarrow> attrOptions \<Rightarrow> receiverOptions \<Rightarrow> compressOptions \<Rightarrow> session" where
  "DialClient env md4 name user password direction localPath rules walkOpts attrOpts ropts copts =
     (if name = [] then throw MissingModuleName
      else
        bind (on_dconn GreetingFailed (DialGreeting name)) (\<lambda>_.
        seq (run_dial_auth md4 user password)
            (DialModule env direction localPath rules walkOpts attrOpts ropts copts)))"


section \<open>What a side can do to its file system\<close>

interpretation stree: frame_rel "\<lambda>s t. same_tree (ss_fs s) (ss_fs t)"
  by unfold_locales (auto intro: tree.frame_refl tree.frame_trans)

interpretation dtree: frame_rel "\<lambda>s t. same_tree (ds_fs s) (ds_fs t)"
  by unfold_locales (auto intro: tree.frame_refl tree.frame_trans)

lemma collect_links_keeps_tree: "tree.keeps (collect_links ident root byKey es)"
  by (induction ident root byKey es rule: collect_links.induct)
    (auto intro!: tree.keeps_intros looks_keep_tree)

lemma DetectHardLinks_keeps_tree: "tree.keeps (DetectHardLinks ident root entries)"
  unfolding DetectHardLinks_def by (intro tree.keeps_bind tree.keeps_ret collect_links_keeps_tree)

lemma src_keeps_tree: "tree.keeps p \<Longrightarrow> stree.keeps (src_fs err p)" "stree.keeps (src_conn conn_err c)"
  by (simp_all add: stree.keeps_def tree.keeps_def src_fs_def src_conn_def on_part_def wrap_err_def tree.frame_refl
      split: prod.split) (metis fst_conv)

lemma send_entry_keeps_tree: "stree.keeps (send_entry None env src copts secondary entry)"
  unfolding send_entry_def send_delta_def send_plain
  by (auto intro!: stree.keeps_bind stree.keeps_ret stree.keeps_throw src_keeps_tree looks_keep_tree split: sum.split)

lemma Sender_keeps_tree: "stree.keeps (Sender env src walkOpts rules hardLinks copts)"
  unfolding Sender_to_def send_plain Let_def
  by (auto intro!: stree.keeps_bind stree.keeps_ret stree.keeps_throw stree.keeps_each src_keeps_tree Walk_keeps_tree
      DetectHardLinks_keeps_tree send_entry_keeps_tree)

lemma on_dconn_keeps_tree: "dtree.keeps (on_dconn err p)"
  by (simp add: dtree.keeps_def on_dconn_run tree.frame_refl)

lemma refuse_keeps_tree: "dtree.keeps (refuse line e)" "dtree.keeps (refuse_auth m e')"
  by (simp_all add: refuse_def refuse_auth_def dtree.keeps_bind on_dconn_keeps_tree dtree.keeps_throw)

lemma run_sender_keeps_tree: "dtree.keeps (run_sender env src walkOpts rules hardLinks copts)"
proof (rule dtree.keepsI)
  fix s
  show "same_tree (ds_fs s) (ds_fs (fst (run_sender env src walkOpts rules hardLinks copts s)))"
    using stree.keepsD [OF Sender_keeps_tree, of "\<lparr>ss_fs = ds_fs s, ss_conn = ds_conn s\<rparr>" env src walkOpts rules hardLinks copts]
    by (cases "Sender env src walkOpts rules hardLinks copts \<lparr>ss_fs = ds_fs s, ss_conn = ds_conn s\<rparr>")
      (simp add: run_sender_def)
qed

lemma run_receiver_dry: "ro_DryRun ropts \<Longrightarrow> dtree.keeps (run_receiver env dest attrOpts ropts)"
proof (rule dtree.keepsI)
  fix s :: daemonState
  assume dry: "ro_DryRun ropts"
  obtain t r where run: "Receiver env dest attrOpts ropts (receiver_start (ds_fs s) (ds_conn s)) = (t, r)"
    by (meson surj_pair)
  with rtree.keepsD' [OF Receiver_dry [OF dry] run]
  show "same_tree (ds_fs s) (ds_fs (fst (run_receiver env dest attrOpts ropts s)))"
    by (simp add: run_receiver_def) (simp add: receiver_start_def)
qed

lemma waitForTransferDone_keeps_tree: "dtree.keeps waitForTransferDone"
  unfolding waitForTransferDone_def
  by (auto intro!: dtree.keeps_bind dtree.keeps_throw dtree.keeps_ret on_dconn_keeps_tree)

lemma serve_get_keeps_tree: "dtree.keeps (serve_get env m)"
  unfolding serve_get_def
  by (auto intro!: dtree.keeps_bind dtree.keeps_throw run_sender_keeps_tree waitForTransferDone_keeps_tree split: sum.split)

lemma ServeModule_read_only: "m_ReadOnly m \<Longrightarrow> dtree.keeps (ServeModule env m)"
  unfolding ServeModule_def Let_def
  by (auto intro!: dtree.keeps_bind on_dconn_keeps_tree refuse_keeps_tree serve_get_keeps_tree)

lemma readSecretsFile_keeps_tree: "tree.keeps (readSecretsFile path)"
  unfolding readSecretsFile_def
  by (auto intro!: tree.keeps_intros looks_keep_tree split: prod.split)

lemma on_dfs_keeps_tree: "tree.keeps p \<Longrightarrow> dtree.keeps (on_dfs p)"
  by (simp add: dtree.keeps_def tree.keeps_def on_dfs_run)

lemma ServeAuth_keeps_tree: "dtree.keeps (ServeAuth md4 rnd m)"
  unfolding ServeAuth_def check_response_def Let_def
  by (auto intro!: dtree.keeps_bind dtree.keeps_attempt dtree.keeps_ret dtree.keeps_throw on_dconn_keeps_tree
      on_dfs_keeps_tree readSecretsFile_keeps_tree refuse_keeps_tree split: option.split sum.split prod.split)

section \<open>The lines of the client\<close>

text \<open>The complete lines in what a client sends, without their carriage returns at the end.\<close>

fun split_lines :: "string \<Rightarrow> string \<Rightarrow> string list" where
  "split_lines line [] = []"
| "split_lines line (c # s) = (if c = CHR 0x0A then line # split_lines [] s else split_lines (line @ [c]) s)"

definition client_lines :: "bytes \<Rightarrow> string list" where
  "client_lines b = map (trimRightChar (CHR 0x0D)) (split_lines [] (bytes_text b))"

lemma newline_byte: "char_of (unat (b :: byte)) = CHR 0x0A \<longleftrightarrow> b = 10"
proof
  assume "char_of (unat b) = CHR 0x0A"
  then have "(of_char (char_of (unat b) :: char) :: nat) = 10" by simp
  then have "unat b mod 256 = 10" by simp
  moreover have "unat b < 2 ^ LENGTH(8)" by (rule unsigned_less)
  ultimately have "unat b = unat (10 :: byte)" by simp
  then show "b = 10" by (simp only: unsigned_word_eqI)
next
  have "char_of (10 :: nat) = CHR 0x0A" by code_simp
  then show "b = 10 \<Longrightarrow> char_of (unat b) = CHR 0x0A" by simp
qed

lemma read_line_split:
  "read_line_from buf s = (s', Ok b) \<Longrightarrow>
     split_lines (bytes_text buf) (bytes_text s) = bytes_text b # split_lines [] (bytes_text s')"
proof (induction buf s rule: read_line_from.induct)
  case (2 buf b s)
  then show ?case
    using newline_byte [of b] by (auto simp: bytes_text_def split: if_splits)
qed simp

lemma readLine_lines:
  assumes "readLine c = (c', Ok l)"
  shows "client_lines (c_in c) = l # client_lines (c_in c')"
proof -
  obtain s' r where run: "read_line_from [] (c_in c) = (s', r)" by (meson surj_pair)
  with assms obtain b where b: "r = Ok b" "l = trimRightChar (CHR 0x0D) (bytes_text b)" "c_in c' = s'"
    by (cases r) (auto simp: readLine_def)
  from read_line_split [OF run [unfolded b(1)]] b show ?thesis
    by (simp add: client_lines_def) (simp add: bytes_text_def)
qed

lemma writeLine_lines: "writeLine s c = (c', r) \<Longrightarrow> c_in c' = c_in c"
  using writeLine_in [of s c] by simp

lemma ServeGreeting_lines:
  assumes "ServeGreeting cfg c = (c', Ok m)"
  shows "\<exists>greeting name. client_lines (c_in c) = greeting # name # client_lines (c_in c') \<and> map_of cfg name = Some m"
  using assms
  by (auto simp: ServeGreeting_def writeGreeting_def readGreeting_def bind_Ok_iff wrap_err_Ok_iff throw_def ret_def
      split: if_splits option.splits dest!: readLine_lines writeLine_lines)

lemma check_response_in:
  "check_response md4 m challenge user response s = (t, Ok u) \<Longrightarrow> c_in (ds_conn t) = c_in (ds_conn s)"
  by (auto simp: check_response_def bind_Ok_iff attempt_run on_dfs_run on_dconn_run ret_def
      split: if_splits option.splits sum.splits)

lemma ServeAuth_lines:
  assumes "ServeAuth md4 rnd m s = (t, Ok u)"
  shows "if AuthRequired m
    then \<exists>l. snd (readLine (ds_conn s)) = Ok l \<and> client_lines (c_in (ds_conn s)) = l # client_lines (c_in (ds_conn t))
    else c_in (ds_conn t) = c_in (ds_conn s)"
proof (cases "AuthRequired m")
  case False
  with assms show ?thesis by (auto simp: ServeAuth_def bind_Ok_iff on_dconn_run ret_def)
next
  case True
  with assms obtain buf where buf: "rnd = Some buf"
    by (cases rnd) (auto simp: ServeAuth_def generateChallenge_def throw_def)
  let ?c1 = "fst (writeLine (authReqdPrefix @ base64 buf) (ds_conn s))"
  obtain line where "snd (readLine ?c1) = Ok line"
    and s1: "(case cutAt line CHR '' '' of
       None \<Rightarrow> refuse_auth m MalformedAuthResponse
     | Some (user, response) \<Rightarrow> check_response md4 m (base64 buf) user response) (s\<lparr>ds_conn := fst (readLine ?c1)\<rparr>) = (t, Ok u)"
    using assms buf True
    by (auto simp: ServeAuth_def generateChallenge_def bind_def on_dconn_run map_sum_Ok split: sum.splits prod.splits)
  then obtain c2 where line: "readLine ?c1 = (c2, Ok line)" by (metis prod.collapse)
  with s1 have "c_in (ds_conn t) = c_in c2"
    by (auto dest: check_response_in split: option.splits prod.splits)
  moreover have "client_lines (c_in (ds_conn s)) = line # client_lines (c_in c2)"
    using readLine_lines [OF line] by simp
  moreover have "snd (readLine (ds_conn s)) = Ok line" using line readLine_in [of ?c1 "ds_conn s"] by simp
  ultimately show ?thesis using True by simp
qed

lemma serve_put_dry: "dtree.keeps (serve_put env m True)"
  unfolding serve_put_def
  by (intro dtree.keeps_bind run_receiver_dry on_dconn_keeps_tree) (simp add: module_ropts_def)

text \<open>A request to write: \<open>put\<close>, and not as a dry run.\<close>

definition put_request :: "string \<Rightarrow> bool" where
  "put_request line \<longleftrightarrow> (\<exists>ws. GoStrings.fields line = ''put'' # ws \<and> (ws = [] \<or> hd ws \<noteq> ''--dry-run''))"

lemma transfer_keeps_tree:
  assumes "\<not> put_request line" and "words = GoStrings.fields line" and "words \<noteq> []"
  shows "dtree.keeps (if hd words = DirectionGet then serve_get env m
    else if hd words = DirectionPut then serve_put env m (hd words = DirectionPut \<and> length words > 1 \<and> words ! 1 = dryRunToken)
    else skip)"
proof (cases "hd words = DirectionPut")
  case True
  moreover from assms(3) obtain w ws where "words = w # ws" by (cases words) auto
  ultimately have "words = ''put'' # ws" "ws \<noteq> []" "hd ws = ''--dry-run''"
    using assms(1,2) by (auto simp: put_request_def DirectionPut_def)
  then have "length words > 1 \<and> words ! 1 = dryRunToken" by (cases ws) (simp_all add: dryRunToken_def)
  with True serve_put_dry show ?thesis by (simp add: DirectionPut_def DirectionGet_def)
next
  case False
  then show ?thesis by (simp add: serve_get_keeps_tree dtree.keeps_ret)
qed

lemma ServeModule_changes:
  assumes "ServeModule env m s = (t, r)" and "\<not> same_tree (ds_fs s) (ds_fs t)"
  shows "\<not> m_ReadOnly m \<and> (\<exists>line rest. client_lines (c_in (ds_conn s)) = line # rest \<and> put_request line)"
proof
  show "\<not> m_ReadOnly m" using assms dtree.keepsD' [OF ServeModule_read_only] by blast
  obtain c l where read: "readLine (ds_conn s) = (c, l)" by (meson surj_pair)
  show "\<exists>line rest. client_lines (c_in (ds_conn s)) = line # rest \<and> put_request line"
  proof (cases l)
    case (Inl e)
    with assms read show ?thesis by (auto simp: ServeModule_def bind_def on_dconn_run tree.frame_refl)
  next
    case (Inr line)
    let ?words = "GoStrings.fields line"
    have "put_request line"
    proof (rule ccontr)
      assume "\<not> put_request line"
      note transfer = transfer_keeps_tree [OF this refl, of env m]
      define body where "body = (\<lambda>line. let words = GoStrings.fields line in
        if words = [] then refuse (''@ERROR: invalid direction '' @ quote line) (InvalidDirection line)
        else
          (let direction = hd words;
               dryRun = (direction = DirectionPut \<and> length words > 1 \<and> words ! 1 = dryRunToken)
           in if direction = DirectionPut \<and> m_ReadOnly m
              then refuse ''@ERROR: module is read only'' (ReadOnlyModule (m_Name m))
              else if direction \<noteq> DirectionGet \<and> direction \<noteq> DirectionPut
              then refuse (''@ERROR: invalid direction '' @ quote line) (InvalidDirection line)
              else seq (on_dconn (\<lambda>_. WritingSessionOK) (writeLine ok_line))
                       (if direction = DirectionGet then serve_get env m else serve_put env m dryRun)))"
      have "ServeModule env m = bind (on_dconn ReadingDirection readLine) body"
        by (simp only: ServeModule_def body_def)
      with assms(1) read Inr have "body line (s\<lparr>ds_conn := c\<rparr>) = (t, r)" by (simp add: bind_def on_dconn_run)
      moreover have "dtree.keeps (body line)"
        unfolding body_def Let_def using transfer
        by (auto intro!: dtree.keeps_bind refuse_keeps_tree on_dconn_keeps_tree split: if_splits)
      ultimately show False using assms(2) dtree.keepsD' by fastforce
    qed
    with readLine_lines read Inr show ?thesis by blast
  qed
qed

section \<open>Properties\<close>

text \<open>
  What entitles the bytes of a client to write: they name a module the configuration has, one that is not read
  only, answer the challenge for it where it requires authentication, as a user it allows, with the hash of that
  user's secret on the disk, and then ask to put files, not as a dry run.
\<close>

definition may_write :: "(bytes \<Rightarrow> bytes) \<Rightarrow> bytes option \<Rightarrow> Config \<Rightarrow> fs \<Rightarrow> bytes \<Rightarrow> bool" where
  "may_write md4 rnd cfg f b \<longleftrightarrow>
     (\<exists>greeting name m answer line rest.
        client_lines b = greeting # name # answer @ line # rest \<and>
        map_of cfg name = Some m \<and> \<not> m_ReadOnly m \<and> put_request line \<and>
        (if AuthRequired m
         then \<exists>u buf x secrets secret. rnd = Some buf \<and> u \<in> set (m_AuthUsers m) \<and>
           readSecretsFile (m_SecretsFile m) f = (x, Ok secrets) \<and> map_of secrets u = Some secret \<and>
           answer = [u @ '' '' @ md4Hash md4 secret (base64 buf)]
         else answer = []))"

lemma ServeConn_changes:
  assumes "ServeConn md4 rnd env cfg s = (t, r)" and "\<not> same_tree (ds_fs s) (ds_fs t)"
  shows "may_write md4 rnd cfg (ds_fs s) (c_in (ds_conn s))"
proof -
  obtain c r1 where greet: "ServeGreeting cfg (ds_conn s) = (c, r1)" by (meson surj_pair)
  let ?s1 = "s\<lparr>ds_conn := c\<rparr>"
  from greet have run1: "on_dconn GreetingFailed (ServeGreeting cfg) s = (?s1, map_sum GreetingFailed id r1)"
    by (simp add: on_dconn_run)
  with assms obtain m where m: "r1 = Ok m"
    by (cases r1) (auto simp: ServeConn_def bind_def tree.frame_refl)
  obtain s2 r2 where auth: "ServeAuth md4 rnd m ?s1 = (s2, r2)" by (meson surj_pair)
  have same: "same_tree (ds_fs s) (ds_fs s2)" using dtree.keepsD' [OF ServeAuth_keeps_tree auth] by simp
  with assms run1 m auth obtain u where u: "r2 = Ok u"
    by (cases r2) (auto simp: ServeConn_def bind_def wrap_err_def)
  have run2: "ServeModule env m s2 = (t, r)"
    using assms(1) run1 m auth u by (simp add: ServeConn_def bind_def wrap_err_def)
  have "\<not> same_tree (ds_fs s2) (ds_fs t)" using assms(2) tree.frame_trans [OF same] by blast
  from ServeModule_changes [OF run2 this] obtain line rest where
    put: "\<not> m_ReadOnly m" "client_lines (c_in (ds_conn s2)) = line # rest" "put_request line" by blast
  from ServeGreeting_lines [OF greet [unfolded m]] obtain greeting name where
    name: "client_lines (c_in (ds_conn s)) = greeting # name # client_lines (c_in c)" "map_of cfg name = Some m" by blast
  note lines = ServeAuth_lines [OF auth [unfolded u]]
  show ?thesis
  proof (cases "AuthRequired m")
    case False
    with lines name put show ?thesis
      unfolding may_write_def
      by (intro exI [of _ greeting] exI [of _ name] exI [of _ m] exI [of _ "[]"] exI [of _ line] exI [of _ rest]) simp
  next
    case True
    with lines obtain l where l: "snd (readLine c) = Ok l" "client_lines (c_in c) = l # client_lines (c_in (ds_conn s2))"
      by auto
    with ServeAuth_sound [OF auth [unfolded u] True] obtain buf x secrets secret where
      "u \<in> set (m_AuthUsers m)" "rnd = Some buf" "readSecretsFile (m_SecretsFile m) (ds_fs s) = (x, Ok secrets)"
      "map_of secrets u = Some secret" "l = u @ '' '' @ md4Hash md4 secret (base64 buf)" by auto
    with True l name put show ?thesis
      unfolding may_write_def
      by (intro exI [of _ greeting] exI [of _ name] exI [of _ m] exI [of _ "[l]"] exI [of _ line] exI [of _ rest]) auto
  qed
qed

text \<open>
  C8. The daemon protects its modules. On any connection (any bytes from the client, any failing calls, however
  the session ends) the server's tree, its names, inodes, contents and attributes, is as before, unless the
  lines the client sent are: a greeting; the name of a module of the configuration that is not read only; where
  that module requires authentication, one of the users it allows and the hash of that user's secret, as the
  secrets file on the server has it, with the challenge of this connection; and the direction \<open>put\<close> without
  \<open>--dry-run\<close>. So a client can neither write through a module it has not named nor by a download.
\<close>

theorem daemon_protects_modules:
  assumes "ServeConn md4 rnd env cfg s = (t, r)"
  shows "same_tree (ds_fs s) (ds_fs t) \<or>
    (\<exists>greeting name m answer line rest.
       client_lines (c_in (ds_conn s)) = greeting # name # answer @ line # rest \<and>
       map_of cfg name = Some m \<and> \<not> m_ReadOnly m \<and>
       (\<exists>ws. GoStrings.fields line = ''put'' # ws \<and> (ws = [] \<or> hd ws \<noteq> ''--dry-run'')) \<and>
       (if AuthRequired m
        then \<exists>u buf x secrets secret. rnd = Some buf \<and> u \<in> set (m_AuthUsers m) \<and>
          readSecretsFile (m_SecretsFile m) (ds_fs s) = (x, Ok secrets) \<and> map_of secrets u = Some secret \<and>
          answer = [u @ '' '' @ md4Hash md4 secret (base64 buf)]
        else answer = []))"
  using ServeConn_changes [OF assms] unfolding may_write_def put_request_def by blast

end
