(* ===== verification/Commands.thy ===== *)
theory Commands
  imports Options Credentials DaemonSession
begin

unbundle bit_operations_syntax

text \<open>
  The commands of \<open>internal/cli\<close>: \<open>runServer\<close>, \<open>runReadBatch\<close>, \<open>runDaemon\<close> up to its accept loop, and
  \<open>runSync\<close> with its three kinds of destination, the batch file included; and the remote-shell session of
  \<open>internal/transport/session.go\<close>. What comes from outside is part of the state or a parameter: the
  outcomes of starting a remote shell and of connecting to a daemon, with the connections that result.
\<close>

section \<open>Remote-shell sessions\<close>

record process =
  pc_conn :: "byte conn"
  pc_stdinClose :: "os_error option"
  pc_wait :: "int option"
  pc_stderr :: string

text \<open>What \<open>exec.Command\<close> and \<open>Start\<close> give for an argument vector.\<close>

datatype spawn = NoStdinPipe | NoStdoutPipe | NotStarted | Started process

datatype shell_error = CreatingStdinPipe | CreatingStdoutPipe | StartingCommand string

definition Dial ::
  "(string list \<Rightarrow> spawn) \<Rightarrow> string \<Rightarrow> string \<Rightarrow> string \<Rightarrow> string list \<Rightarrow> bool \<Rightarrow> bool \<Rightarrow> shell_error + process" where
  "Dial spawn rsh user host remoteArgs ipv4 ipv6 =
     (let argv = BuildRSHCommand rsh user host remoteArgs ipv4 ipv6 in
      case spawn argv of
        NoStdinPipe \<Rightarrow> Fail CreatingStdinPipe
      | NoStdoutPipe \<Rightarrow> Fail CreatingStdoutPipe
      | NotStarted \<Rightarrow> Fail (StartingCommand (argv ! 0))
      | Started p \<Rightarrow> Ok p)"

datatype close_error = ClosingStdin os_error | Exited int | ExitedWith int string

definition Session_Close :: "process \<Rightarrow> close_error option" where
  "Session_Close p =
     (case pc_wait p of
        Some status \<Rightarrow>
          (let msg = trimSpace (pc_stderr p) in
           if msg \<noteq> [] then Some (ExitedWith status msg) else Some (Exited status))
      | None \<Rightarrow> map_option ClosingStdin (pc_stdinClose p))"

datatype remote_error =
    Connecting string shell_error
  | RemoteCommandFailed string close_error
  | HandshakeFailed string handshake_error
  | SendingFailed send_error
  | ClosingSession close_error

text \<open>The connection is returned as it was left. \<open>batch\<close> is the inode of the open batch file.\<close>

definition syncToRemote ::
  "nat option \<Rightarrow> 'h env \<Rightarrow> (string list \<Rightarrow> spawn) \<Rightarrow> string \<Rightarrow> string \<Rightarrow> remotePath \<Rightarrow> walkOptions \<Rightarrow> rule list \<Rightarrow> bool \<Rightarrow>
     receiverOptions \<Rightarrow> compressOptions \<Rightarrow> bool \<Rightarrow> bool \<Rightarrow> fs \<Rightarrow> fs \<times> byte conn option \<times> (remote_error + unit)" where
  "syncToRemote batch env spawn rsh src remote walkOpts rules hardLinks ropts copts ipv4 ipv6 s =
     (case Dial spawn rsh (rp_User remote) (rp_Host remote) (remote_args ropts (rp_Path remote)) ipv4 ipv6 of
        Inl e \<Rightarrow> (s, None, Fail (Connecting (rp_Host remote) e))
      | Inr p \<Rightarrow>
          (case Handshake (pc_conn p) of
             (c, Some e) \<Rightarrow>
               (s, Some c,
                case Session_Close p of
                  Some ce \<Rightarrow> Fail (RemoteCommandFailed (rp_Host remote) ce)
                | None \<Rightarrow> Fail (HandshakeFailed (rp_Host remote) e))
           | (c, None) \<Rightarrow>
               (case Sender_to batch env src walkOpts rules hardLinks copts \<lparr>ss_fs = s, ss_conn = c\<rparr> of
                  (t, r) \<Rightarrow>
                    (ss_fs t, Some (ss_conn t),
                     case r of
                       Inl e \<Rightarrow> Fail (SendingFailed e)
                     | Inr _ \<Rightarrow>
                         (case Session_Close p of
                            Some ce \<Rightarrow> Fail (ClosingSession ce)
                          | None \<Rightarrow> Ok ())))))"

section \<open>The server and the replay of a batch\<close>

datatype server_error = ServerHandshake handshake_error | ServerReceive recv_error

text \<open>The state is the file system with standard input and output; the second result is standard error.\<close>

definition runServer ::
  "'h env \<Rightarrow> string \<Rightarrow> options \<Rightarrow> daemonState \<Rightarrow> daemonState \<times> string list \<times> (server_error + unit)" where
  "runServer env dest opts s =
     (case ServeHandshake (ds_conn s) of
        (c, Some e) \<Rightarrow> (s\<lparr>ds_conn := c\<rparr>, [], Fail (ServerHandshake e))
      | (c, None) \<Rightarrow>
          (case Receiver env dest (effectiveAttrOptions opts) (effectiveReceiverOptions opts)
                  (receiver_start (ds_fs s) c) of
             (t, r) \<Rightarrow> (\<lparr>ds_fs = rs_fs t, ds_conn = crw_rw (rs_conn t)\<rparr>, rs_out t, map_sum ServerReceive id r)))"

datatype batch_error = OpeningBatch string os_error | ApplyingBatch string string recv_error

definition applied_line :: "options \<Rightarrow> string \<Rightarrow> string" where
  "applied_line opts dest =
     (if o_dryRun opts then ''would apply'' else ''applied'') @ '' batch '' @ quote (o_readBatch opts) @ '' to '' @ dest @
     [CHR 0x0A]"

definition apply_batch ::
  "'h env \<Rightarrow> string \<Rightarrow> options \<Rightarrow> bytes \<Rightarrow> fs \<Rightarrow> fs \<times> string list \<times> (batch_error + unit)" where
  "apply_batch env dest opts content s =
     (case Receiver env dest (effectiveAttrOptions opts) (effectiveReceiverOptions opts)
             (receiver_start s (open_conn content)) of
        (t, Inl e) \<Rightarrow> (rs_fs t, rs_out t, Fail (ApplyingBatch (o_readBatch opts) dest e))
      | (t, Inr _) \<Rightarrow> (rs_fs t, rs_out t @ [applied_line opts dest], Ok ()))"

text \<open>A file that opens and then cannot be read counts as one that does not open.\<close>

definition runReadBatch ::
  "'h env \<Rightarrow> bytes \<Rightarrow> string \<Rightarrow> options \<Rightarrow> fs \<Rightarrow> fs \<times> string list \<times> (batch_error + unit)" where
  "runReadBatch env stdin dest opts s =
     (if o_readBatch opts = ''-'' then apply_batch env dest opts stdin s
      else case ReadFile (o_readBatch opts) s of
        (s', Inl e) \<Rightarrow> (s', [], Fail (OpeningBatch (o_readBatch opts) e))
      | (s', Inr content) \<Rightarrow> apply_batch env dest opts content s')"

section \<open>The daemon\<close>

datatype daemon_error =
    NoConfig
  | OpeningConfig string os_error
  | ParsingConfig string config_error
  | DaemonAddressFamilies
  | ListeningOn string

definition joinHostPort :: "string \<Rightarrow> string \<Rightarrow> string" where
  "joinHostPort host port =
     (if CHR '':'' \<in> set host then ''['' @ host @ '']:'' @ port else host @ '':'' @ port)"

definition listening_line :: "string \<Rightarrow> Config \<Rightarrow> string" where
  "listening_line addr cfg =
     ''grsync daemon listening on '' @ addr @ '' ('' @ format_nat (length cfg) @ '' module(s) configured)'' @ [CHR 0x0A]"

text \<open>\<open>listen\<close> gives the address bound; the result is what is printed and what \<open>Serve\<close> then serves.\<close>

definition runDaemon ::
  "(network \<Rightarrow> string \<Rightarrow> string option) \<Rightarrow> options \<Rightarrow> (fs, daemon_error, string \<times> Config) prog" where
  "runDaemon listen opts =
     (if o_config opts = [] then throw NoConfig
      else
        bind (wrap_err (OpeningConfig (o_config opts)) (ReadFile (o_config opts))) (\<lambda>content.
        (case ParseConfig (bytes_text content) of
           Inl e \<Rightarrow> throw (ParsingConfig (o_config opts) e)
         | Inr cfg \<Rightarrow>
             (case tcpNetwork (o_ipv4 opts) (o_ipv6 opts) of
                None \<Rightarrow> throw DaemonAddressFamilies
              | Some net \<Rightarrow>
                  (let addr = joinHostPort (o_address opts) (formatInt (o_port opts)) in
                   case listen net addr of
                     None \<Rightarrow> throw (ListeningOn addr)
                   | Some bound \<Rightarrow> ret (listening_line bound cfg, cfg))))))"

section \<open>Uploading to a daemon\<close>

text \<open>
  The state of a sync: the credentials' state, with the file system in it, the number of connections made
  so far, the connections as they were left, the commands started, and the two outputs. The parameters:
  how the \<open>n\<close>-th connection or command turns out, and the environment.
\<close>

record cliState = credentialState +
  cl_next :: nat
  cl_sessions :: "byte conn list"
  cl_stdout :: string
  cl_notes :: "notice list"

datatype transfer_error =
    DialingDaemon string
  | DaemonSession session_error
  | RemoteTransfer remote_error
  | LocalTransfer send_error
  | LocalReceive recv_error

record ('h, 'addr) world =
  w_env :: "'h env"
  w_md4 :: "bytes \<Rightarrow> bytes"
  w_environ :: environ
  w_url_parse :: "string \<Rightarrow> netURL option"
  w_resolve :: "network \<Rightarrow> string \<Rightarrow> 'addr option"
  w_dial :: "nat \<Rightarrow> network \<Rightarrow> 'addr option \<Rightarrow> string \<Rightarrow> byte conn option"
  w_spawn :: "nat \<Rightarrow> string list \<Rightarrow> spawn"

definition password_text :: "password_error \<Rightarrow> string" where
  "password_text e =
     (case e of
        CheckingPasswordFile _ \<Rightarrow> ''checking password file''
      | WorldReadable path \<Rightarrow> ''password file '' @ quote path @ '' must not be world readable''
      | OpeningPasswordFile _ \<Rightarrow> ''opening password file''
      | ReadingPasswordFile \<Rightarrow> ''reading password file''
      | EmptyPasswordFile \<Rightarrow> ''password file is empty''
      | ReadingPassword \<Rightarrow> ''reading password'')"

text \<open>How often a session asks for the password: the greeting and the authentication it begins with.\<close>

definition passwords_asked :: "(bytes \<Rightarrow> bytes) \<Rightarrow> string \<Rightarrow> string \<Rightarrow> (nat \<Rightarrow> string + string) \<Rightarrow> byte conn \<Rightarrow> nat" where
  "passwords_asked md4 name user password c =
     (case DialGreeting name c of
        (_, Inl _) \<Rightarrow> 0
      | (c', Inr _) \<Rightarrow> dl_asked (fst (DialAuth md4 user password \<lparr>dl_conn = c', dl_asked = 0\<rparr>)))"

definition only_hard_links :: "bool \<Rightarrow> attrOptions" where
  "only_hard_links hardLinks =
     \<lparr>ao_Perms = False, ao_Times = False, ao_Owner = False, ao_Group = False, ao_Links = False,
      ao_HardLinks = hardLinks, ao_Devices = False\<rparr>"

text \<open>The password is resolved at the first challenge, before the source is read.\<close>

definition syncToRsyncDaemon ::
  "('h, 'addr) world \<Rightarrow> options \<Rightarrow> 'addr syncPlan \<Rightarrow> URL \<Rightarrow> string \<Rightarrow> (cliState, transfer_error, unit) prog" where
  "syncToRsyncDaemon w opts p u src s =
     (let addr = joinHostPort (u_Host u) (formatInt (daemon_port u)) in
      case w_dial w (cl_next s) (sp_network p) (sp_local p) addr of
        None \<Rightarrow> (s\<lparr>cl_next := Suc (cl_next s)\<rparr>, Fail (DialingDaemon addr))
      | Some c \<Rightarrow>
          (let user = resolveUser (w_environ w) (u_User u);
               (asked, answer) = resolvePassword (w_environ w) (o_passwordFile opts) (credentialState.truncate s);
               password = (\<lambda>_. map_sum password_text id answer);
               s1 = (if passwords_asked (w_md4 w) (u_Module u) user password c > 0
                     then s\<lparr>cd_fs := cd_fs asked, cd_stdin := cd_stdin asked, cd_prompts := cd_prompts asked,
                            cd_once := cd_once asked\<rparr> else s)
           in case DialClient (w_env w) (w_md4 w) (u_Module u) user password DirectionPut src (sp_rules p) (sp_walk p)
                     (only_hard_links (ao_HardLinks (sp_attrs p))) (module_ropts (o_dryRun opts)) (sp_copts p)
                     \<lparr>ds_fs = cd_fs s1, ds_conn = c\<rparr> of
                (t, r) \<Rightarrow>
                  (s1\<lparr>cd_fs := ds_fs t, cl_next := Suc (cl_next s1), cl_sessions := cl_sessions s1 @ [ds_conn t]\<rparr>,
                   case r of Inl e \<Rightarrow> Fail (DaemonSession e) | Inr _ \<Rightarrow> Ok ())))"

section \<open>A local sync\<close>

text \<open>
  Two processes joined by a pair of pipes. Each is its output on a given input; a read beyond the input is
  where the process waits (the programs below write nothing after such a read, so their output on the
  input so far is what they have written when they wait). In every round each side goes on with what the
  other has written.
\<close>

fun pipes :: "(bytes \<Rightarrow> bytes) \<Rightarrow> (bytes \<Rightarrow> bytes) \<Rightarrow> nat \<Rightarrow> bytes \<times> bytes" where
  "pipes f g 0 = ([], [])"
| "pipes f g (Suc n) = (case pipes f g n of (a, b) \<Rightarrow> (let a' = f b in (a', g a')))"

definition local_sender ::
  "nat option \<Rightarrow> 'h env \<Rightarrow> string \<Rightarrow> walkOptions \<Rightarrow> rule list \<Rightarrow> bool \<Rightarrow> compressOptions \<Rightarrow> fs \<Rightarrow> bytes \<Rightarrow> sendState \<times> (send_error + unit)" where
  "local_sender batch env src walkOpts rules hardLinks copts s received =
     Sender_to batch env src walkOpts rules hardLinks copts \<lparr>ss_fs = s, ss_conn = open_conn received\<rparr>"

definition local_receiver ::
  "'h env \<Rightarrow> string \<Rightarrow> attrOptions \<Rightarrow> receiverOptions \<Rightarrow> fs \<Rightarrow> bytes \<Rightarrow> receiveState \<times> (recv_error + unit)" where
  "local_receiver env dest attrOpts ropts s sent = Receiver env dest attrOpts ropts (receiver_start s (open_conn sent))"

text \<open>The state \<open>t\<close> with the content the batch file has in \<open>s\<close>.\<close>

definition take_batch :: "nat option \<Rightarrow> fs \<Rightarrow> fs \<Rightarrow> fs" where
  "take_batch batch s t =
     (case batch of None \<Rightarrow> t | Some n \<Rightarrow> t\<lparr>fs_inodes := (fs_inodes t)(n := fs_inodes s n)\<rparr>)"

text \<open>
  At most one signature is sent for every name of the source, so the rounds suffice. Neither side sees what
  the other does to the file system: source, destination and batch file are apart. Where one side fails,
  the other reads the end of its input; in the code the pipe hands it the error of the first.
\<close>

definition syncLocal ::
  "nat option \<Rightarrow> 'h env \<Rightarrow> string \<Rightarrow> string \<Rightarrow> walkOptions \<Rightarrow> rule list \<Rightarrow> attrOptions \<Rightarrow> receiverOptions \<Rightarrow>
     compressOptions \<Rightarrow> fs \<Rightarrow> fs \<times> string list \<times> (transfer_error + unit)" where
  "syncLocal batch env src dest walkOpts rules attrOpts ropts copts s =
     (let sender = local_sender batch env src walkOpts rules (ao_HardLinks attrOpts) copts s;
          receiver = local_receiver env dest attrOpts ropts s;
          (sent, received) = pipes (\<lambda>i. w_written (c_out (ss_conn (fst (sender i)))))
            (\<lambda>i. w_written (c_out (crw_rw (rs_conn (fst (receiver i)))))) (length (fs_names s) + 2)
      in case (receiver sent, sender received) of
           ((t, r), (u, r')) \<Rightarrow>
             (take_batch batch (ss_fs u) (rs_fs t), rs_out t,
              case r of
                Inl e \<Rightarrow> Fail (LocalReceive e)
              | Inr _ \<Rightarrow> (case r' of Inl e \<Rightarrow> Fail (LocalTransfer e) | Inr _ \<Rightarrow> Ok ())))"

section \<open>A whole sync\<close>

text \<open>\<open>os.Create\<close>: the inode of a new or truncated file.\<close>

definition Create :: "string \<Rightarrow> nat sys" where
  "Create path = sys_call (with_path True path (\<lambda>p s.
     case ino_of s p of
       None \<Rightarrow> create p (FileData []) (438 AND NOT (fs_umask s)) s
     | Some n \<Rightarrow>
         (case in_content (fs_inodes s n) of
            FileData _ \<Rightarrow> (upd_inode n (\<lambda>i. i\<lparr>in_content := FileData [], in_mtime := fs_now s\<rparr>) s, Ok n)
          | DirData \<Rightarrow> (s, Fail EISDIR)
          | FifoData \<Rightarrow> (s, Fail Blocks)
          | _ \<Rightarrow> (s, Ok n))))"

definition Close :: "unit sys" where
  "Close = sys_call (\<lambda>s. (s, Ok ()))"

datatype command_error =
    SyncRefused sync_error
  | CreatingBatch string os_error
  | SyncingSource string string transfer_error
  | ClosingBatch string os_error

text \<open>One source, by destination; there is no batch file for a daemon.\<close>

definition sync_source ::
  "nat option \<Rightarrow> ('h, 'addr) world \<Rightarrow> options \<Rightarrow> 'addr syncPlan \<Rightarrow> string \<Rightarrow> (cliState, transfer_error, unit) prog" where
  "sync_source batch w opts p src s =
     (case sp_dest p of
        DaemonDest u \<Rightarrow> syncToRsyncDaemon w opts p u src s
      | RemoteDest r \<Rightarrow>
          (case syncToRemote batch (w_env w) (w_spawn w (cl_next s)) (o_rsh opts) src r (sp_walk p) (sp_rules p)
                  (ao_HardLinks (sp_attrs p)) (sp_ropts p) (sp_copts p) (o_ipv4 opts) (o_ipv6 opts) (cd_fs s) of
             (t, c, res) \<Rightarrow>
               (s\<lparr>cd_fs := t, cl_next := Suc (cl_next s),
                  cl_sessions := cl_sessions s @ (case c of None \<Rightarrow> [] | Some x \<Rightarrow> [x])\<rparr>,
                map_sum RemoteTransfer id res))
      | LocalDest dest \<Rightarrow>
          (case syncLocal batch (w_env w) src dest (sp_walk p) (sp_rules p) (sp_attrs p) (sp_ropts p) (sp_copts p) (cd_fs s) of
             (t, ls, res) \<Rightarrow> (s\<lparr>cd_fs := t, cl_stdout := cl_stdout s @ concat ls\<rparr>, res)))"

definition sync_sources ::
  "('h, 'addr) world \<Rightarrow> options \<Rightarrow> 'addr syncPlan \<Rightarrow> string \<Rightarrow> string list \<Rightarrow> nat option \<Rightarrow>
     (cliState, command_error, unit) prog" where
  "sync_sources w opts p dest sources batch =
     each (\<lambda>src. wrap_err (SyncingSource src dest) (sync_source batch w opts p src)) sources"

definition cli_fs :: "('e \<Rightarrow> 'f) \<Rightarrow> (fs, 'e, 'a) prog \<Rightarrow> (cliState, 'f, 'a) prog" where
  "cli_fs err m = on_part cd_fs (\<lambda>x s. s\<lparr>cd_fs := x\<rparr>) (wrap_err err m)"

definition wrote_line :: "string \<Rightarrow> string" where
  "wrote_line path =
     ''wrote batch file '' @ quote path @ '' (grsync's own format - see the README's Batch Mode section)'' @ [CHR 0x0A]"

definition summary_line :: "options \<Rightarrow> nat \<Rightarrow> string \<Rightarrow> string" where
  "summary_line opts n dest =
     (if o_dryRun opts then ''would sync'' else ''synced'') @ '' '' @ format_nat n @ '' source(s) to '' @ dest @ [CHR 0x0A]"

definition print_out :: "string \<Rightarrow> (cliState, 'e, unit) prog" where
  "print_out text = modify (\<lambda>s. s\<lparr>cl_stdout := cl_stdout s @ text\<rparr>)"

text \<open>The deferred cleanup: a sync that fails leaves no batch file.\<close>

definition drop_batch :: "string \<Rightarrow> (cliState, command_error, unit) prog" where
  "drop_batch path =
     seq (bind (attempt (cli_fs id Close)) (\<lambda>_. skip)) (bind (attempt (cli_fs id (Remove path))) (\<lambda>_. skip))"

definition with_batch ::
  "string \<Rightarrow> (nat option \<Rightarrow> (cliState, command_error, unit) prog) \<Rightarrow> (cliState, command_error, unit) prog" where
  "with_batch path run =
     bind (cli_fs (CreatingBatch path) (Create path)) (\<lambda>n.
     bind (attempt (run (Some n))) (\<lambda>r.
       (case r of
          Inl e \<Rightarrow> seq (drop_batch path) (throw e)
        | Inr _ \<Rightarrow> seq (cli_fs (ClosingBatch path) Close) (print_out (wrote_line path)))))"

text \<open>The filter files are read as the file system stands.\<close>

definition filter_file :: "fs \<Rightarrow> string \<Rightarrow> string option" where
  "filter_file s path = (case snd (ReadFile path s) of Inl _ \<Rightarrow> None | Inr d \<Rightarrow> Some (bytes_text d))"

text \<open>The note on a batch with a dry run is printed before the destination is looked at.\<close>

definition early_notes :: "options \<Rightarrow> sync_error \<Rightarrow> notice list" where
  "early_notes opts e =
     (case e of
        BadDestinationURL _ \<Rightarrow> (if o_writeBatch opts \<noteq> [] \<and> o_dryRun opts then [BatchWithDryRun] else [])
      | NoModule _ \<Rightarrow> (if o_writeBatch opts \<noteq> [] \<and> o_dryRun opts then [BatchWithDryRun] else [])
      | SubPath _ \<Rightarrow> (if o_writeBatch opts \<noteq> [] \<and> o_dryRun opts then [BatchWithDryRun] else [])
      | _ \<Rightarrow> [])"

definition runSync ::
  "('h, 'addr) world \<Rightarrow> string set \<Rightarrow> string list \<Rightarrow> string \<Rightarrow> options \<Rightarrow> (cliState, command_error, unit) prog" where
  "runSync w changed sources dest opts s =
     (case plan_sync (filter_file (cd_fs s)) (w_url_parse w) (w_resolve w) changed sources dest opts of
        Inl e \<Rightarrow> (s\<lparr>cl_notes := cl_notes s @ early_notes opts e\<rparr>, Fail (SyncRefused e))
      | Inr p \<Rightarrow>
          seq (modify (\<lambda>s. s\<lparr>cl_notes := cl_notes s @ sp_notes p\<rparr>))
         (seq (if sp_batch p
               then with_batch (o_writeBatch opts) (sync_sources w opts p dest sources)
               else sync_sources w opts p dest sources None)
              (print_out (summary_line opts (length sources) dest))) s)"

text \<open>An absolute path is a local one.\<close>

lemma absolute_is_local: "ParseRemotePath (abs_path p) = None" "isRsyncURL (abs_path p) = False"
proof -
  obtain cs where path: "abs_path p = CHR ''/'' # cs" by (simp add: abs_path_def)
  have slash: "indexByte (take i (CHR ''/'' # cs)) CHR ''/'' \<noteq> None" if "0 < i" for i
    using that by (cases i) simp_all
  have user: "split_user (CHR ''/'' # cs) = ([], CHR ''/'' # cs)"
    using slash by (auto simp: split_user_def split: option.split)
  have "split_host (CHR ''/'' # cs) = None"
    using slash by (auto simp: split_host_def hasPrefix_def split: option.split)
  then show "ParseRemotePath (abs_path p) = None" by (simp add: ParseRemotePath_def path user)
  show "isRsyncURL (abs_path p) = False" by (simp add: isRsyncURL_def hasPrefix_def path)
qed

end
