(* ===== verification/Effects.thy ===== *)
theory Effects
  imports Receiver
begin

unbundle bit_operations_syntax

text \<open>
  What the calls of the receiver do to the contents of the tree, for absolute paths whose parents are
  directories: \<open>fs_is q m s\<close> says that the file system \<open>s\<close> is well formed and holds exactly the
  contents \<open>m\<close>, and, under \<open>q\<close>, that no call will fail. Every lemma states the contents after a
  successful call under any faults, and success under \<open>q\<close>.
\<close>

section \<open>States by their contents\<close>

type_synonym contents = "fpath \<Rightarrow> content option"

definition fs_is :: "bool \<Rightarrow> contents \<Rightarrow> fs \<Rightarrow> bool" where
  "fs_is q m s \<longleftrightarrow> fs_inv s \<and> content_of s = m \<and> (q \<longrightarrow> no_faults s)"

definition dirs_in :: "contents \<Rightarrow> fpath \<Rightarrow> bool" where
  "dirs_in m p \<longleftrightarrow> list_all plain p \<and> list_all (\<lambda>k. m (take k p) = Some DirData) [0..<length p]"

lemma fs_is_above: "fs_is q m s \<Longrightarrow> dirs_above s p = dirs_in m p"
  by (auto simp: fs_is_def dirs_above_def dirs_in_def)

lemma fs_is_content: "fs_is q m s \<Longrightarrow> content_of s p = m p"
  by (auto simp: fs_is_def)

lemma fs_is_ino: "fs_is q m s \<Longrightarrow> ino_of s p = None \<longleftrightarrow> m p = None"
  using content_ino [of s p] by (auto simp: fs_is_def)

lemma fs_is_inode: "fs_is q m s \<Longrightarrow> ino_of s p = Some n \<Longrightarrow> m p = Some (in_content (fs_inodes s n))"
  by (auto simp: fs_is_def content_of_ino)

lemma fs_is_step [simp]: "fs_is q m (step s) = fs_is q m s"
  by (simp add: fs_is_def fun_eq_iff)

lemma fs_is_tree: "fs_is q m s \<Longrightarrow> same_tree s t \<Longrightarrow> fs_is q m t"
  using same_tree_wf [of s t] same_tree_content [of s t]
  by (auto simp: fs_is_def fs_inv_def same_tree_def no_faults_def fun_eq_iff)

lemma fs_is_root: "fs_is q m s \<Longrightarrow> m [] = Some DirData"
  by (auto simp: fs_is_def fs_inv_def fs_wf_def)

lemma fs_is_link: "fs_is q m s \<Longrightarrow> \<not> is_link s p \<longleftrightarrow> (\<forall>t. m p \<noteq> Some (LinkData t))"
  by (auto simp: is_link_def fs_is_content split: option.split content.split)

lemma dirs_in_plain: "dirs_in m p \<Longrightarrow> list_all plain p"
  by (simp add: dirs_in_def)

lemma dirs_in_snoc: "dirs_in m (p @ [c]) \<longleftrightarrow> dirs_in m p \<and> plain c \<and> m p = Some DirData"
  by (auto simp: dirs_in_def list_all_iff less_Suc_eq)

lemma dirs_in_Nil [simp]: "dirs_in m []"
  by (simp add: dirs_in_def)

lemma dirs_in_upd [simp]: "dirs_in (m(p := c)) p \<longleftrightarrow> dirs_in m p"
proof -
  have "(m(p := c)) (take k p) = m (take k p)" if "k < length p" for k
  proof -
    from that have "length (take k p) \<noteq> length p" by simp
    then show ?thesis by (metis fun_upd_other)
  qed
  then show ?thesis by (simp add: dirs_in_def list_all_iff)
qed

text \<open>A change of the tree, with the invariant and the absence of faults carried over.\<close>

lemma fs_is_change:
  assumes "fs_is q m s" and "inv.keeps f" and "f s = (t, r)" and "content_of t = m'" and "q \<longrightarrow> no_faults t"
  shows "fs_is q m' t"
  using assms inv.keepsD' [OF assms(2,3)] by (simp add: fs_is_def)

lemma outcome_sys_call:
  assumes "fs_is q m s" and "outcome q f (step s) P"
  shows "outcome q (sys_call f) s P"
  by (rule sys_call_cases [of f s]) (use assms in \<open>auto simp: outcome_def fs_is_def sys_call_ok\<close>)

lemma no_faults_same: "fs_faults t = fs_faults s \<Longrightarrow> no_faults t = no_faults s"
  by (simp add: no_faults_def)

section \<open>Looking\<close>

lemma Lstat_result:
  assumes "fs_is q m s" and "dirs_in m p" and "Lstat (abs_path p) s = (t, r)"
  shows "fs_is q m t" and "r = Fail Fault \<and> \<not> q \<or> r = Fail ENOENT \<and> m p = None
    \<or> (\<exists>n i. r = Ok (n, i) \<and> ino_of s p = Some n \<and> i = fs_inodes s n \<and> m p = Some (in_content i))"
proof -
  show "fs_is q m t" using assms(1,3) fs_is_tree tree.keepsD' [OF looks_keep_tree(1) assms(3)] by blast
  have above: "dirs_above s p" using assms fs_is_above by blast
  show "r = Fail Fault \<and> \<not> q \<or> r = Fail ENOENT \<and> m p = None
    \<or> (\<exists>n i. r = Ok (n, i) \<and> ino_of s p = Some n \<and> i = fs_inodes s n \<and> m p = Some (in_content i))"
  proof (cases "fs_faults s (fs_tick s)")
    case None
    then have "Lstat (abs_path p) s
        = (step s, case ino_of s p of None \<Rightarrow> Fail ENOENT | Some n \<Rightarrow> Ok (n, fs_inodes s n))"
      using above by (simp add: Lstat_def sys_call_def with_inode_abs split: option.split)
    with assms(3) show ?thesis
      using fs_is_ino [OF assms(1), of p] fs_is_inode [OF assms(1), of p] by (auto split: option.splits)
  next
    case (Some k)
    with assms(1,3) show ?thesis by (auto simp: Lstat_def sys_call_def fs_is_def no_faults_def)
  qed
qed

lemma LstatEntry_result:
  assumes "fs_is q m s" and "dirs_in m p" and "LstatEntry (abs_path p) s = (t, r)"
  shows "fs_is q m t" and "r = Fail ENOENT \<and> m p = None \<or> (\<exists>e. r = Fail e \<and> e \<noteq> ENOENT \<and> \<not> q)
    \<or> (\<exists>e. r = Ok e \<and> m p \<noteq> None)"
proof -
  show "fs_is q m t" using assms(1,3) fs_is_tree tree.keepsD' [OF LstatEntry_keeps_tree assms(3)] by blast
  obtain s1 r1 where l: "Lstat (abs_path p) s = (s1, r1)" by (cases "Lstat (abs_path p) s")
  note l_res = Lstat_result [OF assms(1,2) l]
  from l_res(2) consider (bad) "r1 = Fail Fault" "\<not> q" | (none) "r1 = Fail ENOENT" "m p = None"
    | (some) n i where "r1 = Ok (n, i)" "ino_of s p = Some n" "i = fs_inodes s n" "m p = Some (in_content i)" by metis
  then show "r = Fail ENOENT \<and> m p = None \<or> (\<exists>e. r = Fail e \<and> e \<noteq> ENOENT \<and> \<not> q) \<or> (\<exists>e. r = Ok e \<and> m p \<noteq> None)"
  proof cases
    case some
    show ?thesis
    proof (cases q)
      case True
      with assms(1) have nf: "no_faults s" by (simp add: fs_is_def)
      have "dirs_above s p" using assms fs_is_above by blast
      from LstatEntry_abs [OF nf this some(2)] assms(3) some show ?thesis by auto
    next
      case False
      obtain s2 r2 where b: "buildFileEntry (abs_path p) i s1 = (s2, r2)" by (cases "buildFileEntry (abs_path p) i s1")
      with l some assms(3) have "r = r2" by (simp add: LstatEntry_def bind_def)
      moreover have "r2 \<noteq> Fail ENOENT"
      proof (cases "\<exists>x. in_content i = LinkData x")
        case True
        then obtain x where x: "in_content i = LinkData x" ..
        have above: "dirs_above s1 p" using l_res(1) assms(2) fs_is_above by blast
        have "ino_of s1 p = Some n" "fs_inodes s1 n = i"
          using some same_tree_ino [OF tree.keepsD' [OF looks_keep_tree(1) l]]
            tree.keepsD' [OF looks_keep_tree(1) l] by (simp_all add: same_tree_def)
        with above x have "snd (Readlink (abs_path p) s1) \<noteq> Fail ENOENT"
          by (simp add: Readlink_def sys_call_def with_inode_abs split: option.split)
        with b show ?thesis
          by (cases "Readlink (abs_path p) s1") (auto simp: buildFileEntry_def bind_def ret_def split: if_splits sum.splits)
      next
        case False
        with b symlink_mode [of i] show ?thesis by (auto simp: buildFileEntry_def ret_def)
      qed
      ultimately show ?thesis using False some by (cases r) auto
    qed
  qed (use l assms(3) in \<open>auto simp: LstatEntry_def bind_def\<close>)
qed

lemma lstatExisting_outcome:
  assumes "fs_is q m s" and "dirs_in m p"
  shows "outcome q (lstatExisting (abs_path p)) s (\<lambda>(old, existed) t. fs_is q m t \<and> (existed \<longleftrightarrow> m p \<noteq> None))"
proof -
  obtain t r where l: "LstatEntry (abs_path p) s = (t, r)" by (cases "LstatEntry (abs_path p) s")
  from LstatEntry_result [OF assms l] l show ?thesis
    by (auto simp: outcome_def lstatExisting_def bind_def attempt_run ret_def throw_def split: sum.split)
qed

definition data_of :: "content option \<Rightarrow> bytes" where
  "data_of c = (case c of Some (FileData d) \<Rightarrow> d | _ \<Rightarrow> [])"

lemma load_basis_outcome:
  assumes "fs_is q m s" and "dirs_in m p" and "ro_PartialDir ropts = []"
    and "m p = None \<or> m p = Some (FileData d)"
  shows "outcome q (load_basis ropts (abs_path p) path) s (\<lambda>(old, used) t. fs_is q m t \<and> \<not> used \<and> old = data_of (m p))"
proof -
  have above: "dirs_above s p" using assms fs_is_above by blast
  have nolink: "\<not> is_link s p" using assms(4) fs_is_link [OF assms(1)] by auto
  obtain t r where run: "ReadFile (abs_path p) s = (t, r)" by (cases "ReadFile (abs_path p) s")
  have t: "fs_is q m t" using assms(1) fs_is_tree tree.keepsD' [OF looks_keep_tree(3) run] by blast
  have "r = Fail Fault \<and> \<not> q \<or> r = Fail ENOENT \<and> m p = None \<or> r = Ok (data_of (m p))"
  proof (cases "fs_faults s (fs_tick s)")
    case None
    then show ?thesis
      using run above nolink assms(4) fs_is_ino [OF assms(1), of p] fs_is_inode [OF assms(1), of p]
      by (auto simp: ReadFile_def sys_call_def with_inode_abs data_of_def split: option.splits)
  next
    case (Some k)
    with run assms(1) show ?thesis by (auto simp: ReadFile_def sys_call_def fs_is_def no_faults_def)
  qed
  with t run show ?thesis
    by (auto simp: outcome_def load_basis_def loadPartialBasis_def assms(3) bind_def attempt_run ret_def throw_def
        data_of_def split: sum.split)
qed

section \<open>Making directories\<close>

lemma create_result:
  assumes "fs_wf s" and "create p c perm s = (t, r)"
  shows "(r = Fail EEXIST \<and> t = s \<and> content_of s p \<noteq> None)
    \<or> (\<exists>e. r = Fail e \<and> t = s \<and> content_of s (butlast p) \<noteq> Some DirData)
    \<or> (\<exists>n. r = Ok n \<and> content_of s p = None \<and> content_of t = (content_of s)(p \<mapsto> c) \<and> no_faults t = no_faults s)"
proof (cases "ino_of s p \<noteq> None \<or> content_of s (butlast p) \<noteq> Some DirData")
  case True
  with assms(2) content_ino [of s p] show ?thesis by (auto simp: create_def)
next
  case False
  let ?i = "\<lparr>in_content = c, in_perm = perm, in_mtime = fs_now s, in_uid = 0, in_gid = 0\<rparr>"
  let ?t = "s\<lparr>fs_inodes := (fs_inodes s)(fs_next s := ?i), fs_next := Suc (fs_next s)\<rparr>"
  have "content_of ?t q = content_of s q" for q
    using wf_fresh [OF assms(1)] by (cases "ino_of s q") (auto simp: content_of_ino ran_def ino_of_def)
  moreover have "t = add_name p (fs_next s) ?t" "r = Ok (fs_next s)"
    using False assms(2) by (auto simp: create_def Let_def)
  ultimately have "content_of t = (content_of s)(p \<mapsto> c)" by (simp add: fun_eq_iff)
  with False content_ino [of s p] \<open>r = Ok (fs_next s)\<close> no_faults_create [of p c perm s] assms(2) show ?thesis by auto
qed

lemma Stat_result:
  assumes "fs_is q m s" and "dirs_in m p" and "\<forall>x. m p \<noteq> Some (LinkData x)" and "Stat (abs_path p) s = (t, r)"
  shows "fs_is q m t" and "(\<exists>e. r = Fail e \<and> (q \<longrightarrow> m p = None)) \<or> (\<exists>n i. r = Ok (n, i) \<and> m p = Some (in_content i))"
proof -
  show "fs_is q m t" using assms(1,4) fs_is_tree tree.keepsD' [OF looks_keep_tree(2) assms(4)] by blast
  have above: "dirs_above s p" "\<not> is_link s p" using assms fs_is_above fs_is_link by blast+
  show "(\<exists>e. r = Fail e \<and> (q \<longrightarrow> m p = None)) \<or> (\<exists>n i. r = Ok (n, i) \<and> m p = Some (in_content i))"
  proof (cases "fs_faults s (fs_tick s)")
    case None
    then have "Stat (abs_path p) s
        = (step s, case ino_of s p of None \<Rightarrow> Fail ENOENT | Some n \<Rightarrow> Ok (n, fs_inodes s n))"
      using above by (simp add: Stat_def sys_call_def with_inode_abs split: option.split)
    with assms(4) show ?thesis
      using fs_is_ino [OF assms(1), of p] fs_is_inode [OF assms(1), of p] by (auto split: option.splits)
  next
    case (Some k)
    with assms(1,4) show ?thesis by (auto simp: Stat_def sys_call_def fs_is_def no_faults_def)
  qed
qed

lemma fs_is_wf: "fs_is q m s \<Longrightarrow> fs_wf s"
  by (simp add: fs_is_def fs_inv_def)

lemma Mkdir_result:
  assumes "fs_is q m s" and "dirs_in m (p @ [c])" and "Mkdir (abs_path (p @ [c])) perm s = (t, r)"
  shows "((\<exists>e. r = Fail e) \<and> fs_is q m t \<and> (q \<longrightarrow> m (p @ [c]) \<noteq> None)) \<or>
    (r = Ok () \<and> m (p @ [c]) = None \<and> fs_is q (m(p @ [c] \<mapsto> DirData)) t)"
proof (cases "fs_faults s (fs_tick s)")
  case None
  let ?p = "p @ [c]"
  have above: "dirs_above s ?p" using assms fs_is_above by blast
  have parent: "content_of s p = Some DirData" using assms(1,2) fs_is_content by (auto simp: dirs_in_snoc)
  obtain t' r' where run: "create ?p DirData (perm AND NOT (fs_umask s)) (step s) = (t', r')"
    by (cases "create ?p DirData (perm AND NOT (fs_umask s)) (step s)")
  have "fs_wf (step s)" using assms(1) fs_is_wf fs_is_step by blast
  from create_result [OF this run] parent
  have "(r' = Fail EEXIST \<and> t' = step s \<and> m ?p \<noteq> None) \<or>
    (\<exists>n. r' = Ok n \<and> m ?p = None \<and> content_of t' = m(?p \<mapsto> DirData) \<and> no_faults t' = no_faults s)"
    using fs_is_content [OF assms(1)] by (auto simp: fun_eq_iff)
  moreover have "Mkdir (abs_path ?p) perm s = (t', map_sum id (\<lambda>_. ()) r')"
    using None above run by (simp add: Mkdir_def sys_call_def with_path_abs)
  ultimately show ?thesis
    using assms(1,3) fs_is_change [OF assms(1) changes_keep_inv(5) assms(3)]
    by (auto simp: fs_is_def)
next
  case (Some k)
  with assms(1,3) show ?thesis by (auto simp: Mkdir_def sys_call_def) (auto simp: fs_is_def no_faults_def)
qed

lemma MkdirAll_abs:
  "MkdirAll ''/'' cs perm s =
     (case Stat (abs_path cs) s of
        (s1, Inr (_, i)) \<Rightarrow> (if in_content i = DirData then (s1, Ok ()) else (s1, Fail ENOTDIR))
      | (s1, Inl _) \<Rightarrow>
          (if cs = [] then (s1, Fail ENOENT)
           else case MkdirAll ''/'' (butlast cs) perm s1 of
             (s2, Inl e) \<Rightarrow> (s2, Fail e)
           | (s2, Inr _) \<Rightarrow>
               (case Mkdir (abs_path cs) perm s2 of
                  (s3, Inr _) \<Rightarrow> (s3, Ok ())
                | (s3, Inl e) \<Rightarrow>
                    (case Lstat (abs_path cs) s3 of
                       (s4, Inr (_, i)) \<Rightarrow> (if in_content i = DirData then (s4, Ok ()) else (s4, Fail e))
                     | (s4, Inl _) \<Rightarrow> (s4, Fail e)))))"
proof -
  have path: "abs_path cs = (if ''/'' = [] \<and> cs = [] then ''.'' else ''/'' @ joinWith slash cs)"
    by (simp add: abs_path_def)
  show ?thesis unfolding path by (subst MkdirAll.simps) (simp only: Let_def)
qed

lemma MkdirAll_outcome:
  "fs_is q m s \<Longrightarrow> dirs_in m p \<Longrightarrow> m p = None \<or> m p = Some DirData \<Longrightarrow>
     outcome q (MkdirAll ''/'' p perm) s (\<lambda>_. fs_is q (m(p \<mapsto> DirData)))"
proof (induction p arbitrary: s rule: rev_induct)
  case Nil
  have root: "m [] = Some DirData" using Nil.prems(1) by (rule fs_is_root)
  obtain t r where st: "Stat (abs_path []) s = (t, r)" by (cases "Stat (abs_path []) s")
  have "outcome q (MkdirAll ''/'' [] perm) s (\<lambda>_. fs_is q m)"
    using Stat_result [OF Nil.prems(1,2) _ st] st root
    by (subst outcome_def, subst MkdirAll_abs) auto
  with root show ?case by (simp add: fun_upd_idem)
next
  case (snoc c p)
  let ?p = "p @ [c]"
  from snoc.prems(2) have above: "dirs_in m p" "plain c" "m p = Some DirData" by (simp_all add: dirs_in_snoc)
  obtain s1 r1 where st: "Stat (abs_path ?p) s = (s1, r1)" by (cases "Stat (abs_path ?p) s")
  have link: "\<forall>x. m ?p \<noteq> Some (LinkData x)" using snoc.prems(3) by auto
  note st_res = Stat_result [OF snoc.prems(1,2) link st]
  from st_res(2) show ?case
  proof (elim disjE exE conjE)
    fix n i
    assume "r1 = Ok (n, i)" "m ?p = Some (in_content i)"
    with st st_res(1) snoc.prems(3) show ?thesis
      by (subst outcome_def, subst MkdirAll_abs) (auto simp: fun_upd_idem)
  next
    fix e
    assume e: "r1 = Fail e" "q \<longrightarrow> m ?p = None"
    have "outcome q (MkdirAll ''/'' p perm) s1 (\<lambda>_. fs_is q m)"
      using snoc.IH [OF st_res(1) above(1)] above(3) by (simp add: fun_upd_idem)
    then obtain s2 r2 where rec: "MkdirAll ''/'' p perm s1 = (s2, r2)"
      and s2: "(\<exists>e. r2 = Fail e) \<and> \<not> q \<or> r2 = Ok () \<and> fs_is q m s2"
      by (cases "MkdirAll ''/'' p perm s1") (auto simp: outcome_def split: sum.splits)
    obtain s3 r3 where mk: "Mkdir (abs_path ?p) perm s2 = (s3, r3)" by (cases "Mkdir (abs_path ?p) perm s2")
    obtain s4 r4 where ls: "Lstat (abs_path ?p) s3 = (s4, r4)" by (cases "Lstat (abs_path ?p) s3")
    have run: "MkdirAll ''/'' ?p perm s =
        (case r2 of Inl e \<Rightarrow> (s2, Fail e)
         | Inr _ \<Rightarrow> (case r3 of Inr _ \<Rightarrow> (s3, Ok ())
             | Inl e \<Rightarrow> (case r4 of Inr (_, i) \<Rightarrow> (if in_content i = DirData then (s4, Ok ()) else (s4, Fail e))
                        | Inl _ \<Rightarrow> (s4, Fail e))))"
      using st e rec mk ls by (subst MkdirAll_abs) simp
    from s2 show ?thesis
    proof (elim disjE conjE)
      assume "r2 = Ok ()" "fs_is q m s2"
      from Mkdir_result [OF this(2) snoc.prems(2) mk] show ?thesis
      proof (elim disjE conjE)
        assume r3: "\<exists>e. r3 = Fail e" and s3: "fs_is q m s3" and "q \<longrightarrow> m ?p \<noteq> None"
        with e(2) have nq: "\<not> q" by blast
        note ls_res = Lstat_result [OF s3 snoc.prems(2) ls]
        from r3 obtain x where "r3 = Fail x" ..
        with run \<open>r2 = Ok ()\<close> have run': "MkdirAll ''/'' ?p perm s =
            (case r4 of Inr (_, i) \<Rightarrow> (if in_content i = DirData then (s4, Ok ()) else (s4, Fail x))
             | Inl _ \<Rightarrow> (s4, Fail x))" by simp
        show ?thesis
        proof (cases r4)
          case (Inl y)
          with run' nq show ?thesis by (simp add: outcome_def)
        next
          case (Inr ni)
          obtain k i where "ni = (k, i)" by (cases ni)
          with Inr ls_res(2) have "m ?p = Some (in_content i)" by auto
          then have "in_content i = DirData \<Longrightarrow> m(?p \<mapsto> DirData) = m" by (intro fun_upd_idem) simp
          with run' nq ls_res(1) Inr \<open>ni = (k, i)\<close> show ?thesis
            by (cases "in_content i = DirData") (simp_all add: outcome_def del: fun_upd_apply)
        qed
      next
        assume "r3 = Ok ()" "fs_is q (m(?p \<mapsto> DirData)) s3"
        with run \<open>r2 = Ok ()\<close> show ?thesis by (simp add: outcome_def del: fun_upd_apply)
      qed
    next
      assume "\<exists>e. r2 = Fail e" "\<not> q"
      with run show ?thesis by (auto simp: outcome_def)
    qed
  qed
qed

lemma mkdir_all_outcome:
  "fs_is q m s \<Longrightarrow> dirs_in m p \<Longrightarrow> m p = None \<or> m p = Some DirData \<Longrightarrow>
     outcome q (mkdir_all (abs_path p)) s (\<lambda>_. fs_is q (m(p \<mapsto> DirData)))"
  using MkdirAll_outcome [of q m s p 493] by (simp add: mkdir_all_def path_comps_abs dirs_in_plain)

lemma mkdir_parent_outcome:
  assumes "fs_is q m s" and "dirs_in m (p @ [c])"
  shows "outcome q (mkdir_all (Dir (abs_path (p @ [c])))) s (\<lambda>_. fs_is q m)"
proof -
  from assms(2) have p: "dirs_in m p" "plain c" "m p = Some DirData" by (simp_all add: dirs_in_snoc)
  from Dir_abs [OF dirs_in_plain [OF p(1)] p(2)] mkdir_all_outcome [OF assms(1) p(1)] p(3)
  show ?thesis by (simp add: fun_upd_idem)
qed

section \<open>Attributes\<close>

lemma upd_outcome:
  assumes "fs_is q m s" and "dirs_in m p" and "m p \<noteq> None" and "follow \<longrightarrow> (\<forall>x. m p \<noteq> Some (LinkData x))"
    and "\<And>i. in_content (f i) = in_content i"
  shows "outcome q (sys_call (with_inode follow (abs_path p) (\<lambda>n s. (upd_inode n f s, Ok ())))) s (\<lambda>_. fs_is q m)"
proof -
  let ?call = "sys_call (with_inode follow (abs_path p) (\<lambda>n s. (upd_inode n f s, Ok ())))"
  have above: "dirs_above (step s) p" using assms(1,2) fs_is_above fs_is_step by blast
  have link: "follow \<longrightarrow> \<not> is_link (step s) p" using assms(4) fs_is_link [OF assms(1), of p] by simp
  obtain n where n: "ino_of (step s) p = Some n" using fs_is_ino [OF assms(1), of p] assms(3) by auto
  have "inv.keeps ?call"
    by (intro inv_sys_call inv_with_inode) (simp_all add: inv_upd_inode assms(5))
  then have "fs_inv (fst (?call s))" using assms(1) inv.keepsD [of ?call s] by (simp add: fs_is_def)
  then show ?thesis
    using assms(1) above link n upd_inode_content [OF assms(5)]
    by (auto simp: outcome_def sys_call_def with_inode_abs fs_is_def no_faults_def fun_eq_iff split: option.splits)
      (simp_all add: upd_inode_def step_def)
qed

lemma attr_outcomes:
  assumes "fs_is q m s" and "dirs_in m p" and "m p \<noteq> None"
  shows "\<forall>x. m p \<noteq> Some (LinkData x) \<Longrightarrow> outcome q (Chmod (abs_path p) perm) s (\<lambda>_. fs_is q m)"
    and "\<forall>x. m p \<noteq> Some (LinkData x) \<Longrightarrow> outcome q (Chtimes (abs_path p) t) s (\<lambda>_. fs_is q m)"
    and "outcome q (Lchown (abs_path p) uid gid) s (\<lambda>_. fs_is q m)"
  unfolding Chmod_def Chtimes_def Lchown_def
  by (rule upd_outcome [OF assms]; simp)+

lemma applyOwnership_outcome:
  assumes "fs_is q m s" and "dirs_in m p" and "m p \<noteq> None"
  shows "outcome q (applyOwnership (abs_path p) entry o' g) s (\<lambda>_. fs_is q m)"
  unfolding applyOwnership_def using assms
  by (auto intro!: outcome_ret outcome_bind [where P = "\<lambda>_. fs_is q m"] outcome_wrap attr_outcomes)

lemma ownership_step:
  assumes "dirs_in m p" and "m p \<noteq> None"
    and "outcome q (apply_first entry (abs_path p) opts) s (\<lambda>_. fs_is q m)"
  shows "outcome q (ApplyAttributes entry (abs_path p) opts) s (\<lambda>_. fs_is q m)"
  unfolding ApplyAttributes_def
proof (rule outcome_bind [OF assms(3)])
  fix result t
  assume t: "fs_is q m t"
  show "outcome q (if ao_Owner opts \<or> ao_Group opts
      then bind (applyOwnership (abs_path p) entry (ao_Owner opts) (ao_Group opts)) (\<lambda>(applied, skipped).
             ret (result\<lparr>OwnerApplied := applied, OwnerSkipped := skipped\<rparr>))
      else ret result) t (\<lambda>_. fs_is q m)"
    using t by (auto intro!: outcome_ret outcome_bind [OF applyOwnership_outcome [OF t assms(1,2)]] split: prod.split)
qed

lemma ApplyAttributes_outcome:
  assumes "fs_is q m s" and "dirs_in m p" and "m p \<noteq> None" and "\<forall>x. m p \<noteq> Some (LinkData x)"
    and "fe_Mode entry AND ModeSymlink = 0"
  shows "outcome q (ApplyAttributes entry (abs_path p) opts) s (\<lambda>_. fs_is q m)"
proof (rule ownership_step [OF assms(2,3)])
  show "outcome q (apply_first entry (abs_path p) opts) s (\<lambda>_. fs_is q m)"
    unfolding apply_first_def applyPerms_def applyTimes_def using assms
    by (auto intro!: outcome_ret outcome_bind [where P = "\<lambda>_. fs_is q m"] outcome_wrap attr_outcomes)
qed

section \<open>Removing, symbolic links, hard links\<close>

lemma Remove_result:
  assumes "fs_is q m s" and "dirs_in m p" and "m p \<noteq> Some DirData" and "Remove (abs_path p) s = (t, r)"
  shows "r = Ok () \<and> fs_is q (m(p := None)) t \<or> r = Fail ENOENT \<and> m p = None \<and> fs_is q m t
    \<or> r = Fail Fault \<and> \<not> q"
proof -
  have above: "dirs_above s p" using assms(1,2) fs_is_above by blast
  show ?thesis
  proof (cases "fs_faults s (fs_tick s)")
    case None
    have p: "content_of (step s) p = m p" using fs_is_content [OF assms(1)] by simp
    have run: "Remove (abs_path p) s = remove_at p (step s)"
      using None above by (simp add: Remove_def sys_call_def with_path_abs)
    show ?thesis
    proof (cases "m p")
      case None
      with run p assms(1,4) show ?thesis by (auto simp: remove_at_def)
    next
      case (Some c)
      with run p assms(3,4) have t: "t = del_name p (step s)" "r = Ok ()"
        by (auto simp: remove_at_def split: content.splits)
      moreover have "content_of t = m(p := None)"
        using t assms(1) by (auto simp: fun_eq_iff fs_is_def)
      moreover have "q \<longrightarrow> no_faults t" using t assms(1) by (simp add: fs_is_def)
      ultimately show ?thesis using fs_is_change [OF assms(1) changes_keep_inv(1) assms(4)] by blast
    qed
  next
    case (Some k)
    with assms(1,4) show ?thesis by (auto simp: Remove_def sys_call_def fs_is_def no_faults_def)
  qed
qed

lemma Symlink_outcome:
  assumes "fs_is q m s" and "dirs_in m (p @ [c])" and "m (p @ [c]) = None"
  shows "outcome q (Symlink target (abs_path (p @ [c]))) s (\<lambda>_. fs_is q (m(p @ [c] \<mapsto> LinkData target)))"
proof (rule outcomeI)
  let ?p = "p @ [c]"
  fix t x
  obtain t' r' where run: "create ?p (LinkData target) 511 (step s) = (t', r')"
    by (cases "create ?p (LinkData target) 511 (step s)")
  have "fs_wf (step s)" using assms(1) fs_is_wf fs_is_step by blast
  note made = create_result [OF this run]
  have above: "dirs_above s ?p" "content_of s p = Some DirData"
    using assms(1,2) fs_is_above fs_is_content by (auto simp: dirs_in_snoc)
  have call: "Symlink target (abs_path ?p) s = (t', map_sum id (\<lambda>_. ()) r')" if "fs_faults s (fs_tick s) = None"
    using that above run by (simp add: Symlink_def sys_call_def with_path_abs)
  have fault: "Symlink target (abs_path ?p) s = (step s, Fail Fault)" "\<not> q" if "fs_faults s (fs_tick s) = Some k" for k
    using that assms(1) by (auto simp: Symlink_def sys_call_def fs_is_def no_faults_def)
  have none: "content_of (step s) ?p = None" using fs_is_content [OF assms(1)] assms(3) by simp
  { fix e assume "Symlink target (abs_path ?p) s = (t, Fail e)"
    with call fault made above none show "\<not> q"
      by (cases "fs_faults s (fs_tick s)"; cases r') auto }
  { assume r: "Symlink target (abs_path ?p) s = (t, Ok x)"
    with fault have nf: "fs_faults s (fs_tick s) = None" by (cases "fs_faults s (fs_tick s)") auto
    with r call obtain n where "r' = Ok n" "t' = t" by (cases r') auto
    with made have "content_of t = (content_of s)(?p \<mapsto> LinkData target)" "no_faults t = no_faults s"
      by (auto simp: fun_eq_iff)
    with assms(1) show "fs_is q (m(?p \<mapsto> LinkData target)) t"
      by (intro fs_is_change [OF assms(1) changes_keep_inv(4) r]) (simp_all add: fs_is_def) }
qed

lemma applySymlink_outcome:
  assumes "fs_is q m s" and "dirs_in m (p @ [c])" and "m (p @ [c]) \<noteq> Some DirData"
    and "fe_Mode entry AND ModeSymlink \<noteq> 0" and "fe_LinkTarget entry \<noteq> []"
  shows "outcome q (applySymlink (abs_path (p @ [c])) entry) s
    (\<lambda>_. fs_is q (m(p @ [c] \<mapsto> LinkData (fe_LinkTarget entry))))"
proof -
  let ?p = "p @ [c]"
  obtain t r where run: "Remove (abs_path ?p) s = (t, r)" by (cases "Remove (abs_path ?p) s")
  have made: "outcome q (Symlink (fe_LinkTarget entry) (abs_path ?p)) t
      (\<lambda>_. fs_is q (m(?p \<mapsto> LinkData (fe_LinkTarget entry))))"
    if "fs_is q (m(?p := None)) t"
    using Symlink_outcome [OF that, of p c "fe_LinkTarget entry"] assms(2) by simp
  have "fs_is q (m(?p := None)) t \<and> (r = Ok () \<or> r = Fail ENOENT) \<or> r = Fail Fault \<and> \<not> q"
    using Remove_result [OF assms(1-3) run] by (auto simp: fun_upd_idem)
  then show ?thesis
    using made run assms(4,5)
    by (auto simp: applySymlink_def outcome_def bind_def attempt_run throw_def wrap_err_def split: prod.splits sum.splits)
qed

lemma ApplyAttributes_symlink_outcome:
  assumes "fs_is q m s" and "dirs_in m (p @ [c])" and "m (p @ [c]) \<noteq> Some DirData"
    and "fe_Mode entry AND ModeSymlink \<noteq> 0" and "fe_LinkTarget entry \<noteq> []" and "ao_Links opts"
  shows "outcome q (ApplyAttributes entry (abs_path (p @ [c])) opts) s
    (\<lambda>_. fs_is q (m(p @ [c] \<mapsto> LinkData (fe_LinkTarget entry))))"
proof (rule ownership_step)
  show "outcome q (apply_first entry (abs_path (p @ [c])) opts) s
    (\<lambda>_. fs_is q (m(p @ [c] \<mapsto> LinkData (fe_LinkTarget entry))))"
    unfolding apply_first_def using assms
    by (auto intro!: outcome_ret outcome_bind [OF applySymlink_outcome])
qed (use assms(2) in simp_all)

section \<open>Replacing a file\<close>

lemma abandon_fails: "\<exists>t e. abandonOrKeep tmp dest ropts path err s = (t, Fail e)"
  unfolding abandonOrKeep_def
  by (auto simp: Let_def bind_def ignoring_run attempt_run throw_def split: sum.split prod.split)

text \<open>No name of the tree looks like one of the receiver's temporary files.\<close>

definition no_temps :: "contents \<Rightarrow> fpath \<Rightarrow> string \<Rightarrow> bool" where
  "no_temps m D b \<longleftrightarrow> (\<forall>r. m (D @ [temp_component b r]) = None)"

lemma fs_is_target:
  assumes "fs_is q m s" and "dirs_in m (D @ [b])" and "m (D @ [b]) \<noteq> Some DirData"
  shows "file_target s D b"
  using assms fs_is_wf [OF assms(1)] fs_is_content [OF assms(1)]
  by (auto simp: file_target_def dirs_in_snoc dirs_in_plain)

lemma Write_quiet: "no_faults s \<Longrightarrow> \<exists>t. Write n d s = (t, length d, None) \<and> no_faults t"
  by (simp add: Write_def no_faults_def upd_inode_def step_def)

lemma write_chunks_quiet: "no_faults s \<Longrightarrow> \<exists>t. write_chunks n d s = (t, None) \<and> no_faults t"
proof (induction n d s rule: write_chunks.induct)
  case (1 n d s)
  show ?case
  proof (cases "d = []")
    case False
    from Write_quiet [OF "1.prems"] obtain t
      where w: "Write n (take progressWriteChunkSize d) s = (t, length (take progressWriteChunkSize d), None)"
        and t: "no_faults t" by blast
    from "1.IH" [OF False w [symmetric] refl refl t] write_chunks_step [OF False w] show ?thesis by simp
  qed (use 1 in \<open>simp add: write_chunks_Nil\<close>)
qed

lemma writeToTempFile_quiet:
  assumes "file_target s D b" and "no_faults s"
    and "ino_of s (D @ [temp_component b (fs_random s (fs_tick s))]) = None"
    and "writeToTempFileWithProgress (abs_path (D @ [b])) data progress s = (s1, tmp, err)"
  shows "err = None \<and> no_faults s1"
proof -
  obtain s2 n where c: "createTempFile (abs_path (D @ [b])) s
      = (s2, Ok (abs_path (D @ [temp_component b (fs_random s (fs_tick s))]), n))" and nf: "no_faults s2"
    by (rule createTempFile_ok [OF assms(1-3)])
  from Write_quiet [OF nf, of n data] write_chunks_quiet [OF nf, of n data] c assms(4) show ?thesis
    by (auto simp: writeToTempFileWithProgress_def split: if_splits)
qed

lemma Rename_quiet:
  assumes "temp_at s0 s p n d" and "no_faults s" and "dirs_above s0 p" and "dirs_above s0 q" and "p \<noteq> q"
    and "\<not> strict_prefix p q" and "q \<noteq> []" and "content_of s0 q \<noteq> Some DirData"
  shows "\<exists>t. Rename (abs_path p) (abs_path q) s = (t, Ok ()) \<and> no_faults t"
proof -
  have above: "dirs_above (step s) p" "dirs_above (step s) q"
    using temp_at_dirs [OF assms(1,3)] temp_at_dirs [OF assms(1,4,6)] by simp_all
  have p: "ino_of s p = Some n" "content_of s p = Some (FileData d)" using assms(1) by (simp_all add: temp_at_def)
  have q: "content_of s q \<noteq> Some DirData" "ino_of s q \<noteq> Some n"
    using assms(1,5,8) temp_at_other [OF assms(1), of q] by (auto simp: temp_at_def)
  have parent: "content_of s (butlast q) = Some DirData"
    using dirs_above_butlast [OF above(2) assms(7)] by simp
  have "rename_at p q (step s) = (add_name q n (del_name p (step s)), Ok ())"
    using p q parent by (simp add: rename_at_def)
  then show ?thesis
    using assms(2) above by (simp add: Rename_def sys_call_ok with_path_abs)
qed

lemma replace_file_outcome:
  assumes "fs_is q m s" and "dirs_in m (D @ [b])" and "m (D @ [b]) \<noteq> Some DirData" and "q \<longrightarrow> no_temps m D b"
  shows "outcome q (replace_file (abs_path (D @ [b])) data progress ropts relPath False) s
    (\<lambda>_. fs_is q (m(D @ [b] \<mapsto> FileData data)))"
proof -
  let ?dest = "abs_path (D @ [b])"
  note target = fs_is_target [OF assms(1-3)]
  obtain s1 tmp err where w: "writeToTempFileWithProgress ?dest data progress s = (s1, tmp, err)"
    by (cases "writeToTempFileWithProgress ?dest data progress s")
  obtain t r where run: "replace_file ?dest data progress ropts relPath False s = (t, r)"
    by (cases "replace_file ?dest data progress ropts relPath False s")
  with w have fin: "finishRegularFileWrite tmp ?dest err ropts relPath False s1 = (t, r)" by (simp add: replace_file_def)
  have quiet: "err = None \<and> no_faults s1" if q
  proof (rule writeToTempFile_quiet [OF target _ _ w])
    from that assms(1) show "no_faults s" by (simp add: fs_is_def)
    from that assms(4) show "ino_of s (D @ [temp_component b (fs_random s (fs_tick s))]) = None"
      by (simp add: no_temps_def fs_is_ino [OF assms(1)])
  qed
  show ?thesis
  proof (cases err)
    case (Some e)
    with fin abandon_fails [of tmp ?dest ropts relPath e s1] obtain e' where "r = Fail e'"
      by (auto simp: finishRegularFileWrite_def)
    with run Some quiet show ?thesis by (auto simp: outcome_def)
  next
    case None
    with writeToTempFile_cases [OF target w] obtain x n
      where tmp: "tmp = abs_path (D @ [temp_component b x])"
        and temp: "temp_at s s1 (D @ [temp_component b x]) n data" by auto
    obtain s2 r2 where ren: "Rename tmp ?dest s1 = (s2, r2)" by (cases "Rename tmp ?dest s1")
    have plain: "plain b" "plain (temp_component b x)" using target by (simp_all add: file_target_def plain_temp)
    note aboves = file_target_above [OF target plain(2)] file_target_above [OF target plain(1)]
    have neq: "D @ [temp_component b x] \<noteq> D @ [b]" "\<not> strict_prefix (D @ [temp_component b x]) (D @ [b])"
      using temp_component_neq [of b x] by (auto simp: strict_prefix_def)
    from Rename_temp_cases [OF temp aboves neq ren [unfolded tmp]] show ?thesis
    proof (elim disjE exE conjE)
      fix e
      assume r2: "r2 = Fail e"
      have "\<not> q"
      proof
        assume q
        have "content_of s (D @ [b]) \<noteq> Some DirData" using target by (simp add: file_target_def)
        with Rename_quiet [OF temp _ aboves neq] quiet [OF \<open>q\<close>] ren tmp r2 show False by auto
      qed
      moreover from fin None ren r2 abandon_fails [of tmp ?dest ropts relPath "RenameFailed e" s2]
      obtain e' where "r = Fail e'" by (auto simp: finishRegularFileWrite_def bind_def attempt_run)
      ultimately show ?thesis using run by (simp add: outcome_def)
    next
      assume r2: "r2 = Ok ()" and cont: "content_of s2 = (content_of s)(D @ [b] \<mapsto> FileData data)"
      with fin None ren have t: "t = s2" "r = Ok ()"
        by (simp_all add: finishRegularFileWrite_def bind_def attempt_run ret_def)
      have "no_faults s2" if q
      proof -
        have "content_of s (D @ [b]) \<noteq> Some DirData" using target by (simp add: file_target_def)
        with Rename_quiet [OF temp _ aboves neq] quiet [OF that] ren tmp show ?thesis by auto
      qed
      with cont t assms(1) have "fs_is q (m(D @ [b] \<mapsto> FileData data)) t"
        by (intro fs_is_change [OF assms(1) replace_file_keeps_inv run]) (simp_all add: fs_is_def)
      with run t show ?thesis by (simp add: outcome_def)
    qed
  qed
qed

section \<open>Hard links\<close>

lemma Link_outcome:
  assumes "fs_is q m s" and "dirs_in m p" and "dirs_in m (p' @ [c])" and "m (p' @ [c]) = None"
    and "m p = Some (FileData d)"
  shows "outcome q (Link (abs_path p) (abs_path (p' @ [c]))) s (\<lambda>_. fs_is q (m(p' @ [c] \<mapsto> FileData d)))"
proof (cases "fs_faults s (fs_tick s)")
  case None
  let ?q = "p' @ [c]"
  obtain n where n: "ino_of s p = Some n" using assms(5) fs_is_ino [OF assms(1), of p] by auto
  then have cont: "in_content (fs_inodes s n) = FileData d" using fs_is_inode [OF assms(1) n] assms(5) by simp
  have above: "dirs_above s p" "dirs_above s ?q" using assms(1-3) fs_is_above by blast+
  have free: "ino_of s ?q = None" "content_of s p' = Some DirData" "content_of s p = Some (FileData d)"
    using assms fs_is_ino [OF assms(1)] fs_is_content [OF assms(1)] by (auto simp: dirs_in_snoc)
  have run: "Link (abs_path p) (abs_path ?q) s = (add_name ?q n (step s), Ok ())"
    using None n above free by (simp add: Link_def sys_call_def with_path_abs)
  have "fs_is q (m(?q \<mapsto> FileData d)) (add_name ?q n (step s))"
    using assms(1) cont
    by (intro fs_is_change [OF assms(1) changes_keep_inv(3) run]) (auto simp: fs_is_def fun_eq_iff)
  with run show ?thesis by (simp add: outcome_def)
next
  case (Some k)
  with assms(1) show ?thesis by (auto simp: outcome_def Link_def sys_call_def fs_is_def no_faults_def)
qed

lemma apply_link_outcome:
  assumes "fs_is q m s" and "dirs_in m (D @ f)" and "dirs_in m (D @ r @ [c])" and "m (D @ f) = Some (FileData d)"
    and "m (D @ r @ [c]) \<noteq> Some DirData" and "f \<noteq> r @ [c]" and "f \<noteq> []"
  shows "outcome q (apply_link (abs_path D) (rel_path f) (rel_path (r @ [c]))) s
    (\<lambda>_. fs_is q (m(D @ r @ [c] \<mapsto> FileData d)))"
proof -
  let ?p = "D @ r @ [c]"
  have plain: "list_all plain D" "list_all plain f" "list_all plain (r @ [c])"
    using dirs_in_plain [OF assms(2)] dirs_in_plain [OF assms(3)] by simp_all
  have paths: "Join (abs_path D) (rel_path f) = abs_path (D @ f)" "Join (abs_path D) (rel_path (r @ [c])) = abs_path ?p"
    using plain assms(7) by (simp_all add: Join_abs_rel del: list_all_append)
  have above: "dirs_in m ((D @ r) @ [c])" using assms(3) by simp
  have made: "outcome q (Link (abs_path (D @ f)) (abs_path ?p)) t (\<lambda>_. fs_is q (m(?p \<mapsto> FileData d)))"
    if "fs_is q (m(?p := None)) t" for t
  proof -
    have "dirs_in (m(?p := None)) (D @ f)"
      using assms(2,3,5) by (auto simp: dirs_in_def list_all_iff)
    moreover have "dirs_in (m(?p := None)) ((D @ r) @ [c])" using above by (simp only: append_assoc dirs_in_upd)
    ultimately show ?thesis
      using Link_outcome [OF that, of "D @ f" "D @ r" c d] assms(4,6) by simp
  qed
  show ?thesis
    unfolding apply_link_def Let_def paths
  proof (rule outcome_bind [OF outcome_wrap])
    show "outcome q (mkdir_all (Dir (abs_path ?p))) s (\<lambda>_. fs_is q m)"
      using mkdir_parent_outcome [OF assms(1) above] by simp
  next
    fix u t
    assume t: "fs_is q m t"
    obtain t' x where run: "Remove (abs_path ?p) t = (t', x)" by (cases "Remove (abs_path ?p) t")
    have "fs_is q (m(?p := None)) t' \<and> (x = Ok () \<or> x = Fail ENOENT) \<or> x = Fail Fault \<and> \<not> q"
      using Remove_result [OF t assms(3,5) run] by (auto simp: fun_upd_idem)
    then show "outcome q (bind (attempt (Remove (abs_path ?p))) (\<lambda>x.
        case x of
          Inl e \<Rightarrow> if e = ENOENT then wrap_err (LinkFailed (rel_path (r @ [c])) (rel_path f)) (Link (abs_path (D @ f)) (abs_path ?p))
                   else throw (UnlinkFailed (abs_path ?p) e)
        | Inr _ \<Rightarrow> wrap_err (LinkFailed (rel_path (r @ [c])) (rel_path f)) (Link (abs_path (D @ f)) (abs_path ?p)))) t
      (\<lambda>_. fs_is q (m(?p \<mapsto> FileData d)))"
      using made [of t'] run
      by (auto simp: outcome_def bind_def attempt_run throw_def wrap_err_def split: prod.splits sum.splits)
  qed
qed

end
