(* ===== verification/Session.thy ===== *)
theory Session
  imports Effects Sender
begin

unbundle bit_operations_syntax

text \<open>
  What one sync does, end to end: the contents of the destination after each entry and the bytes each
  side writes, computed from the source data (\<open>session\<close>), and the proofs that \<open>Receiver\<close> and \<open>Sender\<close>
  do exactly that. The streams are tied as the two processes tie them: what one side has written is
  what the other reads.
\<close>

section \<open>The receiver's state\<close>

definition at :: "bool \<Rightarrow> contents \<Rightarrow> bytes \<Rightarrow> bytes \<Rightarrow> receiveState \<Rightarrow> bool" where
  "at q m i o' s \<longleftrightarrow> fs_is q m (rs_fs s) \<and> crw_rw (rs_conn s) = \<lparr>c_in = i, c_out = open_writer o'\<rparr>"

lemma on_fs_outcome:
  assumes "at q m i o' s" and "outcome q f (rs_fs s) (\<lambda>x t. R x \<and> fs_is q m' t)"
  shows "outcome q (on_fs err f) s (\<lambda>x t. R x \<and> at q m' i o' t)"
  using assms unfolding on_fs_def by (intro outcome_part [OF outcome_wrap]) (auto simp: at_def)

lemma on_fs_outcome':
  assumes "at q m i o' s" and "outcome q f (rs_fs s) (\<lambda>_. fs_is q m')"
  shows "outcome q (on_fs err f) s (\<lambda>_. at q m' i o')"
  using on_fs_outcome [OF assms(1), of f "\<lambda>_. True" m' err] assms(2) by simp

lemma on_conn_outcome:
  assumes "at q m i o' s" and "f \<lparr>c_in = i, c_out = open_writer o'\<rparr> = (\<lparr>c_in = i', c_out = open_writer o''\<rparr>, Ok x)"
  shows "outcome q (on_conn err f) s (\<lambda>y t. y = x \<and> at q m i' o'' t)"
  using assms by (simp add: outcome_def on_conn_run counted_def at_def)

lemma at_other [simp]:
  "at q m i o' (s\<lparr>rs_stats := a\<rparr>) = at q m i o' s" "at q m i o' (s\<lparr>rs_out := b\<rparr>) = at q m i o' s"
  "at q m i o' (s\<lparr>rs_processed := c\<rparr>) = at q m i o' s" "at q m i o' (s\<lparr>rs_xferNum := c\<rparr>) = at q m i o' s"
  by (simp_all add: at_def)

lemma report_outcome: "at q m i o' s \<Longrightarrow> outcome q (report ropts code entry) s (\<lambda>_. at q m i o')"
  by (simp add: report_def outcome_modify)

lemma count_outcome: "at q m i o' s \<Longrightarrow> outcome q (count ropts f) s (\<lambda>_. at q m i o')"
  by (simp add: count_def outcome_modify outcome_ret)

section \<open>One entry\<close>

definition comps :: "fileEntry \<Rightarrow> fpath" where
  "comps e = path_comps (fe_Path e)"

definition exchanges :: "hardLinkGroup list \<Rightarrow> fileEntry \<Rightarrow> bool" where
  "exchanges groups e \<longleftrightarrow>
     \<not> fe_IsDir e \<and> fe_Mode e AND ModeSymlink = 0 \<and> \<not> List.member (secondary_paths groups) (fe_Path e)"

text \<open>The signature the receiver sends, the sender's answer to it, and the data that results.\<close>

definition plan :: "'h env \<Rightarrow> receiverOptions \<Rightarrow> content option \<Rightarrow> fileEntry \<Rightarrow> 'h signature \<times> appendAction" where
  "plan env ropts c e = sign_plan (env_strong env) ropts (c \<noteq> None) (data_of c) e"

definition reply :: "'h env \<Rightarrow> string \<Rightarrow> 'h signature \<times> appendAction \<Rightarrow> bytes \<Rightarrow> deltaOp list" where
  "reply env path = (\<lambda>(sig, act) new.
     if act = appendSkip then []
     else case sender_ops (env_strong env) path \<lparr>sm_Path = path, sm_Sig = sig, sm_Append = act\<rparr> new of
            Inl e \<Rightarrow> [] | Inr ops \<Rightarrow> ops)"

definition result_bytes :: "receiverOptions \<Rightarrow> content option \<Rightarrow> fileEntry \<Rightarrow> bytes \<Rightarrow> bytes" where
  "result_bytes ropts c e new =
     (if \<not> AppendMode ropts \<or> c = None then new
      else if int (length (data_of c)) \<ge> fe_Size e then data_of c
      else if ro_AppendVerify ropts then new
      else data_of c @ drop (length (data_of c)) new)"

definition entry_effect ::
  "attrOptions \<Rightarrow> receiverOptions \<Rightarrow> hardLinkGroup list \<Rightarrow> (string \<Rightarrow> bytes) \<Rightarrow> fpath \<Rightarrow> fileEntry \<Rightarrow> contents \<Rightarrow> contents" where
  "entry_effect attrOpts ropts groups src D e m =
     (let p = D @ comps e in
      if fe_IsDir e then m(p \<mapsto> DirData)
      else if fe_Mode e AND ModeSymlink \<noteq> 0
      then (if ao_Links attrOpts then m(p \<mapsto> LinkData (fe_LinkTarget e)) else m)
      else if exchanges groups e then m(p \<mapsto> FileData (result_bytes ropts (m p) e (src (fe_Path e)))) else m)"

definition entry_out ::
  "'h env \<Rightarrow> receiverOptions \<Rightarrow> hardLinkGroup list \<Rightarrow> fpath \<Rightarrow> contents \<Rightarrow> fileEntry \<Rightarrow> bytes" where
  "entry_out env ropts groups D m e =
     (if exchanges groups e
      then (case plan env ropts (m (D @ comps e)) e of (sig, act) \<Rightarrow> signature_bytes (env_gob env) (fe_Path e) sig act)
      else [])"

definition entry_in ::
  "'h env \<Rightarrow> compressOptions \<Rightarrow> receiverOptions \<Rightarrow> hardLinkGroup list \<Rightarrow> (string \<Rightarrow> bytes) \<Rightarrow> fpath \<Rightarrow> contents \<Rightarrow>
     fileEntry \<Rightarrow> bytes" where
  "entry_in env copts ropts groups src D m e =
     (if exchanges groups e
      then delta_bytes (env_gob env) (env_deflate env) (fe_Path e)
             (reply env (fe_Path e) (plan env ropts (m (D @ comps e)) e) (src (fe_Path e))) copts
      else [])"

text \<open>
  What an entry asks of the destination: its path is relative and its parents are directories there, the
  name is free or of the same type, the messages fit their frames, and the strong checksum tells the
  blocks of the old file from the windows of the new one.
\<close>

definition file_ok ::
  "'h env \<Rightarrow> compressOptions \<Rightarrow> receiverOptions \<Rightarrow> content option \<Rightarrow> fileEntry \<Rightarrow> bytes \<Rightarrow> bool" where
  "file_ok env copts ropts c e new \<longleftrightarrow>
     (c = None \<or> c = Some (FileData (data_of c))) \<and> fe_Size e = int (length new) \<and>
     int (length new) < 2 ^ 63 \<and> int (length (data_of c)) + DefaultBlockSize < 2 ^ 63 \<and>
     strong_separates (env_strong env) (data_of c) DefaultBlockSize new \<and>
     (case plan env ropts c e of (sig, act) \<Rightarrow>
        payload_fits (encSignature (env_gob env) \<lparr>sm_Path = fe_Path e, sm_Sig = sig, sm_Append = act\<rparr>) \<and>
        payload_fits (encDelta (env_gob env)
          (delta_message (env_deflate env) (fe_Path e) (reply env (fe_Path e) (sig, act) new) copts)))"

definition entry_ok ::
  "bool \<Rightarrow> 'h env \<Rightarrow> compressOptions \<Rightarrow> attrOptions \<Rightarrow> receiverOptions \<Rightarrow> hardLinkGroup list \<Rightarrow> (string \<Rightarrow> bytes) \<Rightarrow>
     fpath \<Rightarrow> contents \<Rightarrow> fileEntry \<Rightarrow> bool" where
  "entry_ok q env copts attrOpts ropts groups src D m e \<longleftrightarrow>
     (let p = D @ comps e in
      comps e \<noteq> [] \<and> fe_Path e = rel_path (comps e) \<and> dirs_in m p \<and>
      (fe_IsDir e \<longrightarrow> fe_Mode e AND ModeSymlink = 0 \<and> (m p = None \<or> m p = Some DirData)) \<and>
      (\<not> fe_IsDir e \<and> fe_Mode e AND ModeSymlink \<noteq> 0 \<and> ao_Links attrOpts \<longrightarrow>
         m p \<noteq> Some DirData \<and> fe_LinkTarget e \<noteq> []) \<and>
      (exchanges groups e \<longrightarrow> file_ok env copts ropts (m p) e (src (fe_Path e)) \<and>
         (q \<longrightarrow> no_temps m (D @ butlast (comps e)) (last (comps e)))))"

section \<open>The data of one file\<close>

lemma append_actions_distinct [simp]:
  "appendTail \<noteq> appendNone" "appendSkip \<noteq> appendNone" "appendSkip \<noteq> appendTail"
  "appendNone \<noteq> appendTail" "appendNone \<noteq> appendSkip" "appendTail \<noteq> appendSkip"
  by (simp_all add: append_actions)

lemma ApplyDelta_tail:
  assumes "int (length old) < 2 ^ 63" and "old \<noteq> []"
  shows "ApplyDelta old ([CopyOp 0] @ data_op tail) \<lparr>sig_BlockSize = int (length old), sig_Blocks = []\<rparr>
    = Ok (old @ tail)"
proof -
  from assms have "fits64 (int (length old))" "fits64 (0 :: int)" by (simp_all add: fits64_def)
  with assms show ?thesis
    by (cases "tail = []") (simp_all add: ApplyDelta_def data_op_def Let_def go_slice_def wrap64_id)
qed

lemma appendTailOps_conv:
  "length old \<le> length new \<Longrightarrow> appendTailOps path (int (length old)) new
     = Ok ((if old \<noteq> [] then [CopyOp 0] else []) @ data_op (drop (length old) new))"
  by (auto simp: appendTailOps_def Let_def data_op_def)

lemma tail_data:
  assumes "int (length old) < 2 ^ 63"
  shows "ApplyDelta old ((if old \<noteq> [] then [CopyOp 0] else []) @ data_op (drop (length old) new))
      \<lparr>sig_BlockSize = int (length old), sig_Blocks = []\<rparr> = Ok (old @ drop (length old) new)"
proof (cases "old = []")
  case True
  then show ?thesis by (simp add: ApplyDelta_def data_op_def)
next
  case False
  with ApplyDelta_tail [OF assms False] show ?thesis by simp
qed

lemma ApplyDelta_whole:
  assumes "strong_separates strong old DefaultBlockSize new" and "int (length old) + DefaultBlockSize < 2 ^ 63"
  shows "ApplyDelta old (GenerateDelta strong (GenerateSignature strong old) new) (GenerateSignature strong old) = Ok new"
  using ApplyDelta_generated [OF assms(2) refl, where strong = strong and d = new] reconstruct [OF assms(1) refl]
  by (simp add: GenerateSignature_def)

lemma literal_le:
  "length (concat (map literal_bytes (GenerateDelta strong sig new))) \<le> length new"
proof -
  have "length (concat (map literal_bytes ops)) = sum_list (map literal_length ops)" for ops
  proof (induction ops)
    case (Cons oper ops)
    then show ?case by (cases oper) simp_all
  qed simp
  moreover have "sum_list (map literal_length (GenerateDelta strong sig new)) \<le> length new"
    using naive_delta_length [of strong sig new 0 "[]" "[]"] by (simp add: GenerateDelta_naive)
  ultimately show ?thesis by simp
qed

text \<open>The delta that is sent, applied to the basis, gives the expected data, and its literals are no longer than the file.\<close>

lemma plan_data:
  assumes ok: "file_ok env copts ropts c e new" and plan: "plan env ropts c e = (sig, act)"
  shows "new_data act (data_of c) (reply env path (sig, act) new) sig = Ok (result_bytes ropts c e new)"
    and "int (length (concat (map literal_bytes (reply env path (sig, act) new)))) < 2 ^ 63"
    and "act = appendSkip \<Longrightarrow> c \<noteq> None"
    and "act = appendSkip \<or> sender_ops (env_strong env) path \<lparr>sm_Path = path, sm_Sig = sig, sm_Append = act\<rparr> new
      = Ok (reply env path (sig, act) new)"
proof -
  let ?old = "data_of c"
  let ?goal = "new_data act ?old (reply env path (sig, act) new) sig = Ok (result_bytes ropts c e new) \<and>
    length (concat (map literal_bytes (reply env path (sig, act) new))) \<le> length new \<and>
    (act = appendSkip \<longrightarrow> c \<noteq> None) \<and>
    (act = appendSkip \<or> sender_ops (env_strong env) path \<lparr>sm_Path = path, sm_Sig = sig, sm_Append = act\<rparr> new
      = Ok (reply env path (sig, act) new))"
  from ok have size: "fe_Size e = int (length new)" "int (length new) < 2 ^ 63"
      "int (length ?old) + DefaultBlockSize < 2 ^ 63"
      "strong_separates (env_strong env) ?old DefaultBlockSize new"
    by (simp_all add: file_ok_def)
  have len: "int (length ?old) < 2 ^ 63" using size(3) by (simp add: DefaultBlockSize_def)
  have whole: ?goal if "(sig, act) = (GenerateSignature (env_strong env) ?old, appendNone)"
      "result_bytes ropts c e new = new"
    using that ApplyDelta_whole [OF size(4,3)] literal_le [where strong = "env_strong env" and sig = sig and new = new]
    by (auto simp: new_data_def reply_def sender_ops_def)
  have ?goal
  proof (cases "\<not> AppendMode ropts \<or> c = None")
    case True
    with plan show ?thesis by (intro whole) (auto simp: plan_def sign_plan_def result_bytes_def)
  next
    case False
    show ?thesis
    proof (cases "int (length ?old) \<ge> fe_Size e")
      case True
      with False plan show ?thesis
        by (auto simp: plan_def sign_plan_def result_bytes_def new_data_def reply_def)
    next
      case short: False
      show ?thesis
      proof (cases "ro_AppendVerify ropts")
        case True
        with False short plan show ?thesis
          by (intro whole) (auto simp: plan_def sign_plan_def result_bytes_def)
      next
        case noverify: False
        with False short plan have sig: "sig = \<lparr>sig_BlockSize = int (length ?old), sig_Blocks = []\<rparr>"
          and act: "act = appendTail" by (auto simp: plan_def sign_plan_def)
        have "length ?old \<le> length new" using short size(1) by simp
        then have ops: "reply env path (sig, act) new
            = (if ?old \<noteq> [] then [CopyOp 0] else []) @ data_op (drop (length ?old) new)"
          and "sender_ops (env_strong env) path \<lparr>sm_Path = path, sm_Sig = sig, sm_Append = act\<rparr> new
            = Ok (reply env path (sig, act) new)"
          by (simp_all add: reply_def sender_ops_def act sig appendTailOps_conv)
        moreover have "length (concat (map literal_bytes (reply env path (sig, act) new))) \<le> length new"
          unfolding ops by (simp add: data_op_def)
        moreover have "result_bytes ropts c e new = ?old @ drop (length ?old) new"
          using False short noverify by (auto simp: result_bytes_def)
        ultimately show ?thesis
          using tail_data [OF len, of new] False by (simp add: new_data_def act sig)
      qed
    qed
  qed
  with size(2) show "new_data act ?old (reply env path (sig, act) new) sig = Ok (result_bytes ropts c e new)"
    and "int (length (concat (map literal_bytes (reply env path (sig, act) new)))) < 2 ^ 63"
    and "act = appendSkip \<Longrightarrow> c \<noteq> None"
    and "act = appendSkip \<or> sender_ops (env_strong env) path \<lparr>sm_Path = path, sm_Sig = sig, sm_Append = act\<rparr> new
      = Ok (reply env path (sig, act) new)"
    by auto
qed

section \<open>The receiver on one entry\<close>

lemma write_regular_outcome:
  assumes "at q m i o' s" and "dirs_in m (p @ [b])" and "m (p @ [b]) = None \<or> m (p @ [b]) = Some (FileData old)"
    and "q \<longrightarrow> no_temps m p b" and "fe_Mode e AND ModeSymlink = 0"
    and "\<not> transferred \<Longrightarrow> m (p @ [b]) = Some (FileData data)"
  shows "outcome q (write_regular attrOpts ropts (abs_path (p @ [b])) e data transferred False) s
    (\<lambda>_. at q (m(p @ [b] \<mapsto> FileData data)) i o')"
proof -
  let ?p = "p @ [b]"
  have attrs: "outcome q (bind (on_fs (ApplyingAttributes (fe_Path e)) (ApplyAttributes e (abs_path ?p) attrOpts)) (\<lambda>_. skip)) t
      (\<lambda>_. at q (m(?p \<mapsto> FileData data)) i o')" if "at q (m(?p \<mapsto> FileData data)) i o' t" for t
    using that assms(2,5)
    by (intro outcome_bind [OF on_fs_outcome' [OF that ApplyAttributes_outcome]] outcome_ret)
      (auto simp: at_def simp del: fun_upd_apply simp add: fun_upd_same)
  show ?thesis
    unfolding write_regular_def
  proof (rule outcome_bind [OF on_fs_outcome' [OF assms(1)]])
    show "outcome q (mkdir_all (Dir (abs_path ?p))) (rs_fs s) (\<lambda>_. fs_is q m)"
      using mkdir_parent_outcome assms(1,2) by (simp add: at_def)
  next
    fix u t
    assume t: "at q m i o' t"
    show "outcome q (seq (if transferred
          then seq (modify (\<lambda>s. s\<lparr>rs_xferNum := rs_xferNum s + 1\<rparr>))
                   (on_fs (WritingFile (fe_Path e)) (replace_file (abs_path ?p) data (ro_Progress ropts) ropts (fe_Path e) False))
          else skip)
         (bind (on_fs (ApplyingAttributes (fe_Path e)) (ApplyAttributes e (abs_path ?p) attrOpts)) (\<lambda>_. skip))) t
      (\<lambda>_. at q (m(?p \<mapsto> FileData data)) i o')"
    proof (rule outcome_bind [OF _ attrs])
      show "outcome q (if transferred
          then seq (modify (\<lambda>s. s\<lparr>rs_xferNum := rs_xferNum s + 1\<rparr>))
                   (on_fs (WritingFile (fe_Path e)) (replace_file (abs_path ?p) data (ro_Progress ropts) ropts (fe_Path e) False))
          else skip) t (\<lambda>_. at q (m(?p \<mapsto> FileData data)) i o')"
      proof (cases transferred)
        case True
        have "at q m i o' (t\<lparr>rs_xferNum := rs_xferNum t + 1\<rparr>)" using t by simp
        moreover from this have "outcome q (replace_file (abs_path ?p) data (ro_Progress ropts) ropts (fe_Path e) False)
            (rs_fs (t\<lparr>rs_xferNum := rs_xferNum t + 1\<rparr>)) (\<lambda>_. fs_is q (m(?p \<mapsto> FileData data)))"
          using assms(2-4) unfolding at_def by (intro replace_file_outcome) auto
        ultimately have "outcome q (on_fs (WritingFile (fe_Path e))
            (replace_file (abs_path ?p) data (ro_Progress ropts) ropts (fe_Path e) False))
            (t\<lparr>rs_xferNum := rs_xferNum t + 1\<rparr>) (\<lambda>_. at q (m(?p \<mapsto> FileData data)) i o')"
          by (rule on_fs_outcome')
        with True show ?thesis by (simp add: outcome_def bind_def modify_def del: fun_upd_apply)
      next
        case False
        with assms(6) have "m(?p \<mapsto> FileData data) = m" by (intro fun_upd_idem) simp
        with False t show ?thesis by (simp add: outcome_ret del: fun_upd_apply)
      qed
    qed
  qed
qed

lemma entry_okD:
  assumes "entry_ok q env copts attrOpts ropts groups src D m e"
  obtains r b where "comps e = r @ [b]" and "fe_Path e = rel_path (r @ [b])" and "dirs_in m (D @ r @ [b])"
    and "list_all plain D" and "list_all plain (r @ [b])"
    and "fe_IsDir e \<longrightarrow> fe_Mode e AND ModeSymlink = 0 \<and> (m (D @ r @ [b]) = None \<or> m (D @ r @ [b]) = Some DirData)"
    and "\<not> fe_IsDir e \<and> fe_Mode e AND ModeSymlink \<noteq> 0 \<and> ao_Links attrOpts \<longrightarrow>
      m (D @ r @ [b]) \<noteq> Some DirData \<and> fe_LinkTarget e \<noteq> []"
    and "exchanges groups e \<longrightarrow> file_ok env copts ropts (m (D @ r @ [b])) e (src (fe_Path e)) \<and> (q \<longrightarrow> no_temps m (D @ r) b)"
proof -
  obtain r b where "comps e = r @ [b]"
    using assms by (cases "comps e" rule: rev_cases) (auto simp: entry_ok_def Let_def)
  then show ?thesis
    using assms dirs_in_plain [of m "D @ r @ [b]"]
    by (intro that [of r b]) (auto simp: entry_ok_def Let_def)
qed

text \<open>The three steps up to the signature.\<close>

lemma looked_outcome:
  assumes "at q m i o' s" and "dirs_in m (p @ [b])"
  shows "outcome q (on_fs err (lstatExisting (abs_path (p @ [b])))) s
    (\<lambda>x t. (snd x \<longleftrightarrow> m (p @ [b]) \<noteq> None) \<and> at q m i o' t)"
proof (rule on_fs_outcome [OF assms(1)], rule outcome_mono)
  show "outcome q (lstatExisting (abs_path (p @ [b]))) (rs_fs s)
      (\<lambda>(old, existed) t. fs_is q m t \<and> (existed \<longleftrightarrow> m (p @ [b]) \<noteq> None))"
    using assms by (intro lstatExisting_outcome) (simp_all add: at_def)
qed auto

lemma loaded_outcome:
  assumes "at q m i o' s" and "dirs_in m (p @ [b])" and "m (p @ [b]) = None \<or> m (p @ [b]) = Some (FileData old)"
    and "ro_PartialDir ropts = []" and "old = data_of (m (p @ [b]))"
  shows "outcome q (on_fs err (load_basis ropts (abs_path (p @ [b])) path)) s
    (\<lambda>x t. x = (old, False) \<and> at q m i o' t)"
proof (rule on_fs_outcome [OF assms(1)], rule outcome_mono)
  show "outcome q (load_basis ropts (abs_path (p @ [b])) path) (rs_fs s)
      (\<lambda>(old, used) t. fs_is q m t \<and> \<not> used \<and> old = data_of (m (p @ [b])))"
    using assms by (intro load_basis_outcome) (simp_all add: at_def)
qed (auto simp: assms(5))

lemma signed_outcome:
  assumes "at q m i o' s" and "payload_fits (encSignature g \<lparr>sm_Path = path, sm_Sig = sig, sm_Append = act\<rparr>)"
  shows "outcome q (on_conn err (of_err (sendSignature g path sig act))) s
    (\<lambda>_. at q m i (o' @ signature_bytes g path sig act))"
  by (rule outcome_mono [OF on_conn_outcome [OF assms(1)]]) (auto simp: of_err_def sendSignature_open [OF assms(2)])

lemma receiveRegularFile_outcome:
  assumes "at q m (entry_in env copts ropts groups src D m e @ i) o' s"
    and ok: "entry_ok q env copts attrOpts ropts groups src D m e" and ex: "exchanges groups e"
    and env: "gob_ok (env_gob env)" "zlib_ok (env_deflate env) (env_inflate env)"
    and opts: "\<not> ro_DryRun ropts" "ro_PartialDir ropts = []"
  shows "outcome q (receiveRegularFile env attrOpts ropts (abs_path (D @ comps e)) e) s
    (\<lambda>_. at q (entry_effect attrOpts ropts groups src D e m) i (o' @ entry_out env ropts groups D m e))"
proof -
  obtain r b where c: "comps e = r @ [b]" and above: "dirs_in m ((D @ r) @ [b])"
    and fok: "file_ok env copts ropts (m ((D @ r) @ [b])) e (src (fe_Path e))" "q \<longrightarrow> no_temps m (D @ r) b"
    using ok ex by (elim entry_okD) auto
  let ?p = "(D @ r) @ [b]" and ?path = "fe_Path e" and ?g = "env_gob env"
  define old where "old = data_of (m ?p)"
  define new where "new = src ?path"
  obtain sig act where plan: "plan env ropts (m ?p) e = (sig, act)" by (cases "plan env ropts (m ?p) e")
  define ops where "ops = reply env ?path (sig, act) new"
  define out where "out = o' @ signature_bytes ?g ?path sig act"
  define i0 where "i0 = delta_bytes ?g (env_deflate env) ?path ops copts @ i"
  have at0: "at q m i0 o' s"
    using assms(1) ex c plan by (simp add: entry_in_def i0_def ops_def new_def)
  have kind: "m ?p = None \<or> m ?p = Some (FileData old)" using fok(1) by (auto simp: file_ok_def old_def)
  have mode: "fe_Mode e AND ModeSymlink = 0" "\<not> fe_IsDir e" using ex by (simp_all add: exchanges_def)
  have fits: "payload_fits (encSignature ?g \<lparr>sm_Path = ?path, sm_Sig = sig, sm_Append = act\<rparr>)"
    "payload_fits (encDelta ?g (delta_message (env_deflate env) ?path ops copts))"
    using fok(1) plan by (simp_all add: file_ok_def ops_def new_def)
  let ?data = "result_bytes ropts (m ?p) e new"
  have data: "new_data act old ops sig = Ok ?data" "int (length (concat (map literal_bytes ops))) < 2 ^ 63"
    "act = appendSkip \<Longrightarrow> m ?p \<noteq> None"
    using plan_data(1,2) [OF fok(1) plan, of ?path] plan_data(3) [OF fok(1) plan]
    by (simp_all add: new_def old_def ops_def)
  have effect: "entry_effect attrOpts ropts groups src D e m = m(?p \<mapsto> FileData ?data)"
    using c mode ex by (simp add: entry_effect_def new_def Let_def del: fun_upd_apply)
  have out: "o' @ entry_out env ropts groups D m e = out"
    using c ex plan by (simp add: entry_out_def out_def)
  note looked = looked_outcome [OF at0 above, of "CheckingExisting ?path"]
  have loaded: "outcome q (on_fs (ReadingExisting ?path) (load_basis ropts (abs_path ?p) ?path)) t
      (\<lambda>x t. x = (old, False) \<and> at q m i0 o' t)" if "at q m i0 o' t" for t
    by (rule loaded_outcome [OF that above kind opts(2) old_def])
  have sent: "outcome q (on_conn (SendingSignature ?path) (of_err (sendSignature ?g ?path sig act))) t (\<lambda>_. at q m i0 out)"
    if "at q m i0 o' t" for t
    unfolding out_def by (rule signed_outcome [OF that fits(1)])
  have received: "outcome q (on_conn (ReceivingDelta ?path) (recvDelta ?g (env_inflate env))) t
      (\<lambda>y t. y = (?path, ops) \<and> at q m i out t)" if "at q m i0 out t" for t
    by (rule on_conn_outcome [OF that])
      (use recvDelta_bytes [OF env fits(2) data(2)] in \<open>simp add: i0_def\<close>)
  have written: "outcome q (write_regular attrOpts ropts (abs_path ?p) e ?data transferred False) t
      (\<lambda>_. at q (m(?p \<mapsto> FileData ?data)) i out)"
    if "at q m i out t" "\<not> transferred \<Longrightarrow> m ?p = Some (FileData ?data)" for t transferred
    by (rule write_regular_outcome [OF that(1) above kind fok(2) mode(1) that(2)])
  show ?thesis
    unfolding receiveRegularFile_def effect out c append_assoc [symmetric]
  proof (rule outcome_bind2 [OF looked], goal_cases)
    case (1 old_entry existed t)
    then have ex_iff: "existed \<longleftrightarrow> m ?p \<noteq> None" and t: "at q m i0 o' t" by simp_all
    have p: "sign_plan (env_strong env) ropts existed old e = (sig, act)"
      using plan ex_iff by (simp add: plan_def old_def)
    have rest: "\<not> (act \<noteq> appendSkip \<and> (\<not> existed \<or> act \<noteq> appendSkip \<and> old \<noteq> ?data)) \<Longrightarrow>
        m ?p = Some (FileData ?data)"
      using kind ex_iff data(1) data(3) by (auto simp: new_data_def)
    show ?case
    proof (rule outcome_bind2 [OF loaded [OF t]], goal_cases)
      case (1 oldData used t)
      then have same: "oldData = old" "used = False" and t: "at q m i0 o' t" by simp_all
      show ?case
        unfolding same p prod.case
      proof (rule outcome_bind [OF sent [OF t]], rule outcome_bind2 [OF received], assumption, goal_cases)
        case (1 x t' path' ops' t)
        then have same: "path' = ?path" "ops' = ops" and t: "at q m i out t" by simp_all
        have skip_refl: "(?path \<noteq> ?path) = False" by simp
        show ?case
          unfolding same skip_refl if_False data(1) sum.case Let_def opts(1) [THEN eq_False [THEN iffD2]]
          by (intro outcome_bind [OF count_outcome [OF t]] outcome_bind [OF written] report_outcome rest)
            (assumption | rule refl)+
      qed
    qed
  qed
qed

lemma mkdir_entry_outcome:
  assumes "at q m i o' s" and "dirs_in m (p @ [c])" and "m (p @ [c]) = None \<or> m (p @ [c]) = Some DirData"
    and "\<not> ro_DryRun ropts"
  shows "outcome q (receiveDir attrOpts ropts (abs_path (p @ [c])) e) s (\<lambda>_. at q (m(p @ [c] \<mapsto> DirData)) i o')"
  unfolding receiveDir_def eq_False [THEN iffD2, OF assms(4)] if_False
proof (rule outcome_bind2, rule on_fs_outcome [OF assms(1), where R = "\<lambda>_. True" and m' = m], goal_cases)
  case 1
  show ?case
    using assms(1,2) by (intro outcome_mono [OF lstatExisting_outcome [of q m]]) (auto simp: at_def)
next
  case (2 old existed t)
  then have t: "at q m i o' t" by simp
  have "outcome q (mkdir_all (abs_path (p @ [c]))) (rs_fs t) (\<lambda>_. fs_is q (m(p @ [c] \<mapsto> DirData)))"
    using t assms(2,3) by (intro mkdir_all_outcome) (simp_all add: at_def)
  from on_fs_outcome' [OF t this] show ?case
    by (rule outcome_bind) (intro outcome_bind [OF count_outcome] report_outcome; assumption)
qed

lemma receiveSymlink_outcome:
  assumes "at q m i o' s" and "dirs_in m (p @ [c])" and "\<not> ro_DryRun ropts" and "fe_Mode e AND ModeSymlink \<noteq> 0"
    and "ao_Links attrOpts \<Longrightarrow> m (p @ [c]) \<noteq> Some DirData \<and> fe_LinkTarget e \<noteq> []"
  shows "outcome q (receiveSymlink attrOpts ropts (abs_path (p @ [c])) e) s
    (\<lambda>_. at q (if ao_Links attrOpts then m(p @ [c] \<mapsto> LinkData (fe_LinkTarget e)) else m) i o')"
proof (cases "ao_Links attrOpts")
  case True
  note link = assms(5) [OF True]
  let ?m = "m(p @ [c] \<mapsto> LinkData (fe_LinkTarget e))"
  have "outcome q (receiveSymlink attrOpts ropts (abs_path (p @ [c])) e) s (\<lambda>_. at q ?m i o')"
    unfolding receiveSymlink_def eq_False [THEN iffD2, OF assms(3)] if_False eq_True [THEN iffD2, OF True] not_True_eq_False
  proof (rule outcome_bind2, rule on_fs_outcome [OF assms(1), where R = "\<lambda>_. True" and m' = m], goal_cases)
    case 1
    show ?case
      using assms(1,2) by (intro outcome_mono [OF lstatExisting_outcome [of q m]]) (auto simp: at_def)
  next
    case (2 old existed t)
    then have t: "at q m i o' t" by simp
    have parent: "outcome q (mkdir_all (Dir (abs_path (p @ [c])))) (rs_fs t) (\<lambda>_. fs_is q m)"
      using t assms(2) by (intro mkdir_parent_outcome) (simp_all add: at_def)
    have linked: "outcome q (ApplyAttributes e (abs_path (p @ [c])) attrOpts) (rs_fs u) (\<lambda>_. fs_is q ?m)"
      if "at q m i o' u" for u
      using that assms(2,4) link True by (intro ApplyAttributes_symlink_outcome) (simp_all add: at_def)
    have "outcome q (seq (on_fs (CreatingParent (fe_Path e)) (mkdir_all (Dir (abs_path (p @ [c])))))
        (bind (on_fs (CreatingSymlink (fe_Path e)) (ApplyAttributes e (abs_path (p @ [c])) attrOpts)) (\<lambda>_. skip))) t
      (\<lambda>_. at q ?m i o')"
      by (intro outcome_bind [OF on_fs_outcome' [OF t parent]] outcome_bind [OF on_fs_outcome' [OF _ linked]] outcome_ret)
    then show ?case
      by (rule outcome_bind) (intro outcome_bind [OF count_outcome] report_outcome; assumption)
  qed
  with True show ?thesis by simp
next
  case False
  with assms(1) show ?thesis by (simp add: receiveSymlink_def outcome_ret)
qed

lemma receive_entry_outcome:
  assumes "at q m (entry_in env copts ropts groups src D m e @ i) o' s"
    and ok: "entry_ok q env copts attrOpts ropts groups src D m e"
    and env: "gob_ok (env_gob env)" "zlib_ok (env_deflate env) (env_inflate env)"
    and opts: "\<not> ro_DryRun ropts" "ro_PartialDir ropts = []"
  shows "outcome q (receive_entry env (abs_path D) attrOpts ropts groups e) s
    (\<lambda>_. at q (entry_effect attrOpts ropts groups src D e m) i (o' @ entry_out env ropts groups D m e))"
proof -
  obtain r b where c: "comps e = r @ [b]" and path: "fe_Path e = rel_path (r @ [b])"
    and above: "dirs_in m (D @ r @ [b])" and plain: "list_all plain D" "list_all plain (r @ [b])"
    and okdir: "fe_IsDir e \<longrightarrow> fe_Mode e AND ModeSymlink = 0 \<and> (m (D @ r @ [b]) = None \<or> m (D @ r @ [b]) = Some DirData)"
    and oklink: "\<not> fe_IsDir e \<and> fe_Mode e AND ModeSymlink \<noteq> 0 \<and> ao_Links attrOpts \<longrightarrow>
      m (D @ r @ [b]) \<noteq> Some DirData \<and> fe_LinkTarget e \<noteq> []"
    by (rule entry_okD [OF ok]) blast
  have dest: "Join (abs_path D) (fe_Path e) = abs_path ((D @ r) @ [b])"
    using plain by (simp add: path Join_abs_rel del: list_all_append)
  have above': "dirs_in m ((D @ r) @ [b])" using above by simp
  let ?effect = "entry_effect attrOpts ropts groups src D e m"
  have finish: "outcome q X s (\<lambda>_. at q ?effect i (o' @ entry_out env ropts groups D m e)) \<Longrightarrow>
      outcome q (seq X (modify (\<lambda>s. s\<lparr>rs_processed := rs_processed s + 1\<rparr>))) s
        (\<lambda>_. at q ?effect i (o' @ entry_out env ropts groups D m e))" for X
    by (rule outcome_bind, assumption) (simp add: outcome_modify)
  show ?thesis
    unfolding receive_entry_def Let_def dest
  proof (rule finish, goal_cases)
    case 1
    consider (dir) "fe_IsDir e" | (link) "\<not> fe_IsDir e" "fe_Mode e AND ModeSymlink \<noteq> 0"
      | (second) "\<not> fe_IsDir e" "fe_Mode e AND ModeSymlink = 0" "List.member (secondary_paths groups) (fe_Path e)"
      | (regular) "exchanges groups e" by (auto simp: exchanges_def)
    then show ?case
    proof cases
      case dir
      then have "\<not> exchanges groups e" by (simp add: exchanges_def)
      with dir assms(1) have at0: "at q m i o' s" and out: "entry_out env ropts groups D m e = []"
        and effect: "?effect = m((D @ r) @ [b] \<mapsto> DirData)"
        by (simp_all add: entry_in_def entry_out_def entry_effect_def c Let_def del: fun_upd_apply)
      have "outcome q (receiveDir attrOpts ropts (abs_path ((D @ r) @ [b])) e) s
          (\<lambda>_. at q (m((D @ r) @ [b] \<mapsto> DirData)) i o')"
        by (rule mkdir_entry_outcome [OF at0 above' _ opts(1)]) (use okdir dir in simp)
      with dir show ?thesis unfolding effect out by (simp del: fun_upd_apply)
    next
      case link
      then have "\<not> exchanges groups e" by (simp add: exchanges_def)
      with link assms(1) have at0: "at q m i o' s" and out: "entry_out env ropts groups D m e = []"
        and effect: "?effect = (if ao_Links attrOpts then m((D @ r) @ [b] \<mapsto> LinkData (fe_LinkTarget e)) else m)"
        by (simp_all add: entry_in_def entry_out_def entry_effect_def c Let_def del: fun_upd_apply)
      have "outcome q (receiveSymlink attrOpts ropts (abs_path ((D @ r) @ [b])) e) s
          (\<lambda>_. at q (if ao_Links attrOpts then m((D @ r) @ [b] \<mapsto> LinkData (fe_LinkTarget e)) else m) i o')"
        by (rule receiveSymlink_outcome [OF at0 above' opts(1) link(2)]) (use oklink link in simp)
      with link show ?thesis unfolding effect out by (simp del: fun_upd_apply)
    next
      case second
      then have "\<not> exchanges groups e" by (simp add: exchanges_def)
      with second assms(1) have "at q m i o' s" "entry_out env ropts groups D m e = []" "?effect = m"
        by (simp_all add: entry_in_def entry_out_def entry_effect_def c Let_def)
      with second report_outcome show ?thesis by simp
    next
      case regular
      with receiveRegularFile_outcome [OF assms(1) ok regular env opts] show ?thesis
        by (simp add: exchanges_def c)
    qed
  qed
qed

section \<open>The whole list\<close>

fun session_contents ::
  "attrOptions \<Rightarrow> receiverOptions \<Rightarrow> hardLinkGroup list \<Rightarrow> (string \<Rightarrow> bytes) \<Rightarrow> fpath \<Rightarrow> contents \<Rightarrow> fileEntry list \<Rightarrow>
     contents" where
  "session_contents attrOpts ropts groups src D m [] = m"
| "session_contents attrOpts ropts groups src D m (e # es) =
     session_contents attrOpts ropts groups src D (entry_effect attrOpts ropts groups src D e m) es"

text \<open>The bytes the receiver reads and writes after the file list.\<close>

fun session_in ::
  "'h env \<Rightarrow> compressOptions \<Rightarrow> attrOptions \<Rightarrow> receiverOptions \<Rightarrow> hardLinkGroup list \<Rightarrow> (string \<Rightarrow> bytes) \<Rightarrow> fpath \<Rightarrow>
     contents \<Rightarrow> fileEntry list \<Rightarrow> bytes" where
  "session_in env copts attrOpts ropts groups src D m [] = []"
| "session_in env copts attrOpts ropts groups src D m (e # es) =
     entry_in env copts ropts groups src D m e @
     session_in env copts attrOpts ropts groups src D (entry_effect attrOpts ropts groups src D e m) es"

fun session_out ::
  "'h env \<Rightarrow> attrOptions \<Rightarrow> receiverOptions \<Rightarrow> hardLinkGroup list \<Rightarrow> (string \<Rightarrow> bytes) \<Rightarrow> fpath \<Rightarrow> contents \<Rightarrow>
     fileEntry list \<Rightarrow> bytes" where
  "session_out env attrOpts ropts groups src D m [] = []"
| "session_out env attrOpts ropts groups src D m (e # es) =
     entry_out env ropts groups D m e @
     session_out env attrOpts ropts groups src D (entry_effect attrOpts ropts groups src D e m) es"

fun entries_ok ::
  "bool \<Rightarrow> 'h env \<Rightarrow> compressOptions \<Rightarrow> attrOptions \<Rightarrow> receiverOptions \<Rightarrow> hardLinkGroup list \<Rightarrow> (string \<Rightarrow> bytes) \<Rightarrow>
     fpath \<Rightarrow> contents \<Rightarrow> fileEntry list \<Rightarrow> bool" where
  "entries_ok q env copts attrOpts ropts groups src D m [] \<longleftrightarrow> True"
| "entries_ok q env copts attrOpts ropts groups src D m (e # es) \<longleftrightarrow>
     entry_ok q env copts attrOpts ropts groups src D m e \<and>
     entries_ok q env copts attrOpts ropts groups src D (entry_effect attrOpts ropts groups src D e m) es"

lemma receive_entries_outcome:
  assumes env: "gob_ok (env_gob env)" "zlib_ok (env_deflate env) (env_inflate env)"
    and opts: "\<not> ro_DryRun ropts" "ro_PartialDir ropts = []"
  shows "at q m (session_in env copts attrOpts ropts groups src D m es @ i) o' s \<Longrightarrow>
    entries_ok q env copts attrOpts ropts groups src D m es \<Longrightarrow>
    outcome q (each (receive_entry env (abs_path D) attrOpts ropts groups) es) s
      (\<lambda>_. at q (session_contents attrOpts ropts groups src D m es) i
              (o' @ session_out env attrOpts ropts groups src D m es))"
proof (induction es arbitrary: m o' s)
  case Nil
  then show ?case by (simp add: outcome_def)
next
  case (Cons e es)
  let ?m = "entry_effect attrOpts ropts groups src D e m"
  have "outcome q (receive_entry env (abs_path D) attrOpts ropts groups e) s
      (\<lambda>_. at q ?m (session_in env copts attrOpts ropts groups src D ?m es @ i) (o' @ entry_out env ropts groups D m e))"
    using Cons.prems by (intro receive_entry_outcome [OF _ _ env opts, where copts = copts]) simp_all
  then show ?case
    unfolding each_Cons
    by (rule outcome_bind) (use Cons.IH Cons.prems(2) in \<open>simp flip: append_assoc\<close>)
qed

text \<open>A directory of the destination stays one, whatever the entries and links.\<close>

definition keeps_dirs :: "contents \<Rightarrow> contents \<Rightarrow> bool" where
  "keeps_dirs m m' \<longleftrightarrow> (\<forall>p. m p = Some DirData \<longrightarrow> m' p = Some DirData)"

lemma keeps_dirs_trans: "keeps_dirs m m' \<Longrightarrow> keeps_dirs m' m'' \<Longrightarrow> keeps_dirs m m''"
  by (simp add: keeps_dirs_def)

lemma keeps_dirs_upd: "m p \<noteq> Some DirData \<or> c = Some DirData \<Longrightarrow> keeps_dirs m (m(p := c))"
  by (auto simp: keeps_dirs_def)

lemma keeps_dirs_in: "keeps_dirs m m' \<Longrightarrow> dirs_in m p \<Longrightarrow> dirs_in m' p"
  by (auto simp: keeps_dirs_def dirs_in_def list_all_iff)

lemma entry_effect_keeps_dirs:
  assumes "entry_ok q env copts attrOpts ropts groups src D m e"
  shows "keeps_dirs m (entry_effect attrOpts ropts groups src D e m)"
proof -
  have "m (D @ comps e) \<noteq> Some DirData" if "exchanges groups e"
    using assms that by (auto simp: entry_ok_def file_ok_def Let_def)
  moreover have "m (D @ comps e) \<noteq> Some DirData"
    if "\<not> fe_IsDir e" "fe_Mode e AND ModeSymlink \<noteq> 0" "ao_Links attrOpts"
    using assms that by (simp add: entry_ok_def Let_def)
  ultimately show ?thesis
    by (simp add: entry_effect_def Let_def keeps_dirs_upd del: fun_upd_apply) (simp add: keeps_dirs_def)
qed

lemma session_keeps_dirs:
  "entries_ok q env copts attrOpts ropts groups src D m es \<Longrightarrow>
     keeps_dirs m (session_contents attrOpts ropts groups src D m es)"
proof (induction es arbitrary: m)
  case Nil
  then show ?case by (simp add: keeps_dirs_def)
next
  case (Cons e es)
  from Cons.prems have ok: "entry_ok q env copts attrOpts ropts groups src D m e"
    and rest: "entries_ok q env copts attrOpts ropts groups src D (entry_effect attrOpts ropts groups src D e m) es"
    by simp_all
  from keeps_dirs_trans [OF entry_effect_keeps_dirs [OF ok] Cons.IH [OF rest]] show ?case by simp
qed

text \<open>After the session every directory entry is a directory of the destination, below directories.\<close>

definition dir_entry_ok :: "fpath \<Rightarrow> contents \<Rightarrow> fileEntry \<Rightarrow> bool" where
  "dir_entry_ok D m e \<longleftrightarrow>
     (\<exists>r b. fe_Path e = rel_path (r @ [b]) \<and> dirs_in m (D @ r @ [b]) \<and> m (D @ r @ [b]) = Some DirData \<and>
       fe_Mode e AND ModeSymlink = 0)"

lemma dir_entry_ok_mono: "dir_entry_ok D m e \<Longrightarrow> keeps_dirs m m' \<Longrightarrow> dir_entry_ok D m' e"
  unfolding dir_entry_ok_def using keeps_dirs_in by (metis keeps_dirs_def)

lemma session_dirs:
  "entries_ok q env copts attrOpts ropts groups src D m es \<Longrightarrow> e \<in> set es \<Longrightarrow> fe_IsDir e \<Longrightarrow>
     dir_entry_ok D (session_contents attrOpts ropts groups src D m es) e"
proof (induction es arbitrary: m)
  case (Cons e' es)
  let ?m = "entry_effect attrOpts ropts groups src D e' m"
  from Cons.prems have ok: "entry_ok q env copts attrOpts ropts groups src D m e'"
    and rest: "entries_ok q env copts attrOpts ropts groups src D ?m es" by simp_all
  show ?case
  proof (cases "e' = e")
    case True
    obtain r b where "comps e = r @ [b]" "fe_Path e = rel_path (r @ [b])" "dirs_in m (D @ r @ [b])"
      "fe_Mode e AND ModeSymlink = 0"
      using ok Cons.prems(3) unfolding True by (elim entry_okD) auto
    then have "dir_entry_ok D ?m e"
      using Cons.prems(3) True unfolding dir_entry_ok_def
      by (intro exI [of _ r] exI [of _ b]) (simp add: entry_effect_def Let_def)
    with session_keeps_dirs [OF rest] show ?thesis by (auto intro: dir_entry_ok_mono)
  next
    case False
    with Cons rest show ?thesis by simp
  qed
qed simp

lemma dir_attributes_outcome:
  assumes "at q m i o' s" and "\<forall>e \<in> set es. fe_IsDir e \<longrightarrow> dir_entry_ok D m e" and "list_all plain D"
  shows "outcome q (dir_attributes (abs_path D) attrOpts es) s (\<lambda>_. at q m i o')"
proof -
  let ?f = "\<lambda>entry. bind (on_fs (ApplyingDirAttributes (fe_Path entry))
      (ApplyAttributes entry (Join (abs_path D) (fe_Path entry)) attrOpts)) (\<lambda>_. skip)"
  have one: "outcome q (?f e) t (\<lambda>_. at q m i o')" if t: "at q m i o' t" and e: "dir_entry_ok D m e" for e t
  proof -
    from e obtain r b where p: "fe_Path e = rel_path (r @ [b])" "dirs_in m (D @ r @ [b])"
      "m (D @ r @ [b]) = Some DirData" "fe_Mode e AND ModeSymlink = 0" by (auto simp: dir_entry_ok_def)
    have "Join (abs_path D) (fe_Path e) = abs_path (D @ r @ [b])"
      unfolding p(1) using dirs_in_plain [OF p(2)] by (intro Join_abs_rel) simp_all
    moreover have "outcome q (ApplyAttributes e (abs_path (D @ r @ [b])) attrOpts) (rs_fs t) (\<lambda>_. fs_is q m)"
      using t p by (intro ApplyAttributes_outcome) (simp_all add: at_def)
    ultimately show ?thesis using outcome_bind [OF on_fs_outcome' [OF t] outcome_ret] by simp
  qed
  have "outcome q (each ?f ds) t (\<lambda>_. at q m i o')" if "at q m i o' t" "\<forall>e \<in> set ds. dir_entry_ok D m e" for ds t
    using that
  proof (induction ds arbitrary: t)
    case (Cons e ds)
    then have "outcome q (?f e) t (\<lambda>_. at q m i o')" by (intro one) simp_all
    then show ?case unfolding each_Cons by (rule outcome_bind) (use Cons in simp)
  qed (simp add: outcome_def)
  from this [OF assms(1), of "rev (filter fe_IsDir es)"] assms(2) show ?thesis
    by (simp add: dir_attributes_def)
qed

section \<open>Hard links\<close>

definition is_file :: "content option \<Rightarrow> bool" where
  "is_file c \<longleftrightarrow> (case c of Some (FileData d) \<Rightarrow> True | _ \<Rightarrow> False)"

definition link_ok :: "fpath \<Rightarrow> contents \<Rightarrow> string \<Rightarrow> string \<Rightarrow> bool" where
  "link_ok D m f p \<longleftrightarrow>
     (let fc = path_comps f; pc = path_comps p in
      f = rel_path fc \<and> p = rel_path pc \<and> fc \<noteq> [] \<and> pc \<noteq> [] \<and> fc \<noteq> pc \<and>
      dirs_in m (D @ fc) \<and> dirs_in m (D @ pc) \<and> is_file (m (D @ fc)) \<and> m (D @ pc) \<noteq> Some DirData)"

definition link_effect :: "fpath \<Rightarrow> string \<Rightarrow> string \<Rightarrow> contents \<Rightarrow> contents" where
  "link_effect D f p m = m(D @ path_comps p := m (D @ path_comps f))"

fun members_contents :: "fpath \<Rightarrow> string \<Rightarrow> string list \<Rightarrow> contents \<Rightarrow> contents" where
  "members_contents D f [] m = m"
| "members_contents D f (p # ps) m = members_contents D f ps (link_effect D f p m)"

fun members_ok :: "fpath \<Rightarrow> string \<Rightarrow> string list \<Rightarrow> contents \<Rightarrow> bool" where
  "members_ok D f [] m \<longleftrightarrow> True"
| "members_ok D f (p # ps) m \<longleftrightarrow> link_ok D m f p \<and> members_ok D f ps (link_effect D f p m)"

fun groups_contents :: "fpath \<Rightarrow> hardLinkGroup list \<Rightarrow> contents \<Rightarrow> contents" where
  "groups_contents D [] m = m"
| "groups_contents D (g # gs) m = groups_contents D gs (members_contents D (hd g) (tl g) m)"

fun groups_ok :: "fpath \<Rightarrow> hardLinkGroup list \<Rightarrow> contents \<Rightarrow> bool" where
  "groups_ok D [] m \<longleftrightarrow> True"
| "groups_ok D (g # gs) m \<longleftrightarrow>
     g \<noteq> [] \<and> members_ok D (hd g) (tl g) m \<and> groups_ok D gs (members_contents D (hd g) (tl g) m)"

lemma link_okD:
  assumes "link_ok D m f p"
  obtains fc r b d where "f = rel_path fc" and "path_comps f = fc" and "p = rel_path (r @ [b])"
    and "path_comps p = r @ [b]" and "dirs_in m (D @ fc)" and "dirs_in m (D @ r @ [b])" and "m (D @ fc) = Some (FileData d)"
    and "m (D @ r @ [b]) \<noteq> Some DirData" and "fc \<noteq> r @ [b]" and "fc \<noteq> []"
proof -
  obtain r b where "path_comps p = r @ [b]"
    using assms by (cases "path_comps p" rule: rev_cases) (auto simp: link_ok_def Let_def)
  moreover obtain d where "m (D @ path_comps f) = Some (FileData d)"
    using assms by (auto simp: link_ok_def Let_def is_file_def split: option.splits content.splits)
  ultimately show ?thesis
    using assms by (intro that [of "path_comps f" r b d]) (auto simp: link_ok_def Let_def)
qed

lemma link_outcome:
  assumes "fs_is q m s" and "link_ok D m f p"
  shows "outcome q (apply_link (abs_path D) f p) s (\<lambda>_. fs_is q (link_effect D f p m))"
  using assms(2)
proof (rule link_okD)
  fix fc r b d
  assume f: "f = rel_path fc" "path_comps f = fc" and p: "p = rel_path (r @ [b])" "path_comps p = r @ [b]"
    and ok: "dirs_in m (D @ fc)" "dirs_in m (D @ r @ [b])" "m (D @ fc) = Some (FileData d)"
      "m (D @ r @ [b]) \<noteq> Some DirData" "fc \<noteq> r @ [b]" "fc \<noteq> []"
  have "link_effect D f p m = m(D @ r @ [b] \<mapsto> FileData d)" by (simp add: link_effect_def f(2) p(2) ok(3))
  with apply_link_outcome [OF assms(1) ok] show ?thesis by (simp add: f(1) p(1))
qed

lemma members_outcome:
  "fs_is q m s \<Longrightarrow> members_ok D f ps m \<Longrightarrow>
     outcome q (each (apply_link (abs_path D) f) ps) s (\<lambda>_. fs_is q (members_contents D f ps m))"
proof (induction ps arbitrary: m s)
  case (Cons p ps)
  then have "outcome q (apply_link (abs_path D) f p) s (\<lambda>_. fs_is q (link_effect D f p m))"
    by (intro link_outcome) simp_all
  then show ?case unfolding each_Cons by (rule outcome_bind) (use Cons in simp)
qed (simp add: outcome_def)

lemma ApplyHardLinks_outcome:
  assumes "fs_is q m s" and "g \<noteq> []" and "members_ok D (hd g) (tl g) m"
  shows "outcome q (ApplyHardLinks (abs_path D) g) s (\<lambda>_. fs_is q (members_contents D (hd g) (tl g) m))"
proof (cases "length g < 2")
  case True
  with assms(2) have "tl g = []" by (cases g) auto
  with True assms(1) show ?thesis by (simp add: ApplyHardLinks_def outcome_ret)
next
  case False
  with members_outcome [OF assms(1,3)] show ?thesis by (simp add: ApplyHardLinks_def)
qed

lemma link_groups_outcome:
  "at q m i o' s \<Longrightarrow> groups_ok D gs m \<Longrightarrow>
     outcome q (link_groups (abs_path D) gs) s (\<lambda>_. at q (groups_contents D gs m) i o')"
  unfolding link_groups_def
proof (induction gs arbitrary: m s)
  case (Cons g gs)
  then have "outcome q (on_fs (LinkingGroup (hd g)) (ApplyHardLinks (abs_path D) g)) s
      (\<lambda>_. at q (members_contents D (hd g) (tl g) m) i o')"
    by (intro on_fs_outcome' [OF Cons.prems(1)] ApplyHardLinks_outcome) (simp_all add: at_def)
  then show ?case unfolding each_Cons by (rule outcome_bind) (use Cons in simp)
qed (simp add: outcome_def)

lemma link_effect_keeps_dirs: "link_ok D m f p \<Longrightarrow> keeps_dirs m (link_effect D f p m)"
  unfolding link_effect_def by (rule keeps_dirs_upd) (simp add: link_ok_def Let_def)

lemma members_keep_dirs: "members_ok D f ps m \<Longrightarrow> keeps_dirs m (members_contents D f ps m)"
proof (induction ps arbitrary: m)
  case Nil
  then show ?case by (simp add: keeps_dirs_def)
next
  case (Cons p ps)
  then have "link_ok D m f p" "members_ok D f ps (link_effect D f p m)" by simp_all
  from keeps_dirs_trans [OF link_effect_keeps_dirs [OF this(1)] Cons.IH [OF this(2)]] show ?case by simp
qed

lemma groups_keep_dirs: "groups_ok D gs m \<Longrightarrow> keeps_dirs m (groups_contents D gs m)"
proof (induction gs arbitrary: m)
  case Nil
  then show ?case by (simp add: keeps_dirs_def)
next
  case (Cons g gs)
  then have "members_ok D (hd g) (tl g) m" "groups_ok D gs (members_contents D (hd g) (tl g) m)" by simp_all
  from keeps_dirs_trans [OF members_keep_dirs [OF this(1)] Cons.IH [OF this(2)]] show ?case by simp
qed

section \<open>The whole receiver\<close>

lemma Receiver_outcome:
  assumes env: "gob_ok (env_gob env)" "zlib_ok (env_deflate env) (env_inflate env)"
    and opts: "\<not> ro_DryRun ropts" "ro_PartialDir ropts = []"
    and start: "at q m (fileList_bytes (env_gob env) es gs @ session_in env copts attrOpts ropts gs src D m es @ rest) o' s"
    and fits: "payload_fits (encFileList (env_gob env) \<lparr>fl_Entries = es, fl_HardLinkGroups = gs\<rparr>)"
    and entries: "entries_ok q env copts attrOpts ropts gs src D m es"
    and groups: "groups_ok D gs (session_contents attrOpts ropts gs src D m es)" "\<forall>g \<in> set gs. g \<noteq> []"
    and D: "list_all plain D"
  shows "outcome q (Receiver env (abs_path D) attrOpts ropts) s
    (\<lambda>_. at q (groups_contents D gs (session_contents attrOpts ropts gs src D m es)) rest
            (o' @ session_out env attrOpts ropts gs src D m es))"
proof -
  let ?m = "session_contents attrOpts ropts gs src D m es" and ?out = "session_out env attrOpts ropts gs src D m es"
  let ?in = "session_in env copts attrOpts ropts gs src D m es"
  have dirs: "\<forall>e \<in> set es. fe_IsDir e \<longrightarrow> dir_entry_ok D (groups_contents D gs ?m) e"
    using session_dirs [OF entries] groups_keep_dirs [OF groups(1)] by (auto intro: dir_entry_ok_mono)
  have no_panic: "list_ex (\<lambda>grp. grp = []) gs = False" using groups(2) by (auto simp: list_ex_iff)
  have listed: "outcome q (on_conn ReceivingFileList (recvFileList (env_gob env))) s
      (\<lambda>x t. x = (es, gs) \<and> at q m (?in @ rest) o' t)"
    by (rule on_conn_outcome [OF start]) (simp add: recvFileList_bytes [OF env(1) fits])
  show ?thesis
    unfolding Receiver_def eq_False [THEN iffD2, OF opts(1)] if_False
  proof (rule outcome_bind2 [OF listed], goal_cases)
    case (1 es' gs' t)
    then have same: "es' = es" "gs' = gs" and t: "at q m (?in @ rest) o' t" by simp_all
    have final: "outcome q (final_stats env ropts) u (\<lambda>_. at q m' i o'')" if "at q m' i o'' u" for u m' i o''
      using that by (simp add: final_stats_def outcome_def modify_def ret_def Let_def)
    have "outcome q (each (receive_entry env (abs_path D) attrOpts ropts gs) es) t (\<lambda>_. at q ?m rest (o' @ ?out))"
      using receive_entries_outcome [OF env opts t entries] by simp
    then show ?case
      unfolding same no_panic if_False
      by (rule outcome_bind)
        (intro outcome_bind [OF link_groups_outcome [OF _ groups(1)]] outcome_bind [OF dir_attributes_outcome [OF _ dirs D]]
          final; assumption)
  qed
qed

end
