(* ===== verification/SenderSession.thy ===== *)
theory SenderSession
  imports Session
begin

unbundle bit_operations_syntax

text \<open>
  The sender's half of a session: fed the receiver's output, it writes the receiver's input. The walk
  of the source, the signatures and the deltas are those of theory \<open>Session\<close>. The locale \<open>sender_state\<close> says
  what the sender relies on while it runs: it can receive, send and read the source. It is interpreted
  twice, for a sender that writes to the connection alone and (theory \<open>Batch\<close>) with a batch file.
\<close>

section \<open>What the sender relies on\<close>

definition source_data :: "fs \<Rightarrow> fpath \<Rightarrow> string \<Rightarrow> bytes" where
  "source_data S SD path = data_of (content_of S (SD @ path_comps path))"

text \<open>\<open>holds i o' s\<close>: in state \<open>s\<close> the input \<open>i\<close> is still to be read, and \<open>o'\<close> has been written.\<close>

locale sender_state =
  fixes batch :: "nat option" and holds :: "bytes \<Rightarrow> bytes \<Rightarrow> sendState \<Rightarrow> bool" and S :: fs and SD :: fpath
    and env :: "'h env"
  assumes receives: "gob_ok (env_gob env) \<Longrightarrow> holds (signature_bytes (env_gob env) path sig act @ i) o' s \<Longrightarrow>
      payload_fits (encSignature (env_gob env) \<lparr>sm_Path = path, sm_Sig = sig, sm_Append = act\<rparr>) \<Longrightarrow>
      outcome q (src_conn err (recvSignature (env_gob env))) s
        (\<lambda>x t. x = \<lparr>sm_Path = path, sm_Sig = sig, sm_Append = act\<rparr> \<and> holds i o' t)"
    and sends: "holds i o' s \<Longrightarrow> payload_fits p \<Longrightarrow>
      outcome q (src_send err (send_payload_to (multi_write batch) ft p)) s (\<lambda>_. holds i (o' @ message_bytes ft p))"
    and reads: "holds i o' s \<Longrightarrow> content_of S (SD @ r) = Some (FileData d) \<Longrightarrow>
      outcome q (src_fs rerr (ReadFile (abs_path (SD @ r)))) s (\<lambda>x t. x = d \<and> holds i o' t)"
begin

lemma send_delta_outcome:
  assumes "holds i o' s" and "payload_fits (encDelta (env_gob env) (delta_message (env_deflate env) path ops copts))"
  shows "outcome q (send_delta batch env copts path ops) s
    (\<lambda>_. holds i (o' @ delta_bytes (env_gob env) (env_deflate env) path ops copts))"
  unfolding send_delta_def sendDelta_to_def delta_bytes_def using assms by (rule sends)

lemma send_entry_outcome:
  assumes "holds (entry_out env ropts groups D m e @ i) o' s"
    and ok: "entry_ok q0 env copts attrOpts ropts groups (source_data S SD) D m e"
    and gob: "gob_ok (env_gob env)" and isfile: "exchanges groups e \<longrightarrow> is_file (content_of S (SD @ comps e))" and SD: "list_all plain SD"
  shows "outcome q (send_entry batch env (abs_path SD) copts (secondary_paths groups) e) s
    (\<lambda>_. holds i (o' @ entry_in env copts ropts groups (source_data S SD) D m e))"
proof (cases "exchanges groups e")
  case False
  then have "fe_IsDir e \<or> fe_Mode e AND ModeSymlink \<noteq> 0 \<or> List.member (secondary_paths groups) (fe_Path e)"
    by (simp add: exchanges_def)
  with False assms(1) show ?thesis
    by (simp add: send_entry_def entry_out_def entry_in_def outcome_ret)
next
  case True
  obtain r b where c: "comps e = r @ [b]" and path: "fe_Path e = rel_path (r @ [b])"
    and plain: "list_all plain (r @ [b])"
    and fok: "file_ok env copts ropts (m (D @ r @ [b])) e (source_data S SD (fe_Path e))"
    using ok True by (elim entry_okD) auto
  let ?g = "env_gob env" and ?path = "fe_Path e" and ?new = "source_data S SD (fe_Path e)"
  obtain sig act where plan: "plan env ropts (m (D @ comps e)) e = (sig, act)" by (cases "plan env ropts (m (D @ comps e)) e")
  define ops where "ops = reply env ?path (sig, act) ?new"
  define msg where "msg = \<lparr>sm_Path = ?path, sm_Sig = sig, sm_Append = act\<rparr>"
  have fits: "payload_fits (encSignature ?g \<lparr>sm_Path = ?path, sm_Sig = sig, sm_Append = act\<rparr>)"
    "payload_fits (encDelta ?g (delta_message (env_deflate env) ?path ops copts))"
    using fok plan by (simp_all add: file_ok_def ops_def c)
  have at0: "holds (signature_bytes ?g ?path sig act @ i) o' s"
    using assms(1) True plan by (simp add: entry_out_def)
  have "entry_in env copts ropts groups (source_data S SD) D m e = delta_bytes ?g (env_deflate env) ?path ops copts"
    using True plan by (simp add: entry_in_def ops_def)
  moreover have "outcome q (send_entry batch env (abs_path SD) copts (secondary_paths groups) e) s
    (\<lambda>_. holds i (o' @ delta_bytes ?g (env_deflate env) ?path ops copts))"
  proof -
    have kind: "(fe_IsDir e \<or> fe_Mode e AND ModeSymlink \<noteq> 0 \<or> List.member (secondary_paths groups) (fe_Path e)) = False"
      using True by (simp add: exchanges_def)
    have got: "outcome q (src_conn (ReceivingSignature ?path) (recvSignature ?g)) s (\<lambda>x t. x = msg \<and> holds i o' t)"
      unfolding msg_def by (rule receives [OF gob at0 fits(1)])
    show ?thesis
      unfolding send_entry_def kind if_False
    proof (rule outcome_bind [OF got], goal_cases)
      case (1 x t)
      then have x: "x = msg" and t: "holds i o' t" by simp_all
      have same: "(sm_Path msg \<noteq> ?path) = False" "sm_Append msg = act" by (simp_all add: msg_def)
      show ?case
      proof (cases "act = appendSkip")
        case True
        then have "ops = []" by (simp add: ops_def reply_def)
        with True send_delta_outcome [OF t fits(2)] show ?thesis by (simp add: x same)
      next
        case False
        have "sender_ops (env_strong env) ?path msg ?new = Ok ops"
          using plan_data(4) [OF fok, of sig act ?path] plan False by (simp add: c msg_def ops_def)
        moreover have dest: "Join (abs_path SD) ?path = abs_path (SD @ comps e)"
          using SD plain by (simp add: path Join_abs_rel c del: list_all_append)
        moreover have "content_of S (SD @ comps e) = Some (FileData ?new)"
          using isfile \<open>exchanges groups e\<close>
          by (auto simp: is_file_def source_data_def data_of_def comps_def split: option.splits content.splits)
        ultimately show ?thesis
          unfolding x same if_False eq_False [THEN iffD2, OF False] dest
          by (intro outcome_bind [OF reads [OF t]])
            (auto intro: send_delta_outcome [OF _ fits(2)])
      qed
    qed
  qed
  ultimately show ?thesis by simp
qed

lemma send_entries_outcome:
  assumes gob: "gob_ok (env_gob env)" and SD: "list_all plain SD"
  shows "holds (session_out env attrOpts ropts groups (source_data S SD) D m es @ i) o' s \<Longrightarrow>
    entries_ok q0 env copts attrOpts ropts groups (source_data S SD) D m es \<Longrightarrow>
    \<forall>e \<in> set es. exchanges groups e \<longrightarrow> is_file (content_of S (SD @ comps e)) \<Longrightarrow>
    outcome q (each (send_entry batch env (abs_path SD) copts (secondary_paths groups)) es) s
      (\<lambda>_. holds i (o' @ session_in env copts attrOpts ropts groups (source_data S SD) D m es))"
proof (induction es arbitrary: m o' s)
  case Nil
  then show ?case by (simp add: outcome_def)
next
  case (Cons e es)
  let ?m = "entry_effect attrOpts ropts groups (source_data S SD) D e m"
  have "outcome q (send_entry batch env (abs_path SD) copts (secondary_paths groups) e) s
      (\<lambda>_. holds (session_out env attrOpts ropts groups (source_data S SD) D ?m es @ i)
        (o' @ entry_in env copts ropts groups (source_data S SD) D m e))"
    using Cons.prems by (intro send_entry_outcome [OF _ _ gob _ SD, where ?q0.0 = q0 and attrOpts = attrOpts]) simp_all
  then show ?case
    unfolding each_Cons
    by (rule outcome_bind) (use Cons.IH Cons.prems(2,3) in \<open>simp flip: append_assoc\<close>)
qed

text \<open>The whole sender, from the entries the walk returned and the groups that were detected.\<close>

lemma Sender_outcome_links:
  assumes gob: "gob_ok (env_gob env)" and SD: "list_all plain SD"
    and walk: "outcome q (src_fs (Walking (abs_path SD)) (Walk (abs_path SD) walkOpts)) s (\<lambda>x t. x = walked \<and>
      holds (session_out env attrOpts ropts groups (source_data S SD) D m es @ i) o' t)"
    and es: "es = FilterEntries walked rules"
    and detect: "\<And>i t. links \<Longrightarrow> holds i o' t \<Longrightarrow>
      outcome q (src_fs (DetectingHardLinks (abs_path SD)) (DetectHardLinks lookupHardLinkKey (abs_path SD) es)) t
        (\<lambda>x t. x = groups \<and> holds i o' t)"
    and groups: "\<not> links \<Longrightarrow> groups = []" "[] \<notin> set groups"
    and entries: "entries_ok q0 env copts attrOpts ropts groups (source_data S SD) D m es"
    and files: "\<forall>e \<in> set es. exchanges groups e \<longrightarrow> is_file (content_of S (SD @ comps e))"
    and fits: "payload_fits (encFileList (env_gob env) \<lparr>fl_Entries = es, fl_HardLinkGroups = groups\<rparr>)"
  shows "outcome q (Sender_to batch env (abs_path SD) walkOpts rules links copts) s
    (\<lambda>_. holds i (o' @ fileList_bytes (env_gob env) es groups @
       session_in env copts attrOpts ropts groups (source_data S SD) D m es))"
proof -
  let ?out = "session_out env attrOpts ropts groups (source_data S SD) D m es"
  have found: "outcome q (if links \<and> HardLinksSupported
        then src_fs (DetectingHardLinks (abs_path SD)) (DetectHardLinks lookupHardLinkKey (abs_path SD) es) else ret []) t
      (\<lambda>x t. x = groups \<and> holds (?out @ i) o' t)" if "holds (?out @ i) o' t" for t
    using that detect groups(1) by (cases links) (simp_all add: HardLinksSupported_def outcome_ret)
  have listed: "outcome q (src_send SendingFileList (sendFileList_to (multi_write batch) (env_gob env) es groups)) t
      (\<lambda>_. holds (?out @ i) (o' @ fileList_bytes (env_gob env) es groups))" if "holds (?out @ i) o' t" for t
    unfolding sendFileList_to_def fileList_bytes_def using that fits by (rule sends)
  have some: "\<not> list_ex (\<lambda>grp. grp = []) groups" using groups(2) by (auto simp: list_ex_iff)
  show ?thesis
    unfolding Sender_to_def
  proof (rule outcome_bind [OF walk], goal_cases)
    case (1 x t)
    then have x: "FilterEntries x rules = es" and t: "holds (?out @ i) o' t" by (simp_all add: es)
    show ?case
      unfolding Let_def x
    proof (rule outcome_bind [OF found [OF t]], goal_cases)
      case (1 x t)
      then show ?case
        using outcome_bind [OF listed send_entries_outcome [OF gob SD, where q = q, OF _ entries files]]
        by (simp add: some flip: append_assoc)
    qed
  qed
qed

text \<open>Without \<open>--hard-links\<close>.\<close>

lemma Sender_outcome:
  assumes "gob_ok (env_gob env)" and "list_all plain SD"
    and "outcome q (src_fs (Walking (abs_path SD)) (Walk (abs_path SD) walkOpts)) s (\<lambda>x t. x = walked \<and>
      holds (session_out env attrOpts ropts [] (source_data S SD) D m es @ i) o' t)"
    and "es = FilterEntries walked rules"
    and "entries_ok q0 env copts attrOpts ropts [] (source_data S SD) D m es"
    and "\<forall>e \<in> set es. exchanges [] e \<longrightarrow> is_file (content_of S (SD @ comps e))"
    and "payload_fits (encFileList (env_gob env) \<lparr>fl_Entries = es, fl_HardLinkGroups = []\<rparr>)"
  shows "outcome q (Sender_to batch env (abs_path SD) walkOpts rules False copts) s
    (\<lambda>_. holds i (o' @ fileList_bytes (env_gob env) es [] @
       session_in env copts attrOpts ropts [] (source_data S SD) D m es))"
  by (rule Sender_outcome_links [where groups = "[]", OF assms(1-4) _ _ _ assms(5-7)]) simp_all

end

section \<open>Writing to the connection alone\<close>

definition sender_at :: "fs \<Rightarrow> bytes \<Rightarrow> bytes \<Rightarrow> sendState \<Rightarrow> bool" where
  "sender_at S i o' s \<longleftrightarrow>
     no_faults S \<and> fs_wf S \<and> same_tree S (ss_fs s) \<and> ss_conn s = \<lparr>c_in = i, c_out = open_writer o'\<rparr>"

lemma src_conn_outcome:
  assumes "ss_conn s = \<lparr>c_in = i, c_out = open_writer o'\<rparr>"
    and "f \<lparr>c_in = i, c_out = open_writer o'\<rparr> = (\<lparr>c_in = i', c_out = open_writer o''\<rparr>, Ok x)"
  shows "outcome q (src_conn err f) s
    (\<lambda>y t. y = x \<and> ss_fs t = ss_fs s \<and> ss_conn t = \<lparr>c_in = i', c_out = open_writer o''\<rparr>)"
  using assms by (simp add: outcome_def src_conn_def on_part_def wrap_err_def)

lemma recvSignature_outcome:
  assumes "gob_ok g" and "ss_conn s = \<lparr>c_in = signature_bytes g path sig act @ i, c_out = open_writer o'\<rparr>"
    and "payload_fits (encSignature g \<lparr>sm_Path = path, sm_Sig = sig, sm_Append = act\<rparr>)"
  shows "outcome q (src_conn err (recvSignature g)) s
    (\<lambda>x t. x = \<lparr>sm_Path = path, sm_Sig = sig, sm_Append = act\<rparr> \<and> ss_fs t = ss_fs s \<and>
      ss_conn t = \<lparr>c_in = i, c_out = open_writer o'\<rparr>)"
  by (rule src_conn_outcome [OF assms(2)]) (simp add: recvSignature_bytes [OF assms(1,3)])

lemma ReadFile_there:
  assumes "no_faults s" and "fs_wf s" and "content_of s p = Some (FileData d)"
  shows "ReadFile (abs_path p) s = (step s, Ok d)"
proof -
  have "ino_of s p \<noteq> None" using assms(3) content_ino [of s p] by simp
  then show ?thesis using assms wf_dirs_above [OF assms(2)] by (simp add: ReadFile_abs)
qed

interpretation plain_sender: sender_state None "sender_at S" S SD env for S SD env
proof unfold_locales
  fix path sig act i o' s q err
  assume "gob_ok (env_gob env)" and s: "sender_at S (signature_bytes (env_gob env) path sig act @ i) o' s"
    and "payload_fits (encSignature (env_gob env) \<lparr>sm_Path = path, sm_Sig = sig, sm_Append = act\<rparr>)"
  then show "outcome q (src_conn err (recvSignature (env_gob env))) s
      (\<lambda>x t. x = \<lparr>sm_Path = path, sm_Sig = sig, sm_Append = act\<rparr> \<and> sender_at S i o' t)"
    by (intro outcome_mono [OF recvSignature_outcome]) (auto simp: sender_at_def)
next
  fix i o' s p q err ft
  assume s: "sender_at S i o' s" and p: "payload_fits p"
  have conn: "ss_conn s = \<lparr>c_in = i, c_out = open_writer o'\<rparr>" using s by (simp add: sender_at_def)
  show "outcome q (src_send err (send_payload_to (multi_write None) ft p)) s
      (\<lambda>_. sender_at S i (o' @ message_bytes ft p))"
    unfolding src_send_plain
    by (rule outcome_mono [OF src_conn_outcome [OF conn]])
      (use s in \<open>auto simp: of_err_def send_payload_bytes [OF p] sender_at_def\<close>)
next
  fix i o' s r d q rerr
  assume s: "sender_at S i o' s" and d: "content_of S (SD @ r) = Some (FileData d)"
  then have tree: "same_tree S (ss_fs s)" by (simp add: sender_at_def)
  with s d have "ReadFile (abs_path (SD @ r)) (ss_fs s) = (step (ss_fs s), Ok d)"
    by (intro ReadFile_there) (simp_all add: sender_at_def no_faults_tree same_tree_wf same_tree_content)
  with s tree.frame_trans [OF tree same_tree_step]
  show "outcome q (src_fs rerr (ReadFile (abs_path (SD @ r)))) s (\<lambda>x t. x = d \<and> sender_at S i o' t)"
    by (simp add: outcome_def src_fs_def on_part_def wrap_err_def sender_at_def)
qed

lemma plain_walk:
  assumes "no_faults S" "fs_wf S" and "Walk (abs_path SD) walkOpts S = (S', Ok walked)" "same_tree S S'"
  shows "outcome q (src_fs err (Walk (abs_path SD) walkOpts)) \<lparr>ss_fs = S, ss_conn = \<lparr>c_in = i, c_out = open_writer o'\<rparr>\<rparr>
    (\<lambda>x t. x = walked \<and> sender_at S i o' t)"
  using assms by (simp add: outcome_def src_fs_def on_part_def wrap_err_def sender_at_def)

section \<open>The entries of a walk\<close>

lemma entry_at_facts:
  assumes "fs_wf S" and "content_of S (SD @ r) = Some c" and "r \<noteq> []"
  shows "comps (entry_at S SD r) = r" and "list_all plain r" and "fe_Path (entry_at S SD r) = rel_path r"
    and "fe_IsDir (entry_at S SD r) \<longleftrightarrow> c = DirData"
    and "fe_Mode (entry_at S SD r) AND ModeSymlink \<noteq> 0 \<longleftrightarrow> (\<exists>t. c = LinkData t)"
    and "c = LinkData t \<Longrightarrow> fe_LinkTarget (entry_at S SD r) = t"
    and "c = FileData d \<Longrightarrow> fe_Size (entry_at S SD r) = int (length d)"
proof -
  from assms(2) content_ino [of S "SD @ r"] have "ino_of S (SD @ r) \<noteq> None" by simp
  from wf_prefix [OF assms(1) this] show plain: "list_all plain r" by simp
  then show "comps (entry_at S SD r) = r" by (simp add: comps_def path_comps_rel)
  from assms(2) have c: "in_content (the (lookup S (SD @ r))) = c" by (auto simp: content_of_def)
  show "fe_Path (entry_at S SD r) = rel_path r" by simp
  show "fe_IsDir (entry_at S SD r) \<longleftrightarrow> c = DirData"
    and "fe_Mode (entry_at S SD r) AND ModeSymlink \<noteq> 0 \<longleftrightarrow> (\<exists>t. c = LinkData t)"
    using symlink_mode [of "the (lookup S (SD @ r))"] by (simp_all add: entry_at_def c)
  show "c = LinkData t \<Longrightarrow> fe_LinkTarget (entry_at S SD r) = t" by (simp add: entry_at_def entry_of_def c)
  show "c = FileData d \<Longrightarrow> fe_Size (entry_at S SD r) = int (length d)"
    using c by (simp add: entry_at_def entry_of_def entry_base_def lookupUIDGID_def size_of_def)
qed

lemma FilterEntries_none: "FilterEntries es [] = es"
  by (induction es) simp_all

lemma FilterEntries_subset: "set (FilterEntries es rules) \<subseteq> set es"
  by (induction es) auto

lemma FilterEntries_distinct: "distinct (map f es) \<Longrightarrow> distinct (map f (FilterEntries es rules))"
  using FilterEntries_subset by (induction es) fastforce+

end
