(* ===== verification/Batch.thy ===== *)
theory Batch
  imports Commands SenderSession
begin

unbundle bit_operations_syntax

text \<open>
  What a sync with \<open>--write-batch\<close> leaves on disk when it pushes to a remote host: the batch file with
  exactly the bytes that were sent, or no batch file; and nothing else. The sender writes the batch as it
  sends, so the judgement \<open>tees\<close> follows file and connection through all its calls; and a sender whose
  batch is outside its source satisfies the locale \<open>sender_state\<close>.
\<close>

section \<open>The batch file while it exists\<close>

text \<open>The state differs from \<open>s0\<close> only in the batch file \<open>p\<close>, an inode \<open>n\<close> that holds \<open>d\<close>; no call starts to fail.\<close>

definition batch_at :: "fs \<Rightarrow> fpath \<Rightarrow> nat \<Rightarrow> bytes \<Rightarrow> fs \<Rightarrow> bool" where
  "batch_at s0 p n d s \<longleftrightarrow> temp_at s0 s p n d \<and> fs_faults s = fs_faults s0"

definition batch_gone :: "fs \<Rightarrow> fs \<Rightarrow> bool" where
  "batch_gone s0 s \<longleftrightarrow> content_of s = content_of s0"

lemma create_faults: "fs_faults (fst (create p c perm s)) = fs_faults s"
  by (simp add: create_def add_name_def touch_def upd_inode_def Let_def split: option.split)

lemma Create_batch:
  assumes "fs_wf s0" and "dirs_above s0 p" and "ino_of s0 p = None" and "Create (abs_path p) s0 = (s, r)"
  shows "(\<exists>e. r = Fail e \<and> same_tree s0 s) \<or> (\<exists>n. r = Ok n \<and> batch_at s0 p n [] s)"
proof (cases "fs_faults s0 (fs_tick s0)")
  case None
  have link: "\<not> is_link s0 p" using assms(3) by (simp add: is_link_def content_of_ino)
  have "Create (abs_path p) s0 = create p (FileData []) (438 AND NOT (fs_umask s0)) (step s0)"
    using None assms(2,3) link by (simp add: Create_def sys_call_def with_path_abs)
  with assms(4) have c: "create p (FileData []) (438 AND NOT (fs_umask s0)) (step s0) = (s, r)" by simp
  then have "fs_faults s = fs_faults s0" using create_faults [of p "FileData []" "438 AND NOT (fs_umask s0)" "step s0"] by simp
  with create_cases [OF assms(1) same_tree_step c] show ?thesis by (auto simp: batch_at_def)
next
  case (Some k)
  with assms(4) show ?thesis by (auto simp: Create_def sys_call_def same_tree_step)
qed

lemma batch_at_tree: "batch_at s0 p n d s \<Longrightarrow> same_tree s t \<Longrightarrow> batch_at s0 p n d t"
  using same_tree_temp [of s0 s p n d t] by (simp add: batch_at_def same_tree_def)

lemma Write_batch:
  assumes "batch_at s0 p n d s" and "Write n data s = (t, k, e)"
  shows "if e = None then batch_at s0 p n (d @ data) t else \<exists>j. batch_at s0 p n (d @ take j data) t"
proof -
  have faults: "fs_faults t = fs_faults s"
    using assms(2) by (auto simp: Write_def upd_inode_def step_def split: option.splits)
  from assms(1) have temp: "temp_at s0 s p n d" by (simp add: batch_at_def)
  from Write_cases [OF temp assms(2)] faults assms show ?thesis
    by (cases e) (auto simp: batch_at_def)
qed

lemma Close_batch: "batch_at s0 p n d s \<Longrightarrow> Close s = (t, r) \<Longrightarrow> batch_at s0 p n d t"
  using batch_at_tree [OF _ same_tree_step] by (auto simp: Close_def sys_call_def split: option.splits)

text \<open>The last call on the file system is one the schedule makes fail.\<close>

definition last_call_failed :: "fs \<Rightarrow> fs \<Rightarrow> bool" where
  "last_call_failed s0 t \<longleftrightarrow> (\<exists>k. fs_tick t = Suc k \<and> fs_faults s0 k \<noteq> None)"

lemma Close_failed:
  assumes "batch_at s0 p n d s" and "Close s = (t, Fail e)"
  shows "last_call_failed s0 t"
  using assms by (auto simp: Close_def sys_call_def batch_at_def last_call_failed_def step_def split: option.splits)

lemma Remove_batch:
  assumes "batch_at s0 p n d s" and "dirs_above s0 p" and "Remove (abs_path p) s = (t, r)"
  shows "batch_gone s0 t \<or> last_call_failed s0 t \<and> batch_at s0 p n d t"
proof (cases "fs_faults s (fs_tick s)")
  case None
  have "content_of s p = Some (FileData d)" "dirs_above s p"
    using assms(1,2) temp_at_dirs [of s0 s p n d p] by (simp_all add: batch_at_def temp_at_def)
  with None assms(3) have "r = Ok ()"
    by (auto simp: Remove_def sys_call_def with_path_abs remove_at_def)
  with Remove_temp_cases [of s0 s p n d t r] assms show ?thesis by (simp add: batch_at_def batch_gone_def)
next
  case (Some k)
  with assms(3) have "t = step s" by (simp add: Remove_def sys_call_def)
  with Some assms(1) batch_at_tree [OF assms(1) same_tree_step] show ?thesis
    by (auto simp: last_call_failed_def batch_at_def step_def)
qed

section \<open>The sender with a batch file\<close>

text \<open>The bytes written to a connection since an earlier state of it.\<close>

definition written_since :: "byte conn \<Rightarrow> byte conn \<Rightarrow> bytes" where
  "written_since c c' = drop (length (w_written (c_out c))) (w_written (c_out c'))"

text \<open>The batch file holds what the connection was sent from \<open>k\<close> on; the judgement \<open>tees\<close> says a step keeps it so.\<close>

definition synced :: "fs \<Rightarrow> fpath \<Rightarrow> nat \<Rightarrow> nat \<Rightarrow> sendState \<Rightarrow> bool" where
  "synced s0 p n k s \<longleftrightarrow>
     k \<le> length (w_written (c_out (ss_conn s))) \<and> batch_at s0 p n (drop k (w_written (c_out (ss_conn s)))) (ss_fs s)"

definition tees :: "fs \<Rightarrow> fpath \<Rightarrow> nat \<Rightarrow> nat \<Rightarrow> 'a snd \<Rightarrow> bool" where
  "tees s0 p n k m \<longleftrightarrow>
     (\<forall>s t r. synced s0 p n k s \<and> m s = (t, r) \<longrightarrow>
        (case r of Inl e \<Rightarrow> \<exists>d. batch_at s0 p n d (ss_fs t) | Inr x \<Rightarrow> synced s0 p n k t))"

lemma synced_batch: "synced s0 p n k s \<Longrightarrow> \<exists>d. batch_at s0 p n d (ss_fs s)"
  by (auto simp: synced_def)

lemma tees_pure: "tees s0 p n k (ret x)" "tees s0 p n k (throw e)"
  by (auto simp: tees_def ret_def throw_def dest: synced_batch)

lemma tees_bind: "tees s0 p n k m \<Longrightarrow> (\<And>x. tees s0 p n k (f x)) \<Longrightarrow> tees s0 p n k (bind m f)"
  by (fastforce simp: tees_def bind_def split: prod.splits sum.splits)

lemma tees_each: "(\<And>x. tees s0 p n k (f x)) \<Longrightarrow> tees s0 p n k (each f xs)"
proof (induction xs)
  case Nil
  then show ?case by (auto simp: tees_def)
next
  case (Cons x xs)
  then show ?case unfolding each_Cons by (auto intro!: tees_bind)
qed

lemma tees_src_fs: "tree.keeps m \<Longrightarrow> tees s0 p n k (src_fs err m)"
  using batch_at_tree tree.keepsD'
  by (fastforce simp: tees_def src_fs_def on_part_def wrap_err_def synced_def split: prod.splits sum.splits)

lemma tees_src_conn: "(\<And>c. c_out (fst (f c)) = c_out c) \<Longrightarrow> tees s0 p n k (src_conn err f)"
  by (auto simp: tees_def src_conn_def on_part_def wrap_err_def synced_def split: prod.splits sum.splits) (metis fst_conv)+

lemma multi_write_synced:
  assumes "synced s0 p n k s" and "multi_write (Some n) s data = (t, ok)"
  shows "(ok \<longrightarrow> synced s0 p n k t) \<and> (\<exists>d. batch_at s0 p n d (ss_fs t))"
proof -
  obtain w wok where w: "write_all (c_out (ss_conn s)) data = (w, wok)" by (meson surj_pair)
  obtain x j e where x: "Write n data (ss_fs s) = (x, j, e)" by (rule prod_cases3)
  have batch: "batch_at s0 p n (drop k (w_written (c_out (ss_conn s)))) (ss_fs s)"
    and k: "k \<le> length (w_written (c_out (ss_conn s)))"
    using assms(1) by (simp_all add: synced_def)
  show ?thesis
  proof (cases wok)
    case True
    with write_all_prefix [OF w] have written: "w_written w = w_written (c_out (ss_conn s)) @ data" by auto
    show ?thesis
      using Write_batch [OF batch x] assms(2) True k by (auto simp: multi_write_def conn_write_def w x synced_def written)
  next
    case False
    with assms(2) batch show ?thesis by (auto simp: multi_write_def conn_write_def w)
  qed
qed

lemma frame_synced:
  assumes "synced s0 p n k s" and "write_frame_to (multi_write (Some n)) s f = (t, e)"
  shows "(e = None \<longrightarrow> synced s0 p n k t) \<and> (\<exists>d. batch_at s0 p n d (ss_fs t))"
proof -
  obtain u ok where u: "multi_write (Some n) s (frame_header f) = (u, ok)" by (meson surj_pair)
  obtain v ok' where v: "multi_write (Some n) u (fr_Payload f) = (v, ok')" by (meson surj_pair)
  show ?thesis
    using multi_write_synced [OF assms(1) u] multi_write_synced [OF _ v] assms synced_batch [OF assms(1)]
    by (auto simp: write_frame_to_def u v split: if_splits bool.splits)
qed

lemma tees_send: "tees s0 p n k (src_send err (send_payload_to (multi_write (Some n)) ft payload))"
  unfolding tees_def
proof (intro allI impI, elim conjE)
  fix s t r
  assume start: "synced s0 p n k s" and run: "src_send err (send_payload_to (multi_write (Some n)) ft payload) s = (t, r)"
  show "case r of Inl e \<Rightarrow> \<exists>d. batch_at s0 p n d (ss_fs t) | Inr x \<Rightarrow> synced s0 p n k t"
  proof (cases payload)
    case None
    with run synced_batch [OF start] show ?thesis
      by (auto simp: src_send_def send_payload_to_def of_err_def wrap_err_def)
  next
    case (Some b)
    obtain u e where u: "write_frame_to (multi_write (Some n)) s \<lparr>fr_Type = ft, fr_Payload = b\<rparr> = (u, e)" by (meson surj_pair)
    from frame_synced [OF start u] run Some show ?thesis
      by (cases e) (auto simp: src_send_def send_payload_to_def of_err_def wrap_err_def u)
  qed
qed

lemma recvSignature_out: "c_out (fst (recvSignature g c)) = c_out c"
  by (simp add: recvSignature_def recv_payload_def readTypedFrame_def split: prod.split sum.split)

lemma send_entry_tees: "tees s0 p n k (send_entry (Some n) env src copts secondary entry)"
  unfolding send_entry_def send_delta_def sendDelta_to_def
  by (auto intro!: tees_bind tees_pure tees_send tees_src_fs tees_src_conn recvSignature_out looks_keep_tree split: sum.split)

lemma Sender_tees: "tees s0 p n k (Sender_to (Some n) env src walkOpts rules hardLinks copts)"
  unfolding Sender_to_def sendFileList_to_def Let_def
  by (auto intro!: tees_bind tees_pure tees_each tees_send tees_src_fs Walk_keeps_tree DetectHardLinks_keeps_tree send_entry_tees)

section \<open>A source the batch file is not in\<close>

text \<open>The second kind of sender state: no call fails, and the batch file is outside the source \<open>SD\<close>.\<close>

definition teed_at :: "fs \<Rightarrow> fpath \<Rightarrow> nat \<Rightarrow> nat \<Rightarrow> fs \<Rightarrow> fpath \<Rightarrow> bytes \<Rightarrow> bytes \<Rightarrow> sendState \<Rightarrow> bool" where
  "teed_at s0 p n k S SD i o' s \<longleftrightarrow>
     no_faults s0 \<and> fs_wf s0 \<and> take (length SD) p \<noteq> SD \<and> (\<exists>x d. batch_at s0 p x d S) \<and> synced s0 p n k s \<and>
     ss_conn s = \<lparr>c_in = i, c_out = open_writer o'\<rparr>"

lemma batch_at_quiet: "batch_at s0 p n d s \<Longrightarrow> no_faults s0 \<Longrightarrow> no_faults s"
  by (simp add: batch_at_def no_faults_def)

lemma batch_at_outside:
  assumes "batch_at s0 p n d s" and "take (length SD) p \<noteq> SD"
  shows "content_of s (SD @ r) = content_of s0 (SD @ r)"
  using assms by (auto simp: batch_at_def temp_at_def)

lemma batch_at_dirs:
  assumes "batch_at s0 p n d s" and "fs_wf s0" and "ino_of s0 q \<noteq> None"
  shows "dirs_above s q"
proof -
  have above: "dirs_above s0 q" by (rule wf_dirs_above [OF assms(2,3)])
  have "\<not> strict_prefix p q"
  proof
    assume "strict_prefix p q"
    then obtain r where "q = p @ r" "r \<noteq> []" by (auto simp: strict_prefix_def prefix_def)
    with above have "content_of s0 p = Some DirData"
      by (auto simp: dirs_above_def list_all_iff dest!: bspec [of _ _ "length p"])
    with assms(1) show False by (simp add: batch_at_def temp_at_def content_of_ino)
  qed
  with above assms(1) show ?thesis by (auto simp: batch_at_def intro: temp_at_dirs)
qed

lemma multi_write_teed:
  assumes "teed_at s0 p n k S SD i o' s"
  shows "\<exists>t. multi_write (Some n) s data = (t, True) \<and> teed_at s0 p n k S SD i (o' @ data) t"
proof -
  from assms have conn: "ss_conn s = \<lparr>c_in = i, c_out = open_writer o'\<rparr>" and start: "synced s0 p n k s"
    and quiet: "no_faults (ss_fs s)"
    by (auto simp: teed_at_def synced_def intro: batch_at_quiet)
  obtain t ok where t: "multi_write (Some n) s data = (t, ok)" by (meson surj_pair)
  have "ok \<and> ss_conn t = \<lparr>c_in = i, c_out = open_writer (o' @ data)\<rparr>"
    using t quiet by (auto simp: multi_write_def conn_write_def conn write_all_open Write_def no_faults_def)
  with multi_write_synced [OF start t] t assms show ?thesis by (auto simp: teed_at_def)
qed

lemma frame_teed:
  assumes "teed_at s0 p n k S SD i o' s" and "frame_valid f"
  shows "\<exists>t. write_frame_to (multi_write (Some n)) s f = (t, None) \<and> teed_at s0 p n k S SD i (o' @ frame_bytes f) t"
proof -
  obtain u where u: "multi_write (Some n) s (frame_header f) = (u, True)" "teed_at s0 p n k S SD i (o' @ frame_header f) u"
    using multi_write_teed [OF assms(1)] by blast
  obtain v where "multi_write (Some n) u (fr_Payload f) = (v, True)"
      "teed_at s0 p n k S SD i ((o' @ frame_header f) @ fr_Payload f) v"
    using multi_write_teed [OF u(2)] by blast
  with u assms(2) show ?thesis by (cases "fr_Payload f") (simp_all add: write_frame_to_def frame_bytes_def frame_valid_def)
qed

interpretation teed_sender: sender_state "Some n" "teed_at s0 p n k S SD" S SD env for n s0 p k S SD env
proof unfold_locales
  fix path sig act i o' s q err
  assume gob: "gob_ok (env_gob env)" and s: "teed_at s0 p n k S SD (signature_bytes (env_gob env) path sig act @ i) o' s"
    and fits: "payload_fits (encSignature (env_gob env) \<lparr>sm_Path = path, sm_Sig = sig, sm_Append = act\<rparr>)"
  have conn: "ss_conn s = \<lparr>c_in = signature_bytes (env_gob env) path sig act @ i, c_out = open_writer o'\<rparr>"
    using s by (simp add: teed_at_def)
  show "outcome q (src_conn err (recvSignature (env_gob env))) s
      (\<lambda>x t. x = \<lparr>sm_Path = path, sm_Sig = sig, sm_Append = act\<rparr> \<and> teed_at s0 p n k S SD i o' t)"
    by (rule outcome_mono [OF recvSignature_outcome [OF gob conn fits]]) (use s in \<open>auto simp: teed_at_def synced_def\<close>)
next
  fix i o' s b q err ft
  assume s: "teed_at s0 p n k S SD i o' s" and b: "payload_fits b"
  from b obtain d where d: "b = Some d" "frame_valid \<lparr>fr_Type = ft, fr_Payload = d\<rparr>"
    by (auto simp: payload_fits_def frame_valid_def split: option.splits)
  from frame_teed [OF s d(2)] show "outcome q (src_send err (send_payload_to (multi_write (Some n)) ft b)) s
      (\<lambda>_. teed_at s0 p n k S SD i (o' @ message_bytes ft b))"
    by (auto simp: outcome_def src_send_def wrap_err_def of_err_def send_payload_to_def d(1) message_bytes_def)
next
  fix i o' s r d q rerr
  assume s: "teed_at s0 p n k S SD i o' s" and d: "content_of S (SD @ r) = Some (FileData d)"
  from s obtain x y b where S: "batch_at s0 p x y S" and b: "batch_at s0 p n b (ss_fs s)" and apart: "take (length SD) p \<noteq> SD"
    and s0: "fs_wf s0" "no_faults s0"
    by (auto simp: teed_at_def synced_def)
  have there: "content_of s0 (SD @ r) = Some (FileData d)" using d batch_at_outside [OF S apart] by simp
  then have "ino_of s0 (SD @ r) \<noteq> None" using content_ino [of s0 "SD @ r"] by simp
  then have "ReadFile (abs_path (SD @ r)) (ss_fs s) = (step (ss_fs s), Ok d)"
    using batch_at_quiet [OF b s0(2)] batch_at_dirs [OF b s0(1)] there batch_at_outside [OF b apart]
    by (simp add: ReadFile_abs)
  with s show "outcome q (src_fs rerr (ReadFile (abs_path (SD @ r)))) s (\<lambda>x t. x = d \<and> teed_at s0 p n k S SD i o' t)"
    by (auto simp: outcome_def src_fs_def on_part_def wrap_err_def teed_at_def synced_def
        intro: batch_at_tree [OF _ same_tree_step])
qed

section \<open>A push to a remote host\<close>

lemma syncToRemote_batch:
  assumes "batch_at s0 p n [] s"
    and "syncToRemote (Some n) env spawn rsh src remote walkOpts rules hardLinks ropts copts ipv4 ipv6 s = (t, c, r)"
  shows "(\<exists>d. batch_at s0 p n d t) \<and> (r = Ok () \<longrightarrow>
    (\<exists>argv q c1 c2. spawn argv = Started q \<and> Handshake (pc_conn q) = (c1, None) \<and> c = Some c2 \<and>
       batch_at s0 p n (written_since c1 c2) t))"
proof -
  have send: "case y of Inl e \<Rightarrow> \<exists>d. batch_at s0 p n d (ss_fs x) | Inr _ \<Rightarrow> batch_at s0 p n (written_since c (ss_conn x)) (ss_fs x)"
    if "Sender_to (Some n) env src walkOpts rules hardLinks copts \<lparr>ss_fs = s, ss_conn = c\<rparr> = (x, y)" for c x y
  proof -
    have "synced s0 p n (length (w_written (c_out c))) \<lparr>ss_fs = s, ss_conn = c\<rparr>"
      using assms(1) by (simp add: synced_def)
    with Sender_tees that show ?thesis
      unfolding tees_def written_since_def synced_def by (fastforce split: sum.splits)
  qed
  then have failed: "\<exists>d. batch_at s0 p n d (ss_fs x)"
    if "Sender_to (Some n) env src walkOpts rules hardLinks copts \<lparr>ss_fs = s, ss_conn = c\<rparr> = (x, y)" for c x y
    using that by (cases y) fastforce+
  have sent: "batch_at s0 p n (written_since c (ss_conn x)) (ss_fs x)"
    if "Sender_to (Some n) env src walkOpts rules hardLinks copts \<lparr>ss_fs = s, ss_conn = c\<rparr> = (x, Inr u)" for c x u
    using send [OF that] by simp
  show ?thesis
    using assms failed sent
    by (fastforce simp: syncToRemote_def Dial_def Let_def split: sum.splits prod.splits option.splits spawn.splits)
qed

lemma sync_source_remote:
  assumes "sp_dest pl = RemoteDest remote" and "batch_at s0 p n [] (cd_fs s)" and "sync_source (Some n) w opts pl src s = (t, r)"
  shows "(\<exists>d. batch_at s0 p n d (cd_fs t)) \<and> (r = Ok () \<longrightarrow>
    (\<exists>argv q c1 c2. w_spawn w (cl_next s) argv = Started q \<and> Handshake (pc_conn q) = (c1, None) \<and>
       cl_sessions t = cl_sessions s @ [c2] \<and> batch_at s0 p n (written_since c1 c2) (cd_fs t)))"
proof -
  obtain f c x where run: "syncToRemote (Some n) (w_env w) (w_spawn w (cl_next s)) (o_rsh opts) src remote (sp_walk pl)
      (sp_rules pl) (ao_HardLinks (sp_attrs pl)) (sp_ropts pl) (sp_copts pl) (o_ipv4 opts) (o_ipv6 opts) (cd_fs s) = (f, c, x)"
    by (rule prod_cases3)
  from syncToRemote_batch [OF assms(2) run] assms(1,3) show ?thesis
    by (cases x; simp add: sync_source_def run) fastforce+
qed

lemma cli_fs_run: "cli_fs err m s = (s\<lparr>cd_fs := fst (m (cd_fs s))\<rparr>, map_sum err id (snd (m (cd_fs s))))"
  by (simp add: cli_fs_def on_part_def wrap_err_def split: prod.split)

lemma drop_batch_run:
  "drop_batch path s = (s\<lparr>cd_fs := fst (Remove path (fst (Close (cd_fs s))))\<rparr>, Ok ())"
  by (simp add: drop_batch_def bind_def attempt_run cli_fs_run ret_def)

definition pushed :: "(string list \<Rightarrow> spawn) \<Rightarrow> fpath \<Rightarrow> cliState \<Rightarrow> cliState \<Rightarrow> bool" where
  "pushed spawn p s t \<longleftrightarrow>
     (\<exists>argv q c1 c2. spawn argv = Started q \<and> Handshake (pc_conn q) = (c1, None) \<and>
        cl_sessions t = cl_sessions s @ [c2] \<and>
        content_of (cd_fs t) = (content_of (cd_fs s))(p \<mapsto> FileData (written_since c1 c2)))"

definition not_pushed :: "fs \<Rightarrow> fpath \<Rightarrow> cliState \<Rightarrow> bool" where
  "not_pushed s0 p t \<longleftrightarrow>
     content_of (cd_fs t) = content_of s0 \<or>
     last_call_failed s0 (cd_fs t) \<and> (\<exists>d. content_of (cd_fs t) = (content_of s0)(p \<mapsto> FileData d))"

lemma drop_batch_gone:
  assumes "batch_at s0 p n d (cd_fs s)" and "dirs_above s0 p" and "drop_batch (abs_path p) s = (t, r)"
  shows "not_pushed s0 p t"
proof -
  obtain x rx where close: "Close (cd_fs s) = (x, rx)" by (meson surj_pair)
  obtain y ry where remove: "Remove (abs_path p) x = (y, ry)" by (meson surj_pair)
  have t: "cd_fs t = y" using assms(3) close remove by (auto simp: drop_batch_run)
  from Close_batch [OF assms(1) close] have "batch_at s0 p n d x" .
  from Remove_batch [OF this assms(2) remove] t show ?thesis
    by (auto simp: not_pushed_def batch_gone_def batch_at_def temp_at_def)
qed

definition closing_failed :: "fpath \<Rightarrow> command_error \<Rightarrow> bool" where
  "closing_failed p e \<longleftrightarrow> (\<exists>x. e = ClosingBatch (abs_path p) x)"

lemma with_batch_remote:
  assumes wf: "fs_wf (cd_fs s)" and path: "dirs_above (cd_fs s) p" "ino_of (cd_fs s) p = None"
    and dest: "sp_dest pl = RemoteDest remote"
    and run: "with_batch (abs_path p) (sync_sources w opts pl d [src]) s = (t, r)"
  shows "(r = Ok () \<longrightarrow> pushed (w_spawn w (cl_next s)) p s t) \<and>
    (\<forall>e. r = Fail e \<longrightarrow> not_pushed (cd_fs s) p t \<and> (closing_failed p e \<longrightarrow> pushed (w_spawn w (cl_next s)) p s t))"
proof -
  let ?s0 = "cd_fs s"
  obtain x rc where create: "Create (abs_path p) ?s0 = (x, rc)" by (meson surj_pair)
  show ?thesis
  proof (cases rc)
    case (Inl e)
    with Create_batch [OF wf path create] have "same_tree ?s0 x" by auto
    with run Inl create show ?thesis
      by (auto simp: with_batch_def bind_def cli_fs_run not_pushed_def closing_failed_def same_tree_content fun_eq_iff)
  next
    case (Inr n)
    with Create_batch [OF wf path create] have b1: "batch_at ?s0 p n [] (cd_fs (s\<lparr>cd_fs := x\<rparr>))" by auto
    obtain y ry where src: "sync_source (Some n) w opts pl src (s\<lparr>cd_fs := x\<rparr>) = (y, ry)" by (meson surj_pair)
    note sent = sync_source_remote [OF dest b1 src]
    have sources: "sync_sources w opts pl d [src] (Some n) (s\<lparr>cd_fs := x\<rparr>) = (y, map_sum (SyncingSource src d) id ry)"
      by (cases ry) (simp_all add: sync_sources_def wrap_err_def src)
    show ?thesis
    proof (cases ry)
      case (Inl e)
      from sent obtain b where b2: "batch_at ?s0 p n b (cd_fs y)" by blast
      have "with_batch (abs_path p) (sync_sources w opts pl d [src]) s = (fst (drop_batch (abs_path p) y), Fail (SyncingSource src d e))"
        using create \<open>rc = Inr n\<close> Inl
        by (simp add: with_batch_def bind_def cli_fs_run attempt_run sources drop_batch_run throw_def)
      then have "t = fst (drop_batch (abs_path p) y)" and r: "r = Fail (SyncingSource src d e)" using run by simp_all
      then have "drop_batch (abs_path p) y = (t, snd (drop_batch (abs_path p) y))" by simp
      from drop_batch_gone [OF b2 path(1) this] r show ?thesis by (simp add: closing_failed_def)
    next
      case (Inr u)
      with sent obtain argv q c1 c2 where pushed: "w_spawn w (cl_next s) argv = Started q" "Handshake (pc_conn q) = (c1, None)"
        "cl_sessions y = cl_sessions s @ [c2]" and b3: "batch_at ?s0 p n (written_since c1 c2) (cd_fs y)"
        by auto
      obtain v rv where close: "Close (cd_fs y) = (v, rv)" by (meson surj_pair)
      from Close_batch [OF b3 close] have b4: "batch_at ?s0 p n (written_since c1 c2) v" .
      have "with_batch (abs_path p) (sync_sources w opts pl d [src]) s
          = seq (cli_fs (ClosingBatch (abs_path p)) Close) (print_out (wrote_line (abs_path p))) y"
        using create \<open>rc = Inr n\<close> Inr by (simp add: with_batch_def bind_def cli_fs_run attempt_run sources)
      with run close have t: "cd_fs t = v" "cl_sessions t = cl_sessions y" "r = Ok () \<longleftrightarrow> rv = Ok ()"
        by (cases rv; auto simp: bind_def cli_fs_run print_out_def modify_def)+
      from b4 have "content_of v = (content_of ?s0)(p \<mapsto> FileData (written_since c1 c2))" by (simp add: batch_at_def temp_at_def)
      moreover have "rv = Ok () \<or> last_call_failed ?s0 v"
        using Close_failed [OF b3, of v] close by (cases rv) auto
      ultimately show ?thesis
        using pushed t by (fastforce simp: pushed_def not_pushed_def)
    qed
  qed
qed

lemma pick_remote: "\<not> isRsyncURL dest \<Longrightarrow> ParseRemotePath dest = Some r \<Longrightarrow> pick_destination url_parse dest = Ok (RemoteDest r)"
  by (simp add: pick_destination_def)

lemma plan_sync_remote:
  assumes "plan_sync rf up rs changed sources dest opts = Ok p" and "\<not> isRsyncURL dest" and "ParseRemotePath dest = Some r"
    and "o_writeBatch opts \<noteq> []" and "\<not> o_dryRun opts"
  shows "sp_dest p = RemoteDest r \<and> sp_batch p \<and> (\<exists>src. sources = [src])"
  using assms unfolding plan_sync_def
  by (auto simp: res_bind_Ok_conv map_sum_Ok Let_def pick_remote length_Suc_conv split: option.splits if_splits)


end
