(* ===== verification/HardLinks.thy ===== *)
theory HardLinks
  imports SenderSession
begin

unbundle bit_operations_syntax

text \<open>
  What \<open>DetectHardLinks\<close> finds: the names of each inode that has more than one among the entries.
\<close>

section \<open>Grouping\<close>

lemma map_of_add_link:
  "map_of (add_link k p m) j
     = (if j = k then Some ((case map_of m k of None \<Rightarrow> [] | Some ps \<Rightarrow> ps) @ [p]) else map_of m j)"
  by (induction k p m rule: add_link.induct) auto

lemma keys_add_link: "fst ` set (add_link k p m) = insert k (fst ` set m)"
  by (induction k p m rule: add_link.induct) auto

lemma distinct_add_link: "distinct (map fst m) \<Longrightarrow> distinct (map fst (add_link k p m))"
proof (induction k p m rule: add_link.induct)
  case (2 k p j ps m)
  then show ?case using keys_add_link [of k p m] by (auto simp: image_iff)
qed simp

text \<open>The paths of one key among pairs of a key and a path.\<close>

definition paths_of :: "'k \<Rightarrow> ('k \<times> string) list \<Rightarrow> string list" where
  "paths_of k kps = map snd (filter (\<lambda>kp. fst kp = k) kps)"

definition add_links :: "('k \<times> string list) list \<Rightarrow> ('k \<times> string) list \<Rightarrow> ('k \<times> string list) list" where
  "add_links m kps = foldl (\<lambda>m (k, p). add_link k p m) m kps"

lemma add_links_conv:
  "distinct (map fst (add_links [] kps)) \<and>
   map_of (add_links [] kps) k = (if paths_of k kps = [] then None else Some (paths_of k kps))"
proof (induction kps rule: rev_induct)
  case (snoc kp kps)
  obtain j p where kp: "kp = (j, p)" by (cases kp)
  from snoc show ?case
    by (auto simp: kp add_links_def paths_of_def map_of_add_link distinct_add_link)
qed (simp add: add_links_def paths_of_def)

lemma set_add_links: "set (add_links [] kps) = {(k, paths_of k kps) | k. paths_of k kps \<noteq> []}"
proof -
  have "(k, ps) \<in> set (add_links [] kps) \<longleftrightarrow> paths_of k kps \<noteq> [] \<and> ps = paths_of k kps" for k ps
    using add_links_conv [of kps k] by (auto simp flip: map_of_eq_Some_iff)
  then show ?thesis by auto
qed

lemma sort_distinct: "distinct xs \<Longrightarrow> sort xs = sorted_list_of_set (set xs)"
  by (simp add: sorted_list_of_set_sort_remdups distinct_remdups_id)

lemma paths_of_distinct: "distinct (map snd kps) \<Longrightarrow> distinct (paths_of k kps)"
  by (induction kps) (auto simp: paths_of_def)

lemma paths_of_set: "set (paths_of k kps) = {p. (k, p) \<in> set kps}"
  by (force simp: paths_of_def)

lemma key_of_path: "distinct (map snd kps) \<Longrightarrow> (k, p) \<in> set kps \<Longrightarrow> (j, p) \<in> set kps \<Longrightarrow> j = k"
  by (induction kps) (auto simp: image_iff)

lemma group_links_exact:
  assumes "distinct (map snd kps)"
  shows "set (group_links (add_links [] kps))
      = {sorted_list_of_set {p. (k, p) \<in> set kps} | k. 2 \<le> card {p. (k, p) \<in> set kps}}"
    and "sorted_wrt (<) (map hd (group_links (add_links [] kps)))"
proof -
  let ?m = "add_links [] kps" and ?big = "\<lambda>ps :: string list. \<not> length ps < 2"
  have d: "distinct (paths_of k kps)" for k by (rule paths_of_distinct [OF assms])
  have set: "sort (paths_of k kps) = sorted_list_of_set {p. (k, p) \<in> set kps}"
    and size: "length (paths_of k kps) = card {p. (k, p) \<in> set kps}" for k
    using d [of k] by (simp_all add: sort_distinct paths_of_set flip: distinct_card)
  have "set (group_links ?m) = sort ` {ps. ps \<in> snd ` set ?m \<and> ?big ps}"
    by (simp add: group_links_def)
  also have "\<dots> = {sort (paths_of k kps) | k. ?big (paths_of k kps)}"
    unfolding set_add_links by force
  finally show "set (group_links ?m)
      = {sorted_list_of_set {p. (k, p) \<in> set kps} | k. 2 \<le> card {p. (k, p) \<in> set kps}}"
    by (simp add: set size not_less)
  have "inj_on (hd \<circ> sort \<circ> snd) {x \<in> set ?m. ?big (snd x)}"
  proof (rule inj_onI)
    fix x y
    assume "x \<in> {x \<in> set ?m. ?big (snd x)}" "y \<in> {x \<in> set ?m. ?big (snd x)}"
      and same: "(hd \<circ> sort \<circ> snd) x = (hd \<circ> sort \<circ> snd) y"
    then obtain k j where x: "x = (k, paths_of k kps)" "paths_of k kps \<noteq> []"
      and y: "y = (j, paths_of j kps)" "paths_of j kps \<noteq> []"
      unfolding set_add_links by auto
    have "hd (sort (paths_of i kps)) \<in> set (paths_of i kps)" if "paths_of i kps \<noteq> []" for i
      using that by (metis hd_in_set length_0_conv length_sort set_sort)
    from this [OF x(2)] this [OF y(2)] same x(1) y(1) have "hd (sort (paths_of k kps)) \<in> set (paths_of k kps)"
      "hd (sort (paths_of k kps)) \<in> set (paths_of j kps)" by simp_all
    then have "k = j" using key_of_path [OF assms] unfolding paths_of_set by blast
    with x y show "x = y" by simp
  qed
  moreover have "distinct (filter (\<lambda>x. ?big (snd x)) ?m)"
    using add_links_conv [of kps] by (simp add: distinct_map)
  ultimately have "distinct (map (hd \<circ> sort \<circ> snd) (filter (\<lambda>x. ?big (snd x)) ?m))"
    by (simp add: distinct_map)
  moreover have "mset (map hd (group_links ?m)) = mset (map (hd \<circ> sort \<circ> snd) (filter (\<lambda>x. ?big (snd x)) ?m))"
    by (simp add: group_links_def filter_map comp_def multiset.map_comp)
  ultimately have "distinct (map hd (group_links ?m))" by (metis mset_eq_imp_distinct_iff)
  moreover have "sorted (map hd (group_links ?m))" by (simp add: group_links_def)
  ultimately show "sorted_wrt (<) (map hd (group_links ?m))" by (simp add: strict_sorted_iff)
qed

section \<open>Looking\<close>

definition keyed :: "fs \<Rightarrow> fpath \<Rightarrow> fileEntry list \<Rightarrow> (hardLinkKey \<times> string) list" where
  "keyed S SD es =
     map (\<lambda>e. (\<lparr>Dev = 0, Ino = the (ino_of S (SD @ comps e))\<rparr>, fe_Path e))
       (filter (\<lambda>e. \<not> fe_IsDir e \<and> fe_Mode e AND ModeSymlink = 0) es)"

lemma collect_links_finds:
  assumes S: "fs_wf S" "no_faults S" "list_all plain SD"
  shows "same_tree S t \<Longrightarrow> \<forall>e \<in> set es. \<exists>r. e = entry_at S SD r \<and> r \<noteq> [] \<and> ino_of S (SD @ r) \<noteq> None \<Longrightarrow>
    \<exists>u. collect_links lookupHardLinkKey (abs_path SD) m es t = (u, Ok (add_links m (keyed S SD es))) \<and> same_tree S u"
proof (induction es arbitrary: m t)
  case Nil
  then show ?case by (simp add: ret_def add_links_def keyed_def)
next
  case (Cons e es)
  have es: "\<forall>e \<in> set es. \<exists>r. e = entry_at S SD r \<and> r \<noteq> [] \<and> ino_of S (SD @ r) \<noteq> None" using Cons.prems(2) by simp
  show ?case
  proof (cases "fe_IsDir e \<or> fe_Mode e AND ModeSymlink \<noteq> 0")
    case True
    then have "keyed S SD (e # es) = keyed S SD es" by (auto simp: keyed_def)
    with True Cons.IH [OF Cons.prems(1) es] show ?thesis by simp
  next
    case False
    from Cons.prems(2) obtain r where e: "e = entry_at S SD r" and r: "r \<noteq> []" "ino_of S (SD @ r) \<noteq> None" by auto
    from r(2) obtain n c where n: "ino_of S (SD @ r) = Some n" and c: "content_of S (SD @ r) = Some c"
      using content_ino [of S "SD @ r"] by auto
    note facts = entry_at_facts [OF S(1) c r(1)]
    have key: "lookupHardLinkKey (n, i) = Some \<lparr>Dev = 0, Ino = n\<rparr>" for i by (simp add: lookupHardLinkKey_def)
    let ?key = "\<lparr>Dev = 0, Ino = n\<rparr> :: hardLinkKey"
    have "Join (abs_path SD) (fe_Path e) = abs_path (SD @ r)"
      using S(3) facts(2) r(1) by (simp add: e Join_abs_rel)
    moreover have "Lstat (abs_path (SD @ r)) t = (step t, Ok (n, fs_inodes t n))"
      using Cons.prems(1) S(2) n wf_dirs_above [OF S(1) r(2)]
      by (simp add: Lstat_abs no_faults_tree same_tree_dirs_above same_tree_ino)
    moreover have "same_tree S (step t)" using tree.frame_trans [OF Cons.prems(1) same_tree_step] .
    from Cons.IH [OF this es, of "add_link ?key (fe_Path e) m"] obtain u where
      "collect_links lookupHardLinkKey (abs_path SD) (add_link ?key (fe_Path e) m) es (step t)
        = (u, Ok (add_links (add_link ?key (fe_Path e) m) (keyed S SD es)))" "same_tree S u" by blast
    moreover have "keyed S SD (e # es) = (?key, fe_Path e) # keyed S SD es"
      using False facts(1) n by (simp add: keyed_def e)
    ultimately show ?thesis
      using False by (simp add: bind_def wrap_err_def key add_links_def)
  qed
qed

text \<open>The paths of the regular files among the entries that are names of inode \<open>n\<close>.\<close>

definition names_of :: "fs \<Rightarrow> fpath \<Rightarrow> fileEntry list \<Rightarrow> nat \<Rightarrow> string set" where
  "names_of S SD es n =
     fe_Path ` {e \<in> set es. \<not> fe_IsDir e \<and> fe_Mode e AND ModeSymlink = 0 \<and> ino_of S (SD @ comps e) = Some n}"

lemma keyed_names:
  assumes "\<forall>e \<in> set es. ino_of S (SD @ comps e) \<noteq> None"
  shows "{p. (k, p) \<in> set (keyed S SD es)} = (if Dev k = 0 then names_of S SD es (Ino k) else {})"
proof -
  have "k = \<lparr>Dev = 0, Ino = n\<rparr> \<longleftrightarrow> Dev k = 0 \<and> Ino k = n" for n by (cases k) simp
  with assms show ?thesis by (force simp: keyed_def names_of_def image_iff)
qed

lemma detects:
  assumes "fs_wf S" and "no_faults S" and "list_all plain SD" and "content_of S SD = Some DirData" and "Recursive walkOpts"
    and "snd (Walk (abs_path SD) walkOpts S) = Ok walked" and "es = FilterEntries walked rules" and "same_tree S t"
  shows "\<exists>T groups. DetectHardLinks lookupHardLinkKey (abs_path SD) es t = (T, Ok groups) \<and> same_tree S T \<and>
    set groups = {sorted_list_of_set (names_of S SD es n) | n. 2 \<le> card (names_of S SD es n)} \<and>
    sorted_wrt (<) (map hd groups)"
proof -
  obtain S' es0 where walk: "Walk (abs_path SD) walkOpts S = (S', Ok es0)"
    and es0: "sorted_wrt (<) (map fe_Path es0)" "set es0 = entry_at S SD ` {r. r \<noteq> [] \<and> ino_of S (SD @ r) \<noteq> None}"
    by (rule Walk_recursive [OF assms(1,2,5,3,4)])
  have "es0 = walked" using walk assms(6) by simp
  note es0 = es0 [unfolded this]
  have sub: "set es \<subseteq> set walked" and dist: "distinct (map fe_Path es)"
    using es0(1) unfolding assms(7) by (simp_all add: FilterEntries_subset FilterEntries_distinct strict_sorted_iff)
  have entries: "\<forall>e \<in> set es. \<exists>r. e = entry_at S SD r \<and> r \<noteq> [] \<and> ino_of S (SD @ r) \<noteq> None"
    using sub es0(2) by blast
  then have inos: "\<forall>e \<in> set es. ino_of S (SD @ comps e) \<noteq> None"
    using entry_at_facts(1) [OF assms(1)] content_ino by (metis not_None_eq)
  have "distinct (map snd (keyed S SD es))"
    using dist by (simp add: keyed_def comp_def distinct_map inj_on_def)
  note groups = group_links_exact [OF this, unfolded keyed_names [OF inos]]
  let ?groups = "group_links (add_links [] (keyed S SD es))"
  obtain T where "DetectHardLinks lookupHardLinkKey (abs_path SD) es t = (T, Ok ?groups)" "same_tree S T"
    using collect_links_finds [OF assms(1-3,8) entries, of "[]"]
    by (auto simp: DetectHardLinks_def bind_def ret_def)
  moreover have "set ?groups = {sorted_list_of_set (names_of S SD es n) | n. 2 \<le> card (names_of S SD es n)}"
    unfolding groups(1)
  proof (intro equalityI subsetI)
    fix g assume "g \<in> {sorted_list_of_set (names_of S SD es n) | n. 2 \<le> card (names_of S SD es n)}"
    then obtain n where "g = sorted_list_of_set (names_of S SD es n)" "2 \<le> card (names_of S SD es n)" by blast
    then show "g \<in> {sorted_list_of_set (if Dev k = 0 then names_of S SD es (Ino k) else {}) | k :: hardLinkKey.
        2 \<le> card (if Dev k = 0 then names_of S SD es (Ino k) else {})}"
      unfolding mem_Collect_eq by (intro exI [of _ "\<lparr>Dev = 0, Ino = n\<rparr> :: hardLinkKey"]) simp
  qed (auto split: if_splits)
  ultimately show ?thesis using groups(2) by blast
qed

text \<open>No inode has two names below the source.\<close>

definition unlinked :: "fs \<Rightarrow> fpath \<Rightarrow> bool" where
  "unlinked S SD \<longleftrightarrow> distinct (map snd (filter (\<lambda>(p, n). take (length SD) p = SD \<and> p \<noteq> SD) (fs_names S)))"

lemma unlinkedD:
  assumes "unlinked S SD" and "ino_of S (SD @ r) = Some n" "r \<noteq> []" and "ino_of S (SD @ q) = Some n" "q \<noteq> []"
  shows "q = r"
proof -
  let ?names = "filter (\<lambda>(p, n). take (length SD) p = SD \<and> p \<noteq> SD) (fs_names S)"
  have inj: "inj_on snd (set ?names)" using assms(1) unfolding unlinked_def distinct_map by blast
  have names: "(SD @ q, n) \<in> set ?names" "(SD @ r, n) \<in> set ?names"
    using assms(2-5) by (auto simp: ino_of_def dest: map_of_SomeD)
  show ?thesis using inj_onD [OF inj _ names] by simp
qed

lemma unlinked_detects:
  assumes "fs_wf S" and "no_faults S" and "list_all plain SD" and "content_of S SD = Some DirData" and "Recursive walkOpts"
    and "snd (Walk (abs_path SD) walkOpts S) = Ok walked" and "es = FilterEntries walked rules" and "same_tree S t"
    and "unlinked S SD"
  shows "\<exists>T. DetectHardLinks lookupHardLinkKey (abs_path SD) es t = (T, Ok []) \<and> same_tree S T"
proof -
  obtain S' es0 where walk: "Walk (abs_path SD) walkOpts S = (S', Ok es0)"
    and es0: "set es0 = entry_at S SD ` {r. r \<noteq> [] \<and> ino_of S (SD @ r) \<noteq> None}"
    by (rule Walk_recursive [OF assms(1,2,5,3,4)])
  have "es0 = walked" using walk assms(6) by simp
  note es0 = es0 [unfolded this]
  have comp: "\<exists>r. e = entry_at S SD r \<and> comps e = r \<and> r \<noteq> []" if "e \<in> set es" for e
  proof -
    from that es0 FilterEntries_subset obtain r where e: "e = entry_at S SD r" and r: "r \<noteq> []" "ino_of S (SD @ r) \<noteq> None"
      unfolding assms(7) by blast
    from r(2) obtain c where "content_of S (SD @ r) = Some c" using content_ino [of S "SD @ r"] by auto
    from entry_at_facts(1) [OF assms(1) this r(1)] e r(1) show ?thesis by blast
  qed
  have "\<not> 2 \<le> card (names_of S SD es n)" for n
  proof -
    have "p = q" if names: "p \<in> names_of S SD es n" "q \<in> names_of S SD es n" for p q
    proof -
      from names obtain e f where e: "e \<in> set es" "p = fe_Path e" "ino_of S (SD @ comps e) = Some n"
        and f: "f \<in> set es" "q = fe_Path f" "ino_of S (SD @ comps f) = Some n"
        unfolding names_of_def by blast
      from comp [OF e(1)] comp [OF f(1)] have "comps e \<noteq> []" "comps f \<noteq> []"
        and same: "e = entry_at S SD (comps e)" "f = entry_at S SD (comps f)" by auto
      then have "comps f = comps e" using unlinkedD [OF assms(9) e(3) _ f(3)] by blast
      then show ?thesis using same e(2) f(2) by simp
    qed
    moreover have "finite (names_of S SD es n)" by (simp add: names_of_def)
    ultimately have "card (names_of S SD es n) \<le> Suc 0" by (simp add: card_le_Suc0_iff_eq)
    then show ?thesis by simp
  qed
  with detects [OF assms(1-8)] show ?thesis by auto
qed

text \<open>
  C36. Hard links are detected exactly. For a recursive walk of a source and any filter rules,
  \<open>DetectHardLinks\<close> on the selected entries reports no error, and its groups are, for each inode with at least
  two names among the selected regular files, the sorted list of these names; the groups are in the order of
  their first members, which all differ.
\<close>

theorem DetectHardLinks_exact:
  assumes "fs_wf S" and "no_faults S" and "list_all plain SD" and "content_of S SD = Some DirData" and "Recursive walkOpts"
    and "snd (Walk (abs_path SD) walkOpts S) = Ok walked" and "es = FilterEntries walked rules"
  shows "\<exists>T groups. DetectHardLinks lookupHardLinkKey (abs_path SD) es S = (T, Ok groups) \<and> same_tree S T \<and>
    set groups = {sorted_list_of_set (names_of S SD es n) | n. 2 \<le> card (names_of S SD es n)} \<and>
    sorted_wrt (<) (map hd groups)"
  using detects [OF assms tree.frame_refl] .

text \<open>A second name for the file of the source.\<close>

definition linked_fs :: fs where
  "linked_fs = small_fs\<lparr>fs_names := fs_names small_fs @ [([''src'', ''g''], 3)]\<rparr>"

definition linked_entries :: "fileEntry list" where
  "linked_entries = map (entry_at linked_fs [''src'']) [[''d''], [''d'', ''f''], [''g'']]"

theorem DetectHardLinks_exact_witness:
  "snd (DetectHardLinks lookupHardLinkKey (abs_path [''src'']) linked_entries linked_fs) = Ok [[''d/f'', ''g'']] \<and>
   [''d/f'', ''g''] = sorted_list_of_set (names_of linked_fs [''src''] linked_entries 3)"
proof -
  have S: "fs_wf linked_fs" "no_faults linked_fs" "content_of linked_fs [''src''] = Some DirData"
    by (simp_all add: fs_wf_def linked_fs_def small_fs_def no_faults_def content_of_def lookup_def ino_of_def dir_inode_def
        plain_def)
  have walk: "snd (Walk (abs_path [''src'']) \<lparr>Recursive = True, Dirs = False\<rparr> linked_fs) = Ok linked_entries"
    by code_simp
  have found: "snd (DetectHardLinks lookupHardLinkKey (abs_path [''src'']) linked_entries linked_fs) = Ok [[''d/f'', ''g'']]"
    by code_simp
  obtain n where n: "[''d/f'', ''g''] = sorted_list_of_set (names_of linked_fs [''src''] linked_entries n)"
    using DetectHardLinks_exact [OF S(1,2) _ S(3) _ walk FilterEntries_none [symmetric]] found by (force simp: plain_def)
  then have "''g'' \<in> set (sorted_list_of_set (names_of linked_fs [''src''] linked_entries n))" by (simp flip: n)
  then have "''g'' \<in> names_of linked_fs [''src''] linked_entries n"
    by (cases "finite (names_of linked_fs [''src''] linked_entries n)") simp_all
  moreover have "ino_of linked_fs ([''src''] @ comps e) = Some 3" if "e \<in> set linked_entries" "fe_Path e = ''g''" for e
  proof -
    have "comps e = [''g'']" unfolding comps_def that(2) by code_simp
    then show ?thesis by (simp add: ino_of_def linked_fs_def small_fs_def)
  qed
  ultimately have "n = 3" by (auto simp: names_of_def)
  with found n show ?thesis by simp
qed

end
