(* ===== verification/Mirror.thy ===== *)
theory Mirror
  imports HardLinks
begin

unbundle bit_operations_syntax

text \<open>
  A recursive sync into an empty directory makes a copy: the composition of walk, sender, wire format,
  receiver and file system, from the two sessions of the theories before.
\<close>

section \<open>The source\<close>

text \<open>What is asked of the source: no special files, no empty link targets, names unlike the
  receiver's temporary files, and files whose messages fit a frame.\<close>

definition message_fits :: "'h env \<Rightarrow> compressOptions \<Rightarrow> string \<Rightarrow> bytes \<Rightarrow> bool" where
  "message_fits env copts path d \<longleftrightarrow>
     int (length d) < 2 ^ 63 \<and>
     (let sig = GenerateSignature (env_strong env) [] in
      payload_fits (encSignature (env_gob env) \<lparr>sm_Path = path, sm_Sig = sig, sm_Append = appendNone\<rparr>) \<and>
      payload_fits (encDelta (env_gob env)
        (delta_message (env_deflate env) path (GenerateDelta (env_strong env) sig d) copts)))"

definition source_ok :: "'h env \<Rightarrow> compressOptions \<Rightarrow> fs \<Rightarrow> fpath \<Rightarrow> bool" where
  "source_ok env copts S SD \<longleftrightarrow>
     list_all (\<lambda>(p, n). let r = drop (length SD) p in
       r \<noteq> [] \<and> p = SD @ r \<longrightarrow> \<not> hasSuffix (last r) ''.grsync-tmp'' \<and>
         (case in_content (fs_inodes S n) of
            FileData d \<Rightarrow> message_fits env copts (rel_path r) d
          | DirData \<Rightarrow> True | LinkData t \<Rightarrow> t \<noteq> [] | _ \<Rightarrow> False)) (fs_names S)"

lemma source_okD:
  assumes "source_ok env copts S SD" and "content_of S (SD @ r) = Some c" and "r \<noteq> []"
  shows "\<not> hasSuffix (last r) ''.grsync-tmp''"
    and "c = DirData \<or> (\<exists>t. c = LinkData t \<and> t \<noteq> []) \<or> (\<exists>d. c = FileData d \<and> message_fits env copts (rel_path r) d)"
proof -
  from assms(2) obtain n where n: "ino_of S (SD @ r) = Some n" and c: "in_content (fs_inodes S n) = c"
    by (auto simp: content_of_ino)
  then have mem: "(SD @ r, n) \<in> set (fs_names S)" by (auto simp: ino_of_def dest: map_of_SomeD)
  have "\<not> hasSuffix (last r) ''.grsync-tmp'' \<and>
      (case c of FileData d \<Rightarrow> message_fits env copts (rel_path r) d | DirData \<Rightarrow> True | LinkData t \<Rightarrow> t \<noteq> [] | _ \<Rightarrow> False)"
    using bspec [OF assms(1) [unfolded source_ok_def list_all_iff] mem] assms(3) c by (cases c) (simp_all add: Let_def)
  then show "\<not> hasSuffix (last r) ''.grsync-tmp''"
    and "c = DirData \<or> (\<exists>t. c = LinkData t \<and> t \<noteq> []) \<or> (\<exists>d. c = FileData d \<and> message_fits env copts (rel_path r) d)"
    by (auto split: content.splits)
qed

lemma temp_suffix: "hasSuffix (temp_component b r) ''.grsync-tmp''"
  by (auto simp: temp_component_def hasSuffix_def)

section \<open>The destination after some entries\<close>

definition mirrored :: "fs \<Rightarrow> fpath \<Rightarrow> fpath \<Rightarrow> contents \<Rightarrow> string list set \<Rightarrow> contents" where
  "mirrored S SD D m R p = (if take (length D) p = D \<and> drop (length D) p \<in> R then content_of S (SD @ drop (length D) p) else m p)"

lemma mirrored_at: "mirrored S SD D m R (D @ r) = (if r \<in> R then content_of S (SD @ r) else m (D @ r))"
  by (simp add: mirrored_def)

lemma mirrored_other: "(\<And>r. r \<in> R \<Longrightarrow> p \<noteq> D @ r) \<Longrightarrow> mirrored S SD D m R p = m p"
  by (metis append_take_drop_id mirrored_def)

lemma mirrored_insert:
  "content_of S (SD @ r) = Some c \<Longrightarrow> (mirrored S SD D m R)(D @ r \<mapsto> c) = mirrored S SD D m (insert r R)"
  by (auto simp: mirrored_def fun_eq_iff) (metis append_take_drop_id)

text \<open>Each entry comes after the directories above it.\<close>

fun in_order :: "string list set \<Rightarrow> string list list \<Rightarrow> bool" where
  "in_order R [] \<longleftrightarrow> True"
| "in_order R (r # rs) \<longleftrightarrow>
     r \<noteq> [] \<and> r \<notin> R \<and> (\<forall>k. 0 < k \<and> k < length r \<longrightarrow> take k r \<in> R) \<and> in_order (insert r R) rs"

lemma sorted_in_order:
  assumes "fs_wf S"
  shows "sorted_wrt (<) (map rel_path rs) \<Longrightarrow> R \<union> set rs = {r. r \<noteq> [] \<and> ino_of S (SD @ r) \<noteq> None} \<Longrightarrow>
    R \<inter> set rs = {} \<Longrightarrow> in_order R rs"
proof (induction rs arbitrary: R)
  case (Cons r rs)
  have r: "r \<noteq> []" "ino_of S (SD @ r) \<noteq> None" using Cons.prems(2) by auto
  have "take k r \<in> R" if k: "0 < k" "k < length r" for k
  proof -
    have "content_of S (take (length SD + k) (SD @ r)) = Some DirData"
      using wf_prefix [OF assms r(2), THEN conjunct2, rule_format, of "length SD + k"] k by (simp del: take_append)
    then have "content_of S (SD @ take k r) = Some DirData" by simp
    then have "ino_of S (SD @ take k r) \<noteq> None" using content_ino [of S "SD @ take k r"] by simp
    with k have "take k r \<in> R \<union> set (r # rs)" unfolding Cons.prems(2) by auto
    moreover have less: "rel_path (take k r) < rel_path r"
      using rel_path_less [of "take k r" "drop k r"] r(1) k by simp
    have "take k r \<notin> set (r # rs)" using Cons.prems(1) less by (auto dest: less_asym)
    ultimately show ?thesis by blast
  qed
  moreover have "r \<notin> set rs" using Cons.prems(1) by auto
  then have "in_order (insert r R) rs" using Cons.prems by (intro Cons.IH) auto
  ultimately show ?case using r Cons.prems(3) by auto
qed simp

section \<open>The session into an empty directory\<close>

lemma not_temp: "r = p @ [temp_component b k] \<Longrightarrow> hasSuffix (last r) ''.grsync-tmp''"
  by (simp add: temp_suffix)

lemma empty_file_ok:
  assumes "message_fits env copts (fe_Path e) new" and "fe_Size e = int (length new)"
  shows "file_ok env copts ropts None e new"
proof -
  have "splitBlocks [] DefaultBlockSize = []" by (simp add: splitBlocks_def split_from.simps)
  then have "strong_separates (env_strong env) [] DefaultBlockSize new" by (simp add: strong_separates_def)
  with assms show ?thesis
    by (simp add: file_ok_def plan_def sign_plan_def data_of_def message_fits_def Let_def reply_def sender_ops_def
        DefaultBlockSize_def)
qed

lemma mirror_entry:
  assumes S: "fs_wf S" "source_ok env copts S SD" and r: "content_of S (SD @ r) = Some c" "r \<noteq> []" "r \<notin> R"
    and above: "\<forall>k. 0 < k \<and> k < length r \<longrightarrow> take k r \<in> R"
    and D: "dirs_in m0 D" "m0 D = Some DirData" "\<And>r. r \<noteq> [] \<Longrightarrow> m0 (D @ r) = None" and R: "[] \<notin> R"
    and links: "ao_Links attrOpts \<or> (\<forall>r t. content_of S (SD @ r) \<noteq> Some (LinkData t))"
  shows "entry_ok q env copts attrOpts ropts [] (source_data S SD) D (mirrored S SD D m0 R) (entry_at S SD r)"
    and "entry_effect attrOpts ropts [] (source_data S SD) D (entry_at S SD r) (mirrored S SD D m0 R)
      = mirrored S SD D m0 (insert r R)"
    and "exchanges [] (entry_at S SD r) \<longrightarrow> is_file (content_of S (SD @ comps (entry_at S SD r)))"
proof -
  let ?e = "entry_at S SD r" and ?m = "mirrored S SD D m0 R"
  note facts = entry_at_facts [OF S(1) r(1,2)]
  note ok = source_okD [OF S(2) r(1,2)]
  have free: "?m (D @ r) = None" using r(2,3) D(3) by (simp add: mirrored_at)
  have inS: "content_of S (SD @ take k r) = Some DirData" if "k < length r" "0 < k" for k
  proof -
    have "ino_of S (SD @ r) \<noteq> None" using r(1) content_ino [of S "SD @ r"] by simp
    from wf_prefix [OF S(1) this, THEN conjunct2, rule_format, of "length SD + k"] that show ?thesis by simp
  qed
  have "dirs_in ?m (D @ r)"
    unfolding dirs_in_def list_all_iff
  proof (intro conjI ballI)
    fix x assume "x \<in> set (D @ r)"
    with dirs_in_plain [OF D(1)] facts(2) show "plain x" by (auto simp: list_all_iff)
  next
    fix k assume "k \<in> set [0..<length (D @ r)]"
    then have k: "k < length D + length r" by simp
    show "?m (take k (D @ r)) = Some DirData"
    proof (cases "k \<le> length D")
      case True
      have "?m (take k D) = m0 (take k D)"
      proof (rule mirrored_other)
        fix x assume "x \<in> R"
        with R have "x \<noteq> []" by auto
        then show "take k D \<noteq> D @ x" by (metis append_self_conv append_take_drop_id append_assoc append_is_Nil_conv)
      qed
      moreover have "m0 (take k D) = Some DirData"
        using D(1,2) True by (cases "k = length D") (auto simp: dirs_in_def list_all_iff)
      ultimately show ?thesis using True by simp
    next
      case False
      define j where "j = k - length D"
      from False k have j: "0 < j" "j < length r" and take: "take k (D @ r) = D @ take j r"
        by (auto simp: j_def)
      from above j inS [OF j(2,1)] show ?thesis unfolding take by (simp add: mirrored_at)
    qed
  qed
  moreover have "no_temps ?m (D @ butlast r) (last r)"
  proof -
    have "content_of S (SD @ butlast r @ [temp_component (last r) k]) = None" for k
      using source_okD(1) [OF S(2), of "butlast r @ [temp_component (last r) k]"] temp_suffix [of "last r" k]
      by (cases "content_of S (SD @ butlast r @ [temp_component (last r) k])") auto
    with D(3) show ?thesis by (simp add: no_temps_def mirrored_def)
  qed
  moreover have path: "source_data S SD (rel_path r) = data_of (Some c)"
    using r(1) facts(2) by (simp add: source_data_def path_comps_rel)
  moreover have ex: "exchanges [] ?e \<longleftrightarrow> c \<noteq> DirData \<and> (\<forall>t. c \<noteq> LinkData t)"
    using facts(4,5) by (auto simp: exchanges_def secondary_paths_def)
  moreover have "file_ok env copts ropts (?m (D @ r)) ?e (data_of (Some c))" if "exchanges [] ?e"
  proof -
    from that ex ok(2) obtain d where d: "c = FileData d" "message_fits env copts (rel_path r) d" by auto
    with facts(7) [OF d(1)] free show ?thesis by (simp add: empty_file_ok data_of_def)
  qed
  ultimately show "entry_ok q env copts attrOpts ropts [] (source_data S SD) D ?m ?e"
    using facts(1-6) ok(2) free r(2) by (auto simp: entry_ok_def Let_def)
  have "entry_effect attrOpts ropts [] (source_data S SD) D ?e ?m = ?m(D @ r \<mapsto> c)"
    using ok(2)
  proof (elim disjE exE conjE)
    assume "c = DirData"
    with facts(1,4) show ?thesis by (simp add: entry_effect_def Let_def del: fun_upd_apply)
  next
    fix t assume "c = LinkData t"
    with r(1) links have "ao_Links attrOpts" by auto
    with \<open>c = LinkData t\<close> facts(1,4,5,6) show ?thesis by (simp add: entry_effect_def Let_def del: fun_upd_apply)
  next
    fix d assume d: "c = FileData d"
    with facts ex path free show ?thesis
      by (simp add: entry_effect_def Let_def result_bytes_def data_of_def del: fun_upd_apply)
  qed
  then show "entry_effect attrOpts ropts [] (source_data S SD) D ?e ?m = mirrored S SD D m0 (insert r R)"
    by (simp only: mirrored_insert [OF r(1)])
  show "exchanges [] ?e \<longrightarrow> is_file (content_of S (SD @ comps ?e))"
    using ex ok(2) r(1) facts(1) by (auto simp: is_file_def)
qed

lemma mirror_entries:
  assumes S: "fs_wf S" "source_ok env copts S SD"
    and D: "dirs_in m0 D" "m0 D = Some DirData" "\<And>r. r \<noteq> [] \<Longrightarrow> m0 (D @ r) = None"
    and links: "ao_Links attrOpts \<or> (\<forall>r t. content_of S (SD @ r) \<noteq> Some (LinkData t))"
  shows "in_order R rs \<Longrightarrow> \<forall>r \<in> set rs. content_of S (SD @ r) \<noteq> None \<Longrightarrow> [] \<notin> R \<Longrightarrow>
    entries_ok q env copts attrOpts ropts [] (source_data S SD) D (mirrored S SD D m0 R) (map (entry_at S SD) rs) \<and>
    session_contents attrOpts ropts [] (source_data S SD) D (mirrored S SD D m0 R) (map (entry_at S SD) rs)
      = mirrored S SD D m0 (R \<union> set rs) \<and>
    (\<forall>e \<in> set (map (entry_at S SD) rs). exchanges [] e \<longrightarrow> is_file (content_of S (SD @ comps e)))"
proof (induction rs arbitrary: R)
  case (Cons r rs)
  then obtain c where c: "content_of S (SD @ r) = Some c" by auto
  have r: "r \<noteq> []" "r \<notin> R" "\<forall>k. 0 < k \<and> k < length r \<longrightarrow> take k r \<in> R" using Cons.prems(1) by simp_all
  note entry = mirror_entry [OF S c r D Cons.prems(3) links]
  have "in_order (insert r R) rs" "[] \<notin> insert r R" using Cons.prems r by auto
  with Cons.IH [of "insert r R"] Cons.prems(2) entry show ?case by auto
qed simp

text \<open>What is sent for new files depends neither on the destination nor on the receiver's options.\<close>

definition new_in :: "'h env \<Rightarrow> compressOptions \<Rightarrow> (string \<Rightarrow> bytes) \<Rightarrow> fileEntry \<Rightarrow> bytes" where
  "new_in env copts src e =
     (if exchanges [] e
      then delta_bytes (env_gob env) (env_deflate env) (fe_Path e)
             (reply env (fe_Path e) (GenerateSignature (env_strong env) [], appendNone) (src (fe_Path e))) copts
      else [])"

definition new_out :: "'h env \<Rightarrow> fileEntry \<Rightarrow> bytes" where
  "new_out env e =
     (if exchanges [] e
      then signature_bytes (env_gob env) (fe_Path e) (GenerateSignature (env_strong env) []) appendNone else [])"

lemma plan_new: "plan env ropts None e = (GenerateSignature (env_strong env) [], appendNone)"
  by (simp add: plan_def sign_plan_def data_of_def)

lemma mirror_messages:
  assumes S: "fs_wf S" "source_ok env copts S SD"
    and D: "dirs_in m0 D" "m0 D = Some DirData" "\<And>r. r \<noteq> [] \<Longrightarrow> m0 (D @ r) = None"
    and links: "ao_Links attrOpts \<or> (\<forall>r t. content_of S (SD @ r) \<noteq> Some (LinkData t))"
  shows "in_order R rs \<Longrightarrow> \<forall>r \<in> set rs. content_of S (SD @ r) \<noteq> None \<Longrightarrow> [] \<notin> R \<Longrightarrow>
    session_in env copts attrOpts ropts [] (source_data S SD) D (mirrored S SD D m0 R) (map (entry_at S SD) rs)
      = concat (map (\<lambda>r. new_in env copts (source_data S SD) (entry_at S SD r)) rs) \<and>
    session_out env attrOpts ropts [] (source_data S SD) D (mirrored S SD D m0 R) (map (entry_at S SD) rs)
      = concat (map (\<lambda>r. new_out env (entry_at S SD r)) rs)"
proof (induction rs arbitrary: R)
  case (Cons r rs)
  then obtain c where c: "content_of S (SD @ r) = Some c" by auto
  have r: "r \<noteq> []" "r \<notin> R" "\<forall>k. 0 < k \<and> k < length r \<longrightarrow> take k r \<in> R" using Cons.prems(1) by simp_all
  note entry = mirror_entry [OF S c r D Cons.prems(3) links]
  have free: "mirrored S SD D m0 R (D @ comps (entry_at S SD r)) = None"
    using r(1,2) D(3) entry_at_facts(1) [OF S(1) c r(1)] by (simp add: mirrored_at)
  have "in_order (insert r R) rs" "[] \<notin> insert r R" using Cons.prems r by auto
  with Cons.IH [of "insert r R"] Cons.prems(2) entry free show ?case
    by (simp add: entry_in_def entry_out_def new_in_def new_out_def plan_new)
qed simp

definition copies_source :: "fs \<Rightarrow> fpath \<Rightarrow> attrOptions \<Rightarrow> receiverOptions \<Rightarrow> fs \<Rightarrow> fpath \<Rightarrow> bool" where
  "copies_source S SD attrOpts ropts T D \<longleftrightarrow>
     fs_inv T \<and> no_faults T \<and> list_all plain D \<and> content_of T D = Some DirData \<and>
     (\<forall>r. r \<noteq> [] \<longrightarrow> content_of T (D @ r) = None) \<and> \<not> ro_DryRun ropts \<and> ro_PartialDir ropts = [] \<and>
     (ao_Links attrOpts \<or> (\<forall>r t. content_of S (SD @ r) \<noteq> Some (LinkData t)))"

text \<open>A walk lists no more entries than there are names.\<close>

lemma walked_few:
  assumes "fs_wf S" and "sorted_wrt (<) (map fe_Path es)"
    and "set es = entry_at S SD ` {r. r \<noteq> [] \<and> ino_of S (SD @ r) \<noteq> None}"
  shows "length es \<le> length (fs_names S)"
proof -
  have "distinct es" using assms(2) by (auto simp: strict_sorted_iff distinct_map)
  then have "length es = card (entry_at S SD ` {r. r \<noteq> [] \<and> ino_of S (SD @ r) \<noteq> None})"
    unfolding assms(3) [symmetric] by (simp add: distinct_card)
  also have "\<dots> \<le> card ((\<lambda>p. entry_at S SD (drop (length SD) p)) ` set (map fst (fs_names S)))"
    by (rule card_mono) (auto simp: ino_of_def dest!: map_of_SomeD intro!: rev_image_eqI)
  also have "\<dots> \<le> card (set (map fst (fs_names S)))" by (rule card_image_le) simp
  also have "\<dots> \<le> length (fs_names S)" using card_length [of "map fst (fs_names S)"] by simp
  finally show ?thesis .
qed

text \<open>The entries of a recursive walk, and the session into any empty directory they make.\<close>

lemma mirror_session:
  assumes S: "fs_wf S" "no_faults S" "list_all plain SD" "content_of S SD = Some DirData" "source_ok env copts S SD"
    and opts: "Recursive walkOpts"
  shows "\<exists>S' es news received.
    Walk (abs_path SD) walkOpts S = (S', Ok es) \<and> same_tree S S' \<and> length es \<le> length (fs_names S) \<and>
    (\<forall>attrOpts ropts T D. copies_source S SD attrOpts ropts T D \<longrightarrow>
       entries_ok True env copts attrOpts ropts [] (source_data S SD) D (content_of T) es \<and>
       session_contents attrOpts ropts [] (source_data S SD) D (content_of T) es
         = mirrored S SD D (content_of T) {r. r \<noteq> [] \<and> content_of S (SD @ r) \<noteq> None} \<and>
       (\<forall>e \<in> set es. exchanges [] e \<longrightarrow> is_file (content_of S (SD @ comps e))) \<and>
       session_in env copts attrOpts ropts [] (source_data S SD) D (content_of T) es = news \<and>
       session_out env attrOpts ropts [] (source_data S SD) D (content_of T) es = received)"
proof -
  obtain S' es where walk: "Walk (abs_path SD) walkOpts S = (S', Ok es)" "same_tree S S'"
    and es: "sorted_wrt (<) (map fe_Path es)" "set es = entry_at S SD ` {r. r \<noteq> [] \<and> ino_of S (SD @ r) \<noteq> None}"
    by (rule Walk_recursive [OF S(1,2) opts S(3,4)])
  define rs where "rs = map comps es"
  let ?W = "{r. r \<noteq> [] \<and> ino_of S (SD @ r) \<noteq> None}"
  let ?src = "source_data S SD"
  have comp: "comps (entry_at S SD r) = r" if "r \<in> ?W" for r
  proof -
    from that obtain c where "content_of S (SD @ r) = Some c" using content_ino [of S "SD @ r"] by auto
    from entry_at_facts(1) [OF S(1) this] that show ?thesis by simp
  qed
  have again: "entry_at S SD (comps e) = e" if "e \<in> set es" for e
    using that comp unfolding es(2) by auto
  have es_rs: "es = map (entry_at S SD) rs" using again by (simp add: rs_def o_def map_idI)
  have set_rs: "set rs = ?W"
  proof
    show "set rs \<subseteq> ?W" using comp es(2) by (auto simp: rs_def)
    show "?W \<subseteq> set rs"
    proof
      fix r assume r: "r \<in> ?W"
      then have "entry_at S SD r \<in> set es" using es(2) by blast
      then have "comps (entry_at S SD r) \<in> set rs" by (simp add: rs_def)
      with comp [OF r] show "r \<in> set rs" by simp
    qed
  qed
  have sorted: "sorted_wrt (<) (map rel_path rs)"
  proof -
    have "map fe_Path es = map rel_path rs" unfolding es_rs by (simp add: o_def)
    with es(1) show ?thesis by simp
  qed
  have order: "in_order {} rs"
    by (rule sorted_in_order [OF S(1) sorted]) (simp_all add: set_rs)
  have exist: "\<forall>r \<in> set rs. content_of S (SD @ r) \<noteq> None"
    unfolding set_rs using content_ino [of S] by blast
  have W: "set rs = {r. r \<noteq> [] \<and> content_of S (SD @ r) \<noteq> None}"
    unfolding set_rs using content_ino [of S] by blast
  have few: "length es \<le> length (fs_names S)" by (rule walked_few [OF S(1) es])
  have dest: "entries_ok True env copts attrOpts ropts [] ?src D (content_of T) es \<and>
      session_contents attrOpts ropts [] ?src D (content_of T) es = mirrored S SD D (content_of T) (set rs) \<and>
      (\<forall>e \<in> set es. exchanges [] e \<longrightarrow> is_file (content_of S (SD @ comps e))) \<and>
      session_in env copts attrOpts ropts [] ?src D (content_of T) es
        = concat (map (\<lambda>r. new_in env copts ?src (entry_at S SD r)) rs) \<and>
      session_out env attrOpts ropts [] ?src D (content_of T) es = concat (map (\<lambda>r. new_out env (entry_at S SD r)) rs)"
    if c: "copies_source S SD attrOpts ropts T D" for attrOpts ropts T D
  proof -
    let ?m0 = "content_of T"
    from c have D: "?m0 D = Some DirData" "\<And>r. r \<noteq> [] \<Longrightarrow> ?m0 (D @ r) = None" "fs_wf T"
      and links: "ao_Links attrOpts \<or> (\<forall>r t. content_of S (SD @ r) \<noteq> Some (LinkData t))"
      by (auto simp: copies_source_def fs_inv_def)
    have "ino_of T D \<noteq> None" using D(1) content_ino [of T D] by simp
    from wf_dirs_above [OF D(3) this] have dirs: "dirs_in ?m0 D" by (simp add: dirs_above_def dirs_in_def)
    have start0: "mirrored S SD D ?m0 {} = ?m0" by (simp add: mirrored_def fun_eq_iff)
    show ?thesis
      using mirror_entries [OF S(1,5) dirs D(1,2) links order exist, of True ropts]
        mirror_messages [OF S(1,5) dirs D(1,2) links order exist, of ropts]
      unfolding es_rs [symmetric] start0 by simp
  qed
  show ?thesis
    by (rule exI [of _ S'], rule exI [of _ es],
        rule exI [of _ "concat (map (\<lambda>r. new_in env copts ?src (entry_at S SD r)) rs)"],
        rule exI [of _ "concat (map (\<lambda>r. new_out env (entry_at S SD r)) rs)"])
      (use walk few dest in \<open>simp add: W\<close>)
qed

text \<open>
  One stream of bytes from the sender serves every empty destination: the sender's run and the stream do
  not depend on it.
\<close>

text \<open>Whatever the sender writes to, it answers \<open>received\<close> with \<open>sent\<close>.\<close>

definition sends_all :: "'h env \<Rightarrow> compressOptions \<Rightarrow> walkOptions \<Rightarrow> fs \<Rightarrow> fpath \<Rightarrow> bytes \<Rightarrow> bytes \<Rightarrow> bool" where
  "sends_all env copts walkOpts S SD received sent \<longleftrightarrow>
     (\<forall>batch holds i o' s. sender_state batch holds S SD env \<and>
        outcome True (src_fs (Walking (abs_path SD)) (Walk (abs_path SD) walkOpts)) s
          (\<lambda>x t. snd (Walk (abs_path SD) walkOpts S) = Ok x \<and> holds (received @ i) o' t) \<longrightarrow>
        outcome True (Sender_to batch env (abs_path SD) walkOpts [] False copts) s (\<lambda>_. holds i (o' @ sent)))"

lemma sender_serves:
  assumes env: "gob_ok (env_gob env)" "zlib_ok (env_deflate env) (env_inflate env)"
    and S: "fs_wf S" "no_faults S" "list_all plain SD" "content_of S SD = Some DirData" "source_ok env copts S SD"
    and opts: "Recursive walkOpts" and some: "copies_source S SD attrOpts0 ropts0 T0 D0"
    and fits: "\<And>es. snd (Walk (abs_path SD) walkOpts S) = Ok es \<Longrightarrow>
      payload_fits (encFileList (env_gob env) \<lparr>fl_Entries = es, fl_HardLinkGroups = []\<rparr>)"
  shows "\<exists>sent received.
    (\<forall>links i o'. (links \<longrightarrow> unlinked S SD) \<longrightarrow> (\<exists>s. Sender env (abs_path SD) walkOpts [] links copts
        \<lparr>ss_fs = S, ss_conn = \<lparr>c_in = received @ i, c_out = open_writer o'\<rparr>\<rparr> = (s, Ok ()) \<and>
      ss_conn s = \<lparr>c_in = i, c_out = open_writer (o' @ sent)\<rparr> \<and> same_tree S (ss_fs s))) \<and>
    (\<forall>attrOpts ropts T D. copies_source S SD attrOpts ropts T D \<longrightarrow>
      (\<forall>i o'. \<exists>t. Receiver env (abs_path D) attrOpts ropts
          (receiver_start T \<lparr>c_in = sent @ i, c_out = open_writer o'\<rparr>) = (t, Ok ()) \<and>
        crw_rw (rs_conn t) = \<lparr>c_in = i, c_out = open_writer (o' @ received)\<rparr> \<and>
        content_of (rs_fs t) = mirrored S SD D (content_of T) {r. r \<noteq> [] \<and> content_of S (SD @ r) \<noteq> None})) \<and>
    sends_all env copts walkOpts S SD received sent"
proof -
  let ?src = "source_data S SD" and ?g = "env_gob env" and ?W = "{r. r \<noteq> [] \<and> content_of S (SD @ r) \<noteq> None}"
  obtain S' es news received where walk: "Walk (abs_path SD) walkOpts S = (S', Ok es)" "same_tree S S'"
    and all: "\<forall>attrOpts ropts T D. copies_source S SD attrOpts ropts T D \<longrightarrow>
       entries_ok True env copts attrOpts ropts [] ?src D (content_of T) es \<and>
       session_contents attrOpts ropts [] ?src D (content_of T) es = mirrored S SD D (content_of T) ?W \<and>
       (\<forall>e \<in> set es. exchanges [] e \<longrightarrow> is_file (content_of S (SD @ comps e))) \<and>
       session_in env copts attrOpts ropts [] ?src D (content_of T) es = news \<and>
       session_out env attrOpts ropts [] ?src D (content_of T) es = received"
    using mirror_session [OF S opts] by blast
  note dest = all [rule_format]
  have listfits: "payload_fits (encFileList ?g \<lparr>fl_Entries = es, fl_HardLinkGroups = []\<rparr>)"
    using fits walk(1) by simp
  define sent where "sent = fileList_bytes ?g es [] @ news"
  have none: "FilterEntries es [] = es" by (rule FilterEntries_none)
  have every: "sends_all env copts walkOpts S SD received sent"
    unfolding sends_all_def
  proof (intro allI impI, elim conjE)
    fix batch holds i o' s
    assume state: "sender_state batch holds S SD env"
      and read: "outcome True (src_fs (Walking (abs_path SD)) (Walk (abs_path SD) walkOpts)) s
        (\<lambda>x t. snd (Walk (abs_path SD) walkOpts S) = Ok x \<and> holds (received @ i) o' t)"
    from dest [OF some] have files: "\<forall>e \<in> set es. exchanges [] e \<longrightarrow> is_file (content_of S (SD @ comps e))"
      and entries: "entries_ok True env copts attrOpts0 ropts0 [] ?src D0 (content_of T0) es"
      and bytes: "session_out env attrOpts0 ropts0 [] ?src D0 (content_of T0) es = received"
        "session_in env copts attrOpts0 ropts0 [] ?src D0 (content_of T0) es = news" by blast+
    have "outcome True (src_fs (Walking (abs_path SD)) (Walk (abs_path SD) walkOpts)) s
        (\<lambda>x t. x = es \<and> holds (session_out env attrOpts0 ropts0 [] ?src D0 (content_of T0) es @ i) o' t)"
      unfolding bytes by (rule outcome_mono [OF read]) (simp add: walk(1))
    from sender_state.Sender_outcome [OF state env(1) S(3) this none [symmetric] entries files listfits]
    show "outcome True (Sender_to batch env (abs_path SD) walkOpts [] False copts) s (\<lambda>_. holds i (o' @ sent))"
      unfolding bytes by (simp add: sent_def)
  qed
  have send: "outcome True (Sender env (abs_path SD) walkOpts [] links copts)
      \<lparr>ss_fs = S, ss_conn = \<lparr>c_in = received @ i, c_out = open_writer o'\<rparr>\<rparr> (\<lambda>_. sender_at S i (o' @ sent))"
    if links: "links \<longrightarrow> unlinked S SD" for links i o'
  proof -
    from dest [OF some] have files: "\<forall>e \<in> set es. exchanges [] e \<longrightarrow> is_file (content_of S (SD @ comps e))"
      and entries: "entries_ok True env copts attrOpts0 ropts0 [] ?src D0 (content_of T0) es"
      and bytes: "session_out env attrOpts0 ropts0 [] ?src D0 (content_of T0) es = received"
        "session_in env copts attrOpts0 ropts0 [] ?src D0 (content_of T0) es = news" by blast+
    have detect: "outcome True (src_fs (DetectingHardLinks (abs_path SD)) (DetectHardLinks lookupHardLinkKey (abs_path SD) es)) t
        (\<lambda>x t. x = [] \<and> sender_at S j o' t)" if "links" "sender_at S j o' t" for j t
    proof -
      from that have "same_tree S (ss_fs t)" by (simp add: sender_at_def)
      then obtain T where "DetectHardLinks lookupHardLinkKey (abs_path SD) es (ss_fs t) = (T, Ok [])" "same_tree S T"
        using unlinked_detects [OF S(1-4) opts _ none [symmetric]] links \<open>links\<close> walk(1) by fastforce
      with that(2) show ?thesis by (simp add: outcome_def src_fs_def on_part_def wrap_err_def sender_at_def)
    qed
    have "outcome True (Sender env (abs_path SD) walkOpts [] links copts)
        \<lparr>ss_fs = S, ss_conn = \<lparr>c_in = session_out env attrOpts0 ropts0 [] ?src D0 (content_of T0) es @ i, c_out = open_writer o'\<rparr>\<rparr>
        (\<lambda>_. sender_at S i (o' @ fileList_bytes ?g es [] @
          session_in env copts attrOpts0 ropts0 [] ?src D0 (content_of T0) es))"
      by (rule plain_sender.Sender_outcome_links [OF env(1) S(3) plain_walk [OF S(2,1) walk] none [symmetric] detect _ _ entries
            files listfits]) simp_all
    then show ?thesis unfolding bytes by (simp add: sent_def)
  qed
  have recv: "outcome True (Receiver env (abs_path D) attrOpts ropts)
      (receiver_start T \<lparr>c_in = sent @ i, c_out = open_writer o'\<rparr>)
      (\<lambda>_. at True (mirrored S SD D (content_of T) (?W)) i (o' @ received))"
    if c: "copies_source S SD attrOpts ropts T D" for attrOpts ropts T D i o'
  proof -
    from c have T: "fs_inv T" "no_faults T" "list_all plain D" and o: "\<not> ro_DryRun ropts" "ro_PartialDir ropts = []"
      by (simp_all add: copies_source_def)
    note facts = dest [OF c]
    have "at True (content_of T) (fileList_bytes ?g es [] @ session_in env copts attrOpts ropts [] ?src D (content_of T) es @ i)
        o' (receiver_start T \<lparr>c_in = sent @ i, c_out = open_writer o'\<rparr>)"
      using T facts by (simp add: at_def fs_is_def receiver_start_def sent_def)
    from Receiver_outcome [OF env o this listfits conjunct1 [OF facts] _ _ T(3)] facts
    show ?thesis by simp
  qed
  show ?thesis
  proof (rule exI [of _ sent], rule exI [of _ received], intro conjI allI impI every)
    fix links i o'
    assume "links \<longrightarrow> unlinked S SD"
    from outcome_quiet [OF send [OF this], of i o']
    show "\<exists>s. Sender env (abs_path SD) walkOpts [] links copts
        \<lparr>ss_fs = S, ss_conn = \<lparr>c_in = received @ i, c_out = open_writer o'\<rparr>\<rparr> = (s, Ok ()) \<and>
      ss_conn s = \<lparr>c_in = i, c_out = open_writer (o' @ sent)\<rparr> \<and> same_tree S (ss_fs s)"
      by (auto simp: sender_at_def)
  next
    fix attrOpts ropts T D i o'
    assume "copies_source S SD attrOpts ropts T D"
    from outcome_quiet [OF recv [OF this], of i o']
    show "\<exists>t. Receiver env (abs_path D) attrOpts ropts
        (receiver_start T \<lparr>c_in = sent @ i, c_out = open_writer o'\<rparr>) = (t, Ok ()) \<and>
      crw_rw (rs_conn t) = \<lparr>c_in = i, c_out = open_writer (o' @ received)\<rparr> \<and>
      content_of (rs_fs t) = mirrored S SD D (content_of T) {r. r \<noteq> [] \<and> content_of S (SD @ r) \<noteq> None}"
      by (auto simp: at_def fs_is_def)
  qed
qed

text \<open>The same for one destination.\<close>

lemma sync_mirrors:
  assumes "gob_ok (env_gob env)" "zlib_ok (env_deflate env) (env_inflate env)"
    and "fs_wf S" "no_faults S" "list_all plain SD" "content_of S SD = Some DirData" "source_ok env copts S SD"
    and "fs_inv T" "no_faults T" "list_all plain D" "content_of T D = Some DirData"
      "\<And>r. r \<noteq> [] \<Longrightarrow> content_of T (D @ r) = None"
    and "Recursive walkOpts" "ao_Links attrOpts" "\<not> ro_DryRun ropts" "ro_PartialDir ropts = []"
    and "links \<longrightarrow> unlinked S SD"
    and "\<And>es. snd (Walk (abs_path SD) walkOpts S) = Ok es \<Longrightarrow>
      payload_fits (encFileList (env_gob env) \<lparr>fl_Entries = es, fl_HardLinkGroups = []\<rparr>)"
  shows "\<exists>sent received.
    (\<forall>i o'. \<exists>s. Sender env (abs_path SD) walkOpts [] links copts
        \<lparr>ss_fs = S, ss_conn = \<lparr>c_in = received @ i, c_out = open_writer o'\<rparr>\<rparr> = (s, Ok ()) \<and>
      ss_conn s = \<lparr>c_in = i, c_out = open_writer (o' @ sent)\<rparr> \<and> same_tree S (ss_fs s)) \<and>
    (\<forall>i o'. \<exists>t. Receiver env (abs_path D) attrOpts ropts
        (receiver_start T \<lparr>c_in = sent @ i, c_out = open_writer o'\<rparr>) = (t, Ok ()) \<and>
      crw_rw (rs_conn t) = \<lparr>c_in = i, c_out = open_writer (o' @ received)\<rparr> \<and>
      content_of (rs_fs t) = mirrored S SD D (content_of T) {r. r \<noteq> [] \<and> content_of S (SD @ r) \<noteq> None})"
proof -
  have c: "copies_source S SD attrOpts ropts T D" using assms(8-16) by (simp add: copies_source_def)
  obtain sent received where
    send: "\<forall>links i o'. (links \<longrightarrow> unlinked S SD) \<longrightarrow> (\<exists>s. Sender env (abs_path SD) walkOpts [] links copts
        \<lparr>ss_fs = S, ss_conn = \<lparr>c_in = received @ i, c_out = open_writer o'\<rparr>\<rparr> = (s, Ok ()) \<and>
      ss_conn s = \<lparr>c_in = i, c_out = open_writer (o' @ sent)\<rparr> \<and> same_tree S (ss_fs s))"
    and recv: "\<forall>attrOpts ropts T D. copies_source S SD attrOpts ropts T D \<longrightarrow>
      (\<forall>i o'. \<exists>t. Receiver env (abs_path D) attrOpts ropts
          (receiver_start T \<lparr>c_in = sent @ i, c_out = open_writer o'\<rparr>) = (t, Ok ()) \<and>
        crw_rw (rs_conn t) = \<lparr>c_in = i, c_out = open_writer (o' @ received)\<rparr> \<and>
        content_of (rs_fs t) = mirrored S SD D (content_of T) {r. r \<noteq> [] \<and> content_of S (SD @ r) \<noteq> None})"
    using sender_serves [OF assms(1-7,13) c assms(18)] by blast
  show ?thesis
    by (rule exI [of _ sent], rule exI [of _ received]) (use send assms(17) recv c in simp)
qed

end
