(* ===== verification/Copying.thy ===== *)
theory Copying
  imports Mirror
begin

text \<open>
  The end-to-end properties: a recursive sync into an empty directory copies the tree (through walk,
  file list, signatures, deltas, temporary files and renames), and the general session lemma for the
  receiver under failing calls.
\<close>

text \<open>
  A recursive sync copies the tree. On a well-formed source without special files whose messages
  fit a frame, into an existing empty directory: \<open>Sender\<close> and \<open>Receiver\<close>, each reading what the other
  writes, both end without an error; the source is left as it was; every file, directory and symbolic
  link below the source is in the destination with the same content; nothing else is below the
  destination, and every other path of the receiver keeps its content.
\<close>

theorem sync_copies_tree:
  assumes "gob_ok (env_gob env)" and "zlib_ok (env_deflate env) (env_inflate env)"
    and "fs_wf S" and "no_faults S" and "list_all plain SD" and "content_of S SD = Some DirData"
    and "source_ok env copts S SD"
    and "fs_inv T" and "no_faults T" and "list_all plain D" and "content_of T D = Some DirData"
    and "\<And>r. r \<noteq> [] \<Longrightarrow> content_of T (D @ r) = None"
    and "Recursive walkOpts" and "ao_Links attrOpts" and "\<not> ro_DryRun ropts" and "ro_PartialDir ropts = []"
    and "\<And>es. snd (Walk (abs_path SD) walkOpts S) = Ok es \<Longrightarrow>
      payload_fits (encFileList (env_gob env) \<lparr>fl_Entries = es, fl_HardLinkGroups = []\<rparr>)"
  shows "\<exists>sent received s t.
    Sender env (abs_path SD) walkOpts [] False copts \<lparr>ss_fs = S, ss_conn = open_conn received\<rparr> = (s, Ok ()) \<and>
    w_written (c_out (ss_conn s)) = sent \<and> same_tree S (ss_fs s) \<and>
    Receiver env (abs_path D) attrOpts ropts (receiver_start T (open_conn sent)) = (t, Ok ()) \<and>
    w_written (c_out (crw_rw (rs_conn t))) = received \<and>
    (\<forall>r. r \<noteq> [] \<longrightarrow> content_of (rs_fs t) (D @ r) = content_of S (SD @ r)) \<and>
    (\<forall>p. p = D \<or> take (length D) p \<noteq> D \<longrightarrow> content_of (rs_fs t) p = content_of T p)"
proof -
  obtain sent received where
    send: "\<forall>i o'. \<exists>s. Sender env (abs_path SD) walkOpts [] False copts
        \<lparr>ss_fs = S, ss_conn = \<lparr>c_in = received @ i, c_out = open_writer o'\<rparr>\<rparr> = (s, Ok ()) \<and>
      ss_conn s = \<lparr>c_in = i, c_out = open_writer (o' @ sent)\<rparr> \<and> same_tree S (ss_fs s)"
    and recv: "\<forall>i o'. \<exists>t. Receiver env (abs_path D) attrOpts ropts
        (receiver_start T \<lparr>c_in = sent @ i, c_out = open_writer o'\<rparr>) = (t, Ok ()) \<and>
      crw_rw (rs_conn t) = \<lparr>c_in = i, c_out = open_writer (o' @ received)\<rparr> \<and>
      content_of (rs_fs t) = mirrored S SD D (content_of T) {r. r \<noteq> [] \<and> content_of S (SD @ r) \<noteq> None}"
    using sync_mirrors [OF assms(1-16), where links = False] assms(17) by blast
  obtain s t where run:
    "Sender env (abs_path SD) walkOpts [] False copts \<lparr>ss_fs = S, ss_conn = open_conn received\<rparr> = (s, Ok ())"
    "w_written (c_out (ss_conn s)) = sent" "same_tree S (ss_fs s)"
    "Receiver env (abs_path D) attrOpts ropts (receiver_start T (open_conn sent)) = (t, Ok ())"
    "w_written (c_out (crw_rw (rs_conn t))) = received"
    and t: "content_of (rs_fs t) = mirrored S SD D (content_of T) {r. r \<noteq> [] \<and> content_of S (SD @ r) \<noteq> None}"
    using spec [OF spec [OF send, of "[]"], of "[]"] spec [OF spec [OF recv, of "[]"], of "[]"]
    by (auto simp: open_conn_def)
  have "content_of (rs_fs t) (D @ r) = content_of S (SD @ r)" if "r \<noteq> []" for r
    unfolding t mirrored_at using that assms(12) [of r] by (cases "content_of S (SD @ r)") simp_all
  moreover have "content_of (rs_fs t) p = content_of T p" if "p = D \<or> take (length D) p \<noteq> D" for p
    unfolding t by (rule mirrored_other) (use that in auto)
  ultimately show ?thesis using run by blast
qed

definition small_dst :: fs where
  "small_dst = small_fs\<lparr>fs_names := [([], 0), ([''dst''], 1)]\<rparr>"

definition all_attrs :: attrOptions where
  "all_attrs = \<lparr>ao_Perms = True, ao_Times = True, ao_Owner = True, ao_Group = True,
     ao_Links = True, ao_HardLinks = True, ao_Devices = True\<rparr>"

definition no_compression :: compressOptions where
  "no_compression = \<lparr>co_Enabled = False, co_Level = 0, co_SkipSuffixes = []\<rparr>"

definition small_env :: "bytes env" where
  "small_env =
     (let sig = GenerateSignature (\<lambda>b. b) [] in
      toy_env
        [\<lparr>fl_Entries = [entry_at small_fs [''src''] [''d''], entry_at small_fs [''src''] [''d'', ''f'']], fl_HardLinkGroups = []\<rparr>]
        [\<lparr>sm_Path = ''d/f'', sm_Sig = sig, sm_Append = appendNone\<rparr>]
        [delta_message toy_deflate ''d/f'' (GenerateDelta (\<lambda>b. b) sig [1, 2, 3]) no_compression])"

lemma small_env_simps [simp]:
  "env_strong small_env = (\<lambda>b. b)" "env_deflate small_env = toy_deflate" "env_inflate small_env = toy_inflate"
  by (simp_all add: small_env_def toy_env_def Let_def)

lemma small_env_ok: "gob_ok (env_gob small_env)"
  by (simp add: small_env_def toy_env_def Let_def table_gob_ok)

lemma small_dst_ok: "fs_inv small_dst" "no_faults small_dst" "content_of small_dst [''dst''] = Some DirData"
  by (simp_all add: fs_inv_def fs_wf_def small_dst_def small_fs_def no_faults_def content_of_def lookup_def ino_of_def
      dir_inode_def plain_def)

lemma small_dst_empty: "r \<noteq> [] \<Longrightarrow> content_of small_dst ([''dst''] @ r) = None"
  by (auto simp: small_dst_def small_fs_def content_of_def lookup_def ino_of_def)

lemma small_source_ok: "source_ok small_env no_compression small_fs [''src'']"
  by (simp add: source_ok_def small_fs_def dir_inode_def hasSuffix_def message_fits_def small_env_def toy_env_def Let_def
      rel_path_def table_gob_simps payload_fits_def table_enc_def maxFramePayload_def)

theorem sync_copies_tree_witness:
  "\<exists>sent received s t.
    Sender small_env (abs_path [''src'']) \<lparr>Recursive = True, Dirs = False\<rparr> [] False no_compression
      \<lparr>ss_fs = small_fs, ss_conn = open_conn received\<rparr> = (s, Ok ()) \<and>
    w_written (c_out (ss_conn s)) = sent \<and> same_tree small_fs (ss_fs s) \<and>
    Receiver small_env (abs_path [''dst'']) all_attrs plain_ropts (receiver_start small_dst (open_conn sent)) = (t, Ok ()) \<and>
    w_written (c_out (crw_rw (rs_conn t))) = received \<and>
    (\<forall>r. r \<noteq> [] \<longrightarrow> content_of (rs_fs t) ([''dst''] @ r) = content_of small_fs ([''src''] @ r)) \<and>
    (\<forall>p. p = [''dst''] \<or> take (length [''dst'']) p \<noteq> [''dst''] \<longrightarrow> content_of (rs_fs t) p = content_of small_dst p)"
proof (rule sync_copies_tree)
  show "gob_ok (env_gob small_env)" by (simp add: small_env_def toy_env_def Let_def table_gob_ok)
  have walk: "snd (Walk (abs_path [''src'']) \<lparr>Recursive = True, Dirs = False\<rparr> small_fs)
      = Ok [entry_at small_fs [''src''] [''d''], entry_at small_fs [''src''] [''d'', ''f'']]"
    by code_simp
  show "payload_fits (encFileList (env_gob small_env) \<lparr>fl_Entries = es, fl_HardLinkGroups = []\<rparr>)"
    if "snd (Walk (abs_path [''src'']) \<lparr>Recursive = True, Dirs = False\<rparr> small_fs) = Ok es" for es
    using that unfolding walk
    by (simp add: small_env_def toy_env_def Let_def payload_fits_def table_enc_def maxFramePayload_def)
qed (simp_all add: small_fs_ok small_dst_ok small_dst_empty [simplified] small_source_ok toy_zlib_ok all_attrs_def plain_ropts_def plain_def)

section \<open>Updates\<close>

text \<open>
  C13. The receiver refines the session: for file lists with updates of existing files, append modes,
  symbolic links and hard-link groups. When the messages are those of \<open>session_in\<close> (for every regular
  file the delta that answers the receiver's signature), then under any failing calls a run that ends
  without an error leaves exactly the contents of \<open>session_contents\<close> followed by the links of
  \<open>groups_contents\<close>, and has written exactly the signatures of \<open>session_out\<close>; and when no call fails
  the run does end without an error.
\<close>

theorem Receiver_refines_session:
  assumes "gob_ok (env_gob env)" and "zlib_ok (env_deflate env) (env_inflate env)"
    and "\<not> ro_DryRun ropts" and "ro_PartialDir ropts = []"
    and "fs_inv T" and "list_all plain D" and "m = content_of T"
    and "payload_fits (encFileList (env_gob env) \<lparr>fl_Entries = es, fl_HardLinkGroups = gs\<rparr>)"
    and "entries_ok (no_faults T) env copts attrOpts ropts gs src D m es"
    and "groups_ok D gs (session_contents attrOpts ropts gs src D m es)" and "\<forall>g \<in> set gs. g \<noteq> []"
    and "input = fileList_bytes (env_gob env) es gs @ session_in env copts attrOpts ropts gs src D m es"
    and "Receiver env (abs_path D) attrOpts ropts (receiver_start T (open_conn input)) = (t, r)"
  shows "(no_faults T \<longrightarrow> r = Ok ()) \<and>
    (r = Ok () \<longrightarrow>
       content_of (rs_fs t) = groups_contents D gs (session_contents attrOpts ropts gs src D m es) \<and>
       w_written (c_out (crw_rw (rs_conn t))) = session_out env attrOpts ropts gs src D m es)"
proof -
  have start: "at (no_faults T) m (fileList_bytes (env_gob env) es gs @
      session_in env copts attrOpts ropts gs src D m es @ []) [] (receiver_start T (open_conn input))"
    using assms(5) by (simp add: at_def fs_is_def receiver_start_def open_conn_def assms(7,12))
  from Receiver_outcome [OF assms(1-4) start assms(8-11) assms(6)]
  show ?thesis
    unfolding outcome_def assms(13) by (cases r) (auto simp: at_def fs_is_def)
qed

definition append_entry :: fileEntry where
  "append_entry = (entry_at small_fs [''src''] [''d'', ''f''])\<lparr>fe_Size := 4\<rparr>"

definition append_list :: fileListMessage where
  "append_list =
     \<lparr>fl_Entries = [append_entry, append_entry\<lparr>fe_Path := ''g''\<rparr>], fl_HardLinkGroups = [[''d/f'', ''g'']]\<rparr>"

definition append_env :: "bytes env" where
  "append_env =
     toy_env [append_list] [\<lparr>sm_Path = ''d/f'', sm_Sig = \<lparr>sig_BlockSize = 3, sig_Blocks = []\<rparr>, sm_Append = appendTail\<rparr>]
       [delta_message toy_deflate ''d/f'' [CopyOp 0, DataOp [4]] no_compression]"

definition append_ropts :: receiverOptions where
  "append_ropts = plain_ropts\<lparr>ro_Append := True\<rparr>"

lemma append_contents:
  "content_of small_fs [] = Some DirData" "content_of small_fs [''src''] = Some DirData"
  "content_of small_fs [''src'', ''d''] = Some DirData"
  "content_of small_fs [''src'', ''d'', ''f''] = Some (FileData [1, 2, 3])" 
  by (simp_all add: small_fs_def content_of_def lookup_def ino_of_def dir_inode_def)

lemma append_none: "last p \<noteq> ''src'' \<Longrightarrow> last p \<noteq> ''d'' \<Longrightarrow> last p \<noteq> ''f'' \<Longrightarrow> p \<noteq> [] \<Longrightarrow> content_of small_fs p = None"
  by (auto simp: small_fs_def content_of_def lookup_def ino_of_def dir_inode_def)

lemma append_session:
  fixes src :: "string \<Rightarrow> bytes"
  assumes "src = (\<lambda>_. [1, 2, 3, 4])"
  shows "entries_ok True append_env no_compression all_attrs append_ropts [[''d/f'', ''g'']] src [''src'']
    (content_of small_fs) [append_entry, append_entry\<lparr>fe_Path := ''g''\<rparr>]" (is ?ok)
  and "session_contents all_attrs append_ropts [[''d/f'', ''g'']] src [''src'']
    (content_of small_fs) [append_entry, append_entry\<lparr>fe_Path := ''g''\<rparr>]
    = (content_of small_fs)([''src'', ''d'', ''f''] \<mapsto> FileData [1, 2, 3, 4])" (is ?contents)
proof -
  have comps: "path_comps ''d/f'' = [''d'', ''f'']" "path_comps ''g'' = [''g'']" by (code_simp)+
  have entry: "fe_Path append_entry = ''d/f''" "\<not> fe_IsDir append_entry" "fe_Mode append_entry AND ModeSymlink = 0" "fe_Size append_entry = 4"
    by (code_simp)+
  have groups: "secondary_paths [[''d/f'', ''g'']] = [''g'']" by (simp add: secondary_paths_def)
  have AppendMode: "AppendMode append_ropts" "\<not> ro_AppendVerify append_ropts" by (code_simp)+
  have ex: "exchanges [[''d/f'', ''g'']] append_entry" "\<not> exchanges [[''d/f'', ''g'']] (append_entry\<lparr>fe_Path := ''g''\<rparr>)"
    by (simp_all add: exchanges_def entry groups)
  show ?contents
    by (simp add: entry_effect_def Let_def ex entry comps_def comps append_contents result_bytes_def AppendMode data_of_def assms)
  have plan: "plan E append_ropts (Some (FileData [1, 2, 3])) append_entry = (\<lparr>sig_BlockSize = 3, sig_Blocks = []\<rparr>, appendTail)"
    for E :: "bytes env"
    by (simp add: plan_def sign_plan_def AppendMode entry data_of_def)
  have "file_ok append_env no_compression append_ropts (Some (FileData [1, 2, 3])) append_entry [1, 2, 3, 4]"
    by (simp add: file_ok_def plan entry data_of_def DefaultBlockSize_def reply_def sender_ops_def appendTailOps_def
      append_env_def toy_env_def payload_fits_def table_enc_def maxFramePayload_def strong_separates_def splitBlocks_def split_from.simps)
  then show ?ok
    by (simp add: entry_ok_def Let_def ex entry comps_def comps append_contents append_none dirs_in_def plain_def
      no_temps_def temp_component_def all_attrs_def rel_path_def assms entry_effect_def)
qed

theorem Receiver_refines_session_witness:
  "\<exists>input t. Receiver append_env (abs_path [''src'']) all_attrs append_ropts (receiver_start small_fs (open_conn input)) = (t, Ok ()) \<and>
     content_of (rs_fs t) [''src'', ''d'', ''f''] = Some (FileData [1, 2, 3, 4]) \<and>
     content_of (rs_fs t) [''src'', ''g''] = Some (FileData [1, 2, 3, 4])"
proof -
  let ?es = "fl_Entries append_list" and ?gs = "[[''d/f'', ''g'']]" and ?m = "content_of small_fs" and ?D = "[''src'']"
  define src :: "string \<Rightarrow> bytes" where "src = (\<lambda>_. [1, 2, 3, 4])"
  define input where "input = fileList_bytes (env_gob append_env) ?es ?gs @
    session_in append_env no_compression all_attrs append_ropts ?gs src ?D ?m ?es"
  obtain t r where run: "Receiver append_env (abs_path ?D) all_attrs append_ropts
      (receiver_start small_fs (open_conn input)) = (t, r)"
    by (meson surj_pair)
  have es: "?es = [append_entry, append_entry\<lparr>fe_Path := ''g''\<rparr>]" by (simp add: append_list_def)
  have comps: "path_comps ''d/f'' = [''d'', ''f'']" "path_comps ''g'' = [''g'']" by (code_simp)+
  note session = append_session [OF src_def, folded es]
  have fits: "payload_fits (encFileList (env_gob append_env) \<lparr>fl_Entries = ?es, fl_HardLinkGroups = ?gs\<rparr>)"
    by (simp add: append_env_def toy_env_def append_list_def payload_fits_def table_enc_def maxFramePayload_def)
  have groups: "groups_ok ?D ?gs (session_contents all_attrs append_ropts ?gs src ?D ?m ?es)"
    by (simp add: session link_ok_def comps Let_def rel_path_def dirs_in_def plain_def append_contents append_none is_file_def)
  have env: "gob_ok (env_gob append_env)" "zlib_ok (env_deflate append_env) (env_inflate append_env)"
    "\<not> ro_DryRun append_ropts" "ro_PartialDir append_ropts = []" "fs_inv small_fs" "list_all plain ?D"
    by (simp_all add: append_env_def toy_env_def table_gob_ok toy_zlib_ok append_ropts_def plain_ropts_def plain_def
        fs_inv_def small_fs_ok) (simp add: small_fs_def)
  have "entries_ok (no_faults small_fs) append_env no_compression all_attrs append_ropts ?gs src ?D ?m ?es"
    using session(1) by (simp add: small_fs_ok)
  from Receiver_refines_session [OF env refl fits this groups _ input_def run]
  have "r = Ok ()" and t: "content_of (rs_fs t) = groups_contents ?D ?gs (session_contents all_attrs append_ropts ?gs src ?D ?m ?es)"
    by (simp_all add: small_fs_ok)
  with run show ?thesis
    by (intro exI [of _ input] exI [of _ t]) (simp add: t session link_effect_def comps)
qed

end
