(* ===== verification/Push.thy ===== *)
theory Push
  imports Batch Copying
begin

text \<open>
  A push over a remote shell from end to end: \<open>syncToRemote\<close> on this host against \<open>runServer\<close> on the other,
  handshake included (theory \<open>RemotePush\<close> starts both from their command lines); and the batch recorded on the
  way, replayed by \<open>runReadBatch\<close> on any other host.
\<close>

section \<open>The two ends\<close>

lemma Handshake_ack:
  "Handshake (open_conn (frame_bytes ack_frame @ rest)) = (\<lparr>c_in = rest, c_out = open_writer (frame_bytes hello_frame)\<rparr>, None)"
proof -
  have "WriteFrame (open_writer []) \<lparr>fr_Type = FrameHello, fr_Payload = [ProtocolVersion]\<rparr>
      = (open_writer (frame_bytes hello_frame), None)"
    using WriteFrame_open [of hello_frame "[]"] by (simp add: hello_frame_def [symmetric])
  moreover have "ReadFrame (frame_bytes ack_frame @ rest) = Ok (ack_frame, rest)" by (rule fc.dec_enc) simp
  ultimately show ?thesis
    by (simp add: Handshake_def open_conn_def Let_def) (simp add: ack_frame_def version_ok_conv)
qed

lemma ServeHandshake_hello:
  "ServeHandshake (open_conn (frame_bytes hello_frame @ rest))
     = (\<lparr>c_in = rest, c_out = open_writer (frame_bytes ack_frame)\<rparr>, None)"
  using ServeHandshake_open [of "frame_bytes hello_frame @ rest" "\<lparr>c_in = rest, c_out = open_writer (frame_bytes ack_frame)\<rparr>"]
  by simp

definition remote_process :: "bytes \<Rightarrow> process" where
  "remote_process output = \<lparr>pc_conn = open_conn output, pc_stdinClose = None, pc_wait = None, pc_stderr = []\<rparr>"

definition same_below :: "fs \<Rightarrow> fpath \<Rightarrow> fs \<Rightarrow> fpath \<Rightarrow> bool" where
  "same_below S SD T D \<longleftrightarrow> (\<forall>r. r \<noteq> [] \<longrightarrow> content_of T (D @ r) = content_of S (SD @ r))"

definition same_outside :: "fs \<Rightarrow> fs \<Rightarrow> fpath \<Rightarrow> bool" where
  "same_outside T0 T D \<longleftrightarrow> (\<forall>p. p = D \<or> take (length D) p \<noteq> D \<longrightarrow> content_of T p = content_of T0 p)"

lemma mirrored_copy:
  assumes "copies_source S SD attrOpts ropts T0 D"
    and "content_of T = mirrored S SD D (content_of T0) {r. r \<noteq> [] \<and> content_of S (SD @ r) \<noteq> None}"
  shows "same_below S SD T D" and "same_outside T0 T D"
proof -
  show "same_below S SD T D"
    unfolding same_below_def
  proof (intro allI impI)
    fix r :: "string list"
    assume "r \<noteq> []"
    with assms(1) have "content_of T0 (D @ r) = None" by (simp add: copies_source_def)
    with \<open>r \<noteq> []\<close> show "content_of T (D @ r) = content_of S (SD @ r)"
      unfolding assms(2) mirrored_at by (cases "content_of S (SD @ r)") simp_all
  qed
  show "same_outside T0 T D"
    unfolding same_outside_def assms(2) by (auto intro!: mirrored_other)
qed

lemma push_serves:
  assumes "gob_ok (env_gob env)" and "zlib_ok (env_deflate env) (env_inflate env)"
    and "fs_wf S" and "no_faults S" and "list_all plain SD" and "content_of S SD = Some DirData"
    and "source_ok env copts S SD" and "Recursive walkOpts"
    and some: "copies_source S SD (effectiveAttrOptions opts) (effectiveReceiverOptions opts) T D"
    and "\<And>es. snd (Walk (abs_path SD) walkOpts S) = Ok es \<Longrightarrow>
      payload_fits (encFileList (env_gob env) \<lparr>fl_Entries = es, fl_HardLinkGroups = []\<rparr>)"
  shows "\<exists>sent received s c t out.
    (\<forall>spawn q. spawn (BuildRSHCommand rsh (rp_User remote) (rp_Host remote) (remote_args ropts (rp_Path remote)) ipv4 ipv6) = Started q \<and>
        pc_conn q = open_conn (frame_bytes ack_frame @ received) \<and> pc_stdinClose q = None \<and> pc_wait q = None \<longrightarrow>
      syncToRemote None env spawn rsh (abs_path SD) remote walkOpts [] False ropts copts ipv4 ipv6 S = (s, Some c, Ok ())) \<and>
    w_written (c_out c) = frame_bytes hello_frame @ sent \<and> same_tree S s \<and>
    runServer env (abs_path D) opts \<lparr>ds_fs = T, ds_conn = open_conn (frame_bytes hello_frame @ sent)\<rparr> = (t, out, Ok ()) \<and>
    w_written (c_out (ds_conn t)) = frame_bytes ack_frame @ received \<and>
    same_below S SD (ds_fs t) D \<and> same_outside T (ds_fs t) D"
proof -
  obtain sent received where
    send: "\<forall>links i o'. (links \<longrightarrow> unlinked S SD) \<longrightarrow> (\<exists>s. Sender env (abs_path SD) walkOpts [] links copts
        \<lparr>ss_fs = S, ss_conn = \<lparr>c_in = received @ i, c_out = open_writer o'\<rparr>\<rparr> = (s, Ok ()) \<and>
      ss_conn s = \<lparr>c_in = i, c_out = open_writer (o' @ sent)\<rparr> \<and> same_tree S (ss_fs s))"
    and recv: "\<forall>attrOpts ropts T D. copies_source S SD attrOpts ropts T D \<longrightarrow>
      (\<forall>i o'. \<exists>t. Receiver env (abs_path D) attrOpts ropts
          (receiver_start T \<lparr>c_in = sent @ i, c_out = open_writer o'\<rparr>) = (t, Ok ()) \<and>
        crw_rw (rs_conn t) = \<lparr>c_in = i, c_out = open_writer (o' @ received)\<rparr> \<and>
        content_of (rs_fs t) = mirrored S SD D (content_of T) {r. r \<noteq> [] \<and> content_of S (SD @ r) \<noteq> None})"
    using sender_serves [OF assms(1-8) some assms(10)] by blast
  have recv': "\<exists>t. Receiver env (abs_path D') attrOpts' ropts' (receiver_start T' \<lparr>c_in = sent, c_out = open_writer o'\<rparr>) = (t, Ok ()) \<and>
      crw_rw (rs_conn t) = \<lparr>c_in = [], c_out = open_writer (o' @ received)\<rparr> \<and>
      same_below S SD (rs_fs t) D' \<and> same_outside T' (rs_fs t) D'"
    if c: "copies_source S SD attrOpts' ropts' T' D'" for attrOpts' ropts' T' D' o'
  proof -
    from recv c obtain t where "Receiver env (abs_path D') attrOpts' ropts'
        (receiver_start T' \<lparr>c_in = sent @ [], c_out = open_writer o'\<rparr>) = (t, Ok ())"
      "crw_rw (rs_conn t) = \<lparr>c_in = [], c_out = open_writer (o' @ received)\<rparr>"
      "content_of (rs_fs t) = mirrored S SD D' (content_of T') {r. r \<noteq> [] \<and> content_of S (SD @ r) \<noteq> None}"
      by blast
    with mirrored_copy [OF c this(3)] show ?thesis by auto
  qed
  obtain s where s: "Sender env (abs_path SD) walkOpts [] False copts
      \<lparr>ss_fs = S, ss_conn = \<lparr>c_in = received, c_out = open_writer (frame_bytes hello_frame)\<rparr>\<rparr> = (s, Ok ())"
    "ss_conn s = \<lparr>c_in = [], c_out = open_writer (frame_bytes hello_frame @ sent)\<rparr>" "same_tree S (ss_fs s)"
    using send [rule_format, of False "[]" "frame_bytes hello_frame"] by auto
  have push: "\<forall>spawn q. spawn (BuildRSHCommand rsh (rp_User remote) (rp_Host remote) (remote_args ropts (rp_Path remote)) ipv4 ipv6) = Started q \<and>
      pc_conn q = open_conn (frame_bytes ack_frame @ received) \<and> pc_stdinClose q = None \<and> pc_wait q = None \<longrightarrow>
    syncToRemote None env spawn rsh (abs_path SD) remote walkOpts [] False ropts copts ipv4 ipv6 S = (ss_fs s, Some (ss_conn s), Ok ())"
    by (simp add: syncToRemote_def Dial_def Let_def Handshake_ack s Session_Close_def)
  obtain t where t: "Receiver env (abs_path D) (effectiveAttrOptions opts) (effectiveReceiverOptions opts)
      (receiver_start T \<lparr>c_in = sent, c_out = open_writer (frame_bytes ack_frame)\<rparr>) = (t, Ok ())"
    "crw_rw (rs_conn t) = \<lparr>c_in = [], c_out = open_writer (frame_bytes ack_frame @ received)\<rparr>"
    "same_below S SD (rs_fs t) D" "same_outside T (rs_fs t) D"
    using recv' [OF some] by blast
  have serve: "runServer env (abs_path D) opts \<lparr>ds_fs = T, ds_conn = open_conn (frame_bytes hello_frame @ sent)\<rparr>
      = (\<lparr>ds_fs = rs_fs t, ds_conn = crw_rw (rs_conn t)\<rparr>, rs_out t, Ok ())"
    by (simp add: runServer_def ServeHandshake_hello t)
  show ?thesis
    by - (rule exI [of _ sent], rule exI [of _ received], rule exI [of _ "ss_fs s"], rule exI [of _ "ss_conn s"],
      rule exI [of _ "\<lparr>ds_fs = rs_fs t, ds_conn = crw_rw (rs_conn t)\<rparr>"], rule exI [of _ "rs_out t"],
      use push serve s(2,3) t in simp)
qed

lemma small_walk_fits:
  "snd (Walk (abs_path [''src'']) \<lparr>Recursive = True, Dirs = False\<rparr> small_fs) = Ok es \<Longrightarrow>
     payload_fits (encFileList (env_gob small_env) \<lparr>fl_Entries = es, fl_HardLinkGroups = []\<rparr>)"
proof -
  assume es: "snd (Walk (abs_path [''src'']) \<lparr>Recursive = True, Dirs = False\<rparr> small_fs) = Ok es"
  have "snd (Walk (abs_path [''src'']) \<lparr>Recursive = True, Dirs = False\<rparr> small_fs)
      = Ok [entry_at small_fs [''src''] [''d''], entry_at small_fs [''src''] [''d'', ''f'']]"
    by code_simp
  with es show ?thesis
    by (simp add: small_env_def toy_env_def Let_def payload_fits_def table_enc_def maxFramePayload_def)
qed

section \<open>A push that writes a batch\<close>

lemma copies_source_step [simp]:
  "copies_source S SD attrOpts ropts (step T) D = copies_source S SD attrOpts ropts T D"
  by (simp add: copies_source_def)

lemma Create_new:
  assumes "fs_inv s" and "no_faults s" and "dirs_above s p" and "ino_of s p = None"
  shows "\<exists>n t. Create (abs_path p) s = (t, Ok n) \<and> batch_at s p n [] t \<and> fs_inv t"
proof -
  have wf: "fs_wf s" using assms(1) by (simp add: fs_inv_def)
  have p: "p \<noteq> []" using assms(4) wf by (auto simp: fs_wf_def content_of_ino)
  have plain: "list_all plain p" and "content_of s (take (length p - 1) p) = Some DirData"
    using assms(3) p by (auto simp: dirs_above_def list_all_iff)
  then have parent: "content_of s (butlast p) = Some DirData" by (simp add: butlast_conv_take)
  have link: "\<not> is_link s p" using assms(4) by (simp add: is_link_def content_of_ino)
  let ?made = "create p (FileData []) (438 AND NOT (fs_umask s)) (step s)"
  have run: "Create (abs_path p) s = ?made"
    using assms(2-4) link by (simp add: Create_def sys_call_def no_faults_def with_path_abs)
  have "\<exists>n. snd ?made = Ok n" using assms(4) parent by (simp add: create_def Let_def)
  then obtain n where n: "?made = (fst ?made, Ok n)" by (metis prod.collapse)
  have "fs_inv (step s)" using assms(1) same_tree_wf [OF same_tree_step, of s] by (simp add: fs_inv_def step_def)
  then have "fs_inv (fst ?made)" by (rule inv_create [OF _ plain])
  moreover have "batch_at s p n [] (fst ?made)"
    using Create_batch [OF wf assms(3,4), of "fst ?made" "Ok n"] run n by simp
  ultimately show ?thesis using run n by metis
qed

lemma source_ok_cong:
  assumes "source_ok env copts S SD" and "fs_wf T" and same: "\<And>r. content_of T (SD @ r) = content_of S (SD @ r)"
  shows "source_ok env copts T SD"
proof -
  have "(case e of (p, n) \<Rightarrow> let r = drop (length SD) p in
      r \<noteq> [] \<and> p = SD @ r \<longrightarrow> \<not> hasSuffix (last r) ''.grsync-tmp'' \<and>
        (case in_content (fs_inodes T n) of FileData d \<Rightarrow> message_fits env copts (rel_path r) d
         | DirData \<Rightarrow> True | LinkData t \<Rightarrow> t \<noteq> [] | _ \<Rightarrow> False))" if "e \<in> set (fs_names T)" for e
  proof (cases e)
    case (Pair p n)
    let ?r = "drop (length SD) p"
    have ino: "ino_of T p = Some n" using that Pair assms(2) by (simp add: fs_wf_def ino_of_def)
    show ?thesis
      unfolding Pair prod.case Let_def
    proof (rule impI, elim conjE)
      assume r: "?r \<noteq> []" and p: "p = SD @ ?r"
      have "content_of T p = Some (in_content (fs_inodes T n))" using ino by (simp add: content_of_ino)
      then have "content_of S (SD @ ?r) = Some (in_content (fs_inodes T n))" using same [of ?r, folded p] p by metis
      from source_okD [OF assms(1) this r]
      show "\<not> hasSuffix (last ?r) ''.grsync-tmp'' \<and>
          (case in_content (fs_inodes T n) of FileData d \<Rightarrow> message_fits env copts (rel_path ?r) d
             | DirData \<Rightarrow> True | LinkData t \<Rightarrow> t \<noteq> [] | _ \<Rightarrow> False)"
        by auto
    qed
  qed
  then show ?thesis unfolding source_ok_def list_all_iff by (rule ballI)
qed

text \<open>There always is some destination a source can be copied to.\<close>

lemma some_destination: "copies_source S SD all_attrs plain_ropts small_dst [''dst'']"
  using small_dst_ok small_dst_empty by (simp add: copies_source_def all_attrs_def plain_ropts_def plain_def)

lemma batch_push_serves:
  assumes env: "gob_ok (env_gob env)" "zlib_ok (env_deflate env) (env_inflate env)"
    and s0: "fs_inv s0" "no_faults s0" and SD: "list_all plain SD" "content_of s0 SD = Some DirData"
    and src: "source_ok env copts s0 SD" and opts: "Recursive walkOpts"
    and batch: "batch_at s0 p n [] S" "fs_inv S" and apart: "take (length SD) p \<noteq> SD"
    and fits: "\<And>es. snd (Walk (abs_path SD) walkOpts S) = Ok es \<Longrightarrow>
      payload_fits (encFileList (env_gob env) \<lparr>fl_Entries = es, fl_HardLinkGroups = []\<rparr>)"
  shows "\<exists>sent received t c.
    syncToRemote (Some n) env (\<lambda>_. Started (remote_process (frame_bytes ack_frame @ received))) rsh (abs_path SD) remote
      walkOpts [] False ropts copts ipv4 ipv6 S = (t, Some c, Ok ()) \<and> batch_at s0 p n sent t \<and>
    (\<forall>attrOpts ropts T D. copies_source s0 SD attrOpts ropts T D \<longrightarrow>
      (\<exists>t. Receiver env (abs_path D) attrOpts ropts (receiver_start T (open_conn sent)) = (t, Ok ()) \<and>
        same_below s0 SD (rs_fs t) D \<and> same_outside T (rs_fs t) D))"
proof -
  have wf: "fs_wf S" "fs_wf s0" using batch(2) s0(1) by (simp_all add: fs_inv_def)
  have quiet: "no_faults S" by (rule batch_at_quiet [OF batch(1) s0(2)])
  note same = batch_at_outside [OF batch(1) apart]
  have dir: "content_of S SD = Some DirData" using same [of "[]"] SD(2) by simp
  obtain sent received where
    recv: "\<forall>attrOpts ropts T D. copies_source S SD attrOpts ropts T D \<longrightarrow>
      (\<forall>i o'. \<exists>t. Receiver env (abs_path D) attrOpts ropts
          (receiver_start T \<lparr>c_in = sent @ i, c_out = open_writer o'\<rparr>) = (t, Ok ()) \<and>
        crw_rw (rs_conn t) = \<lparr>c_in = i, c_out = open_writer (o' @ received)\<rparr> \<and>
        content_of (rs_fs t) = mirrored S SD D (content_of T) {r. r \<noteq> [] \<and> content_of S (SD @ r) \<noteq> None})"
    and send: "sends_all env copts walkOpts S SD received sent"
    using sender_serves [OF env wf(1) quiet SD(1) dir source_ok_cong [OF src wf(1) same] opts some_destination fits] by blast
  obtain S' es where walk: "Walk (abs_path SD) walkOpts S = (S', Ok es)" "same_tree S S'"
    by (rule Walk_recursive [OF wf(1) quiet opts SD(1) dir])
  let ?hello = "frame_bytes hello_frame"
  let ?holds = "teed_at s0 p n (length ?hello) S SD"
  define c where "c = \<lparr>c_in = received, c_out = open_writer ?hello\<rparr>"
  have "outcome True (src_fs (Walking (abs_path SD)) (Walk (abs_path SD) walkOpts)) \<lparr>ss_fs = S, ss_conn = c\<rparr>
      (\<lambda>x t. snd (Walk (abs_path SD) walkOpts S) = Ok x \<and> ?holds (received @ []) ?hello t)"
    using batch(1) batch_at_tree [OF batch(1) walk(2)] s0(2) wf(2) apart
    by (auto simp: outcome_def src_fs_def on_part_def wrap_err_def walk(1) teed_at_def synced_def c_def)
  with send teed_sender.sender_state_axioms
  have "outcome True (Sender_to (Some n) env (abs_path SD) walkOpts [] False copts) \<lparr>ss_fs = S, ss_conn = c\<rparr>
      (\<lambda>_. ?holds [] (?hello @ sent))"
    unfolding sends_all_def by blast
  from outcome_quiet [OF this] obtain t where
    t: "Sender_to (Some n) env (abs_path SD) walkOpts [] False copts \<lparr>ss_fs = S, ss_conn = c\<rparr> = (t, Ok ())"
      "?holds [] (?hello @ sent) t" by auto
  have push: "syncToRemote (Some n) env (\<lambda>_. Started (remote_process (frame_bytes ack_frame @ received))) rsh (abs_path SD) remote
      walkOpts [] False ropts copts ipv4 ipv6 S = (ss_fs t, Some (ss_conn t), Ok ())"
    by (simp add: syncToRemote_def Dial_def Let_def remote_process_def Handshake_ack t(1) [unfolded c_def] Session_Close_def)
  have "ss_conn t = \<lparr>c_in = [], c_out = open_writer (?hello @ sent)\<rparr>" using t(2) by (simp add: teed_at_def)
  with t(2) have "batch_at s0 p n sent (ss_fs t)" by (simp add: teed_at_def synced_def)
  moreover have "\<exists>t. Receiver env (abs_path D) attrOpts ropts (receiver_start T (open_conn sent)) = (t, Ok ()) \<and>
        same_below s0 SD (rs_fs t) D \<and> same_outside T (rs_fs t) D"
    if "copies_source s0 SD attrOpts ropts T D" for attrOpts ropts T D
  proof -
    from that have c: "copies_source S SD attrOpts ropts T D" by (simp add: copies_source_def same)
    from recv [rule_format, OF c, of "[]" "[]"] obtain t where
      "Receiver env (abs_path D) attrOpts ropts (receiver_start T (open_conn sent)) = (t, Ok ())"
      "content_of (rs_fs t) = mirrored S SD D (content_of T) {r. r \<noteq> [] \<and> content_of S (SD @ r) \<noteq> None}"
      by (auto simp: open_conn_def)
    with mirrored_copy [OF c this(2)] same show ?thesis by (auto simp: same_below_def)
  qed
  ultimately show ?thesis using push by blast
qed

lemma plan_remote:
  assumes "o_filterRules opts = []" and "\<not> (o_ipv4 opts \<and> o_ipv6 opts)" and "o_address opts = []"
    and "\<not> (o_appendMode opts \<and> o_appendVerify opts)" and "o_writeBatch opts \<noteq> []" and "\<not> o_dryRun opts"
    and "\<not> isRsyncURL d" and "ParseRemotePath d = Some remote"
  shows "\<exists>p. plan_sync f u r changed [abs_path q] d opts = Ok p \<and> sp_walk p = effectiveWalkOptions opts \<and>
    sp_attrs p = effectiveAttrOptions opts \<and> sp_rules p = [] \<and> sp_copts p = effectiveCompressOptions changed opts \<and>
    sp_dest p = RemoteDest remote \<and> sp_batch p"
  using assms
  by (auto simp: plan_sync_def absolute_is_local toSyncRawRules_def tcpNetwork_def resolveLocalAddr_def pick_destination_def
      is_daemon_def Let_def)

definition served_by :: "('h, 'addr) world \<Rightarrow> bytes \<Rightarrow> ('h, 'addr) world" where
  "served_by w to_client = w\<lparr>w_spawn := (\<lambda>_ _. Started (remote_process to_client))\<rparr>"

lemma batch_push_runs:
  assumes env: "gob_ok (env_gob (w_env w))" "zlib_ok (env_deflate (w_env w)) (env_inflate (w_env w))"
    and S: "fs_inv (cd_fs s)" "no_faults (cd_fs s)" "list_all plain SD" "content_of (cd_fs s) SD = Some DirData"
      "source_ok (w_env w) (effectiveCompressOptions changed opts) (cd_fs s) SD"
    and opts: "o_archive opts \<or> o_recursive opts" "o_filterRules opts = []" "\<not> o_hardLinks opts" "\<not> o_dryRun opts"
      "\<not> (o_ipv4 opts \<and> o_ipv6 opts)" "o_address opts = []" "\<not> (o_appendMode opts \<and> o_appendVerify opts)"
    and batch: "o_writeBatch opts = abs_path p" "dirs_above (cd_fs s) p" "ino_of (cd_fs s) p = None" "take (length SD) p \<noteq> SD"
    and dest: "\<not> isRsyncURL dest" "ParseRemotePath dest = Some remote"
    and fits: "\<And>es. snd (Walk (abs_path SD) (effectiveWalkOptions opts) (fst (Create (abs_path p) (cd_fs s)))) = Ok es \<Longrightarrow>
      payload_fits (encFileList (env_gob (w_env w)) \<lparr>fl_Entries = es, fl_HardLinkGroups = []\<rparr>)"
  shows "\<exists>to_client t sent.
    runSync (served_by w to_client) changed [abs_path SD] dest opts s = (t, Ok ()) \<and>
    content_of (cd_fs t) = (content_of (cd_fs s))(p \<mapsto> FileData sent) \<and>
    (\<forall>attrOpts ropts T D. copies_source (cd_fs s) SD attrOpts ropts T D \<longrightarrow>
      (\<exists>t. Receiver (w_env w) (abs_path D) attrOpts ropts (receiver_start T (open_conn sent)) = (t, Ok ()) \<and>
        same_below (cd_fs s) SD (rs_fs t) D \<and> same_outside T (rs_fs t) D))"
proof -
  let ?S = "cd_fs s"
  obtain n S1 where create: "Create (abs_path p) ?S = (S1, Ok n)" and b1: "batch_at ?S p n [] S1" "fs_inv S1"
    using Create_new [OF S(1,2) batch(2,3)] by blast
  have walk: "Recursive (effectiveWalkOptions opts)" using opts(1) by (simp add: effectiveWalkOptions_def)
  have path: "abs_path p \<noteq> []" by (simp add: abs_path_def)
  have "\<exists>pl. plan_sync (filter_file ?S) (w_url_parse w) (w_resolve w) changed [abs_path SD] dest opts = Ok pl \<and>
      sp_walk pl = effectiveWalkOptions opts \<and> sp_attrs pl = effectiveAttrOptions opts \<and> sp_rules pl = [] \<and>
      sp_copts pl = effectiveCompressOptions changed opts \<and> sp_dest pl = RemoteDest remote \<and> sp_batch pl"
    using path batch(1) by (intro plan_remote [OF opts(2,5-7) _ opts(4) dest]) simp
  then obtain pl where plan: "plan_sync (filter_file ?S) (w_url_parse w) (w_resolve w) changed [abs_path SD] dest opts = Ok pl"
    and pl: "sp_walk pl = effectiveWalkOptions opts" "sp_attrs pl = effectiveAttrOptions opts" "sp_rules pl = []"
      "sp_copts pl = effectiveCompressOptions changed opts" "sp_dest pl = RemoteDest remote" "sp_batch pl"
    by blast
  have nolinks: "ao_HardLinks (effectiveAttrOptions opts) = False" using opts(3) by (simp add: effectiveAttrOptions_def)
  obtain sent received x c where
    push: "syncToRemote (Some n) (w_env w) (\<lambda>_. Started (remote_process (frame_bytes ack_frame @ received))) (o_rsh opts)
      (abs_path SD) remote (effectiveWalkOptions opts) [] False (sp_ropts pl) (effectiveCompressOptions changed opts)
      (o_ipv4 opts) (o_ipv6 opts) S1 = (x, Some c, Ok ())"
    and b2: "batch_at ?S p n sent x"
    and again: "\<forall>attrOpts ropts T D. copies_source ?S SD attrOpts ropts T D \<longrightarrow>
      (\<exists>t. Receiver (w_env w) (abs_path D) attrOpts ropts (receiver_start T (open_conn sent)) = (t, Ok ()) \<and>
        same_below ?S SD (rs_fs t) D \<and> same_outside T (rs_fs t) D)"
    using batch_push_serves [OF env S walk b1 batch(4) fits [unfolded create fst_conv], of "o_rsh opts" remote "sp_ropts pl"
        "o_ipv4 opts" "o_ipv6 opts"] by blast
  let ?w = "served_by w (frame_bytes ack_frame @ received)"
  have world: "w_url_parse ?w = w_url_parse w" "w_resolve ?w = w_resolve w" by (simp_all add: served_by_def)
  let ?s1 = "s\<lparr>cl_notes := cl_notes s @ sp_notes pl\<rparr>"
  define y where "y = ?s1\<lparr>cd_fs := x, cl_next := Suc (cl_next s), cl_sessions := cl_sessions s @ [c]\<rparr>"
  have "sync_source (Some n) ?w opts pl (abs_path SD) (?s1\<lparr>cd_fs := S1\<rparr>) = (y, Ok ())"
    using push by (simp add: sync_source_def served_by_def pl nolinks y_def)
  then have sources: "sync_sources ?w opts pl dest [abs_path SD] (Some n) (?s1\<lparr>cd_fs := S1\<rparr>) = (y, Ok ())"
    by (simp add: sync_sources_def wrap_err_def)
  have close: "Close x = (step x, Ok ())"
    using batch_at_quiet [OF b2 S(2)] by (simp add: Close_def sys_call_def no_faults_def)
  have wb: "with_batch (abs_path p) (sync_sources ?w opts pl dest [abs_path SD]) ?s1
      = (y\<lparr>cd_fs := step x, cl_stdout := cl_stdout y @ wrote_line (abs_path p)\<rparr>, Ok ())"
    using create by (simp add: with_batch_def bind_def cli_fs_run attempt_run sources print_out_def modify_def)
      (simp add: y_def close)
  have "\<exists>t. runSync ?w changed [abs_path SD] dest opts s = (t, Ok ()) \<and> cd_fs t = step x"
    using plan by (simp add: runSync_def world bind_def modify_def print_out_def pl batch(1) wb)
  moreover have "content_of (step x) = (content_of ?S)(p \<mapsto> FileData sent)"
    using b2 by (simp add: batch_at_def temp_at_def fun_eq_iff)
  ultimately show ?thesis using again by metis
qed

section \<open>Properties of batches\<close>

text \<open>
  C5. A batch replays the copy. A push with \<open>--write-batch\<close> to a remote host that answers as a receiver does, the
  batch file being new and outside the source, succeeds; the file it leaves, on any other host and applied
  there by \<open>--read-batch\<close> to an empty directory, makes that directory an exact copy of the source of the push
  as well, whatever the reporting and attribute options of the replay, and changes nothing outside it.
\<close>

theorem batch_replays_copy:
  assumes "gob_ok (env_gob (w_env w))" and "zlib_ok (env_deflate (w_env w)) (env_inflate (w_env w))"
    and "fs_inv (cd_fs s)" and "no_faults (cd_fs s)" and "list_all plain SD" and "content_of (cd_fs s) SD = Some DirData"
    and "source_ok (w_env w) (effectiveCompressOptions changed opts) (cd_fs s) SD"
    and "o_archive opts \<or> o_recursive opts" and "o_filterRules opts = []" and "\<not> o_hardLinks opts" and "\<not> o_dryRun opts"
    and "\<not> (o_ipv4 opts \<and> o_ipv6 opts)" and "o_address opts = []" and "\<not> (o_appendMode opts \<and> o_appendVerify opts)"
    and "o_writeBatch opts = abs_path p" and "dirs_above (cd_fs s) p" and "ino_of (cd_fs s) p = None"
    and "take (length SD) p \<noteq> SD" and "\<not> isRsyncURL dest" and "ParseRemotePath dest = Some remote"
    and "\<And>es. snd (Walk (abs_path SD) (effectiveWalkOptions opts) (fst (Create (abs_path p) (cd_fs s)))) = Ok es \<Longrightarrow>
      payload_fits (encFileList (env_gob (w_env w)) \<lparr>fl_Entries = es, fl_HardLinkGroups = []\<rparr>)"
  shows "\<exists>to_client t sent.
    runSync (w\<lparr>w_spawn := (\<lambda>_ _. Started (remote_process to_client))\<rparr>) changed [abs_path SD] dest opts s = (t, Ok ()) \<and>
    content_of (cd_fs t) p = Some (FileData sent) \<and>
    (\<forall>T D opts q. copies_source (cd_fs s) SD (effectiveAttrOptions opts) (effectiveReceiverOptions opts) T D \<and>
        o_readBatch opts = abs_path q \<and> content_of T q = Some (FileData sent) \<longrightarrow>
      (\<exists>u out. runReadBatch (w_env w) stdin (abs_path D) opts T = (u, out, Ok ()) \<and>
        (\<forall>r. r \<noteq> [] \<longrightarrow> content_of u (D @ r) = content_of (cd_fs s) (SD @ r)) \<and>
        (\<forall>p. p = D \<or> take (length D) p \<noteq> D \<longrightarrow> content_of u p = content_of T p)))"
proof -
  obtain to_client t sent where
    push: "runSync (served_by w to_client) changed [abs_path SD] dest opts s = (t, Ok ())"
      "content_of (cd_fs t) = (content_of (cd_fs s))(p \<mapsto> FileData sent)"
    and again: "\<forall>attrOpts ropts T D. copies_source (cd_fs s) SD attrOpts ropts T D \<longrightarrow>
      (\<exists>t. Receiver (w_env w) (abs_path D) attrOpts ropts (receiver_start T (open_conn sent)) = (t, Ok ()) \<and>
        same_below (cd_fs s) SD (rs_fs t) D \<and> same_outside T (rs_fs t) D)"
    using batch_push_runs [OF assms] by blast
  have "\<exists>t out. runReadBatch (w_env w) stdin (abs_path D) opts T = (t, out, Ok ()) \<and> same_below (cd_fs s) SD t D \<and> same_outside T t D"
    if c: "copies_source (cd_fs s) SD (effectiveAttrOptions opts) (effectiveReceiverOptions opts) T D"
      and path: "o_readBatch opts = abs_path q" and data: "content_of T q = Some (FileData sent)" for T D opts q
  proof -
    from c have T: "fs_wf T" "no_faults T" by (simp_all add: copies_source_def fs_inv_def)
    have read: "ReadFile (abs_path q) T = (step T, Ok sent)" by (rule ReadFile_there [OF T(2,1) data])
    from c have "copies_source (cd_fs s) SD (effectiveAttrOptions opts) (effectiveReceiverOptions opts) (step T) D" by simp
    with again obtain t where t: "Receiver (w_env w) (abs_path D) (effectiveAttrOptions opts) (effectiveReceiverOptions opts)
        (receiver_start (step T) (open_conn sent)) = (t, Ok ())"
      "same_below (cd_fs s) SD (rs_fs t) D" "same_outside (step T) (rs_fs t) D" by blast
    have "abs_path q \<noteq> ''-''" by (simp add: abs_path_def)
    with read t path have "runReadBatch (w_env w) stdin (abs_path D) opts T
        = (rs_fs t, rs_out t @ [applied_line opts (abs_path D)], Ok ())"
      by (simp add: runReadBatch_def apply_batch_def)
    moreover have "same_outside T (rs_fs t) D" using t(3) by (simp add: same_outside_def)
    ultimately show ?thesis using t(2) by blast
  qed
  note replayed = this [unfolded same_below_def same_outside_def]
  have "content_of (cd_fs t) p = Some (FileData sent)" using push(2) by simp
  with push(1) [unfolded served_by_def] replayed show ?thesis by blast
qed

text \<open>A host with the small source, which pushes it and writes \<open>/b\<close>.\<close>

definition push_world :: "(bytes, nat) world" where
  "push_world =
     \<lparr>w_env = small_env, w_md4 = (\<lambda>b. b), w_environ = (\<lambda>_. None), w_url_parse = (\<lambda>_. None), w_resolve = (\<lambda>_ _. None),
      w_dial = (\<lambda>_ _ _ _. None), w_spawn = (\<lambda>_ _. NotStarted)\<rparr>"

definition push_start :: cliState where
  "push_start =
     \<lparr>cd_fs = small_fs, cd_stdin = [], cd_terminal = None, cd_prompts = 0, cd_once = None, cl_next = 0, cl_sessions = [],
      cl_stdout = [], cl_notes = []\<rparr>"

definition push_options :: options where
  "push_options = plain_options\<lparr>o_writeBatch := ''/b'', o_compress := False\<rparr>"

lemma push_world_simps [simp]:
  "w_env push_world = small_env" "cd_fs push_start = small_fs" "cl_next push_start = 0" "cl_sessions push_start = []"
  by (simp_all add: push_world_def push_start_def)

lemma push_start_ok:
  "gob_ok (env_gob (w_env push_world))" "zlib_ok (env_deflate (w_env push_world)) (env_inflate (w_env push_world))"
  "fs_inv (cd_fs push_start)" "no_faults (cd_fs push_start)" "list_all plain [''src'']"
  "content_of (cd_fs push_start) [''src''] = Some DirData"
  "source_ok (w_env push_world) (effectiveCompressOptions {} push_options) (cd_fs push_start) [''src'']"
proof -
  have "effectiveCompressOptions {} push_options = no_compression"
    by (simp add: effectiveCompressOptions_def push_options_def plain_options_def no_compress_def no_compression_def)
  then show "source_ok (w_env push_world) (effectiveCompressOptions {} push_options) (cd_fs push_start) [''src'']"
    by (simp add: small_source_ok)
qed (simp_all add: small_env_ok toy_zlib_ok small_fs_ok plain_def fs_inv_def, simp add: small_fs_def)

lemma push_options_ok:
  "o_archive push_options \<or> o_recursive push_options" "o_filterRules push_options = []" "\<not> o_hardLinks push_options"
  "\<not> o_dryRun push_options" "\<not> (o_ipv4 push_options \<and> o_ipv6 push_options)" "o_address push_options = []"
  "\<not> (o_appendMode push_options \<and> o_appendVerify push_options)"
  by (simp_all add: push_options_def plain_options_def)

lemma push_batch_ok:
  "o_writeBatch push_options = abs_path [''b'']" "dirs_above (cd_fs push_start) [''b'']" "ino_of (cd_fs push_start) [''b''] = None"
  "take (length [''src'']) [''b''] \<noteq> [''src'']" "\<not> isRsyncURL ''host:/dst''"
  "ParseRemotePath ''host:/dst'' = Some \<lparr>rp_User = [], rp_Host = ''host'', rp_Path = ''/dst''\<rparr>"
  by (simp_all only: push_world_simps) code_simp+

lemma push_walk_fits:
  "snd (Walk (abs_path [''src'']) (effectiveWalkOptions push_options) (fst (Create (abs_path [''b'']) (cd_fs push_start)))) = Ok es \<Longrightarrow>
     payload_fits (encFileList (env_gob (w_env push_world)) \<lparr>fl_Entries = es, fl_HardLinkGroups = []\<rparr>)"
proof -
  assume es: "snd (Walk (abs_path [''src'']) (effectiveWalkOptions push_options) (fst (Create (abs_path [''b'']) (cd_fs push_start))))
    = Ok es"
  have "snd (Walk (abs_path [''src'']) (effectiveWalkOptions push_options) (fst (Create (abs_path [''b'']) small_fs)))
      = Ok [entry_at small_fs [''src''] [''d''], entry_at small_fs [''src''] [''d'', ''f'']]"
    by code_simp
  with es show ?thesis
    by (simp add: small_env_def toy_env_def Let_def payload_fits_def table_enc_def maxFramePayload_def)
qed

theorem batch_replays_copy_witness:
  "\<exists>to_client t sent.
    runSync (push_world\<lparr>w_spawn := (\<lambda>_ _. Started (remote_process to_client))\<rparr>) {} [abs_path [''src'']] ''host:/dst'' push_options
      push_start = (t, Ok ()) \<and>
    content_of (cd_fs t) [''b''] = Some (FileData sent) \<and>
    (\<forall>T D opts q. copies_source (cd_fs push_start) [''src''] (effectiveAttrOptions opts) (effectiveReceiverOptions opts) T D \<and>
        o_readBatch opts = abs_path q \<and> content_of T q = Some (FileData sent) \<longrightarrow>
      (\<exists>u out. runReadBatch (w_env push_world) [] (abs_path D) opts T = (u, out, Ok ()) \<and>
        (\<forall>r. r \<noteq> [] \<longrightarrow> content_of u (D @ r) = content_of (cd_fs push_start) ([''src''] @ r)) \<and>
        (\<forall>p. p = D \<or> take (length D) p \<noteq> D \<longrightarrow> content_of u p = content_of T p)))"
  by (rule batch_replays_copy [OF push_start_ok push_options_ok push_batch_ok push_walk_fits])


end
