(* ===== verification/LocalCopy.thy ===== *)
theory LocalCopy
  imports Commands Copying
begin

unbundle bit_operations_syntax

text \<open>
  A local sync from end to end: \<open>syncLocal\<close> joins sender and receiver by pipes; here the two take turns
  until both have ended, and the destination is a copy of the source.
\<close>

section \<open>Taking turns\<close>

text \<open>
  Two sides that work through the same list and exchange a message for some of its elements: \<open>f\<close> waits
  for the answer to the first such element it has no answer for, \<open>g\<close> answers one more.
\<close>

lemma pipes_step: "pipes f g (Suc n) = (f (snd (pipes f g n)), g (f (snd (pipes f g n))))"
  by (simp add: Let_def split: prod.split)

lemma pipes_turns:
  assumes waits: "\<And>xs e ys. es = xs @ e # ys \<Longrightarrow> ex e \<Longrightarrow> f (received xs) = sent xs"
    and answers: "\<And>xs e ys. es = xs @ e # ys \<Longrightarrow> ex e \<Longrightarrow> g (sent xs) = received (xs @ [e])"
    and ends: "f (received es) = sent es" "g (sent es) = received es"
    and silent: "\<And>xs ys. \<forall>e \<in> set ys. \<not> ex e \<Longrightarrow> received (xs @ ys) = received xs"
    and start: "received [] = []"
    and rounds: "length (filter ex es) < n"
  shows "pipes f g n = (sent es, received es)"
proof -
  have turn: "\<exists>xs ys. es = xs @ ys \<and> snd (pipes f g k) = received xs \<and>
      length (filter ex xs) = min k (length (filter ex es))" for k
  proof (induction k)
    case 0
    show ?case by (rule exI [of _ "[]"], rule exI [of _ es]) (simp add: start)
  next
    case (Suc k)
    then obtain xs ys where es: "es = xs @ ys" and got: "snd (pipes f g k) = received xs"
      and count: "length (filter ex xs) = min k (length (filter ex es))" by blast
    show ?case
    proof (cases "\<exists>e \<in> set ys. ex e")
      case True
      then obtain us e vs where ys: "ys = us @ e # vs" "ex e" "\<forall>u \<in> set us. \<not> ex u"
        by (elim split_list_first_propE)
      have split: "es = (xs @ us) @ e # vs" by (simp add: es ys(1))
      have "snd (pipes f g (Suc k)) = g (f (received (xs @ us)))"
        unfolding pipes_step got using silent [OF ys(3)] by simp
      also have "\<dots> = received ((xs @ us) @ [e])"
        by (simp only: waits [OF split ys(2)] answers [OF split ys(2)])
      finally have "snd (pipes f g (Suc k)) = received ((xs @ us) @ [e])" .
      moreover have "length (filter ex ((xs @ us) @ [e])) = min (Suc k) (length (filter ex es))"
        using count ys by (simp add: es)
      ultimately show ?thesis using split by (intro exI [of _ "(xs @ us) @ [e]"] exI [of _ vs]) simp
    next
      case False
      then have all: "received xs = received es" using silent [of ys xs] es by simp
      have "snd (pipes f g (Suc k)) = received es" unfolding pipes_step got all by (simp add: ends)
      moreover have "length (filter ex es) = min (Suc k) (length (filter ex es))" using count False by (simp add: es)
      ultimately show ?thesis by (intro exI [of _ es] exI [of _ "[]"]) simp
    qed
  qed
  from rounds obtain k where n: "n = Suc k" and k: "length (filter ex es) \<le> k" by (cases n) auto
  from k have all: "min k (length (filter ex es)) = length (filter ex es)" by simp
  obtain xs ys where es: "es = xs @ ys" and got: "snd (pipes f g k) = received xs"
    and "length (filter ex xs) = length (filter ex es)" using turn [of k] unfolding all by blast
  then have "length (filter ex ys) = 0" unfolding es by simp
  then have "\<forall>e \<in> set ys. \<not> ex e" by (simp add: filter_empty_conv)
  then have "received xs = received es" using silent [of ys xs] es by simp
  with got show ?thesis unfolding n pipes_step by (simp add: ends)
qed

section \<open>Parts of a session\<close>

lemma session_contents_append:
  "session_contents attrOpts ropts groups src D m (xs @ ys)
     = session_contents attrOpts ropts groups src D (session_contents attrOpts ropts groups src D m xs) ys"
  by (induction xs arbitrary: m) simp_all

lemma session_in_append:
  "session_in env copts attrOpts ropts groups src D m (xs @ ys)
     = session_in env copts attrOpts ropts groups src D m xs @
       session_in env copts attrOpts ropts groups src D (session_contents attrOpts ropts groups src D m xs) ys"
  by (induction xs arbitrary: m) simp_all

lemma session_out_append:
  "session_out env attrOpts ropts groups src D m (xs @ ys)
     = session_out env attrOpts ropts groups src D m xs @
       session_out env attrOpts ropts groups src D (session_contents attrOpts ropts groups src D m xs) ys"
  by (induction xs arbitrary: m) simp_all

lemma entries_ok_append:
  "entries_ok q env copts attrOpts ropts groups src D m (xs @ ys) \<longleftrightarrow>
     entries_ok q env copts attrOpts ropts groups src D m xs \<and>
     entries_ok q env copts attrOpts ropts groups src D (session_contents attrOpts ropts groups src D m xs) ys"
  by (induction xs arbitrary: m) simp_all

lemmas session_append = session_contents_append session_in_append session_out_append entries_ok_append

lemma session_silent:
  "\<forall>e \<in> set es. \<not> exchanges groups e \<Longrightarrow> session_out env attrOpts ropts groups src D m es = []"
  by (induction es arbitrary: m) (simp_all add: entry_out_def)

lemma recv_nothing:
  "recv_payload ft dec \<lparr>c_in = [], c_out = w\<rparr>
     = (\<lparr>c_in = [], c_out = w\<rparr>, Fail (FrameReadFailed (ReadHeaderFailed EOF)))"
  by (simp add: recv_payload_def readTypedFrame_def ReadFrame_def read_full_def)

section \<open>The sender waits for a signature\<close>

lemma send_entry_waits:
  assumes "exchanges [] e" and "sender_at S [] o' s"
  shows "\<exists>t x. send_entry None env src copts (secondary_paths []) e s = (t, Fail x) \<and> sender_at S [] o' t"
proof -
  have kind: "(fe_IsDir e \<or> fe_Mode e AND ModeSymlink \<noteq> 0 \<or> List.member (secondary_paths []) (fe_Path e)) = False"
    using assms(1) by (simp add: exchanges_def)
  have conn: "ss_conn s = \<lparr>c_in = [], c_out = open_writer o'\<rparr>" using assms(2) by (simp add: sender_at_def)
  have "src_conn (ReceivingSignature (fe_Path e)) (recvSignature (env_gob env)) s
      = (s, Fail (ReceivingSignature (fe_Path e) (FrameReadFailed (ReadHeaderFailed EOF))))"
    by (simp add: src_conn_def on_part_def wrap_err_def recvSignature_def conn recv_nothing)
  then show ?thesis
    using assms(2) unfolding send_entry_def kind if_False by (simp add: bind_def)
qed

lemma Sender_waits:
  assumes gob: "gob_ok (env_gob env)" and S: "no_faults S" "fs_wf S" and SD: "list_all plain SD"
    and walk: "Walk (abs_path SD) walkOpts S = (S', Ok walked)" "same_tree S S'"
    and sel: "es = FilterEntries walked rules" and es: "es = xs @ e # ys" and ex: "exchanges [] e"
    and entries: "entries_ok True env copts attrOpts ropts [] (source_data S SD) D m es"
    and files: "\<forall>e \<in> set es. exchanges [] e \<longrightarrow> is_file (content_of S (SD @ comps e))"
    and fits: "payload_fits (encFileList (env_gob env) \<lparr>fl_Entries = es, fl_HardLinkGroups = []\<rparr>)"
  shows "w_written (c_out (ss_conn (fst (local_sender None env (abs_path SD) walkOpts rules False copts S
      (session_out env attrOpts ropts [] (source_data S SD) D m xs)))))
    = fileList_bytes (env_gob env) es [] @ session_in env copts attrOpts ropts [] (source_data S SD) D m xs"
proof -
  let ?out = "session_out env attrOpts ropts [] (source_data S SD) D m xs"
  let ?in = "session_in env copts attrOpts ropts [] (source_data S SD) D m xs"
  let ?list = "fileList_bytes (env_gob env) es []"
  let ?s = "\<lparr>ss_fs = S, ss_conn = open_conn ?out\<rparr>"
  have "outcome True (src_fs (Walking (abs_path SD)) (Walk (abs_path SD) walkOpts)) ?s
      (\<lambda>x t. x = walked \<and> sender_at S ?out [] t)"
    unfolding open_conn_def by (rule plain_walk [OF S walk])
  from outcome_quiet [OF this] obtain s1 where
    s1: "src_fs (Walking (abs_path SD)) (Walk (abs_path SD) walkOpts) ?s = (s1, Ok walked)" "sender_at S ?out [] s1" by auto
  have "outcome True (src_conn SendingFileList (of_err (sendFileList (env_gob env) es []))) s1
      (\<lambda>_. sender_at S ?out ?list)"
    using plain_sender.sends [OF s1(2) fits, where q = True and err = SendingFileList and ft = FrameFileList]
    by (simp add: src_send_plain sendFileList_to_def fileList_bytes_def)
  from outcome_quiet [OF this] obtain s2 where
    s2: "src_conn SendingFileList (of_err (sendFileList (env_gob env) es [])) s1 = (s2, Ok ())" "sender_at S ?out ?list s2"
    by auto
  have "outcome True (each (send_entry None env (abs_path SD) copts (secondary_paths [])) xs) s2
      (\<lambda>_. sender_at S [] (?list @ ?in))"
    using entries files s2(2) unfolding es
    by (intro plain_sender.send_entries_outcome [OF gob SD, where ?q0.0 = True and attrOpts = attrOpts])
      (simp_all add: session_append)
  from outcome_quiet [OF this] obtain s3 where
    s3: "each (send_entry None env (abs_path SD) copts (secondary_paths [])) xs s2 = (s3, Ok ())" "sender_at S [] (?list @ ?in) s3"
    by auto
  obtain s4 x where s4: "send_entry None env (abs_path SD) copts (secondary_paths []) e s3 = (s4, Fail x)"
      "sender_at S [] (?list @ ?in) s4"
    using send_entry_waits [OF ex s3(2)] by blast
  have "each (send_entry None env (abs_path SD) copts (secondary_paths [])) es s2 = (s4, Fail x)"
    unfolding es each_append by (simp add: bind_def s3 s4)
  then have "local_sender None env (abs_path SD) walkOpts rules False copts S ?out = (s4, Fail x)"
    using s1(1) s2(1) by (simp add: local_sender_def Sender_to_def send_plain bind_def ret_def flip: sel)
  with s4(2) show ?thesis by (simp add: sender_at_def)
qed

section \<open>The receiver waits for a delta\<close>

lemma receive_entry_waits:
  assumes at0: "at True m [] o' s" and ok: "entry_ok True env copts attrOpts ropts groups src D m e"
    and ex: "exchanges groups e" and opts: "ro_PartialDir ropts = []"
  shows "\<exists>t x. receive_entry env (abs_path D) attrOpts ropts groups e s = (t, Fail x) \<and>
    at True m [] (o' @ entry_out env ropts groups D m e) t"
proof -
  obtain r b where c: "comps e = r @ [b]" and path: "fe_Path e = rel_path (r @ [b])"
    and above: "dirs_in m ((D @ r) @ [b])" and plain: "list_all plain D" "list_all plain (r @ [b])"
    and fok: "file_ok env copts ropts (m ((D @ r) @ [b])) e (src (fe_Path e))"
    using ok ex by (elim entry_okD) auto
  let ?p = "(D @ r) @ [b]" and ?path = "fe_Path e" and ?g = "env_gob env"
  define old where "old = data_of (m ?p)"
  obtain sig act where plan: "plan env ropts (m ?p) e = (sig, act)" by (cases "plan env ropts (m ?p) e")
  have kind: "m ?p = None \<or> m ?p = Some (FileData old)" using fok by (auto simp: file_ok_def old_def)
  have fits: "payload_fits (encSignature ?g \<lparr>sm_Path = ?path, sm_Sig = sig, sm_Append = act\<rparr>)"
    using fok plan by (simp add: file_ok_def)
  define out where "out = o' @ signature_bytes ?g ?path sig act"
  have out: "o' @ entry_out env ropts groups D m e = out" using c ex plan by (simp add: entry_out_def out_def)
  have dest: "Join (abs_path D) ?path = abs_path ?p"
    using plain by (simp add: path Join_abs_rel del: list_all_append)
  from outcome_quiet [OF looked_outcome [OF at0 above, of "CheckingExisting ?path"]] obtain s1 entry existed where
    s1: "on_fs (CheckingExisting ?path) (lstatExisting (abs_path ?p)) s = (s1, Ok (entry, existed))"
    and "existed \<longleftrightarrow> m ?p \<noteq> None" and at1: "at True m [] o' s1" by auto
  then have p: "sign_plan (env_strong env) ropts existed old e = (sig, act)" using plan by (simp add: plan_def old_def)
  from outcome_quiet [OF loaded_outcome [OF at1 above kind opts old_def, of "ReadingExisting ?path" ?path]] obtain s2 where
    s2: "on_fs (ReadingExisting ?path) (load_basis ropts (abs_path ?p) ?path) s1 = (s2, Ok (old, False))"
    and at2: "at True m [] o' s2" by auto
  from outcome_quiet [OF signed_outcome [OF at2 fits, of "SendingSignature ?path"]] obtain s3 where
    s3: "on_conn (SendingSignature ?path) (of_err (sendSignature ?g ?path sig act)) s2 = (s3, Ok ())"
    and at3: "at True m [] out s3" by (auto simp: out_def)
  have conn: "crw_rw (rs_conn s3) = \<lparr>c_in = [], c_out = open_writer out\<rparr>" using at3 by (simp add: at_def)
  obtain s4 where s4: "on_conn (ReceivingDelta ?path) (recvDelta ?g (env_inflate env)) s3
      = (s4, Fail (ReceivingDelta ?path (FrameReadFailed (ReadHeaderFailed EOF))))" and at4: "at True m [] out s4"
    using at3 by (simp add: on_conn_run counted_def recvDelta_def conn recv_nothing at_def)
  have "receiveRegularFile env attrOpts ropts (abs_path ?p) e s
      = (s4, Fail (ReceivingDelta ?path (FrameReadFailed (ReadHeaderFailed EOF))))"
    by (simp add: receiveRegularFile_def bind_def s1 s2 s3 s4 p del: append_assoc)
  then show ?thesis
    using at4 ex unfolding receive_entry_def Let_def dest out
    by (simp add: exchanges_def bind_def)
qed

lemma Receiver_waits:
  assumes env: "gob_ok (env_gob env)" "zlib_ok (env_deflate env) (env_inflate env)"
    and opts: "\<not> ro_DryRun ropts" "ro_PartialDir ropts = []"
    and T: "fs_inv T" "no_faults T" and es: "es = xs @ e # ys" and ex: "exchanges [] e"
    and fits: "payload_fits (encFileList (env_gob env) \<lparr>fl_Entries = es, fl_HardLinkGroups = []\<rparr>)"
    and entries: "entries_ok True env copts attrOpts ropts [] src D (content_of T) es"
  shows "w_written (c_out (crw_rw (rs_conn (fst (local_receiver env (abs_path D) attrOpts ropts T
      (fileList_bytes (env_gob env) es [] @ session_in env copts attrOpts ropts [] src D (content_of T) xs))))))
    = session_out env attrOpts ropts [] src D (content_of T) (xs @ [e])"
proof -
  let ?m = "session_contents attrOpts ropts [] src D (content_of T) xs"
  let ?in = "session_in env copts attrOpts ropts [] src D (content_of T) xs"
  let ?out = "session_out env attrOpts ropts [] src D (content_of T) xs"
  let ?s = "receiver_start T (open_conn (fileList_bytes (env_gob env) es [] @ ?in))"
  have start: "at True (content_of T) (fileList_bytes (env_gob env) es [] @ ?in) [] ?s"
    using T by (simp add: at_def fs_is_def receiver_start_def open_conn_def)
  have "outcome True (on_conn ReceivingFileList (recvFileList (env_gob env))) ?s
      (\<lambda>x t. x = (es, []) \<and> at True (content_of T) ?in [] t)"
    by (rule on_conn_outcome [OF start]) (simp add: recvFileList_bytes [OF env(1) fits])
  from outcome_quiet [OF this] obtain s1 where
    s1: "on_conn ReceivingFileList (recvFileList (env_gob env)) ?s = (s1, Ok (es, []))" "at True (content_of T) ?in [] s1"
    by auto
  have ok: "entries_ok True env copts attrOpts ropts [] src D (content_of T) xs"
      "entry_ok True env copts attrOpts ropts [] src D ?m e"
    using entries by (simp_all add: es session_append)
  have "outcome True (each (receive_entry env (abs_path D) attrOpts ropts []) xs) s1 (\<lambda>_. at True ?m [] ?out)"
    using receive_entries_outcome [OF env opts _ ok(1), of "[]" "[]" s1] s1(2) by simp
  from outcome_quiet [OF this] obtain s2 where
    s2: "each (receive_entry env (abs_path D) attrOpts ropts []) xs s1 = (s2, Ok ())" "at True ?m [] ?out s2" by auto
  obtain s3 x where s3: "receive_entry env (abs_path D) attrOpts ropts [] e s2 = (s3, Fail x)"
      "at True ?m [] (?out @ entry_out env ropts [] D ?m e) s3"
    using receive_entry_waits [OF s2(2) ok(2) ex opts(2)] by blast
  have "each (receive_entry env (abs_path D) attrOpts ropts []) es s1 = (s3, Fail x)"
    unfolding es each_append by (simp add: bind_def s2 s3)
  then have "local_receiver env (abs_path D) attrOpts ropts T (fileList_bytes (env_gob env) es [] @ ?in) = (s3, Fail x)"
    using s1(1) by (simp add: local_receiver_def Receiver_def bind_def)
  with s3(2) show ?thesis by (simp add: at_def session_append)
qed

section \<open>Both together\<close>

lemma local_session_runs:
  assumes env: "gob_ok (env_gob env)" "zlib_ok (env_deflate env) (env_inflate env)"
    and S: "fs_inv S" "no_faults S" "list_all plain SD"
    and walk: "Walk (abs_path SD) walkOpts S = (S', Ok walked)" "same_tree S S'" and few: "length walked \<le> length (fs_names S)"
    and sel: "es = FilterEntries walked rules"
    and o: "\<not> ro_DryRun ropts" "ro_PartialDir ropts = []" and D: "list_all plain D" and nolinks: "\<not> ao_HardLinks attrOpts"
    and entries: "entries_ok True env copts attrOpts ropts [] (source_data S SD) D (content_of S) es"
    and files: "\<forall>e \<in> set es. exchanges [] e \<longrightarrow> is_file (content_of S (SD @ comps e))"
    and fits: "payload_fits (encFileList (env_gob env) \<lparr>fl_Entries = es, fl_HardLinkGroups = []\<rparr>)"
  shows "\<exists>T out. syncLocal None env (abs_path SD) (abs_path D) walkOpts rules attrOpts ropts copts S = (T, out, Ok ()) \<and>
    content_of T = session_contents attrOpts ropts [] (source_data S SD) D (content_of S) es"
proof -
  have wf: "fs_wf S" using S(1) by (simp add: fs_inv_def)
  let ?src = "source_data S SD" and ?m = "content_of S"
  let ?contents = "session_contents attrOpts ropts [] ?src D ?m es"
  define sent where "sent xs = fileList_bytes (env_gob env) es [] @ session_in env copts attrOpts ropts [] ?src D ?m xs" for xs
  define received where "received = session_out env attrOpts ropts [] ?src D ?m"
  let ?sender = "local_sender None env (abs_path SD) walkOpts rules False copts S"
  let ?receiver = "local_receiver env (abs_path D) attrOpts ropts S"
  let ?f = "\<lambda>i. w_written (c_out (ss_conn (fst (?sender i))))"
  let ?g = "\<lambda>i. w_written (c_out (crw_rw (rs_conn (fst (?receiver i)))))"
  have "outcome True (Sender env (abs_path SD) walkOpts rules False copts) \<lparr>ss_fs = S, ss_conn = open_conn (received es)\<rparr>
      (\<lambda>_. sender_at S [] (sent es))"
    using plain_sender.Sender_outcome [OF env(1) S(3) plain_walk [OF S(2) wf walk] sel entries files fits, of True "[]" "[]"]
    by (simp add: received_def sent_def open_conn_def)
  from outcome_quiet [OF this] obtain s where s: "?sender (received es) = (s, Ok ())" "sender_at S [] (sent es) s"
    by (auto simp: local_sender_def)
  have start: "at True ?m (fileList_bytes (env_gob env) es [] @ session_in env copts attrOpts ropts [] ?src D ?m es @ []) []
      (receiver_start S (open_conn (sent es)))"
    using S(1,2) by (simp add: at_def fs_is_def receiver_start_def open_conn_def sent_def)
  from outcome_quiet [OF Receiver_outcome [OF env o start fits entries _ _ D]] obtain t where
    t: "?receiver (sent es) = (t, Ok ())" "at True ?contents [] (received es) t"
    by (auto simp: local_receiver_def received_def)
  have run: "pipes ?f ?g (length (fs_names S) + 2) = (sent es, received es)"
  proof (rule pipes_turns [where ex = "exchanges []"])
    fix xs e ys
    assume split: "es = xs @ e # ys" "exchanges [] e"
    show "?f (received xs) = sent xs"
      unfolding received_def sent_def by (rule Sender_waits [OF env(1) S(2) wf S(3) walk sel split entries files fits])
    show "?g (sent xs) = received (xs @ [e])"
      unfolding received_def sent_def by (rule Receiver_waits [OF env o S(1,2) split fits entries])
  next
    show "?f (received es) = sent es" "?g (sent es) = received es"
      using s t by (simp_all add: sender_at_def at_def)
    show "received (xs @ ys) = received xs" if "\<forall>e \<in> set ys. \<not> exchanges [] e" for xs ys
      unfolding received_def session_append by (simp add: session_silent [OF that])
    have "length es \<le> length walked" unfolding sel by (induction walked) simp_all
    then show "length (filter (exchanges []) es) < length (fs_names S) + 2"
      using few length_filter_le [of "exchanges []" es] by linarith
  qed (simp add: received_def)
  have "syncLocal None env (abs_path SD) (abs_path D) walkOpts rules attrOpts ropts copts S = (rs_fs t, rs_out t, Ok ())"
    unfolding syncLocal_def Let_def eq_False [THEN iffD2, OF nolinks] run by (simp add: t s take_batch_def)
  with t(2) show ?thesis by (auto simp: at_def fs_is_def)
qed

lemma session_elsewhere:
  "take (length D) p \<noteq> D \<Longrightarrow> session_contents attrOpts ropts groups src D m es p = m p"
proof (induction es arbitrary: m)
  case (Cons e es)
  then have "entry_effect attrOpts ropts groups src D e m p = m p" by (auto simp: entry_effect_def Let_def)
  with Cons show ?case by simp
qed simp

section \<open>Properties\<close>

text \<open>
  C2. A local sync onto an existing destination. For any filter rules and any destination, apart from the
  source, whose entries fit the selected ones (\<open>entries_ok\<close>: parents are directories, types agree, the
  strong checksum tells the old blocks from the windows of the new files, messages fit a frame),
  \<open>syncLocal\<close> succeeds and leaves exactly what the session of theory \<open>Session\<close> computes, new files, updates
  and append modes included; a name outside the destination has not changed, so the source has not.
\<close>

theorem local_sync_refines_session:
  assumes "gob_ok (env_gob env)" and "zlib_ok (env_deflate env) (env_inflate env)"
    and "fs_inv S" and "no_faults S" and "list_all plain SD" and "content_of S SD = Some DirData"
    and "Recursive walkOpts" and "snd (Walk (abs_path SD) walkOpts S) = Ok walked" and "es = FilterEntries walked rules"
    and "\<not> ro_DryRun ropts" and "ro_PartialDir ropts = []" and "\<not> ao_HardLinks attrOpts"
    and "list_all plain D" and "take (length SD) D \<noteq> SD" and "take (length D) SD \<noteq> D"
    and "entries_ok True env copts attrOpts ropts [] (source_data S SD) D (content_of S) es"
    and "payload_fits (encFileList (env_gob env) \<lparr>fl_Entries = es, fl_HardLinkGroups = []\<rparr>)"
    and "\<forall>e \<in> set es. exchanges [] e \<longrightarrow> is_file (content_of S (SD @ comps e))"
  shows "\<exists>T out. syncLocal None env (abs_path SD) (abs_path D) walkOpts rules attrOpts ropts copts S = (T, out, Ok ()) \<and>
    content_of T = session_contents attrOpts ropts [] (source_data S SD) D (content_of S) es \<and>
    (\<forall>p. take (length D) p \<noteq> D \<longrightarrow> content_of T p = content_of S p) \<and>
    (\<forall>r. content_of T (SD @ r) = content_of S (SD @ r))"
proof -
  have wf: "fs_wf S" using assms(3) by (simp add: fs_inv_def)
  obtain S' es0 where walk: "Walk (abs_path SD) walkOpts S = (S', Ok es0)" "same_tree S S'"
    and es0: "sorted_wrt (<) (map fe_Path es0)" "set es0 = entry_at S SD ` {r. r \<noteq> [] \<and> ino_of S (SD @ r) \<noteq> None}"
    by (rule Walk_recursive [OF wf assms(4,7,5,6)])
  have "es0 = walked" using walk(1) assms(8) by simp
  note walk = walk [unfolded this] and few = walked_few [OF wf es0, unfolded this]
  from local_session_runs [OF assms(1-5) walk few assms(9-11,13,12,16,18,17)] obtain T out where
    run: "syncLocal None env (abs_path SD) (abs_path D) walkOpts rules attrOpts ropts copts S = (T, out, Ok ())"
    and T: "content_of T = session_contents attrOpts ropts [] (source_data S SD) D (content_of S) es"
    by blast
  have outside: "content_of T p = content_of S p" if "take (length D) p \<noteq> D" for p
    unfolding T by (rule session_elsewhere [OF that])
  have "take (length D) (SD @ r) \<noteq> D" for r
  proof
    assume "take (length D) (SD @ r) = D"
    with assms(14,15) show False by (cases "length D \<le> length SD") (auto simp: append_eq_conv_conj)
  qed
  with run T outside show ?thesis by blast
qed

lemma local_sync_runs:
  assumes env: "gob_ok (env_gob env)" "zlib_ok (env_deflate env) (env_inflate env)"
    and S: "fs_inv S" "no_faults S" "list_all plain SD" "content_of S SD = Some DirData" "source_ok env copts S SD"
    and opts: "Recursive walkOpts" and c: "copies_source S SD attrOpts ropts S D" and nolinks: "\<not> ao_HardLinks attrOpts"
    and fits: "\<And>es. snd (Walk (abs_path SD) walkOpts S) = Ok es \<Longrightarrow>
      payload_fits (encFileList (env_gob env) \<lparr>fl_Entries = es, fl_HardLinkGroups = []\<rparr>)"
  shows "\<exists>T out. syncLocal None env (abs_path SD) (abs_path D) walkOpts [] attrOpts ropts copts S = (T, out, Ok ()) \<and>
    content_of T = mirrored S SD D (content_of S) {r. r \<noteq> [] \<and> content_of S (SD @ r) \<noteq> None}"
proof -
  have wf: "fs_wf S" using S(1) by (simp add: fs_inv_def)
  obtain S' es where walk: "Walk (abs_path SD) walkOpts S = (S', Ok es)" "same_tree S S'"
    and few: "length es \<le> length (fs_names S)"
    and entries: "entries_ok True env copts attrOpts ropts [] (source_data S SD) D (content_of S) es"
    and contents: "session_contents attrOpts ropts [] (source_data S SD) D (content_of S) es
      = mirrored S SD D (content_of S) {r. r \<noteq> [] \<and> content_of S (SD @ r) \<noteq> None}"
    and files: "\<forall>e \<in> set es. exchanges [] e \<longrightarrow> is_file (content_of S (SD @ comps e))"
    using mirror_session [OF wf S(2-5) opts] c by blast
  have listfits: "payload_fits (encFileList (env_gob env) \<lparr>fl_Entries = es, fl_HardLinkGroups = []\<rparr>)"
    using fits walk(1) by simp
  from c have "\<not> ro_DryRun ropts" "ro_PartialDir ropts = []" "list_all plain D" by (simp_all add: copies_source_def)
  from local_session_runs [OF env S(1-3) walk few FilterEntries_none [symmetric] this nolinks entries files listfits]
  show ?thesis unfolding contents .
qed

lemma plan_local:
  assumes "o_filterRules opts = []" and "\<not> (o_ipv4 opts \<and> o_ipv6 opts)" and "o_address opts = []"
    and "\<not> (o_appendMode opts \<and> o_appendVerify opts)" and "o_writeBatch opts = []"
  shows "\<exists>p. plan_sync f u r changed [abs_path q] (abs_path d) opts = Ok p \<and> sp_walk p = effectiveWalkOptions opts \<and>
    sp_attrs p = effectiveAttrOptions opts \<and> sp_ropts p = effectiveReceiverOptions opts \<and> sp_rules p = [] \<and>
    sp_copts p = effectiveCompressOptions changed opts \<and> sp_dest p = LocalDest (abs_path d) \<and> \<not> sp_batch p \<and> sp_notes p = []"
  using assms
  by (auto simp: plan_sync_def absolute_is_local toSyncRawRules_def tcpNetwork_def resolveLocalAddr_def pick_destination_def
      is_daemon_def Let_def)

text \<open>The same for \<open>runSync\<close>, with the last line it prints.\<close>

lemma local_sync_copies:
  assumes "gob_ok (env_gob (w_env w))" and "zlib_ok (env_deflate (w_env w)) (env_inflate (w_env w))"
    and "fs_inv (cd_fs s)" and "no_faults (cd_fs s)"
    and "list_all plain SD" and "content_of (cd_fs s) SD = Some DirData"
    and "source_ok (w_env w) (effectiveCompressOptions changed opts) (cd_fs s) SD"
    and "list_all plain D" and "content_of (cd_fs s) D = Some DirData"
    and "\<And>r. r \<noteq> [] \<Longrightarrow> content_of (cd_fs s) (D @ r) = None" and "take (length SD) D \<noteq> SD"
    and "o_archive opts \<or> o_recursive opts" and "o_filterRules opts = []" and "\<not> o_hardLinks opts"
    and "o_archive opts \<or> o_links opts \<or> (\<forall>r t. content_of (cd_fs s) (SD @ r) \<noteq> Some (LinkData t))"
    and "\<not> o_dryRun opts" and "o_partialDir opts = []" and "o_writeBatch opts = []"
    and "\<not> (o_ipv4 opts \<and> o_ipv6 opts)" and "o_address opts = []" and "\<not> (o_appendMode opts \<and> o_appendVerify opts)"
    and "\<And>es. snd (Walk (abs_path SD) (effectiveWalkOptions opts) (cd_fs s)) = Ok es \<Longrightarrow>
      payload_fits (encFileList (env_gob (w_env w)) \<lparr>fl_Entries = es, fl_HardLinkGroups = []\<rparr>)"
  shows "\<exists>t out. runSync w changed [abs_path SD] (abs_path D) opts s = (t, Ok ()) \<and>
    cl_stdout t = cl_stdout s @ out @ summary_line opts 1 (abs_path D) \<and>
    (\<forall>r. r \<noteq> [] \<longrightarrow> content_of (cd_fs t) (D @ r) = content_of (cd_fs s) (SD @ r)) \<and>
    (\<forall>p. p = D \<or> take (length D) p \<noteq> D \<longrightarrow> content_of (cd_fs t) p = content_of (cd_fs s) p) \<and>
    (\<forall>r. content_of (cd_fs t) (SD @ r) = content_of (cd_fs s) (SD @ r))"
proof -
  let ?S = "cd_fs s"
  obtain p where plan: "plan_sync (filter_file ?S) (w_url_parse w) (w_resolve w) changed [abs_path SD] (abs_path D) opts = Ok p"
    and p: "sp_walk p = effectiveWalkOptions opts" "sp_attrs p = effectiveAttrOptions opts"
      "sp_ropts p = effectiveReceiverOptions opts" "sp_rules p = []" "sp_copts p = effectiveCompressOptions changed opts"
      "sp_dest p = LocalDest (abs_path D)" "\<not> sp_batch p" "sp_notes p = []"
    using plan_local [OF assms(13,19,20,21,18), of "filter_file ?S" "w_url_parse w" "w_resolve w" changed SD D] by blast
  have c: "copies_source ?S SD (effectiveAttrOptions opts) (effectiveReceiverOptions opts) ?S D"
    using assms(3,4,8-10,15-17) by (auto simp: copies_source_def effectiveAttrOptions_def effectiveReceiverOptions_def)
  have "Recursive (effectiveWalkOptions opts)" "\<not> ao_HardLinks (effectiveAttrOptions opts)"
    using assms(12,14) by (simp_all add: effectiveWalkOptions_def effectiveAttrOptions_def)
  from local_sync_runs [OF assms(1-7) this(1) c this(2) assms(22)] obtain T out where
    run: "syncLocal None (w_env w) (abs_path SD) (abs_path D) (effectiveWalkOptions opts) [] (effectiveAttrOptions opts)
        (effectiveReceiverOptions opts) (effectiveCompressOptions changed opts) ?S = (T, out, Ok ())"
    and T: "content_of T = mirrored ?S SD D (content_of ?S) {r. r \<noteq> [] \<and> content_of ?S (SD @ r) \<noteq> None}"
    by blast
  define t where "t = s\<lparr>cd_fs := T, cl_stdout := cl_stdout s @ concat out @ summary_line opts 1 (abs_path D)\<rparr>"
  have "runSync w changed [abs_path SD] (abs_path D) opts s = (t, Ok ())"
    using plan p run
    by (simp add: runSync_def sync_sources_def sync_source_def bind_def modify_def print_out_def wrap_err_def t_def)
  moreover have inside: "content_of T (D @ r) = content_of ?S (SD @ r)" if "r \<noteq> []" for r
    unfolding T mirrored_at using that assms(10) by (cases "content_of ?S (SD @ r)") simp_all
  moreover have outside: "content_of T q = content_of ?S q" if "q = D \<or> take (length D) q \<noteq> D" for q
    unfolding T by (rule mirrored_other) (use that in auto)
  moreover have "content_of T (SD @ r) = content_of ?S (SD @ r)" for r
  proof (cases "take (length D) (SD @ r) = D")
    case True
    then have "\<exists>q. SD @ r = D @ q" by (metis append_take_drop_id)
    then obtain q where q: "SD @ r = D @ q" ..
    show ?thesis
    proof (cases "q = []")
      case True
      with q assms(11) show ?thesis by auto
    next
      case False
      have "length D \<le> length SD \<or> take (length SD) D = SD" using q by (metis append_eq_append_conv_if le_cases)
      with assms(11) q obtain u where u: "SD = D @ u" by (metis append_eq_append_conv_if append_take_drop_id)
      with assms(10) [of u] assms(6) have "u = []" by auto
      with u assms(11) show ?thesis by simp
    qed
  qed (simp add: outside)
  ultimately show ?thesis
    by (intro exI [of _ t] exI [of _ "concat out"]) (simp add: t_def)
qed

definition local_fs :: fs where
  "local_fs = small_fs\<lparr>fs_names := fs_names small_fs @ [([''dst''], 4)], fs_next := 5\<rparr>"

definition local_world :: "(bytes, nat) world" where
  "local_world =
     \<lparr>w_env = small_env, w_md4 = (\<lambda>b. b), w_environ = (\<lambda>_. None), w_url_parse = (\<lambda>_. None), w_resolve = (\<lambda>_ _. None),
      w_dial = (\<lambda>_ _ _ _. None), w_spawn = (\<lambda>_ _. NotStarted)\<rparr>"

definition local_options :: options where
  "local_options = plain_options\<lparr>o_compress := False, o_writeBatch := []\<rparr>"

definition local_start :: cliState where
  "local_start =
     \<lparr>cd_fs = local_fs, cd_stdin = [], cd_terminal = None, cd_prompts = 0, cd_once = None, cl_next = 0,
      cl_sessions = [], cl_stdout = [], cl_notes = []\<rparr>"

lemma local_fs_ok:
  "fs_inv local_fs" "no_faults local_fs" "content_of local_fs [''src''] = Some DirData"
  "content_of local_fs [''dst''] = Some DirData"
  by (simp_all add: fs_inv_def fs_wf_def local_fs_def small_fs_def no_faults_def content_of_def lookup_def ino_of_def
      dir_inode_def plain_def)

lemma local_dst_empty: "r \<noteq> [] \<Longrightarrow> content_of local_fs (''dst'' # r) = None"
  by (auto simp: local_fs_def small_fs_def content_of_def lookup_def ino_of_def)

lemma uncompressed_message: "delta_message toy_deflate path ops no_compress = delta_message toy_deflate path ops no_compression"
  by (simp add: delta_message_def toWireDeltaOps_def no_compress_def no_compression_def)

lemma local_source_ok: "source_ok small_env no_compress local_fs [''src'']"
  by (simp add: source_ok_def local_fs_def small_fs_def dir_inode_def hasSuffix_def message_fits_def small_env_def toy_env_def
      Let_def rel_path_def table_gob_simps payload_fits_def table_enc_def maxFramePayload_def uncompressed_message)

lemma local_walk_fits:
  "snd (Walk (abs_path [''src'']) \<lparr>Recursive = True, Dirs = False\<rparr> local_fs) = Ok es \<Longrightarrow>
     payload_fits (encFileList (env_gob small_env) \<lparr>fl_Entries = es, fl_HardLinkGroups = []\<rparr>)"
proof -
  assume es: "snd (Walk (abs_path [''src'']) \<lparr>Recursive = True, Dirs = False\<rparr> local_fs) = Ok es"
  have "snd (Walk (abs_path [''src'']) \<lparr>Recursive = True, Dirs = False\<rparr> local_fs)
      = Ok [entry_at small_fs [''src''] [''d''], entry_at small_fs [''src''] [''d'', ''f'']]"
    by code_simp
  with es show ?thesis
    by (simp add: small_env_def toy_env_def Let_def payload_fits_def table_enc_def maxFramePayload_def)
qed

definition update_fs :: fs where
  "update_fs = small_fs\<lparr>fs_names := fs_names small_fs @ [([''dst''], 4), ([''dst'', ''d''], 5), ([''dst'', ''d'', ''f''], 6)],
     fs_inodes := (fs_inodes small_fs)(6 := dir_inode\<lparr>in_content := FileData [1, 2], in_perm := 420\<rparr>), fs_next := 7\<rparr>"

definition update_list :: "fileEntry list" where
  "update_list = [entry_at small_fs [''src''] [''d''], entry_at small_fs [''src''] [''d'', ''f'']]"

definition update_env :: "bytes env" where
  "update_env =
     (let sig = GenerateSignature (\<lambda>b. b) [1, 2] in
      toy_env [\<lparr>fl_Entries = update_list, fl_HardLinkGroups = []\<rparr>]
        [\<lparr>sm_Path = ''d/f'', sm_Sig = sig, sm_Append = appendNone\<rparr>]
        [delta_message toy_deflate ''d/f'' (GenerateDelta (\<lambda>b. b) sig [1, 2, 3]) no_compression])"

lemma update_contents:
  "content_of update_fs [] = Some DirData" "content_of update_fs [''src''] = Some DirData"
  "content_of update_fs [''src'', ''d'', ''f''] = Some (FileData [1, 2, 3])" "content_of update_fs [''dst''] = Some DirData"
  "content_of update_fs [''dst'', ''d''] = Some DirData" "content_of update_fs [''dst'', ''d'', ''f''] = Some (FileData [1, 2])"
  by (simp_all add: update_fs_def small_fs_def content_of_def lookup_def ino_of_def dir_inode_def)

lemma update_no_temps: "no_temps (content_of update_fs) [''dst'', ''d''] ''f''"
  by (auto simp: no_temps_def update_fs_def small_fs_def content_of_def lookup_def ino_of_def temp_component_def)

lemma update_session:
  fixes src :: "string \<Rightarrow> bytes"
  assumes "src ''d/f'' = [1, 2, 3]"
  shows "entries_ok True update_env no_compression (effectiveAttrOptions local_options) plain_ropts [] src [''dst'']
    (content_of update_fs) update_list" (is ?ok)
  and "session_contents (effectiveAttrOptions local_options) plain_ropts [] src [''dst''] (content_of update_fs) update_list
    = (content_of update_fs)([''dst'', ''d'', ''f''] \<mapsto> FileData [1, 2, 3])" (is ?contents)
proof -
  let ?d = "entry_at small_fs [''src''] [''d'']" and ?f = "entry_at small_fs [''src''] [''d'', ''f'']"
  have entry: "fe_Path ?d = ''d''" "fe_IsDir ?d" "fe_Mode ?d AND ModeSymlink = 0"
    "fe_Path ?f = ''d/f''" "\<not> fe_IsDir ?f" "fe_Mode ?f AND ModeSymlink = 0" "fe_Size ?f = 3"
    by code_simp+
  have below: "comps ?d = [''d'']" "comps ?f = [''d'', ''f'']" by (code_simp)+
  have ex: "\<not> exchanges [] ?d" "exchanges [] ?f" by (simp_all add: exchanges_def entry secondary_paths_def)
  have mode: "\<not> AppendMode plain_ropts" by code_simp
  have first: "entry_effect (effectiveAttrOptions local_options) plain_ropts [] src [''dst''] ?d (content_of update_fs)
      = content_of update_fs"
    by (simp add: entry_effect_def Let_def entry below update_contents fun_upd_idem)
  show ?contents
    by (simp add: update_list_def first)
      (simp add: entry_effect_def Let_def ex entry below update_contents result_bytes_def mode rel_path_def assms)
  have plan: "plan update_env plain_ropts (Some (FileData [1, 2])) ?f = (GenerateSignature (\<lambda>b. b) [1, 2], appendNone)"
    by (simp add: plan_def sign_plan_def mode data_of_def update_env_def toy_env_def Let_def)
  have "strong_separates (\<lambda>b. b) [1, 2] DefaultBlockSize [1, 2, 3]" by (simp add: strong_separates_def list_all_iff)
  then have "file_ok update_env no_compression plain_ropts (Some (FileData [1, 2])) ?f [1, 2, 3]"
    by (simp add: file_ok_def plan entry data_of_def reply_def sender_ops_def)
      (simp add: update_env_def toy_env_def Let_def payload_fits_def table_enc_def maxFramePayload_def DefaultBlockSize_def rel_path_def)
  then show ?ok
    by (simp add: update_list_def first)
      (simp add: entry_ok_def Let_def ex entry below update_contents update_no_temps dirs_in_def plain_def rel_path_def assms)
qed

theorem local_sync_refines_session_witness:
  "\<exists>T out. syncLocal None update_env (abs_path [''src'']) (abs_path [''dst'']) \<lparr>Recursive = True, Dirs = False\<rparr> []
      (effectiveAttrOptions local_options) plain_ropts no_compression update_fs = (T, out, Ok ()) \<and>
     content_of T = (content_of update_fs)([''dst'', ''d'', ''f''] \<mapsto> FileData [1, 2, 3])"
proof -
  have src: "source_data update_fs [''src''] ''d/f'' = [1, 2, 3]"
  proof -
    have "path_comps ''d/f'' = [''d'', ''f'']" by code_simp
    then show ?thesis by (simp add: source_data_def update_contents data_of_def)
  qed
  note session = update_session [of "source_data update_fs [''src'']", OF src]
  have walk: "snd (Walk (abs_path [''src'']) \<lparr>Recursive = True, Dirs = False\<rparr> update_fs) = Ok update_list"
    unfolding update_list_def by code_simp
  have ok: "gob_ok (env_gob update_env)" "zlib_ok (env_deflate update_env) (env_inflate update_env)" "fs_inv update_fs"
    "no_faults update_fs" "list_all plain [''src'']" "list_all plain [''dst'']"
    by (simp_all add: update_env_def toy_env_def Let_def table_gob_ok toy_zlib_ok fs_inv_def fs_wf_def update_fs_def small_fs_def
        no_faults_def plain_def content_of_def lookup_def ino_of_def dir_inode_def)
  have opts: "\<not> ro_DryRun plain_ropts" "ro_PartialDir plain_ropts = []" "\<not> ao_HardLinks (effectiveAttrOptions local_options)"
    "Recursive \<lparr>Recursive = True, Dirs = False\<rparr>"
    by (simp_all add: plain_ropts_def effectiveAttrOptions_def local_options_def plain_options_def)
  have apart: "take (length [''src'']) [''dst''] \<noteq> [''src'']" "take (length [''dst'']) [''src''] \<noteq> [''dst'']" by simp_all
  have fits: "payload_fits (encFileList (env_gob update_env) \<lparr>fl_Entries = update_list, fl_HardLinkGroups = []\<rparr>)"
    by (simp add: update_env_def toy_env_def Let_def payload_fits_def table_enc_def maxFramePayload_def)
  have files: "\<forall>e \<in> set update_list. exchanges [] e \<longrightarrow> is_file (content_of update_fs ([''src''] @ comps e))"
    unfolding update_list_def by code_simp
  from local_sync_refines_session [OF ok(1-5) update_contents(2) opts(4) walk FilterEntries_none [symmetric] opts(1-3) ok(6) apart
      session(1) fits files]
  show ?thesis unfolding session(2) by blast
qed

end
