(* ===== verification/Serve.thy ===== *)
theory Serve
  imports DaemonSession
begin

text \<open>
  \<open>Serve\<close> of \<open>internal/daemon/server.go\<close>: the accept loop and a goroutine for every connection, as a step
  relation over the disk the connections share. When a connection finishes, \<open>ServeConn\<close> runs on the disk as the
  connections that finished before have left it, so how it turns out depends on the order; the runs themselves
  are not interleaved. A client that neither sends nor hangs up keeps its goroutine for ever. A panic is one of
  the errors \<open>session_panics\<close> singles out.
\<close>

section \<open>The accept loop\<close>

datatype connOutcome = Succeeded | FailedWith session_error | Panicked

datatype logEntry = LogError session_error | LogPanic

fun recv_panics :: "recv_error \<Rightarrow> bool" where
  "recv_panics GroupSlicePanic = True"
| "recv_panics (ReceivingDelta _ (ConvertFailed (LiteralSlicePanic _))) = True"
| "recv_panics (ApplyingDelta _ (SliceBoundsPanic _)) = True"
| "recv_panics _ = False"

fun session_panics :: "session_error \<Rightarrow> bool" where
  "session_panics (SendFailed SenderSlicePanic) = True"
| "session_panics (SendFailed (AppendSlicePanic _ _)) = True"
| "session_panics (ReceiveFailed e) = recv_panics e"
| "session_panics _ = False"

definition conn_outcome :: "session_error + unit \<Rightarrow> connOutcome" where
  "conn_outcome r =
     (case r of Inl e \<Rightarrow> if session_panics e then Panicked else FailedWith e | Inr _ \<Rightarrow> Succeeded)"

text \<open>\<open>clients n\<close> is the connection of the \<open>n\<close>-th client, unless it hangs, and \<open>rnd n\<close> the random bytes it draws.\<close>

type_synonym sessions = "nat \<Rightarrow> fs \<Rightarrow> (fs \<times> (session_error + unit)) option"

definition serve_client ::
  "(bytes \<Rightarrow> bytes) \<Rightarrow> (nat \<Rightarrow> bytes option) \<Rightarrow> 'h env \<Rightarrow> Config \<Rightarrow> (nat \<Rightarrow> byte conn option) \<Rightarrow> sessions" where
  "serve_client md4 rnd env cfg clients n f =
     map_option (\<lambda>c. case ServeConn md4 (rnd n) env cfg \<lparr>ds_fs = f, ds_conn = c\<rparr> of (d, r) \<Rightarrow> (ds_fs d, r)) (clients n)"

lemma serve_client_Some:
  "serve_client md4 rnd env cfg clients n f = Some (g, r) \<longleftrightarrow>
     (\<exists>c d. clients n = Some c \<and> ServeConn md4 (rnd n) env cfg \<lparr>ds_fs = f, ds_conn = c\<rparr> = (d, r) \<and> g = ds_fs d)"
proof (cases "clients n")
  case (Some c)
  obtain d x where "ServeConn md4 (rnd n) env cfg \<lparr>ds_fs = f, ds_conn = c\<rparr> = (d, x)" by (meson surj_pair)
  with Some show ?thesis by (auto simp: serve_client_def)
qed (simp add: serve_client_def)

text \<open>A request for the module list is not a failure.\<close>

definition log_entry :: "connOutcome \<Rightarrow> logEntry option" where
  "log_entry r =
     (case r of
        Succeeded \<Rightarrow> None
      | FailedWith e \<Rightarrow> if e = GreetingFailed ModuleListRequested then None else Some (LogError e)
      | Panicked \<Rightarrow> Some LogPanic)"

datatype connPhase = Expected | Serving | Returning | Closed

record serverState =
  sv_accepting :: bool
  sv_accepted :: nat
  sv_phase :: "nat \<Rightarrow> connPhase"
  sv_log :: "(nat \<times> logEntry) list"
  sv_fs :: fs

definition Serve :: "fs \<Rightarrow> serverState" where
  "Serve f = \<lparr>sv_accepting = True, sv_accepted = 0, sv_phase = (\<lambda>_. Expected), sv_log = [], sv_fs = f\<rparr>"

definition accept_conn :: "serverState \<Rightarrow> serverState" where
  "accept_conn s = s\<lparr>sv_accepted := Suc (sv_accepted s), sv_phase := (sv_phase s)(sv_accepted s := Serving)\<rparr>"

definition finish_conn :: "nat \<Rightarrow> fs \<times> (session_error + unit) \<Rightarrow> serverState \<Rightarrow> serverState" where
  "finish_conn n = (\<lambda>(f, r) s.
     s\<lparr>sv_phase := (sv_phase s)(n := Returning), sv_fs := f,
       sv_log := sv_log s @ (case log_entry (conn_outcome r) of None \<Rightarrow> [] | Some e \<Rightarrow> [(n, e)])\<rparr>)"

definition close_conn :: "nat \<Rightarrow> serverState \<Rightarrow> serverState" where
  "close_conn n s = s\<lparr>sv_phase := (sv_phase s)(n := Closed)\<rparr>"

text \<open>The recovery and the log line come before the deferred close.\<close>

inductive serve_step :: "sessions \<Rightarrow> serverState \<Rightarrow> serverState \<Rightarrow> bool" for session where
  accepts: "sv_accepting s \<Longrightarrow> serve_step session s (accept_conn s)"
| accept_fails: "sv_accepting s \<Longrightarrow> serve_step session s (s\<lparr>sv_accepting := False\<rparr>)"
| finishes: "sv_phase s n = Serving \<Longrightarrow> session n (sv_fs s) = Some r \<Longrightarrow> serve_step session s (finish_conn n r s)"
| closes: "sv_phase s n = Returning \<Longrightarrow> serve_step session s (close_conn n s)"

inductive_cases serve_stepE: "serve_step session s t"

abbreviation serve_steps :: "sessions \<Rightarrow> serverState \<Rightarrow> serverState \<Rightarrow> bool" where
  "serve_steps session \<equiv> (serve_step session)\<^sup>*\<^sup>*"

section \<open>Invariant\<close>

text \<open>What a result of \<open>ServeConn\<close> leaves in the error log.\<close>

definition due :: "session_error + unit \<Rightarrow> logEntry list" where
  "due r =
     (case r of
        Inr _ \<Rightarrow> []
      | Inl e \<Rightarrow> if session_panics e then [LogPanic]
                 else if e = GreetingFailed ModuleListRequested then [] else [LogError e])"

lemma log_entry_due: "(case log_entry (conn_outcome r) of None \<Rightarrow> [] | Some e \<Rightarrow> [e]) = due r"
  by (simp add: due_def log_entry_def conn_outcome_def split: sum.split)

definition log_of :: "serverState \<Rightarrow> nat \<Rightarrow> logEntry list" where
  "log_of s n = map snd (filter (\<lambda>(m, e). m = n) (sv_log s))"

text \<open>A connection that has returned ran on a disk some earlier state of the server had.\<close>

definition returned :: "sessions \<Rightarrow> fs \<Rightarrow> nat \<Rightarrow> logEntry list \<Rightarrow> bool" where
  "returned session f n entries \<longleftrightarrow>
     (\<exists>s0 g r. serve_steps session (Serve f) s0 \<and> sv_phase s0 n = Serving \<and> session n (sv_fs s0) = Some (g, r) \<and> entries = due r)"

definition serve_inv :: "sessions \<Rightarrow> fs \<Rightarrow> serverState \<Rightarrow> bool" where
  "serve_inv session f s \<longleftrightarrow>
     (\<forall>n. (sv_phase s n = Expected \<longleftrightarrow> sv_accepted s \<le> n) \<and>
       (sv_phase s n = Expected \<or> sv_phase s n = Serving \<longrightarrow> log_of s n = []) \<and>
       (sv_phase s n = Returning \<or> sv_phase s n = Closed \<longrightarrow> returned session f n (log_of s n)))"

lemma finish_conn_simps [simp]:
  "sv_accepting (finish_conn m r s) = sv_accepting s" "sv_accepted (finish_conn m r s) = sv_accepted s"
  "sv_phase (finish_conn m r s) = (sv_phase s)(m := Returning)" "sv_fs (finish_conn m r s) = fst r"
  by (simp_all add: finish_conn_def split: prod.split)

lemma accept_conn_simps [simp]:
  "sv_accepting (accept_conn s) = sv_accepting s" "sv_accepted (accept_conn s) = Suc (sv_accepted s)"
  "sv_phase (accept_conn s) = (sv_phase s)(sv_accepted s := Serving)" "sv_fs (accept_conn s) = sv_fs s"
  by (simp_all add: accept_conn_def)

lemma close_conn_simps [simp]:
  "sv_accepting (close_conn m s) = sv_accepting s" "sv_accepted (close_conn m s) = sv_accepted s"
  "sv_phase (close_conn m s) = (sv_phase s)(m := Closed)" "sv_fs (close_conn m s) = sv_fs s"
  by (simp_all add: close_conn_def)

lemma log_of_finish: "log_of (finish_conn m r s) n = log_of s n @ (if n = m then due (snd r) else [])"
proof -
  obtain f x where r: "r = (f, x)" by (cases r)
  show ?thesis
    unfolding r snd_conv log_entry_due [of x, symmetric]
    by (auto simp: log_of_def finish_conn_def split: option.split)
qed

lemma log_of_other [simp]:
  "log_of (accept_conn s) n = log_of s n" "log_of (close_conn m s) n = log_of s n"
  "log_of (s\<lparr>sv_accepting := b\<rparr>) n = log_of s n"
  by (simp_all add: log_of_def accept_conn_def close_conn_def)

lemma serve_inv_step:
  assumes "serve_step session s t" and "serve_steps session (Serve f) s" and "serve_inv session f s"
  shows "serve_inv session f t"
  using assms
proof (induction rule: serve_step.induct)
  case (accepts s)
  then show ?case by (fastforce simp: serve_inv_def)
next
  case (accept_fails s)
  then show ?case unfolding serve_inv_def log_of_other by simp
next
  case (finishes s n r)
  obtain g x where r: "r = (g, x)" by (cases r)
  from finishes have "returned session f n (due x)" unfolding returned_def r by blast
  moreover have "log_of s n = []" using finishes by (simp add: serve_inv_def)
  ultimately show ?case
    using finishes(1,4) unfolding serve_inv_def log_of_finish by (auto simp: r)
next
  case (closes s n)
  then show ?case unfolding serve_inv_def log_of_other by auto
qed

lemma serve_inv_reachable:
  assumes "serve_steps session (Serve f) s"
  shows "serve_inv session f s"
  using assms
proof (induction rule: rtranclp_induct)
  case base
  show ?case by (simp add: serve_inv_def Serve_def log_of_def)
next
  case (step s t)
  from step.hyps(2,1) step.IH show ?case by (rule serve_inv_step)
qed

text \<open>A connection whose session returns can be brought to its end by its own steps.\<close>

lemma connection_ends:
  assumes "sv_phase s n = Serving" and "session n (sv_fs s) = Some (g, r)" and "log_of s n = []"
  shows "\<exists>t. serve_steps session s t \<and> sv_phase t n = Closed \<and> log_of t n = due r \<and> sv_fs t = g \<and>
    sv_accepting t = sv_accepting s \<and> sv_accepted t = sv_accepted s \<and>
    (\<forall>m. m \<noteq> n \<longrightarrow> sv_phase t m = sv_phase s m \<and> log_of t m = log_of s m)"
proof -
  let ?u = "finish_conn n (g, r) s"
  have "serve_step session s ?u" using assms(1,2) by (rule finishes)
  moreover have "serve_step session ?u (close_conn n ?u)" by (rule closes) simp
  ultimately have "serve_steps session s (close_conn n ?u)"
    by (rule converse_rtranclp_into_rtranclp [OF _ r_into_rtranclp])
  then show ?thesis using assms(3) by (intro exI [of _ "close_conn n ?u"]) (simp add: log_of_finish)
qed

section \<open>Properties\<close>


text \<open>One client hangs for ever; the other hangs up at once and is logged.\<close>

definition two_clients :: "nat \<Rightarrow> byte conn option" where
  "two_clients n = (if n = 0 then None else Some (open_conn []))"

abbreviation two_served :: sessions where
  "two_served \<equiv> serve_client (\<lambda>b. b) (\<lambda>_. None) (toy_env [] [] []) [] two_clients"


text \<open>
  C31. The whole server protects its modules. In every state it can reach, whatever all its clients send and in
  whichever order their connections finish, the tree on its disk is the one it started with, or one of the accepted
  clients was entitled to write, in the sense of the previous theory: it named a module that is not read only,
  proved, where that is required, that it knows the secret of a user the module allows, by the secrets file as it
  was when the server started, and asked to put files. In particular a server all of whose modules are read only
  never changes its tree, and nor does one whose clients only download.
\<close>

theorem server_protects_modules:
  assumes "serve_steps (serve_client md4 rnd env cfg clients) (Serve f) s"
  shows "same_tree f (sv_fs s) \<or>
    (\<exists>n c g. n < sv_accepted s \<and> clients n = Some c \<and> same_tree f g \<and> may_write md4 (rnd n) cfg g (c_in c))"
  using assms
proof (induction rule: rtranclp_induct)
  case base
  show ?case by (simp add: Serve_def tree.frame_refl)
next
  case (step s t)
  have inv: "serve_inv (serve_client md4 rnd env cfg clients) f s" by (rule serve_inv_reachable [OF step.hyps(1)])
  have quiet: ?case if "sv_fs t = sv_fs s" "sv_accepted s \<le> sv_accepted t"
    using step.IH that by (metis less_le_trans)
  from step.hyps(2) show ?case
  proof (cases rule: serve_step.cases)
    case (finishes n r)
    obtain g x where r: "r = (g, x)" by (cases r)
    with finishes(3) obtain c d where c: "clients n = Some c" "g = ds_fs d"
      and run: "ServeConn md4 (rnd n) env cfg \<lparr>ds_fs = sv_fs s, ds_conn = c\<rparr> = (d, x)"
      by (auto simp: serve_client_Some)
    have "n < sv_accepted s" using inv finishes(2) by (fastforce simp: serve_inv_def)
    moreover have "same_tree (sv_fs s) (ds_fs d) \<or> may_write md4 (rnd n) cfg (sv_fs s) (c_in c)"
      using ServeConn_changes [OF run] by auto
    ultimately show ?thesis using step.IH c r finishes(1) tree.frame_trans by auto
  qed (rule quiet; simp)+
qed

end
