(* ===== verification/CommandLine.thy ===== *)
theory CommandLine
  imports Commands Serve
begin

text \<open>
  From the command line to the exit status: the variables the flags are bound to and the usage text
  (\<open>NewRootCmd\<close> and \<open>usageFunc\<close> in \<open>root.go\<close>), \<open>RunE\<close> over the four commands, \<open>Execute\<close>, and \<open>main\<close>. The libraries
  cobra and pflag are parameters: \<open>parse\<close> is what they make of the arguments, \<open>cobra\<close> the call of a command,
  with the assumption \<open>runs_command\<close> that it calls \<open>Args\<close> and then \<open>RunE\<close>.
\<close>

section \<open>The variables of the flags\<close>

text \<open>A value as pflag parses it for a flag.\<close>

datatype flagValue = BoolValue bool | StringValue string | IntValue int

type_synonym settings = "(string \<times> flagValue) list"

fun fits :: "flagKind \<Rightarrow> flagValue \<Rightarrow> bool" where
  "fits BoolFlag (BoolValue _) = True"
| "fits StringFlag (StringValue _) = True"
| "fits (IntFlag _) (IntValue _) = True"
| "fits (RuleFlag _) (StringValue _) = True"
| "fits _ _ = False"

datatype flagVar =
    BoolVar "bool \<Rightarrow> options \<Rightarrow> options"
  | StringVar "string \<Rightarrow> options \<Rightarrow> options"
  | IntVar "int \<Rightarrow> options \<Rightarrow> options"
  | RulesVar ruleKind

definition flag_vars :: "(string \<times> flagVar) list" where
  "flag_vars =
     [(''archive'', BoolVar (\<lambda>b. o_archive_update (\<lambda>_. b))),
      (''verbose'', BoolVar (\<lambda>b. o_verbose_update (\<lambda>_. b))),
      (''dry-run'', BoolVar (\<lambda>b. o_dryRun_update (\<lambda>_. b))),
      (''recursive'', BoolVar (\<lambda>b. o_recursive_update (\<lambda>_. b))),
      (''dirs'', BoolVar (\<lambda>b. o_dirs_update (\<lambda>_. b))),
      (''perms'', BoolVar (\<lambda>b. o_perms_update (\<lambda>_. b))),
      (''times'', BoolVar (\<lambda>b. o_times_update (\<lambda>_. b))),
      (''owner'', BoolVar (\<lambda>b. o_owner_update (\<lambda>_. b))),
      (''group'', BoolVar (\<lambda>b. o_group_update (\<lambda>_. b))),
      (''links'', BoolVar (\<lambda>b. o_links_update (\<lambda>_. b))),
      (''hard-links'', BoolVar (\<lambda>b. o_hardLinks_update (\<lambda>_. b))),
      (''exclude'', RulesVar RuleExclude),
      (''include'', RulesVar RuleInclude),
      (''filter'', RulesVar RuleFilter),
      (''exclude-from'', RulesVar RuleExcludeFrom),
      (''include-from'', RulesVar RuleIncludeFrom),
      (''itemize-changes'', BoolVar (\<lambda>b. o_itemize_update (\<lambda>_. b))),
      (''progress'', BoolVar (\<lambda>b. o_progress_update (\<lambda>_. b))),
      (''stats'', BoolVar (\<lambda>b. o_stats_update (\<lambda>_. b))),
      (''rsh'', StringVar (\<lambda>x. o_rsh_update (\<lambda>_. x))),
      (''address'', StringVar (\<lambda>x. o_address_update (\<lambda>_. x))),
      (''ipv4'', BoolVar (\<lambda>b. o_ipv4_update (\<lambda>_. b))),
      (''ipv6'', BoolVar (\<lambda>b. o_ipv6_update (\<lambda>_. b))),
      (''password-file'', StringVar (\<lambda>x. o_passwordFile_update (\<lambda>_. x))),
      (''server'', BoolVar (\<lambda>b. o_server_update (\<lambda>_. b))),
      (''daemon'', BoolVar (\<lambda>b. o_daemon_update (\<lambda>_. b))),
      (''config'', StringVar (\<lambda>x. o_config_update (\<lambda>_. x))),
      (''port'', IntVar (\<lambda>i. o_port_update (\<lambda>_. i))),
      (''compress'', BoolVar (\<lambda>b. o_compress_update (\<lambda>_. b))),
      (''compress-level'', IntVar (\<lambda>i. o_compressLevel_update (\<lambda>_. i))),
      (''skip-compress'', StringVar (\<lambda>x. o_skipCompress_update (\<lambda>_. x))),
      (''partial'', BoolVar (\<lambda>b. o_partial_update (\<lambda>_. b))),
      (''partial-dir'', StringVar (\<lambda>x. o_partialDir_update (\<lambda>_. x))),
      (''append'', BoolVar (\<lambda>b. o_appendMode_update (\<lambda>_. b))),
      (''append-verify'', BoolVar (\<lambda>b. o_appendVerify_update (\<lambda>_. b))),
      (''write-batch'', StringVar (\<lambda>x. o_writeBatch_update (\<lambda>_. x))),
      (''read-batch'', StringVar (\<lambda>x. o_readBatch_update (\<lambda>_. x))),
      (''delete'', BoolVar (\<lambda>b. o_delete_update (\<lambda>_. b)))]"

text \<open>What registering the flags stores in the variables.\<close>

definition default_options :: options where
  "default_options =
     \<lparr>o_archive = False, o_verbose = False, o_compress = False, o_compressLevel = 0, o_skipCompress = [], o_recursive = False,
      o_dirs = False, o_dryRun = False, o_delete = False, o_progress = False, o_perms = False, o_times = False,
      o_owner = False, o_group = False, o_links = False, o_hardLinks = False, o_itemize = False, o_stats = False,
      o_filterRules = [], o_rsh = [], o_server = False, o_daemon = False, o_config = [], o_port = DefaultPort,
      o_passwordFile = [], o_ipv4 = False, o_ipv6 = False, o_address = [], o_partial = False, o_partialDir = [],
      o_appendMode = False, o_appendVerify = False, o_writeBatch = [], o_readBatch = []\<rparr>"

text \<open>\<open>Set\<close> on the flag's value; \<open>None\<close> is a flag that is not registered, or a value of another kind.\<close>

fun set_var :: "flagVar \<Rightarrow> flagValue \<Rightarrow> options \<Rightarrow> options option" where
  "set_var (BoolVar f) (BoolValue b) opts = Some (f b opts)"
| "set_var (StringVar f) (StringValue x) opts = Some (f x opts)"
| "set_var (IntVar f) (IntValue i) opts = Some (f i opts)"
| "set_var (RulesVar kind) (StringValue x) opts =
     Some (opts\<lparr>o_filterRules := filterRuleFlag_Set kind x (o_filterRules opts)\<rparr>)"
| "set_var _ _ _ = None"

definition set_flag :: "string \<Rightarrow> flagValue \<Rightarrow> options \<Rightarrow> options option" where
  "set_flag name v opts = (case map_of flag_vars name of None \<Rightarrow> None | Some t \<Rightarrow> set_var t v opts)"

fun set_flags :: "settings \<Rightarrow> options \<Rightarrow> options option" where
  "set_flags [] opts = Some opts"
| "set_flags ((name, v) # ss) opts = (case set_flag name v opts of None \<Rightarrow> None | Some opts' \<Rightarrow> set_flags ss opts')"

section \<open>What the options are\<close>

text \<open>The last value given for a flag counts; without one, its default.\<close>

definition given :: "settings \<Rightarrow> string \<Rightarrow> bool" where
  "given ss name \<longleftrightarrow> map_of (rev ss) name = Some (BoolValue True)"

definition given_string :: "settings \<Rightarrow> string \<Rightarrow> string" where
  "given_string ss name = (case map_of (rev ss) name of Some (StringValue x) \<Rightarrow> x | _ \<Rightarrow> [])"

definition given_int :: "settings \<Rightarrow> string \<Rightarrow> int \<Rightarrow> int" where
  "given_int ss name dflt = (case map_of (rev ss) name of Some (IntValue i) \<Rightarrow> i | _ \<Rightarrow> dflt)"

definition given_rules :: "settings \<Rightarrow> filterRule list" where
  "given_rules ss = concat (map (\<lambda>(name, v).
     case (map_of [(''exclude'', RuleExclude), (''include'', RuleInclude), (''filter'', RuleFilter),
             (''exclude-from'', RuleExcludeFrom), (''include-from'', RuleIncludeFrom)] name, v) of
       (Some kind, StringValue x) \<Rightarrow> [\<lparr>fr_RuleType = kind, fr_Pattern = x\<rparr>]
     | _ \<Rightarrow> []) ss)"

definition options_given :: "settings \<Rightarrow> options" where
  "options_given ss =
     \<lparr>o_archive = given ss ''archive'', o_verbose = given ss ''verbose'', o_compress = given ss ''compress'',
      o_compressLevel = given_int ss ''compress-level'' 0, o_skipCompress = given_string ss ''skip-compress'',
      o_recursive = given ss ''recursive'', o_dirs = given ss ''dirs'', o_dryRun = given ss ''dry-run'',
      o_delete = given ss ''delete'', o_progress = given ss ''progress'', o_perms = given ss ''perms'',
      o_times = given ss ''times'', o_owner = given ss ''owner'', o_group = given ss ''group'', o_links = given ss ''links'',
      o_hardLinks = given ss ''hard-links'', o_itemize = given ss ''itemize-changes'', o_stats = given ss ''stats'',
      o_filterRules = given_rules ss, o_rsh = given_string ss ''rsh'', o_server = given ss ''server'',
      o_daemon = given ss ''daemon'', o_config = given_string ss ''config'', o_port = given_int ss ''port'' 873,
      o_passwordFile = given_string ss ''password-file'', o_ipv4 = given ss ''ipv4'', o_ipv6 = given ss ''ipv6'',
      o_address = given_string ss ''address'', o_partial = given ss ''partial'', o_partialDir = given_string ss ''partial-dir'',
      o_appendMode = given ss ''append'', o_appendVerify = given ss ''append-verify'',
      o_writeBatch = given_string ss ''write-batch'', o_readBatch = given_string ss ''read-batch''\<rparr>"

text \<open>The name decides the kind: the table of the variables agrees with the flags as registered.\<close>

fun var_kind :: "flagVar \<Rightarrow> nat" where
  "var_kind (BoolVar _) = 0"
| "var_kind (StringVar _) = 1"
| "var_kind (IntVar _) = 2"
| "var_kind (RulesVar _) = 3"

fun kind_code :: "flagKind \<Rightarrow> nat" where
  "kind_code BoolFlag = 0"
| "kind_code StringFlag = 1"
| "kind_code (IntFlag _) = 2"
| "kind_code (RuleFlag _) = 3"

abbreviation registered :: "(string \<times> string \<times> flagKind) list" where
  "registered \<equiv> concat (map snd flag_groups)"

lemma set_var_kind: "set_var t v opts \<noteq> None \<longleftrightarrow> (\<exists>kind. kind_code kind = var_kind t \<and> fits kind v)"
proof
  assume "set_var t v opts \<noteq> None"
  then show "\<exists>kind. kind_code kind = var_kind t \<and> fits kind v"
  proof (cases t)
    case (BoolVar f)
    with \<open>set_var t v opts \<noteq> None\<close> show ?thesis by (cases v) (auto intro: exI [of _ BoolFlag])
  next
    case (StringVar f)
    with \<open>set_var t v opts \<noteq> None\<close> show ?thesis by (cases v) (auto intro: exI [of _ StringFlag])
  next
    case (IntVar f)
    with \<open>set_var t v opts \<noteq> None\<close> show ?thesis by (cases v) (auto intro: exI [of _ "IntFlag 0"])
  next
    case (RulesVar k)
    with \<open>set_var t v opts \<noteq> None\<close> show ?thesis by (cases v) (auto intro: exI [of _ "RuleFlag k"])
  qed
next
  assume "\<exists>kind. kind_code kind = var_kind t \<and> fits kind v"
  then show "set_var t v opts \<noteq> None" by (cases t; cases v) (auto elim: fits.elims)
qed

lemma fits_code: "kind_code k = kind_code k' \<Longrightarrow> fits k v \<longleftrightarrow> fits k' v"
  by (cases k; cases k'; cases v) simp_all

lemma tables_agree: "map (\<lambda>(name, t). (name, var_kind t)) flag_vars = map (\<lambda>(name, short, kind). (name, kind_code kind)) registered"
  by (simp add: flag_vars_def flag_groups_def)

lemma flag_names: "distinct (map fst registered)" "distinct (map fst flag_vars)"
proof -
  show names: "distinct (map fst registered)" by (rule distinct_words) code_simp
  have "map fst flag_vars = map fst registered" by (simp add: flag_vars_def flag_groups_def)
  with names show "distinct (map fst flag_vars)" by simp
qed

lemma var_registered:
  "(\<exists>t. map_of flag_vars name = Some t \<and> var_kind t = c) \<longleftrightarrow> (\<exists>short kind. (name, short, kind) \<in> set registered \<and> kind_code kind = c)"
proof -
  have "(\<exists>t. (name, t) \<in> set flag_vars \<and> var_kind t = c) \<longleftrightarrow> (name, c) \<in> set (map (\<lambda>(name, t). (name, var_kind t)) flag_vars)"
    by force
  also have "\<dots> \<longleftrightarrow> (\<exists>short kind. (name, short, kind) \<in> set registered \<and> kind_code kind = c)"
    unfolding tables_agree by force
  finally show ?thesis using flag_names(2) by (auto simp: map_of_eq_Some_iff)
qed

lemma set_flag_accepts:
  "set_flag name v opts \<noteq> None \<longleftrightarrow> (\<exists>short kind. (name, short, kind) \<in> set registered \<and> fits kind v)"
proof
  assume "set_flag name v opts \<noteq> None"
  then obtain t kind where "map_of flag_vars name = Some t" "kind_code kind = var_kind t" "fits kind v"
    using set_var_kind by (auto simp: set_flag_def split: option.splits)
  moreover then obtain short kind' where "(name, short, kind') \<in> set registered" "kind_code kind' = var_kind t"
    using var_registered [of name "var_kind t"] by blast
  ultimately show "\<exists>short kind. (name, short, kind) \<in> set registered \<and> fits kind v"
    using fits_code [of kind kind'] by auto
next
  assume "\<exists>short kind. (name, short, kind) \<in> set registered \<and> fits kind v"
  then obtain short kind where kind: "(name, short, kind) \<in> set registered" "fits kind v" by blast
  then obtain t where "map_of flag_vars name = Some t" "var_kind t = kind_code kind"
    using var_registered [of name "kind_code kind"] by blast
  with kind(2) set_var_kind [of t v opts] show "set_flag name v opts \<noteq> None" by (auto simp: set_flag_def)
qed

lemma given_snoc:
  "given (ss @ [(n, v)]) m = (if n = m then v = BoolValue True else given ss m)"
  "given_string (ss @ [(n, v)]) m = (if n = m then (case v of StringValue x \<Rightarrow> x | _ \<Rightarrow> []) else given_string ss m)"
  "given_int (ss @ [(n, v)]) m i = (if n = m then (case v of IntValue j \<Rightarrow> j | _ \<Rightarrow> i) else given_int ss m i)"
  "given_rules (ss @ [(n, v)]) = given_rules ss @ given_rules [(n, v)]"
  by (simp_all add: given_def given_string_def given_int_def given_rules_def)

lemma set_flag_given:
  assumes "set_flag n v (options_given ss) = Some opts"
  shows "opts = options_given (ss @ [(n, v)])"
proof -
  obtain t where t: "map_of flag_vars n = Some t" "set_var t v (options_given ss) = Some opts"
    using assms by (auto simp: set_flag_def split: option.splits)
  then have "(n, t) \<in> set flag_vars" by (simp add: map_of_SomeD)
  then show ?thesis
    using t(2) unfolding flag_vars_def list.set
    by (elim insertE emptyE; cases v)
      (simp_all add: options_given_def given_snoc filterRuleFlag_Set_def given_rules_def)
qed

lemma set_flags_snoc:
  "set_flags (ss @ [(n, v)]) opts = (case set_flags ss opts of None \<Rightarrow> None | Some opts' \<Rightarrow> set_flag n v opts')"
  by (induction ss arbitrary: opts) (auto split: option.split)

lemma set_flags_given: "set_flags ss default_options = Some opts \<Longrightarrow> opts = options_given ss"
proof (induction ss arbitrary: opts rule: rev_induct)
  case Nil
  then show ?case
    by (simp add: default_options_def options_given_def given_def given_string_def given_int_def given_rules_def DefaultPort_def)
next
  case (snoc e ss)
  obtain n v where e: "e = (n, v)" by (cases e)
  with snoc.prems obtain opts' where "set_flags ss default_options = Some opts'" "set_flag n v opts' = Some opts"
    by (auto simp: set_flags_snoc split: option.splits)
  with snoc.IH show ?case unfolding e by (auto intro: set_flag_given)
qed

lemma set_flags_accepts:
  "set_flags ss opts \<noteq> None \<longleftrightarrow> (\<forall>(name, v) \<in> set ss. \<exists>short kind. (name, short, kind) \<in> set registered \<and> fits kind v)"
proof (induction ss arbitrary: opts)
  case Nil
  then show ?case by simp
next
  case (Cons e ss)
  obtain n v where e: "e = (n, v)" by (cases e)
  from Cons set_flag_accepts [of n v opts] show ?case
    unfolding e by (cases "set_flag n v opts") auto
qed

section \<open>The usage text\<close>

text \<open>
  \<open>HasAvailableFlags\<close> and \<open>FlagUsagesWrapped\<close> are pflag's: whether a group has a flag that is not hidden, and
  the listing of its flags.
\<close>

definition usageFunc ::
  "((string \<times> string \<times> flagKind) list \<Rightarrow> bool) \<Rightarrow> ((string \<times> string \<times> flagKind) list \<Rightarrow> string) \<Rightarrow> string \<Rightarrow> string \<Rightarrow>
     (string \<times> (string \<times> string \<times> flagKind) list) list \<Rightarrow> string" where
  "usageFunc available usages useLine examples groups =
     ''Usage:'' @ [CHR 0x0A] @ ''  '' @ useLine @ [CHR 0x0A, CHR 0x0A] @ examples @
     concat (map (\<lambda>(title, flags).
       if \<not> available flags then [] else [CHR 0x0A] @ title @ '':'' @ [CHR 0x0A] @ usages flags) groups)"

section \<open>The commands\<close>

datatype main_error =
    LineError string
  | ArgsError args_error
  | ArgsIndexPanic
  | DaemonError daemon_error
  | ServerError server_error
  | BatchError batch_error
  | SyncError command_error

text \<open>
  The state of the process. Standard input is \<open>cd_stdin\<close>, and the input of \<open>pr_conn\<close> for a server. A daemon
  that has started to serve does not end by itself; theory \<open>Serve\<close> has what it does then.
\<close>

record process_state =
  pr_cli :: cliState
  pr_conn :: "byte conn"
  pr_stderr :: string
  pr_reported :: "main_error list"

datatype run = Ended "main_error + unit" | ServingModules string Config

definition run_daemon ::
  "(network \<Rightarrow> string \<Rightarrow> string option) \<Rightarrow> options \<Rightarrow> process_state \<Rightarrow> process_state \<times> run" where
  "run_daemon listen opts s =
     (case runDaemon listen opts (cd_fs (pr_cli s)) of
        (x, Inl e) \<Rightarrow> (s\<lparr>pr_cli := (pr_cli s)\<lparr>cd_fs := x\<rparr>\<rparr>, Ended (Fail (DaemonError e)))
      | (x, Inr (line, cfg)) \<Rightarrow>
          (s\<lparr>pr_cli := (pr_cli s)\<lparr>cd_fs := x, cl_stdout := cl_stdout (pr_cli s) @ line\<rparr>\<rparr>, ServingModules line cfg))"

definition run_server :: "('h, 'addr) world \<Rightarrow> string \<Rightarrow> options \<Rightarrow> process_state \<Rightarrow> process_state \<times> run" where
  "run_server w dest opts s =
     (case runServer (w_env w) dest opts \<lparr>ds_fs = cd_fs (pr_cli s), ds_conn = pr_conn s\<rparr> of
        (t, ls, r) \<Rightarrow>
          (s\<lparr>pr_cli := (pr_cli s)\<lparr>cd_fs := ds_fs t\<rparr>, pr_conn := ds_conn t, pr_stderr := pr_stderr s @ concat ls\<rparr>,
           Ended (map_sum ServerError id r)))"

definition run_read_batch :: "('h, 'addr) world \<Rightarrow> string \<Rightarrow> options \<Rightarrow> process_state \<Rightarrow> process_state \<times> run" where
  "run_read_batch w dest opts s =
     (case runReadBatch (w_env w) (cd_stdin (pr_cli s)) dest opts (cd_fs (pr_cli s)) of
        (x, ls, r) \<Rightarrow>
          (s\<lparr>pr_cli := (pr_cli s)\<lparr>cd_fs := x, cl_stdout := cl_stdout (pr_cli s) @ concat ls\<rparr>\<rparr>, Ended (map_sum BatchError id r)))"

definition run_sync ::
  "('h, 'addr) world \<Rightarrow> string set \<Rightarrow> string list \<Rightarrow> string \<Rightarrow> options \<Rightarrow> process_state \<Rightarrow> process_state \<times> run" where
  "run_sync w changed sources dest opts s =
     (case runSync w changed sources dest opts (pr_cli s) of
        (t, r) \<Rightarrow> (s\<lparr>pr_cli := t\<rparr>, Ended (map_sum SyncError id r)))"

definition RunE ::
  "(network \<Rightarrow> string \<Rightarrow> string option) \<Rightarrow> ('h, 'addr) world \<Rightarrow> options \<Rightarrow> string set \<Rightarrow> string list \<Rightarrow>
     process_state \<Rightarrow> process_state \<times> run" where
  "RunE listen w opts changed args s =
     (case dispatch opts args of
        None \<Rightarrow> (s, Ended (Fail ArgsIndexPanic))
      | Some RunDaemon \<Rightarrow> run_daemon listen opts s
      | Some (RunServer dest) \<Rightarrow> run_server w dest opts s
      | Some (RunReadBatch dest) \<Rightarrow> run_read_batch w dest opts s
      | Some (RunSync sources dest) \<Rightarrow> run_sync w changed sources dest opts s)"

section \<open>Execute and main\<close>

text \<open>What pflag makes of the command line: an error, \<open>--help\<close>, or the flags in order and the other arguments.\<close>

datatype parsed = LineRefused string | HelpWanted | Line settings "string list"

text \<open>
  The library's \<open>Command.Execute\<close>, for the functions \<open>Args\<close> and \<open>RunE\<close> it is given, both of them on the options the
  flags were bound to. What it prints itself (usage, help) goes to other streams than those modelled.
\<close>

type_synonym cobra =
  "(options \<Rightarrow> string list \<Rightarrow> args_error option) \<Rightarrow>
     (options \<Rightarrow> string set \<Rightarrow> string list \<Rightarrow> process_state \<Rightarrow> process_state \<times> run) \<Rightarrow>
     string list \<Rightarrow> process_state \<Rightarrow> process_state \<times> run"

definition runs_command :: "(string list \<Rightarrow> parsed) \<Rightarrow> cobra \<Rightarrow> bool" where
  "runs_command parse cobra \<longleftrightarrow>
     (\<forall>Args Run argv s.
        (case parse argv of
           LineRefused e \<Rightarrow> cobra Args Run argv s = (s, Ended (Fail (LineError e)))
         | HelpWanted \<Rightarrow> cobra Args Run argv s = (s, Ended (Ok ()))
         | Line ss args \<Rightarrow>
             (case set_flags ss default_options of
                None \<Rightarrow> False
              | Some opts \<Rightarrow>
                  cobra Args Run argv s =
                    (case Args opts args of
                       Some e \<Rightarrow> (s, Ended (Fail (ArgsError e)))
                     | None \<Rightarrow> Run opts (set (map fst ss)) args s))))"

definition Execute ::
  "cobra \<Rightarrow> (network \<Rightarrow> string \<Rightarrow> string option) \<Rightarrow> ('h, 'addr) world \<Rightarrow> string list \<Rightarrow> process_state \<Rightarrow> process_state \<times> run" where
  "Execute cobra listen w argv = cobra validate_args (RunE listen w) argv"

text \<open>An error that stands for a panic: the runtime ends the process with status 2.\<close>

fun send_panics :: "send_error \<Rightarrow> bool" where
  "send_panics SenderSlicePanic = True"
| "send_panics (AppendSlicePanic _ _) = True"
| "send_panics _ = False"

fun main_panics :: "main_error \<Rightarrow> bool" where
  "main_panics ArgsIndexPanic = True"
| "main_panics (ServerError (ServerReceive e)) = recv_panics e"
| "main_panics (BatchError (ApplyingBatch _ _ e)) = recv_panics e"
| "main_panics (SyncError (SyncingSource _ _ (DaemonSession e))) = session_panics e"
| "main_panics (SyncError (SyncingSource _ _ (RemoteTransfer (SendingFailed e)))) = send_panics e"
| "main_panics (SyncError (SyncingSource _ _ (LocalTransfer e))) = send_panics e"
| "main_panics (SyncError (SyncingSource _ _ (LocalReceive e))) = recv_panics e"
| "main_panics _ = False"

text \<open>The exit status; \<open>None\<close> while a daemon serves.\<close>

definition main ::
  "cobra \<Rightarrow> (network \<Rightarrow> string \<Rightarrow> string option) \<Rightarrow> ('h, 'addr) world \<Rightarrow> string list \<Rightarrow> process_state \<Rightarrow>
     process_state \<times> int option" where
  "main cobra listen w argv s =
     (case Execute cobra listen w argv s of
        (t, ServingModules line cfg) \<Rightarrow> (t, None)
      | (t, Ended (Inr _)) \<Rightarrow> (t, Some 0)
      | (t, Ended (Inl e)) \<Rightarrow>
          if main_panics e then (t, Some 2) else (t\<lparr>pr_reported := pr_reported t @ [e]\<rparr>, Some 1))"

section \<open>Dry runs\<close>

interpretation ctree: frame_rel "\<lambda>s t. same_tree (cd_fs s) (cd_fs t)"
  by unfold_locales (auto intro: tree.frame_refl tree.frame_trans)

lemma DialClient_put_keeps_tree:
  "dtree.keeps (DialClient env md4 name user password DirectionPut src rules walkOpts attrOpts ropts copts)"
proof -
  have "DirectionPut \<noteq> DirectionGet" by (simp add: DirectionPut_def DirectionGet_def)
  moreover have "dtree.keeps (run_dial_auth md4 user password)"
    by (simp add: dtree.keeps_def run_dial_auth_def tree.frame_refl split: prod.split)
  ultimately show ?thesis
    unfolding DialClient_def DialModule_def
    by (auto intro!: dtree.keeps_bind dtree.keeps_throw on_dconn_keeps_tree run_sender_keeps_tree waitForTransferDone_keeps_tree)
qed

lemma resolvePassword_keeps_tree: "ctree.keeps (resolvePassword environ passwordFile)"
proof -
  have fs: "ctree.keeps (cred_fs err m)" if "tree.keeps m" for err and m :: "'a sys"
    using that by (simp add: ctree.keeps_def tree.keeps_def cred_fs_def on_part_def wrap_err_def split: prod.split)
      (metis fst_conv)
  have pure: "ctree.keeps (\<lambda>s. (s, first_line content))" for content
    by (simp add: ctree.keeps_def tree.frame_refl)
  have ctree_modify: "ctree.keeps (modify f)" if "\<And>s. cd_fs (f s) = cd_fs s" for f :: "credentialState \<Rightarrow> credentialState"
    using that by (simp add: ctree.keeps_def modify_def tree.frame_refl)
  have "ctree.keeps (doResolvePassword environ passwordFile)"
    unfolding doResolvePassword_def readPasswordFile_def promptForPassword_def checkPasswordFilePermissions_def
    by (auto intro!: ctree.keeps_bind ctree.keeps_ret ctree.keeps_throw ctree.keeps_get fs pure ctree_modify looks_keep_tree
        split: option.split prod.split)
  then show ?thesis
    by (auto simp: ctree.keeps_def resolvePassword_def tree.frame_refl split: option.split prod.split) (metis fst_conv)
qed

lemma syncToRsyncDaemon_keeps_tree: "ctree.keeps (syncToRsyncDaemon w opts p u src)"
proof (rule ctree.keepsI)
  fix s :: cliState
  obtain asked answer where asked: "resolvePassword (w_environ w) (o_passwordFile opts) (credentialState.truncate s) = (asked, answer)"
    by (meson surj_pair)
  have "same_tree (cd_fs s) (cd_fs asked)"
    using ctree.keepsD' [OF resolvePassword_keeps_tree asked] by (simp add: credentialState.truncate_def)
  moreover have "same_tree f (ds_fs t)"
    if "DialClient (w_env w) (w_md4 w) (u_Module u) user password DirectionPut src (sp_rules p) (sp_walk p)
      (only_hard_links (ao_HardLinks (sp_attrs p))) (module_ropts (o_dryRun opts)) (sp_copts p) \<lparr>ds_fs = f, ds_conn = c\<rparr> = (t, r)"
    for user password f c t r
    using dtree.keepsD' [OF DialClient_put_keeps_tree that] by simp
  ultimately show "same_tree (cd_fs s) (cd_fs (fst (syncToRsyncDaemon w opts p u src s)))"
    by (auto simp: syncToRsyncDaemon_def Let_def asked tree.frame_refl intro: tree.frame_trans split: option.split prod.split)
qed

lemma syncToRemote_keeps_tree:
  "same_tree s (fst (syncToRemote None env spawn rsh src remote walkOpts rules hardLinks ropts copts ipv4 ipv6 s))"
proof -
  have "same_tree s (ss_fs t)" if "Sender env src walkOpts rules hardLinks copts \<lparr>ss_fs = s, ss_conn = c\<rparr> = (t, r)" for c t r
    using stree.keepsD' [OF Sender_keeps_tree that] by simp
  then show ?thesis
    by (auto simp: syncToRemote_def tree.frame_refl split: sum.split prod.split option.split)
qed

lemma syncLocal_dry:
  assumes "ro_DryRun ropts"
  shows "same_tree s (fst (syncLocal None env src dest walkOpts rules attrOpts ropts copts s))"
proof -
  have "same_tree s (rs_fs t)" if "Receiver env dest attrOpts ropts (receiver_start s c) = (t, r)" for c t r
    using rtree.keepsD' [OF Receiver_dry [OF assms] that] by (simp add: receiver_start_def)
  then show ?thesis
    by (auto simp: syncLocal_def local_receiver_def take_batch_def Let_def split: prod.split)
qed

lemma sync_source_dry:
  assumes "ro_DryRun (sp_ropts p)"
  shows "ctree.keeps (sync_source None w opts p src)"
proof (rule ctree.keepsI)
  fix s :: cliState
  show "same_tree (cd_fs s) (cd_fs (fst (sync_source None w opts p src s)))"
  proof (cases "sp_dest p")
    case (DaemonDest u)
    then show ?thesis using ctree.keepsD [OF syncToRsyncDaemon_keeps_tree, of s w opts p u src] by (simp add: sync_source_def)
  next
    case (RemoteDest r)
    obtain t c res where run: "syncToRemote None (w_env w) (w_spawn w (cl_next s)) (o_rsh opts) src r (sp_walk p) (sp_rules p)
        (ao_HardLinks (sp_attrs p)) (sp_ropts p) (sp_copts p) (o_ipv4 opts) (o_ipv6 opts) (cd_fs s) = (t, c, res)"
      by (rule prod_cases3)
    from syncToRemote_keeps_tree [of "cd_fs s"] have "same_tree (cd_fs s) t" by (metis run fst_conv)
    with RemoteDest show ?thesis by (simp add: sync_source_def run)
  next
    case (LocalDest d)
    obtain t ls res where run: "syncLocal None (w_env w) src d (sp_walk p) (sp_rules p) (sp_attrs p) (sp_ropts p) (sp_copts p) (cd_fs s)
        = (t, ls, res)"
      by (rule prod_cases3)
    from syncLocal_dry [OF assms, of "cd_fs s"] have "same_tree (cd_fs s) t" by (metis run fst_conv)
    with LocalDest show ?thesis by (simp add: sync_source_def run)
  qed
qed

lemma plan_sync_dry:
  "plan_sync rf up rs changed sources dest opts = Ok p \<Longrightarrow> o_dryRun opts \<Longrightarrow> \<not> sp_batch p \<and> ro_DryRun (sp_ropts p)"
  by (auto simp: plan_sync_def res_bind_Ok_conv Let_def effectiveReceiverOptions_def split: option.splits if_splits)

lemma runSync_dry:
  assumes "o_dryRun opts"
  shows "ctree.keeps (runSync w changed sources dest opts)"
proof (rule ctree.keepsI)
  fix s :: cliState
  have quiet: "ctree.keeps (modify f)" if "\<And>s. cd_fs (f s) = cd_fs s" for f :: "cliState \<Rightarrow> cliState"
    using that by (simp add: ctree.keeps_def modify_def tree.frame_refl)
  show "same_tree (cd_fs s) (cd_fs (fst (runSync w changed sources dest opts s)))"
  proof (cases "plan_sync (filter_file (cd_fs s)) (w_url_parse w) (w_resolve w) changed sources dest opts")
    case (Inl e)
    then show ?thesis by (simp add: runSync_def tree.frame_refl)
  next
    case (Inr p)
    from plan_sync_dry [OF this assms] have dry: "ro_DryRun (sp_ropts p)" and batch: "sp_batch p = False" by simp_all
    have "ctree.keeps (seq (modify (\<lambda>s. s\<lparr>cl_notes := cl_notes s @ sp_notes p\<rparr>))
        (seq (sync_sources w opts p dest sources None) (print_out (summary_line opts (length sources) dest))))"
      unfolding sync_sources_def print_out_def
      by (auto intro!: ctree.keeps_bind ctree.keeps_each ctree.keeps_wrap_err quiet sync_source_dry [OF dry])
    from ctree.keepsD [OF this, of s] show ?thesis by (simp add: runSync_def Inr batch)
  qed
qed

lemma runServer_dry:
  assumes "o_dryRun opts"
  shows "same_tree (ds_fs s) (ds_fs (fst (runServer env dest opts s)))"
proof -
  have "ro_DryRun (effectiveReceiverOptions opts)" using assms by (simp add: effectiveReceiverOptions_def)
  then have "same_tree (ds_fs s) (rs_fs t)" if "Receiver env dest (effectiveAttrOptions opts) (effectiveReceiverOptions opts)
      (receiver_start (ds_fs s) c) = (t, r)" for c t r
    using rtree.keepsD' [OF Receiver_dry that] by (simp add: receiver_start_def)
  then show ?thesis by (auto simp: runServer_def tree.frame_refl split: prod.split option.split)
qed

lemma runReadBatch_dry:
  assumes "o_dryRun opts"
  shows "same_tree s (fst (runReadBatch env stdin dest opts s))"
proof -
  have dry: "ro_DryRun (effectiveReceiverOptions opts)" using assms by (simp add: effectiveReceiverOptions_def)
  have replay: "same_tree x (fst (apply_batch env dest opts content x))" for x content
  proof -
    have "same_tree x (rs_fs t)" if "Receiver env dest (effectiveAttrOptions opts) (effectiveReceiverOptions opts)
        (receiver_start x c) = (t, r)" for c t r
      using rtree.keepsD' [OF Receiver_dry [OF dry] that] by (simp add: receiver_start_def)
    then show ?thesis by (auto simp: apply_batch_def split: prod.split sum.split)
  qed
  obtain x r where read: "ReadFile (o_readBatch opts) s = (x, r)" by (meson surj_pair)
  from tree.keepsD' [OF looks_keep_tree(3) this] have look: "same_tree s x" .
  show ?thesis
    using replay tree.frame_trans [OF look replay] look by (cases r) (simp_all add: runReadBatch_def read)
qed

lemma runDaemon_keeps_tree: "tree.keeps (runDaemon listen opts)"
  unfolding runDaemon_def Let_def
  by (auto intro!: tree.keeps_bind tree.keeps_throw tree.keeps_ret tree.keeps_wrap_err looks_keep_tree split: sum.split option.split)

lemma RunE_dry:
  assumes "o_dryRun opts" and "RunE listen w opts changed args s = (t, r)"
  shows "same_tree (cd_fs (pr_cli s)) (cd_fs (pr_cli t))"
proof (cases "dispatch opts args")
  case None
  with assms(2) show ?thesis by (simp add: RunE_def tree.frame_refl)
next
  case (Some c)
  show ?thesis
  proof (cases c)
    case RunDaemon
    with Some assms(2) tree.keepsD [OF runDaemon_keeps_tree, of "cd_fs (pr_cli s)" listen opts] show ?thesis
      by (auto simp: RunE_def run_daemon_def split: prod.splits sum.splits)
  next
    case (RunServer d)
    with Some assms(2) runServer_dry [OF assms(1), of "\<lparr>ds_fs = cd_fs (pr_cli s), ds_conn = pr_conn s\<rparr>" "w_env w" d]
    show ?thesis by (auto simp: RunE_def run_server_def split: prod.splits)
  next
    case (RunReadBatch d)
    with Some assms(2) runReadBatch_dry [OF assms(1), of "cd_fs (pr_cli s)" "w_env w" "cd_stdin (pr_cli s)" d]
    show ?thesis by (auto simp: RunE_def run_read_batch_def split: prod.splits)
  next
    case (RunSync sources d)
    with Some assms(2) ctree.keepsD [OF runSync_dry [OF assms(1)], of "pr_cli s" w changed sources d]
    show ?thesis by (auto simp: RunE_def run_sync_def split: prod.splits)
  qed
qed

lemma RunE_ends:
  assumes "\<not> o_daemon opts" and "RunE listen w opts changed args s = (t, r)"
  shows "\<exists>x. r = Ended x"
proof -
  have "dispatch opts args \<noteq> Some RunDaemon" using assms(1) by (auto simp: dispatch_def split: list.split)
  with assms(2) show ?thesis
    by (auto simp: RunE_def run_server_def run_read_batch_def run_sync_def split: option.splits command.splits prod.splits)
qed

section \<open>Properties\<close>

lemma main_line:
  assumes "runs_command parse cobra" and "parse argv = Line ss args"
  shows "set_flags ss default_options = Some (options_given ss)"
    and "Execute cobra listen w argv s =
      (case validate_args (options_given ss) args of
         Some e \<Rightarrow> (s, Ended (Fail (ArgsError e)))
       | None \<Rightarrow> RunE listen w (options_given ss) (set (map fst ss)) args s)"
proof -
  have line: "case set_flags ss default_options of None \<Rightarrow> False | Some opts \<Rightarrow>
      cobra Args Run argv s = (case Args opts args of Some e \<Rightarrow> (s, Ended (Fail (ArgsError e)))
        | None \<Rightarrow> Run opts (set (map fst ss)) args s)" for Args Run s
    using assms unfolding runs_command_def by (auto split: parsed.splits dest!: spec [of _ argv])
  then obtain opts where opts: "set_flags ss default_options = Some opts" by (cases "set_flags ss default_options") simp_all
  with set_flags_given [OF opts] show "set_flags ss default_options = Some (options_given ss)" by simp
  with line [of validate_args "RunE listen w" s] show "Execute cobra listen w argv s =
      (case validate_args (options_given ss) args of
         Some e \<Rightarrow> (s, Ended (Fail (ArgsError e)))
       | None \<Rightarrow> RunE listen w (options_given ss) (set (map fst ss)) args s)"
    by (simp add: Execute_def)
qed

text \<open>
  C25. The options are those of the command line. The values pflag parses are stored without a type error
  exactly when each is for a registered flag and of that flag's kind; then every option is the value given
  last for its flag, or its default, no flag changes another's option, and the filter rules are all those
  given, of the five kinds, in the order of the command line.
\<close>

theorem flags_set_options:
  "(set_flags ss default_options \<noteq> None \<longleftrightarrow>
      (\<forall>(name, v) \<in> set ss. \<exists>short kind. (name, short, kind) \<in> set (concat (map snd flag_groups)) \<and> fits kind v)) \<and>
   (\<forall>opts. set_flags ss default_options = Some opts \<longrightarrow> opts = options_given ss)"
  using set_flags_accepts set_flags_given by blast

theorem flags_set_options_witness:
  "\<exists>opts. set_flags [(''archive'', BoolValue True), (''exclude'', StringValue ''a''), (''port'', IntValue 1),
        (''include'', StringValue ''b''), (''archive'', BoolValue False)] default_options = Some opts \<and>
     \<not> o_archive opts \<and> o_port opts = 1 \<and>
     o_filterRules opts = [\<lparr>fr_RuleType = RuleExclude, fr_Pattern = ''a''\<rparr>, \<lparr>fr_RuleType = RuleInclude, fr_Pattern = ''b''\<rparr>]"
proof -
  let ?ss = "[(''archive'', BoolValue True), (''exclude'', StringValue ''a''), (''port'', IntValue 1),
        (''include'', StringValue ''b''), (''archive'', BoolValue False)]"
  have "list_all (\<lambda>(name, v). list_ex (\<lambda>(n, short, kind). n = name \<and> fits kind v) registered) ?ss" by code_simp
  then have "\<forall>(name, v) \<in> set ?ss. \<exists>short kind. (name, short, kind) \<in> set registered \<and> fits kind v"
    unfolding list_all_iff list_ex_iff by (auto 0 4)
  then have "set_flags ?ss default_options \<noteq> None" using flags_set_options by blast
  then obtain opts where opts: "set_flags ?ss default_options = Some opts" by blast
  moreover from opts have "opts = options_given ?ss" using flags_set_options by blast
  ultimately show ?thesis
    by (simp add: options_given_def given_def given_int_def given_rules_def)
qed

text \<open>
  C29. \<open>--dry-run\<close> is harmless, except for a daemon. Whatever the other arguments and flags but \<open>--daemon\<close>, whichever of
  the three other commands they choose (a sync to any kind of destination, \<open>--write-batch\<close> included, a server, the
  replay of a batch), whatever the peers send and whichever calls fail: every name, inode, content and attribute of
  the local file system is as it was when the process ends. A daemon ignores \<open>--dry-run\<close>: what its clients upload
  is written.
\<close>

theorem dry_run_process_harmless:
  assumes "runs_command parse cobra" and "parse argv = Line ss args" and "map_of (rev ss) ''dry-run'' = Some (BoolValue True)"
    and "map_of (rev ss) ''daemon'' \<noteq> Some (BoolValue True)"
    and "main cobra listen w argv s = (t, status)"
  shows "same_tree (cd_fs (pr_cli s)) (cd_fs (pr_cli t)) \<and> status \<noteq> None"
proof -
  have dry: "o_dryRun (options_given ss)" and nodaemon: "\<not> o_daemon (options_given ss)"
    using assms(3,4) by (simp_all add: options_given_def given_def)
  obtain u r where run: "Execute cobra listen w argv s = (u, r)" by (meson surj_pair)
  have "same_tree (cd_fs (pr_cli s)) (cd_fs (pr_cli u)) \<and> (\<exists>x. r = Ended x)"
  proof (cases "validate_args (options_given ss) args")
    case None
    with run main_line(2) [OF assms(1,2), of listen w s] have "RunE listen w (options_given ss) (set (map fst ss)) args s = (u, r)" by simp
    with RunE_dry [OF dry this] RunE_ends [OF nodaemon this] show ?thesis by blast
  next
    case (Some e)
    with run main_line(2) [OF assms(1,2), of listen w s] show ?thesis by (auto simp: tree.frame_refl)
  qed
  with assms(5) show ?thesis by (auto simp: main_def run split: run.splits sum.splits if_splits)
qed

text \<open>A library that calls a command as documented.\<close>

definition calls_command :: "(string list \<Rightarrow> parsed) \<Rightarrow> cobra" where
  "calls_command parse Args Run argv s =
     (case parse argv of
        LineRefused e \<Rightarrow> (s, Ended (Fail (LineError e)))
      | HelpWanted \<Rightarrow> (s, Ended (Ok ()))
      | Line ss args \<Rightarrow>
          (case set_flags ss default_options of
             None \<Rightarrow> (s, Ended (Fail (LineError [])))
           | Some opts \<Rightarrow>
               (case Args opts args of
                  Some e \<Rightarrow> (s, Ended (Fail (ArgsError e)))
                | None \<Rightarrow> Run opts (set (map fst ss)) args s)))"

definition dry_line :: "string list \<Rightarrow> parsed" where
  "dry_line argv = Line [(''recursive'', BoolValue True), (''dry-run'', BoolValue True)] argv"

lemma dry_line_runs: "runs_command dry_line (calls_command dry_line)"
proof -
  have "set_flags [(''recursive'', BoolValue True), (''dry-run'', BoolValue True)] default_options \<noteq> None"
    by (simp add: set_flag_def flag_vars_def)
  then show ?thesis
    by (auto simp: runs_command_def calls_command_def dry_line_def simp del: set_flags.simps split: option.split)
qed

definition small_world :: "(bytes, nat) world" where
  "small_world =
     \<lparr>w_env = toy_env [] [] [], w_md4 = (\<lambda>b. b), w_environ = (\<lambda>_. None), w_url_parse = (\<lambda>_. None), w_resolve = (\<lambda>_ _. None),
      w_dial = (\<lambda>_ _ _ _. None), w_spawn = (\<lambda>_ _. NotStarted)\<rparr>"

definition small_process :: process_state where
  "small_process =
     \<lparr>pr_cli = \<lparr>cd_fs = small_fs, cd_stdin = [], cd_terminal = None, cd_prompts = 0, cd_once = None, cl_next = 0,
        cl_sessions = [], cl_stdout = [], cl_notes = []\<rparr>, pr_conn = open_conn [], pr_stderr = [], pr_reported = []\<rparr>"

theorem dry_run_process_harmless_witness:
  "\<exists>t status. main (calls_command dry_line) (\<lambda>_ _. None) small_world [''/src'', ''/dst''] small_process = (t, status) \<and>
     same_tree small_fs (cd_fs (pr_cli t))"
proof -
  obtain t status where run: "main (calls_command dry_line) (\<lambda>_ _. None) small_world [''/src'', ''/dst''] small_process = (t, status)"
    by (meson surj_pair)
  have "map_of (rev [(''recursive'', BoolValue True), (''dry-run'', BoolValue True)]) ''dry-run'' = Some (BoolValue True)"
    "map_of (rev [(''recursive'', BoolValue True), (''dry-run'', BoolValue True)]) ''daemon'' \<noteq> Some (BoolValue True)" by simp_all
  from dry_run_process_harmless [OF dry_line_runs _ this run] run show ?thesis
    by (auto simp: dry_line_def small_process_def)
qed

end
