(* ===== verification/Program.thy ===== *)
theory Program
  imports LocalCopy CommandLine
begin

text \<open>
  The whole program on a local sync: from the arguments of the process to its exit status, and what is on
  disk then.
\<close>

text \<open>A sync with nothing special: no filters, hard links, dry run, partial directory, batch or address.\<close>

definition plain_sync :: "options \<Rightarrow> bool" where
  "plain_sync opts \<longleftrightarrow>
     (o_archive opts \<or> o_recursive opts) \<and> o_filterRules opts = [] \<and> \<not> o_hardLinks opts \<and> \<not> o_dryRun opts \<and>
     o_partialDir opts = [] \<and> o_writeBatch opts = [] \<and> o_readBatch opts = [] \<and> \<not> o_daemon opts \<and> \<not> o_server opts \<and>
     \<not> (o_ipv4 opts \<and> o_ipv6 opts) \<and> o_address opts = [] \<and> \<not> (o_appendMode opts \<and> o_appendVerify opts)"

lemma two_arguments:
  "plain_sync opts \<Longrightarrow> validate_args opts [a, b] = None \<and> dispatch opts [a, b] = Some (RunSync [a] b)"
  by (simp add: plain_sync_def validate_args_def dispatch_def)

text \<open>
  C1. \<open>grsync -r SRC DEST\<close> copies a tree. Started with the flags of a plain recursive sync, a local source and
  an empty local directory, neither inside the other, the process ends with status 0 and reports no error:
  the flags reach \<open>runSync\<close>; sender and receiver, joined by the pipes of \<open>syncLocal\<close>, take turns until both
  have ended; then the destination holds exactly the files, directories and links below the source, nothing
  outside it has changed, the source included, and the last line printed is the summary. This is for a
  well-formed source (no special files, messages that fit a frame), no failing calls, and the links option
  or a source without links.
\<close>

theorem grsync_copies_tree:
  assumes "runs_command parse cobra" and "parse argv = Line ss [abs_path SD, abs_path D]" and "opts = options_given ss"
    and "plain_sync opts" and "s = cd_fs (pr_cli p)"
    and "gob_ok (env_gob (w_env w))" and "zlib_ok (env_deflate (w_env w)) (env_inflate (w_env w))"
    and "fs_inv s" and "no_faults s" and "list_all plain SD" and "content_of s SD = Some DirData"
    and "source_ok (w_env w) (effectiveCompressOptions (set (map fst ss)) opts) s SD"
    and "list_all plain D" and "content_of s D = Some DirData"
    and "\<And>r. r \<noteq> [] \<Longrightarrow> content_of s (D @ r) = None" and "take (length SD) D \<noteq> SD"
    and "o_archive opts \<or> o_links opts \<or> (\<forall>r t. content_of s (SD @ r) \<noteq> Some (LinkData t))"
    and "\<And>es. snd (Walk (abs_path SD) (effectiveWalkOptions opts) s) = Ok es \<Longrightarrow>
      payload_fits (encFileList (env_gob (w_env w)) \<lparr>fl_Entries = es, fl_HardLinkGroups = []\<rparr>)"
  shows "\<exists>q out. main cobra listen w argv p = (q, Some 0) \<and> pr_reported q = pr_reported p \<and>
    cl_stdout (pr_cli q) = cl_stdout (pr_cli p) @ out @ summary_line opts 1 (abs_path D) \<and>
    (\<forall>r. r \<noteq> [] \<longrightarrow> content_of (cd_fs (pr_cli q)) (D @ r) = content_of s (SD @ r)) \<and>
    (\<forall>x. x = D \<or> take (length D) x \<noteq> D \<longrightarrow> content_of (cd_fs (pr_cli q)) x = content_of s x) \<and>
    (\<forall>r. content_of (cd_fs (pr_cli q)) (SD @ r) = content_of s (SD @ r))"
proof -
  note plain = assms(4) [unfolded plain_sync_def]
  obtain t out where run: "runSync w (set (map fst ss)) [abs_path SD] (abs_path D) opts (pr_cli p) = (t, Ok ())"
    and t: "cl_stdout t = cl_stdout (pr_cli p) @ out @ summary_line opts 1 (abs_path D)"
      "\<forall>r. r \<noteq> [] \<longrightarrow> content_of (cd_fs t) (D @ r) = content_of s (SD @ r)"
      "\<forall>x. x = D \<or> take (length D) x \<noteq> D \<longrightarrow> content_of (cd_fs t) x = content_of s x"
      "\<forall>r. content_of (cd_fs t) (SD @ r) = content_of s (SD @ r)"
    using local_sync_copies [OF assms(6,7), of "pr_cli p" SD "set (map fst ss)" opts D] assms(8-18) plain
    unfolding assms(5) by blast
  have "Execute cobra listen w argv p = (p\<lparr>pr_cli := t\<rparr>, Ended (Ok ()))"
    using main_line(2) [OF assms(1,2), of listen w p] two_arguments [OF assms(4)] run
    unfolding assms(3) by (simp add: RunE_def run_sync_def)
  then have "main cobra listen w argv p = (p\<lparr>pr_cli := t\<rparr>, Some 0)" by (simp add: main_def)
  with t show ?thesis by (intro exI [of _ "p\<lparr>pr_cli := t\<rparr>"] exI [of _ out]) simp
qed

text \<open>A process that gets the single flag \<open>--archive\<close>.\<close>

definition archive_line :: "string list \<Rightarrow> parsed" where
  "archive_line argv = Line [(''archive'', BoolValue True)] argv"

lemma archive_line_runs: "runs_command archive_line (calls_command archive_line)"
proof -
  have "set_flags [(''archive'', BoolValue True)] default_options \<noteq> None" by (simp add: set_flag_def flag_vars_def)
  then show ?thesis
    by (auto simp: runs_command_def calls_command_def archive_line_def simp del: set_flags.simps split: option.split)
qed

definition local_process :: process_state where
  "local_process = small_process\<lparr>pr_cli := local_start\<rparr>"

theorem grsync_copies_tree_witness:
  "\<exists>q. main (calls_command archive_line) (\<lambda>_ _. None) local_world [abs_path [''src''], abs_path [''dst'']] local_process = (q, Some 0) \<and>
     content_of (cd_fs (pr_cli q)) [''dst'', ''d'', ''f''] = Some (FileData [1, 2, 3])"
proof -
  let ?ss = "[(''archive'', BoolValue True)]" and ?argv = "[abs_path [''src''], abs_path [''dst'']]"
  have opts: "plain_sync (options_given ?ss)" "effectiveCompressOptions (set (map fst ?ss)) (options_given ?ss) = no_compress"
    "effectiveWalkOptions (options_given ?ss) = \<lparr>Recursive = True, Dirs = False\<rparr>" "o_archive (options_given ?ss)"
    by (simp_all add: plain_sync_def options_given_def given_def given_string_def given_int_def given_rules_def
        effectiveCompressOptions_def effectiveWalkOptions_def)
  have world: "w_env local_world = small_env" "cd_fs (pr_cli local_process) = local_fs"
    by (simp_all add: local_world_def local_process_def local_start_def)
  have "\<exists>q out. main (calls_command archive_line) (\<lambda>_ _. None) local_world ?argv local_process = (q, Some 0) \<and>
      pr_reported q = pr_reported local_process \<and>
      cl_stdout (pr_cli q) = cl_stdout (pr_cli local_process) @ out @ summary_line (options_given ?ss) 1 (abs_path [''dst'']) \<and>
      (\<forall>r. r \<noteq> [] \<longrightarrow> content_of (cd_fs (pr_cli q)) ([''dst''] @ r) = content_of local_fs ([''src''] @ r)) \<and>
      (\<forall>x. x = [''dst''] \<or> take (length [''dst'']) x \<noteq> [''dst''] \<longrightarrow> content_of (cd_fs (pr_cli q)) x = content_of local_fs x) \<and>
      (\<forall>r. content_of (cd_fs (pr_cli q)) ([''src''] @ r) = content_of local_fs ([''src''] @ r))"
    by (rule grsync_copies_tree [OF archive_line_runs _ refl opts(1)], unfold world opts)
      (simp_all add: archive_line_def local_fs_ok local_dst_empty local_source_ok local_walk_fits small_env_ok toy_zlib_ok
        plain_def opts(4))
  then obtain q where q: "main (calls_command archive_line) (\<lambda>_ _. None) local_world ?argv local_process = (q, Some 0)"
    "\<forall>r. r \<noteq> [] \<longrightarrow> content_of (cd_fs (pr_cli q)) ([''dst''] @ r) = content_of local_fs ([''src''] @ r)"
    by blast
  from spec [OF q(2), of "[''d'', ''f'']"] have "content_of (cd_fs (pr_cli q)) [''dst'', ''d'', ''f''] = Some (FileData [1, 2, 3])"
    by (simp add: local_fs_def small_fs_def content_of_def lookup_def ino_of_def dir_inode_def)
  with q(1) show ?thesis by blast
qed

end
