(* ===== verification/RemotePush.thy ===== *)
theory RemotePush
  imports Push Program
begin

text \<open>
  A push over a remote shell as two processes of the same program: the one the user starts and the one \<open>ssh\<close>
  starts on the other host, on the words of the command line that \<open>syncToRemote\<close> builds. What is not in the
  repository are parameters: \<open>ssh\<close>, which turns an argument vector into the words the program on the other host
  gets, with the assumption \<open>ssh_runs\<close>; and the flag parser, with the assumption \<open>parses_flags\<close>.
\<close>

section \<open>The remote shell and the flag parser\<close>

text \<open>A word no shell changes.\<close>

definition shell_word :: "string \<Rightarrow> bool" where
  "shell_word w \<longleftrightarrow> w \<noteq> [] \<and>
     list_all (\<lambda>c. c \<in> set ''ABCDEFGHIJKLMNOPQRSTUVWXYZabcdefghijklmnopqrstuvwxyz0123456789-_=/.,:@+'') w"

text \<open>\<open>ssh [-4 | -6] target word...\<close> runs the words as a command on the target.\<close>

definition ssh_runs :: "(string list \<Rightarrow> string list option) \<Rightarrow> bool" where
  "ssh_runs ssh \<longleftrightarrow>
     (\<forall>flags target ws. set flags \<subseteq> {''-4'', ''-6''} \<and> target \<noteq> [] \<and> hd target \<noteq> CHR ''-'' \<and> list_all shell_word ws \<longrightarrow>
        ssh (''ssh'' # flags @ target # ws) = Some ws)"

text \<open>Registered flags without a value, in their long form, and arguments that are no flags.\<close>

definition parses_flags :: "(string list \<Rightarrow> parsed) \<Rightarrow> bool" where
  "parses_flags parse \<longleftrightarrow>
     (\<forall>names args. list_all (\<lambda>name. \<exists>short. (name, short, BoolFlag) \<in> set registered) names \<and>
        list_all (\<lambda>a. a \<noteq> [] \<and> hd a \<noteq> CHR ''-'') args \<longrightarrow>
        parse (map (\<lambda>name. ''--'' @ name) names @ args) = Line (map (\<lambda>name. (name, BoolValue True)) names) args)"

text \<open>
  What an argument vector starts on the other host: \<open>grsync\<close> in the process state \<open>st\<close>, its standard input and
  output being the connection.
\<close>

definition on_host ::
  "(string list \<Rightarrow> string list option) \<Rightarrow> cobra \<Rightarrow> (network \<Rightarrow> string \<Rightarrow> string option) \<Rightarrow> ('h, 'addr) world \<Rightarrow>
     process_state \<Rightarrow> bytes \<Rightarrow> string list \<Rightarrow> (process_state \<times> int option) option" where
  "on_host ssh cobra listen w st input argv =
     (case ssh argv of
        Some (prog # args) \<Rightarrow>
          if prog = ''grsync'' then Some (main cobra listen w args (st\<lparr>pr_conn := open_conn input\<rparr>)) else None
      | _ \<Rightarrow> None)"

definition remote_shell ::
  "(string list \<Rightarrow> string list option) \<Rightarrow> cobra \<Rightarrow> (network \<Rightarrow> string \<Rightarrow> string option) \<Rightarrow> ('h, 'addr) world \<Rightarrow>
     process_state \<Rightarrow> bytes \<Rightarrow> string list \<Rightarrow> spawn" where
  "remote_shell ssh cobra listen w st input argv =
     (case on_host ssh cobra listen w st input argv of
        None \<Rightarrow> NotStarted
      | Some (t, status) \<Rightarrow>
          Started \<lparr>pc_conn = open_conn (w_written (c_out (pr_conn t))), pc_stdinClose = None,
                   pc_wait = (if status = Some 0 then None else Some (case status of Some n \<Rightarrow> n | None \<Rightarrow> -1)),
                   pc_stderr = pr_stderr t\<rparr>)"

section \<open>The command line of the server\<close>

definition remote_flags :: "receiverOptions \<Rightarrow> string list" where
  "remote_flags ropts =
     [''server''] @ (if ro_DryRun ropts then [''dry-run''] else []) @
     (if ro_Itemize ropts then [''itemize-changes''] else []) @ (if ro_Verbose ropts then [''verbose''] else []) @
     (if ro_Progress ropts then [''progress''] else []) @ (if ro_Stats ropts then [''stats''] else []) @
     (if ro_Partial ropts then [''partial''] else []) @ (if ro_Append ropts then [''append''] else []) @
     (if ro_AppendVerify ropts then [''append-verify''] else [])"

lemma remote_args_words:
  "ro_PartialDir ropts = [] \<Longrightarrow> remote_args ropts path = ''grsync'' # map (\<lambda>name. ''--'' @ name) (remote_flags ropts) @ [path]"
  by (simp add: remote_args_def remote_flags_def)

definition remote_flag_names :: "string list" where
  "remote_flag_names =
     [''server'', ''dry-run'', ''itemize-changes'', ''verbose'', ''progress'', ''stats'', ''partial'', ''append'', ''append-verify'']"

lemma remote_flags_known: "set (remote_flags ropts) \<subseteq> set remote_flag_names"
  by (auto simp: remote_flags_def remote_flag_names_def)

lemma flag_names_ok:
  "list_all (\<lambda>name. shell_word (''--'' @ name) \<and> list_ex (\<lambda>(n, short, kind). n = name \<and> kind = BoolFlag) registered) remote_flag_names"
  by code_simp

lemma remote_flags_ok:
  "list_all shell_word (map (\<lambda>name. ''--'' @ name) (remote_flags ropts))"
  "list_all (\<lambda>name. \<exists>short. (name, short, BoolFlag) \<in> set registered) (remote_flags ropts)"
proof -
  have "shell_word (''--'' @ name) \<and> (\<exists>short. (name, short, BoolFlag) \<in> set registered)" if "name \<in> set remote_flag_names" for name
    using flag_names_ok that by (fastforce simp: list_all_iff list_ex_iff)
  with remote_flags_known [of ropts]
  show "list_all shell_word (map (\<lambda>name. ''--'' @ name) (remote_flags ropts))"
    "list_all (\<lambda>name. \<exists>short. (name, short, BoolFlag) \<in> set registered) (remote_flags ropts)"
    by (auto simp: list_all_iff)
qed

lemma given_names:
  "given (map (\<lambda>name. (name, BoolValue True)) names) m \<longleftrightarrow> m \<in> set names"
  "given_string (map (\<lambda>name. (name, BoolValue True)) names) m = []"
proof -
  let ?ss = "map (\<lambda>name. (name, BoolValue True)) names"
  have "map_of (map (\<lambda>name. (name, BoolValue True)) xs) m = (if m \<in> set xs then Some (BoolValue True) else None)" for xs
    by (induction xs) auto
  from this [of "rev names"] have "map_of (rev ?ss) m = (if m \<in> set names then Some (BoolValue True) else None)"
    by (simp add: rev_map)
  then show "given ?ss m \<longleftrightarrow> m \<in> set names" "given_string ?ss m = []"
    by (simp_all add: given_def given_string_def)
qed

abbreviation server_options :: "receiverOptions \<Rightarrow> options" where
  "server_options ropts \<equiv> options_given (map (\<lambda>name. (name, BoolValue True)) (remote_flags ropts))"

lemma server_options_simps:
  "o_server (server_options ropts)" "\<not> o_daemon (server_options ropts)" "o_writeBatch (server_options ropts) = []"
  "o_readBatch (server_options ropts) = []" "o_partialDir (server_options ropts) = []"
  "o_dryRun (server_options ropts) = ro_DryRun ropts"
  by (simp_all only: options_given_def options.select_convs given_names) (auto simp: remote_flags_def)

section \<open>The two processes\<close>

lemma server_process:
  assumes "runs_command parse cobra" and "parses_flags parse"
    and "runServer (w_env w) (abs_path D) (server_options ropts) \<lparr>ds_fs = cd_fs (pr_cli st), ds_conn = open_conn input\<rparr> = (t, out, Ok ())"
  shows "main cobra listen w (map (\<lambda>name. ''--'' @ name) (remote_flags ropts) @ [abs_path D]) (st\<lparr>pr_conn := open_conn input\<rparr>)
    = (st\<lparr>pr_cli := (pr_cli st)\<lparr>cd_fs := ds_fs t\<rparr>, pr_conn := ds_conn t, pr_stderr := pr_stderr st @ concat out\<rparr>, Some 0)"
proof -
  have "list_all (\<lambda>a. a \<noteq> [] \<and> hd a \<noteq> CHR ''-'') [abs_path D]" by (simp add: abs_path_def)
  moreover define argv where "argv = map (\<lambda>name. ''--'' @ name) (remote_flags ropts) @ [abs_path D]"
  ultimately have "parse argv = Line (map (\<lambda>name. (name, BoolValue True)) (remote_flags ropts)) [abs_path D]"
    using assms(2) remote_flags_ok(2) unfolding parses_flags_def by blast
  from main_line(2) [OF assms(1) this, of listen w "st\<lparr>pr_conn := open_conn input\<rparr>"] assms(3) show ?thesis
    unfolding argv_def [symmetric]
    by (simp add: main_def validate_args_def dispatch_def server_options_simps RunE_def run_server_def)
qed

lemma plan_push:
  assumes "plain_sync opts" and "\<not> isRsyncURL d" and "ParseRemotePath d = Some remote"
  shows "\<exists>p. plan_sync f u r changed [abs_path q] d opts = Ok p \<and> sp_walk p = effectiveWalkOptions opts \<and>
    sp_attrs p = effectiveAttrOptions opts \<and> sp_ropts p = effectiveReceiverOptions opts \<and> sp_rules p = [] \<and>
    sp_copts p = effectiveCompressOptions changed opts \<and> sp_dest p = RemoteDest remote \<and> \<not> sp_batch p \<and> sp_notes p = []"
  using assms
  by (auto simp: plain_sync_def plan_sync_def absolute_is_local toSyncRawRules_def tcpNetwork_def resolveLocalAddr_def
      pick_destination_def is_daemon_def Let_def)

lemma client_process:
  assumes "runs_command parse cobra" and "parse argv = Line ss [abs_path SD, dest]" and "opts = options_given ss"
    and "plain_sync opts" and "\<not> isRsyncURL dest" and "ParseRemotePath dest = Some remote"
    and "syncToRemote None (w_env w) (w_spawn w (cl_next (pr_cli p))) (o_rsh opts) (abs_path SD) remote (effectiveWalkOptions opts) [] False
      (effectiveReceiverOptions opts) (effectiveCompressOptions (set (map fst ss)) opts) (o_ipv4 opts) (o_ipv6 opts) (cd_fs (pr_cli p))
      = (s, Some c, Ok ())"
  shows "\<exists>q. main cobra listen w argv p = (q, Some 0) \<and> cd_fs (pr_cli q) = s \<and> cl_sessions (pr_cli q) = cl_sessions (pr_cli p) @ [c] \<and>
    cl_stdout (pr_cli q) = cl_stdout (pr_cli p) @ summary_line opts 1 dest"
proof -
  let ?changed = "set (map fst ss)" and ?S = "cd_fs (pr_cli p)"
  obtain pl where plan: "plan_sync (filter_file ?S) (w_url_parse w) (w_resolve w) ?changed [abs_path SD] dest opts = Ok pl"
    and pl: "sp_walk pl = effectiveWalkOptions opts" "sp_attrs pl = effectiveAttrOptions opts"
      "sp_ropts pl = effectiveReceiverOptions opts" "sp_rules pl = []" "sp_copts pl = effectiveCompressOptions ?changed opts"
      "sp_dest pl = RemoteDest remote" "\<not> sp_batch pl" "sp_notes pl = []"
    using plan_push [OF assms(4-6)] by blast
  have nolinks: "\<not> ao_HardLinks (effectiveAttrOptions opts)"
    using assms(4) by (simp add: plain_sync_def effectiveAttrOptions_def)
  define t where "t = (pr_cli p)\<lparr>cd_fs := s, cl_next := Suc (cl_next (pr_cli p)), cl_sessions := cl_sessions (pr_cli p) @ [c],
    cl_stdout := cl_stdout (pr_cli p) @ summary_line opts 1 dest\<rparr>"
  have "runSync w ?changed [abs_path SD] dest opts (pr_cli p) = (t, Ok ())"
    using plan pl assms(7) nolinks
    by (simp add: runSync_def sync_sources_def sync_source_def bind_def modify_def print_out_def wrap_err_def t_def)
  then have "Execute cobra listen w argv p = (p\<lparr>pr_cli := t\<rparr>, Ended (Ok ()))"
    using main_line(2) [OF assms(1,2), of listen w p] two_arguments [OF assms(4)]
    unfolding assms(3) by (simp add: RunE_def run_sync_def)
  then have "main cobra listen w argv p = (p\<lparr>pr_cli := t\<rparr>, Some 0)" by (simp add: main_def)
  then show ?thesis by (simp add: t_def)
qed

lemma default_shell:
  assumes "ssh_runs ssh" and "ParseRemotePath dest = Some remote" and "hd (rp_User remote @ rp_Host remote) \<noteq> CHR ''-''"
    and "list_all shell_word ws"
  shows "ssh (BuildRSHCommand [] (rp_User remote) (rp_Host remote) ws ipv4 ipv6) = Some ws"
proof -
  have host: "rp_Host remote \<noteq> []" using assms(2) by (auto simp: ParseRemotePath_def split: if_splits option.splits prod.splits)
  define target where "target = (if rp_User remote \<noteq> [] then rp_User remote @ ''@'' @ rp_Host remote else rp_Host remote)"
  define af where "af = sshAddressFamilyFlag ''ssh'' ipv4 ipv6"
  have "BuildRSHCommand [] (rp_User remote) (rp_Host remote) ws ipv4 ipv6 = ''ssh'' # (if af = [] then [] else [af]) @ target # ws"
    by (simp add: BuildRSHCommand_def splitRSHCommand_def DefaultRSH_def target_def af_def)
  moreover have "set (if af = [] then [] else [af]) \<subseteq> {''-4'', ''-6''}"
    by (simp add: af_def sshAddressFamilyFlag_def)
  moreover have "target \<noteq> []" "hd target \<noteq> CHR ''-''"
    using host assms(3) by (auto simp: target_def hd_append split: if_splits)
  ultimately show ?thesis using assms(1,4) unfolding ssh_runs_def by simp
qed

section \<open>Properties\<close>

text \<open>
  C4. \<open>grsync -r SRC HOST:DEST\<close> copies a tree. Started with the flags of a plain recursive sync, the process runs
  \<open>ssh\<close> with the command line that \<open>syncToRemote\<close> builds; the words of that command line start the same program on
  the other host, as the server, with the flags and the path they carry. Each process reading exactly what the
  other writes, from the handshake on, both end with status 0; then the directory \<open>DEST\<close> of the other host, which
  was empty, holds exactly the files and directories below the source, nothing else on that host has changed
  content, and the source host's tree is as it was. This is for a well-formed source without special files and
  without symbolic links (the command line never carries \<open>--links\<close>, whatever the options), messages that fit a
  frame, no failing calls, and a path that the remote shell does not interpret.
\<close>

theorem remote_push_copies_tree:
  assumes "runs_command parse cobra" and "parses_flags parse" and "ssh_runs ssh"
    and "parse argv = Line ss [abs_path SD, dest]" and "opts = options_given ss" and "plain_sync opts" and "o_rsh opts = []"
    and "\<not> isRsyncURL dest" and "ParseRemotePath dest = Some remote" and "rp_Path remote = abs_path D"
    and "shell_word (abs_path D)" and "hd (rp_User remote @ rp_Host remote) \<noteq> CHR ''-''"
    and "S = cd_fs (pr_cli p)" and "T = cd_fs (pr_cli st)" and "w_env w' = w_env w"
    and "gob_ok (env_gob (w_env w))" and "zlib_ok (env_deflate (w_env w)) (env_inflate (w_env w))"
    and "fs_wf S" and "no_faults S" and "list_all plain SD" and "content_of S SD = Some DirData"
    and "source_ok (w_env w) (effectiveCompressOptions (set (map fst ss)) opts) S SD"
    and "\<And>r t. content_of S (SD @ r) \<noteq> Some (LinkData t)"
    and "fs_inv T" and "no_faults T" and "list_all plain D" and "content_of T D = Some DirData"
    and "\<And>r. r \<noteq> [] \<Longrightarrow> content_of T (D @ r) = None"
    and "\<And>es. snd (Walk (abs_path SD) (effectiveWalkOptions opts) S) = Ok es \<Longrightarrow>
      payload_fits (encFileList (env_gob (w_env w)) \<lparr>fl_Entries = es, fl_HardLinkGroups = []\<rparr>)"
  shows "\<exists>to_server q c t.
    main cobra listen (w\<lparr>w_spawn := (\<lambda>_. remote_shell ssh cobra listen w' st to_server)\<rparr>) argv p = (q, Some 0) \<and>
    cl_sessions (pr_cli q) = cl_sessions (pr_cli p) @ [c] \<and> w_written (c_out c) = to_server \<and> same_tree S (cd_fs (pr_cli q)) \<and>
    on_host ssh cobra listen w' st to_server
      (BuildRSHCommand [] (rp_User remote) (rp_Host remote) (remote_args (effectiveReceiverOptions opts) (abs_path D))
        (o_ipv4 opts) (o_ipv6 opts)) = Some (t, Some 0) \<and>
    (\<forall>r. r \<noteq> [] \<longrightarrow> content_of (cd_fs (pr_cli t)) (D @ r) = content_of S (SD @ r)) \<and>
    (\<forall>x. x = D \<or> take (length D) x \<noteq> D \<longrightarrow> content_of (cd_fs (pr_cli t)) x = content_of T x)"
proof -
  let ?ropts = "effectiveReceiverOptions opts"
  let ?argv = "BuildRSHCommand [] (rp_User remote) (rp_Host remote) (remote_args ?ropts (abs_path D)) (o_ipv4 opts) (o_ipv6 opts)"
  let ?words = "map (\<lambda>name. ''--'' @ name) (remote_flags ?ropts) @ [abs_path D]"
  have plain: "Recursive (effectiveWalkOptions opts)" "ro_PartialDir ?ropts = []" "\<not> ro_DryRun ?ropts"
    using assms(6) by (auto simp: plain_sync_def effectiveWalkOptions_def effectiveReceiverOptions_def)
  have words: "remote_args ?ropts (abs_path D) = ''grsync'' # ?words" by (rule remote_args_words [OF plain(2)])
  have "shell_word ''grsync''" by code_simp
  then have ssh: "ssh ?argv = Some (''grsync'' # ?words)"
    unfolding words using assms(11) remote_flags_ok(1) [of ?ropts]
    by (intro default_shell [OF assms(3,9,12)]) (simp only: list.pred_inject list_all_append)
  have c: "copies_source S SD (effectiveAttrOptions (server_options ?ropts)) (effectiveReceiverOptions (server_options ?ropts)) T D"
    using assms(23-28) plain(3) by (simp add: copies_source_def effectiveReceiverOptions_def server_options_simps)
  obtain sent received s c u out where
    push: "\<forall>spawn q. spawn ?argv = Started q \<and> pc_conn q = open_conn (frame_bytes ack_frame @ received) \<and>
        pc_stdinClose q = None \<and> pc_wait q = None \<longrightarrow>
      syncToRemote None (w_env w) spawn [] (abs_path SD) remote (effectiveWalkOptions opts) [] False ?ropts
        (effectiveCompressOptions (set (map fst ss)) opts) (o_ipv4 opts) (o_ipv6 opts) S = (s, Some c, Ok ())"
      "w_written (c_out c) = frame_bytes hello_frame @ sent" "same_tree S s"
    and serve: "runServer (w_env w) (abs_path D) (server_options ?ropts) \<lparr>ds_fs = T, ds_conn = open_conn (frame_bytes hello_frame @ sent)\<rparr>
      = (u, out, Ok ())" "w_written (c_out (ds_conn u)) = frame_bytes ack_frame @ received"
    and copy: "same_below S SD (ds_fs u) D" "same_outside T (ds_fs u) D"
    using push_serves [OF assms(16-22) plain(1) c assms(29), of "[]" remote ?ropts "o_ipv4 opts" "o_ipv6 opts"]
    unfolding assms(10) by blast
  define to_server where "to_server = frame_bytes hello_frame @ sent"
  define t where "t = st\<lparr>pr_cli := (pr_cli st)\<lparr>cd_fs := ds_fs u\<rparr>, pr_conn := ds_conn u, pr_stderr := pr_stderr st @ concat out\<rparr>"
  from serve(1) have "runServer (w_env w') (abs_path D) (server_options ?ropts)
      \<lparr>ds_fs = cd_fs (pr_cli st), ds_conn = open_conn to_server\<rparr> = (u, out, Ok ())"
    by (simp add: assms(14,15) to_server_def)
  from server_process [OF assms(1,2) this] ssh have host: "on_host ssh cobra listen w' st to_server ?argv = Some (t, Some 0)"
    by (simp add: on_host_def t_def)
  let ?w = "w\<lparr>w_spawn := (\<lambda>_. remote_shell ssh cobra listen w' st to_server)\<rparr>"
  have "syncToRemote None (w_env ?w) (w_spawn ?w (cl_next (pr_cli p))) (o_rsh opts) (abs_path SD) remote (effectiveWalkOptions opts) [] False
      ?ropts (effectiveCompressOptions (set (map fst ss)) opts) (o_ipv4 opts) (o_ipv6 opts) (cd_fs (pr_cli p)) = (s, Some c, Ok ())"
    using push(1) host serve(2) by (simp add: assms(7) assms(13) [symmetric] remote_shell_def t_def)
  from client_process [OF assms(1,4-6,8,9) this] obtain q where
    "main cobra listen ?w argv p = (q, Some 0)" "cd_fs (pr_cli q) = s" "cl_sessions (pr_cli q) = cl_sessions (pr_cli p) @ [c]" by blast
  with host push(2,3) copy [unfolded same_below_def same_outside_def] show ?thesis
    by - (rule exI [of _ to_server], rule exI [of _ q], rule exI [of _ c], rule exI [of _ t], simp add: to_server_def t_def)
qed

text \<open>A flag parser and a remote shell that do what is assumed of them.\<close>

definition long_flags :: "string list \<Rightarrow> parsed" where
  "long_flags argv =
     (let flags = filter (\<lambda>w. w \<noteq> [] \<and> hd w = CHR ''-'') argv;
          ss = map (\<lambda>w. (drop 2 w, BoolValue True)) flags
      in case set_flags ss default_options of
           None \<Rightarrow> LineRefused ''unknown flag''
         | Some opts \<Rightarrow> Line ss (filter (\<lambda>w. \<not> (w \<noteq> [] \<and> hd w = CHR ''-'')) argv))"

definition toy_ssh :: "string list \<Rightarrow> string list option" where
  "toy_ssh argv =
     (case dropWhile (\<lambda>w. w \<noteq> [] \<and> hd w = CHR ''-'') (tl argv) of [] \<Rightarrow> None | target # ws \<Rightarrow> Some ws)"

lemma long_flags_ok: "parses_flags long_flags" "runs_command long_flags (calls_command long_flags)"
proof -
  show "parses_flags long_flags"
    unfolding parses_flags_def
  proof (intro allI impI, elim conjE)
    fix names args
    assume names: "list_all (\<lambda>name. \<exists>short. (name, short, BoolFlag) \<in> set registered) names"
      and args: "list_all (\<lambda>a. a \<noteq> [] \<and> hd a \<noteq> CHR ''-'') args"
    let ?ss = "map (\<lambda>name. (name, BoolValue True)) names"
    have "\<exists>short kind. (name, short, kind) \<in> set registered \<and> fits kind v" if "(name, v) \<in> set ?ss" for name v
    proof -
      from that have v: "v = BoolValue True" "name \<in> set names" by auto
      with names obtain short where "(name, short, BoolFlag) \<in> set registered" unfolding list_all_iff by blast
      moreover have "fits BoolFlag v" by (simp add: v)
      ultimately show ?thesis by blast
    qed
    then have "set_flags ?ss default_options \<noteq> None" unfolding set_flags_accepts by blast
    then obtain opts where opts: "set_flags ?ss default_options = Some opts" by blast
    have "filter (\<lambda>w. w \<noteq> [] \<and> hd w = CHR ''-'') args = []" "filter (\<lambda>w. \<not> (w \<noteq> [] \<and> hd w = CHR ''-'')) args = args"
      using args by (auto simp: list_all_iff filter_empty_conv filter_id_conv)
    moreover have "filter (\<lambda>w. w \<noteq> [] \<and> hd w = CHR ''-'') (map (\<lambda>name. ''--'' @ name) names) = map (\<lambda>name. ''--'' @ name) names"
      "filter (\<lambda>w. \<not> (w \<noteq> [] \<and> hd w = CHR ''-'')) (map (\<lambda>name. ''--'' @ name) names) = []"
      by (auto simp: filter_id_conv filter_empty_conv)
    ultimately show "long_flags (map (\<lambda>name. ''--'' @ name) names @ args) = Line ?ss args"
      using opts by (simp only: long_flags_def Let_def filter_append append_Nil append_Nil2 map_map o_def) simp
  qed
  show "runs_command long_flags (calls_command long_flags)"
    by (auto simp: runs_command_def calls_command_def long_flags_def Let_def split: option.split)
qed

lemma toy_ssh_ok: "ssh_runs toy_ssh"
  unfolding ssh_runs_def
proof (intro allI impI, elim conjE)
  fix flags target ws
  assume flags: "set flags \<subseteq> {''-4'', ''-6''}" and "target \<noteq> ([] :: string)" "hd target \<noteq> CHR ''-''"
  then have "dropWhile (\<lambda>w. w \<noteq> [] \<and> hd w = CHR ''-'') (flags @ target # ws) = target # ws"
    by (subst dropWhile_append2) auto
  then show "toy_ssh (''ssh'' # flags @ target # ws) = Some ws" by (simp add: toy_ssh_def)
qed

definition pushing :: process_state where
  "pushing = small_process\<lparr>pr_cli := push_start\<rparr>"

definition pushed_to :: process_state where
  "pushed_to = small_process\<lparr>pr_cli := push_start\<lparr>cd_fs := small_dst\<rparr>\<rparr>"

theorem remote_push_copies_tree_witness:
  "\<exists>to_server q t.
    main (calls_command long_flags) (\<lambda>_ _. None)
      (push_world\<lparr>w_spawn := (\<lambda>_. remote_shell toy_ssh (calls_command long_flags) (\<lambda>_ _. None) push_world pushed_to to_server)\<rparr>)
      [''--archive'', ''/src'', ''me@host:/dst''] pushing = (q, Some 0) \<and>
    on_host toy_ssh (calls_command long_flags) (\<lambda>_ _. None) push_world pushed_to to_server
      [''ssh'', ''me@host'', ''grsync'', ''--server'', ''/dst''] = Some (t, Some 0) \<and>
    content_of (cd_fs (pr_cli t)) [''dst'', ''d'', ''f''] = Some (FileData [1, 2, 3])"
proof -
  let ?ss = "[(''archive'', BoolValue True)]" and ?remote = "\<lparr>rp_User = ''me'', rp_Host = ''host'', rp_Path = ''/dst''\<rparr>"
  have line: "long_flags [''--archive'', ''/src'', ''me@host:/dst''] = Line ?ss [abs_path [''src''], ''me@host:/dst'']"
    by (simp add: long_flags_def set_flag_def flag_vars_def abs_path_def)
  have dest: "\<not> isRsyncURL ''me@host:/dst''" "ParseRemotePath ''me@host:/dst'' = Some ?remote" by code_simp+
  have path: "abs_path [''dst''] = ''/dst''" "shell_word (abs_path [''dst''])" by code_simp+
  have opts: "plain_sync (options_given ?ss)" "effectiveCompressOptions (set (map fst ?ss)) (options_given ?ss) = no_compression"
    "effectiveWalkOptions (options_given ?ss) = \<lparr>Recursive = True, Dirs = False\<rparr>" "o_rsh (options_given ?ss) = []"
    "\<not> o_ipv4 (options_given ?ss)" "\<not> o_ipv6 (options_given ?ss)"
    "effectiveReceiverOptions (options_given ?ss) = plain_ropts"
    by (simp_all add: plain_sync_def options_given_def given_def given_string_def given_int_def given_rules_def
        effectiveCompressOptions_def effectiveWalkOptions_def no_compress_def no_compression_def effectiveReceiverOptions_def plain_ropts_def)
  have fs: "cd_fs (pr_cli pushing) = small_fs" "cd_fs (pr_cli pushed_to) = small_dst"
    by (simp_all add: pushing_def pushed_to_def)
  have no_links: "content_of small_fs ([''src''] @ r) \<noteq> Some (LinkData t)" for r t
    by (auto simp: small_fs_def content_of_def lookup_def ino_of_def dir_inode_def split: if_splits)
  let ?w = "\<lambda>to_server. push_world\<lparr>w_spawn := (\<lambda>_. remote_shell toy_ssh (calls_command long_flags) (\<lambda>_ _. None) push_world pushed_to to_server)\<rparr>"
  have "\<exists>to_server q c t. main (calls_command long_flags) (\<lambda>_ _. None) (?w to_server) [''--archive'', ''/src'', ''me@host:/dst''] pushing = (q, Some 0) \<and>
    cl_sessions (pr_cli q) = cl_sessions (pr_cli pushing) @ [c] \<and> w_written (c_out c) = to_server \<and> same_tree small_fs (cd_fs (pr_cli q)) \<and>
    on_host toy_ssh (calls_command long_flags) (\<lambda>_ _. None) push_world pushed_to to_server
      (BuildRSHCommand [] (rp_User ?remote) (rp_Host ?remote)
        (remote_args (effectiveReceiverOptions (options_given ?ss)) (abs_path [''dst'']))
        (o_ipv4 (options_given ?ss)) (o_ipv6 (options_given ?ss))) = Some (t, Some 0) \<and>
    (\<forall>r. r \<noteq> [] \<longrightarrow> content_of (cd_fs (pr_cli t)) ([''dst''] @ r) = content_of small_fs ([''src''] @ r)) \<and>
    (\<forall>x. x = [''dst''] \<or> take (length [''dst'']) x \<noteq> [''dst''] \<longrightarrow> content_of (cd_fs (pr_cli t)) x = content_of small_dst x)"
    by (rule remote_push_copies_tree [OF long_flags_ok(2,1) toy_ssh_ok line refl opts(1,4) dest _ path(2) _ fs(1) [symmetric] fs(2) [symmetric] refl],
        unfold opts(2,3) push_world_simps)
      (simp_all add: path(1) small_env_ok small_fs_ok small_dst_ok small_dst_empty [simplified] small_source_ok toy_zlib_ok plain_def no_links [simplified]
        small_walk_fits)
  then obtain to_server q t where
    q: "main (calls_command long_flags) (\<lambda>_ _. None) (?w to_server) [''--archive'', ''/src'', ''me@host:/dst''] pushing = (q, Some 0)"
    and t: "on_host toy_ssh (calls_command long_flags) (\<lambda>_ _. None) push_world pushed_to to_server
      (BuildRSHCommand [] (rp_User ?remote) (rp_Host ?remote)
        (remote_args (effectiveReceiverOptions (options_given ?ss)) (abs_path [''dst'']))
        (o_ipv4 (options_given ?ss)) (o_ipv6 (options_given ?ss))) = Some (t, Some 0)"
    and copy: "\<forall>r. r \<noteq> [] \<longrightarrow> content_of (cd_fs (pr_cli t)) ([''dst''] @ r) = content_of small_fs ([''src''] @ r)"
    by blast
  have "BuildRSHCommand [] ''me'' ''host'' (remote_args plain_ropts ''/dst'') False False
      = [''ssh'', ''me@host'', ''grsync'', ''--server'', ''/dst'']"
    by code_simp
  with t have "on_host toy_ssh (calls_command long_flags) (\<lambda>_ _. None) push_world pushed_to to_server
      [''ssh'', ''me@host'', ''grsync'', ''--server'', ''/dst''] = Some (t, Some 0)"
    using opts(5,6) by (simp only: opts(7) path(1) remotePath.select_convs simp_thms)
  moreover from spec [OF copy, of "[''d'', ''f'']"] have "content_of (cd_fs (pr_cli t)) [''dst'', ''d'', ''f''] = Some (FileData [1, 2, 3])"
    by (simp add: small_fs_def content_of_def lookup_def ino_of_def dir_inode_def)
  ultimately show ?thesis using q by blast
qed

end
