(* ===== verification/Resync.thy ===== *)
theory Resync
  imports LocalCopy
begin

unbundle bit_operations_syntax

text \<open>
  A sync onto a destination that already has everything: both sides go through the whole protocol and
  nothing changes.
\<close>

lemma session_unchanged:
  assumes "\<And>e. e \<in> set es \<Longrightarrow> entry_ok q env copts attrOpts ropts groups src D m e"
    and "\<And>e. e \<in> set es \<Longrightarrow> entry_effect attrOpts ropts groups src D e m = m"
  shows "entries_ok q env copts attrOpts ropts groups src D m es"
    and "session_contents attrOpts ropts groups src D m es = m"
  using assms by (induction es) simp_all

lemma result_same: "result_bytes ropts (Some (FileData d)) e d = d"
  by (simp add: result_bytes_def data_of_def)

text \<open>
  What is asked of the source: directories, regular files and links with a target, and for every file that
  its messages against an equal file fit a frame and that the strong checksum tells its own blocks apart.
\<close>

definition resync_ok :: "'h env \<Rightarrow> compressOptions \<Rightarrow> receiverOptions \<Rightarrow> fs \<Rightarrow> fpath \<Rightarrow> bool" where
  "resync_ok env copts ropts S SD \<longleftrightarrow>
     list_all (\<lambda>(p, n). let r = drop (length SD) p in
       r \<noteq> [] \<and> p = SD @ r \<longrightarrow>
         (case in_content (fs_inodes S n) of
            FileData d \<Rightarrow> file_ok env copts ropts (Some (FileData d)) (entry_at S SD r) d
          | DirData \<Rightarrow> True | LinkData t \<Rightarrow> t \<noteq> [] | _ \<Rightarrow> False)) (fs_names S)"

lemma resync_okD:
  assumes "resync_ok env copts ropts S SD" and "content_of S (SD @ r) = Some c" and "r \<noteq> []"
  shows "c = DirData \<or> (\<exists>t. c = LinkData t \<and> t \<noteq> []) \<or>
    (\<exists>d. c = FileData d \<and> file_ok env copts ropts (Some c) (entry_at S SD r) d)"
proof -
  from assms(2) obtain n where n: "ino_of S (SD @ r) = Some n" and c: "in_content (fs_inodes S n) = c"
    by (auto simp: content_of_ino)
  then have mem: "(SD @ r, n) \<in> set (fs_names S)" by (auto simp: ino_of_def dest: map_of_SomeD)
  show ?thesis
    using bspec [OF assms(1) [unfolded resync_ok_def list_all_iff] mem] assms(3) c by (cases c) (simp_all add: Let_def)
qed

lemma resync_entry:
  assumes S: "fs_wf S" "resync_ok env copts ropts S SD" and r: "content_of S (SD @ r) = Some c" "r \<noteq> []"
    and same: "content_of S (D @ r) = Some c"
    and temps: "\<And>r. r \<noteq> [] \<Longrightarrow> hasSuffix (last r) ''.grsync-tmp'' \<Longrightarrow> content_of S (D @ r) = None"
  shows "entry_ok True env copts attrOpts ropts [] (source_data S SD) D (content_of S) (entry_at S SD r)"
    and "entry_effect attrOpts ropts [] (source_data S SD) D (entry_at S SD r) (content_of S) = content_of S"
    and "exchanges [] (entry_at S SD r) \<longrightarrow> is_file (content_of S (SD @ comps (entry_at S SD r)))"
proof -
  let ?e = "entry_at S SD r" and ?m = "content_of S"
  note facts = entry_at_facts [OF S(1) r]
  note kinds = resync_okD [OF S(2) r]
  have "ino_of S (D @ r) \<noteq> None" using same content_ino [of S "D @ r"] by simp
  from wf_prefix [OF S(1) this] have above: "dirs_in ?m (D @ r)" by (auto simp: dirs_in_def list_all_iff)
  have free: "no_temps ?m (D @ butlast r) (last r)"
    by (simp add: no_temps_def temps temp_suffix)
  have path: "source_data S SD (rel_path r) = data_of (Some c)"
    using r facts(2) by (simp add: source_data_def path_comps_rel)
  have ex: "exchanges [] ?e \<longleftrightarrow> c \<noteq> DirData \<and> (\<forall>t. c \<noteq> LinkData t)"
    using facts(4,5) by (auto simp: exchanges_def secondary_paths_def)
  show "entry_ok True env copts attrOpts ropts [] (source_data S SD) D ?m ?e"
    using kinds facts(1-6) ex above free same r(2) path by (auto simp: entry_ok_def Let_def data_of_def)
  show "entry_effect attrOpts ropts [] (source_data S SD) D ?e ?m = ?m"
    using kinds
  proof (elim disjE exE conjE)
    fix d assume "c = FileData d"
    with facts ex path same show ?thesis
      by (simp add: entry_effect_def Let_def data_of_def result_same fun_upd_idem)
  qed (use facts same in \<open>simp_all add: entry_effect_def Let_def fun_upd_idem\<close>)
  show "exchanges [] ?e \<longrightarrow> is_file (content_of S (SD @ comps ?e))"
    using ex kinds r(1) facts(1) by (auto simp: is_file_def)
qed

text \<open>
  C3. Syncing again changes nothing. When every file, directory and link below the source is at the same place
  in the destination with the same content (the destination may have more, but no temporary file), a local
  sync with any filter rules, append mode and attribute options but hard links runs through the whole protocol, ends without an
  error, and the content of every name of the file system is what it was.
\<close>

theorem resync_changes_nothing:
  assumes "gob_ok (env_gob env)" and "zlib_ok (env_deflate env) (env_inflate env)"
    and "fs_inv S" and "no_faults S" and "list_all plain SD" and "content_of S SD = Some DirData" and "list_all plain D"
    and "take (length SD) D \<noteq> SD" and "take (length D) SD \<noteq> D"
    and "\<And>r c. r \<noteq> [] \<Longrightarrow> content_of S (SD @ r) = Some c \<Longrightarrow> content_of S (D @ r) = Some c"
    and "\<And>r. r \<noteq> [] \<Longrightarrow> hasSuffix (last r) ''.grsync-tmp'' \<Longrightarrow> content_of S (D @ r) = None"
    and "resync_ok env copts ropts S SD"
    and "Recursive walkOpts" and "\<not> ro_DryRun ropts" and "ro_PartialDir ropts = []" and "\<not> ao_HardLinks attrOpts"
    and "\<And>walked. snd (Walk (abs_path SD) walkOpts S) = Ok walked \<Longrightarrow> payload_fits (encFileList (env_gob env)
      \<lparr>fl_Entries = FilterEntries walked rules, fl_HardLinkGroups = []\<rparr>)"
  shows "\<exists>T out. syncLocal None env (abs_path SD) (abs_path D) walkOpts rules attrOpts ropts copts S = (T, out, Ok ()) \<and>
    content_of T = content_of S"
proof -
  have wf: "fs_wf S" using assms(3) by (simp add: fs_inv_def)
  obtain S' walked where walk: "Walk (abs_path SD) walkOpts S = (S', Ok walked)" "same_tree S S'"
    and w: "sorted_wrt (<) (map fe_Path walked)" "set walked = entry_at S SD ` {r. r \<noteq> [] \<and> ino_of S (SD @ r) \<noteq> None}"
    by (rule Walk_recursive [OF wf assms(4,13,5,6)])
  let ?es = "FilterEntries walked rules" and ?src = "source_data S SD"
  have each: "entry_ok True env copts attrOpts ropts [] ?src D (content_of S) e \<and>
      entry_effect attrOpts ropts [] ?src D e (content_of S) = content_of S \<and>
      (exchanges [] e \<longrightarrow> is_file (content_of S (SD @ comps e)))" if "e \<in> set ?es" for e
  proof -
    from that FilterEntries_subset w(2) obtain r where e: "e = entry_at S SD r" and r: "r \<noteq> []" "ino_of S (SD @ r) \<noteq> None"
      by blast
    from r(2) obtain c where c: "content_of S (SD @ r) = Some c" using content_ino [of S "SD @ r"] by auto
    from resync_entry [OF wf assms(12) c r(1) assms(10) [OF r(1) c] assms(11)] show ?thesis unfolding e by blast
  qed
  have entries: "entries_ok True env copts attrOpts ropts [] ?src D (content_of S) ?es"
    using each by (blast intro: session_unchanged(1))
  have still: "session_contents attrOpts ropts [] ?src D (content_of S) ?es = content_of S"
    using each by (blast intro: session_unchanged(2))
  have files: "\<forall>e \<in> set ?es. exchanges [] e \<longrightarrow> is_file (content_of S (SD @ comps e))" using each by blast
  have fits: "payload_fits (encFileList (env_gob env) \<lparr>fl_Entries = ?es, fl_HardLinkGroups = []\<rparr>)"
    using assms(17) walk(1) by simp
  from local_session_runs [OF assms(1-5) walk walked_few [OF wf w] refl assms(14,15,7,16) entries files fits]
  show ?thesis unfolding still .
qed

text \<open>The destination has the directory and the file of the source, and a file of its own.\<close>

definition synced_fs :: fs where
  "synced_fs = small_fs\<lparr>fs_names := fs_names small_fs @
       [([''dst''], 4), ([''dst'', ''d''], 5), ([''dst'', ''d'', ''f''], 6), ([''dst'', ''own''], 7)],
     fs_inodes := (fs_inodes small_fs)(6 := dir_inode\<lparr>in_content := FileData [1, 2, 3], in_perm := 420\<rparr>,
       7 := dir_inode\<lparr>in_content := FileData [9], in_perm := 420\<rparr>), fs_next := 8\<rparr>"

definition synced_env :: "bytes env" where
  "synced_env =
     (let sig = GenerateSignature (\<lambda>b. b) [1, 2, 3] in
      toy_env [\<lparr>fl_Entries = update_list, fl_HardLinkGroups = []\<rparr>]
        [\<lparr>sm_Path = ''d/f'', sm_Sig = sig, sm_Append = appendNone\<rparr>]
        [delta_message toy_deflate ''d/f'' (GenerateDelta (\<lambda>b. b) sig [1, 2, 3]) no_compression])"

lemma synced_fs_facts:
  "fs_inv synced_fs" "no_faults synced_fs" "content_of synced_fs [''src''] = Some DirData"
  by (simp_all add: fs_inv_def fs_wf_def synced_fs_def small_fs_def no_faults_def content_of_def lookup_def ino_of_def
      dir_inode_def plain_def)

lemma synced_same: "r \<noteq> [] \<Longrightarrow> content_of synced_fs (''src'' # r) = Some c \<Longrightarrow> content_of synced_fs (''dst'' # r) = Some c"
  by (auto simp: synced_fs_def small_fs_def content_of_def lookup_def ino_of_def dir_inode_def split: if_splits)

lemma synced_no_temps:
  "r \<noteq> [] \<Longrightarrow> hasSuffix (last r) ''.grsync-tmp'' \<Longrightarrow> content_of synced_fs (''dst'' # r) = None"
  by (auto simp: synced_fs_def small_fs_def content_of_def lookup_def ino_of_def hasSuffix_def)

lemma synced_entry: "entry_at synced_fs [''src''] [''d'', ''f''] = entry_at small_fs [''src''] [''d'', ''f'']"
  by (simp add: entry_at_def lookup_def ino_of_def synced_fs_def small_fs_def)

lemma synced_resync_ok: "resync_ok synced_env no_compression plain_ropts synced_fs [''src'']"
proof -
  let ?f = "entry_at small_fs [''src''] [''d'', ''f'']"
  have entry: "fe_Path ?f = ''d/f''" "fe_Size ?f = 3" by code_simp+
  have mode: "\<not> AppendMode plain_ropts" by code_simp
  have plan: "plan synced_env plain_ropts (Some (FileData [1, 2, 3])) ?f = (GenerateSignature (\<lambda>b. b) [1, 2, 3], appendNone)"
    by (simp add: plan_def sign_plan_def mode data_of_def synced_env_def toy_env_def Let_def)
  have "strong_separates (\<lambda>b. b) [1, 2, 3] DefaultBlockSize [1, 2, 3]" by (simp add: strong_separates_def list_all_iff)
  then have "file_ok synced_env no_compression plain_ropts (Some (FileData [1, 2, 3])) ?f [1, 2, 3]"
    by (simp add: file_ok_def plan entry data_of_def reply_def sender_ops_def)
      (simp add: synced_env_def toy_env_def Let_def payload_fits_def table_enc_def maxFramePayload_def DefaultBlockSize_def rel_path_def)
  moreover have "fs_names synced_fs = [([], 0), ([''src''], 1), ([''src'', ''d''], 2), ([''src'', ''d'', ''f''], 3), ([''dst''], 4),
      ([''dst'', ''d''], 5), ([''dst'', ''d'', ''f''], 6), ([''dst'', ''own''], 7)]"
    and "in_content (fs_inodes synced_fs 2) = DirData" "in_content (fs_inodes synced_fs 3) = FileData [1, 2, 3]"
    by (simp_all add: synced_fs_def small_fs_def dir_inode_def)
  ultimately show ?thesis by (simp add: resync_ok_def synced_entry Let_def)
qed

theorem resync_changes_nothing_witness:
  "\<exists>T out. syncLocal None synced_env (abs_path [''src'']) (abs_path [''dst'']) \<lparr>Recursive = True, Dirs = False\<rparr> []
      (effectiveAttrOptions local_options) plain_ropts no_compression synced_fs = (T, out, Ok ()) \<and>
     content_of T = content_of synced_fs"
proof (rule resync_changes_nothing)
  show "gob_ok (env_gob synced_env)" "zlib_ok (env_deflate synced_env) (env_inflate synced_env)"
    by (simp_all add: synced_env_def toy_env_def Let_def table_gob_ok toy_zlib_ok)
  show "\<not> ro_DryRun plain_ropts" "ro_PartialDir plain_ropts = []" "\<not> ao_HardLinks (effectiveAttrOptions local_options)"
    by (simp_all add: plain_ropts_def effectiveAttrOptions_def local_options_def plain_options_def)
  show "payload_fits (encFileList (env_gob synced_env) \<lparr>fl_Entries = FilterEntries walked [], fl_HardLinkGroups = []\<rparr>)"
    if "snd (Walk (abs_path [''src'']) \<lparr>Recursive = True, Dirs = False\<rparr> synced_fs) = Ok walked" for walked
  proof -
    have "snd (Walk (abs_path [''src'']) \<lparr>Recursive = True, Dirs = False\<rparr> synced_fs) = Ok update_list"
      unfolding update_list_def by code_simp
    with that show ?thesis
      by (simp add: FilterEntries_none synced_env_def toy_env_def Let_def payload_fits_def table_enc_def maxFramePayload_def)
  qed
qed (simp_all add: synced_fs_facts synced_same synced_no_temps synced_resync_ok plain_def)

end
