(* ===== verification/Windows.thy ===== *)
theory Windows
  imports HardLinks Credentials
begin

unbundle bit_operations_syntax

text \<open>
  The files that are compiled on Windows in place of their Unix counterparts: \<open>hardlinks_windows.go\<close>,
  \<open>uidgid_windows.go\<close>, \<open>specialfiles_windows.go\<close> and \<open>passwordfile_windows.go\<close>. The other theories model the
  Unix build; here is what the comments in these files say of the difference.
\<close>

definition lookupHardLinkKey_windows :: "nat \<times> inode \<Rightarrow> hardLinkKey option" where
  "lookupHardLinkKey_windows info = None"

definition HardLinksSupported_windows :: bool where
  "HardLinksSupported_windows = False"

definition lookupUIDGID_windows :: "inode \<Rightarrow> u32 \<times> u32 \<times> bool" where
  "lookupUIDGID_windows info = (0, 0, False)"

datatype windows_error = NamedPipeNotSupported string

definition applyNamedPipe_windows :: "string \<Rightarrow> fileMode \<Rightarrow> (fs, windows_error, unit) prog" where
  "applyNamedPipe_windows destPath mode = throw (NamedPipeNotSupported destPath)"

definition checkPasswordFilePermissions_windows :: "string \<Rightarrow> unit cred" where
  "checkPasswordFilePermissions_windows path = skip"

text \<open>\<open>DetectHardLinks\<close> ``always returns no groups there''.\<close>

lemma collect_links_windows:
  "collect_links lookupHardLinkKey_windows root m es s = (t, Ok m') \<Longrightarrow> m' = m"
  by (induction lookupHardLinkKey_windows root m es arbitrary: s rule: collect_links.induct)
    (auto simp: ret_def bind_def lookupHardLinkKey_windows_def split: if_splits prod.splits sum.splits)

lemma DetectHardLinks_windows:
  "DetectHardLinks lookupHardLinkKey_windows root es s = (t, Ok groups) \<Longrightarrow> groups = []"
  by (auto simp: DetectHardLinks_def bind_def ret_def group_links_def split: prod.splits sum.splits
      dest!: collect_links_windows)

text \<open>An entry without an owner: \<open>--owner\<close> and \<open>--group\<close> are counted as skipped and no call is made.\<close>

lemma applyOwnership_unavailable:
  "\<not> fe_OwnershipAvailable entry \<Longrightarrow> own \<or> grp \<Longrightarrow> applyOwnership path entry own grp s = (s, Ok (False, True))"
  by (auto simp: applyOwnership_def ret_def)

end
