(* ===== verification/DirAttributes.thy ===== *)
theory DirAttributes
  imports Copying
begin

unbundle bit_operations_syntax

text \<open>
  Attributes of directories: what \<open>ApplyAttributes\<close> sets on an inode, and that after the receiver's last pass,
  which comes after every write and link, the directories have the attributes of their entries.
\<close>

section \<open>One inode\<close>

definition set_attrs :: "attrOptions \<Rightarrow> fileEntry \<Rightarrow> inode \<Rightarrow> inode" where
  "set_attrs opts e i =
     i\<lparr>in_perm := if ao_Perms opts then Perm (fe_Mode e) else in_perm i,
       in_mtime := if ao_Times opts then fe_ModTime e else in_mtime i,
       in_uid := if ao_Owner opts \<and> fe_OwnershipAvailable e then fe_UID e else in_uid i,
       in_gid := if ao_Group opts \<and> fe_OwnershipAvailable e then fe_GID e else in_gid i\<rparr>"

definition changed :: "nat \<Rightarrow> (inode \<Rightarrow> inode) \<Rightarrow> fs \<Rightarrow> fs \<Rightarrow> bool" where
  "changed n f s t \<longleftrightarrow> fs_names t = fs_names s \<and> fs_inodes t = (fs_inodes s)(n := f (fs_inodes s n))"

definition there :: "fpath \<Rightarrow> nat \<Rightarrow> fs \<Rightarrow> bool" where
  "there p n s \<longleftrightarrow> dirs_above s p \<and> ino_of s p = Some n \<and> \<not> is_link s p"

lemma changed_comp: "changed n f s t \<Longrightarrow> changed n g t u \<Longrightarrow> changed n (g \<circ> f) s u"
  by (simp add: changed_def)

lemma changed_content: "changed n f s t \<Longrightarrow> (\<And>i. in_content (f i) = in_content i) \<Longrightarrow> content_of t = content_of s"
  by (rule ext) (auto simp: changed_def content_of_ino ino_of_def intro!: option.map_cong0)

lemma changed_there:
  assumes "changed n f s t" and "\<And>i. in_content (f i) = in_content i"
  shows "there p m t = there p m s"
proof -
  have "ino_of t p = ino_of s p" using assms(1) by (simp add: changed_def ino_of_def)
  with changed_content [OF assms] show ?thesis by (simp add: there_def dirs_above_def is_link_def)
qed

lemma upd_changed:
  assumes "sys_call (with_inode follow (abs_path p) (\<lambda>n s. (upd_inode n f s, Ok ()))) s = (t, Ok x)" and "there p n s"
  shows "changed n f s t"
  using assms by (auto simp: sys_call_def with_inode_abs there_def changed_def split: option.splits)

lemma optional_step:
  assumes "(if b then wrap_err e f else skip) s = (t, Ok x)" and "there p n s"
    and "f s = (t, Ok x) \<Longrightarrow> changed n g s t"
  shows "changed n (if b then g else id) s t"
  using assms by (cases b) (auto simp: wrap_err_Ok_iff ret_def changed_def)

lemma ApplyAttributes_changes:
  assumes run: "ApplyAttributes e (abs_path p) opts s = (t, Ok res)" and p: "there p n s" and mode: "fe_Mode e AND ModeSymlink = 0"
  shows "changed n (set_attrs opts e) s t"
proof -
  let ?perm = "if ao_Perms opts then (\<lambda>i. i\<lparr>in_perm := Perm (fe_Mode e)\<rparr>) else id"
  let ?time = "if ao_Times opts then (\<lambda>i. i\<lparr>in_mtime := fe_ModTime e\<rparr>) else id"
  let ?own = "\<lambda>i. i\<lparr>in_uid := if ao_Owner opts \<and> fe_OwnershipAvailable e then fe_UID e else in_uid i,
    in_gid := if ao_Group opts \<and> fe_OwnershipAvailable e then fe_GID e else in_gid i\<rparr>"
  obtain u v r where s1: "(if ao_Perms opts then applyPerms (abs_path p) (fe_Mode e) else skip) s = (u, Ok ())"
    and s2: "(if ao_Times opts then applyTimes (abs_path p) (fe_ModTime e) else skip) u = (v, Ok ())"
    and s3: "(if ao_Owner opts \<or> ao_Group opts
       then bind (applyOwnership (abs_path p) e (ao_Owner opts) (ao_Group opts)) (\<lambda>(applied, skipped).
              ret (r\<lparr>OwnerApplied := applied, OwnerSkipped := skipped\<rparr>))
       else ret r) v = (t, Ok res)"
    using run mode by (auto simp: ApplyAttributes_def apply_first_def bind_Ok_iff ret_def)
  have c1: "changed n ?perm s u"
    using s1 p upd_changed [of True p _ s u "()" n] by (intro optional_step) (auto simp: applyPerms_def Chmod_def)
  then have p1: "there p n u" using changed_there [OF c1, of p n] p by simp
  have c2: "changed n ?time u v"
    using s2 p1 upd_changed [of True p _ u v "()" n] by (intro optional_step) (auto simp: applyTimes_def Chtimes_def)
  then have p2: "there p n v" using changed_there [OF c2, of p n] p1 by simp
  have c3: "changed n ?own v t"
  proof (cases "(ao_Owner opts \<or> ao_Group opts) \<and> fe_OwnershipAvailable e")
    case True
    then have "Lchown (abs_path p) (if ao_Owner opts then Some (fe_UID e) else None)
        (if ao_Group opts then Some (fe_GID e) else None) v = (t, Ok ())"
      using s3 by (auto simp: applyOwnership_def bind_Ok_iff wrap_err_Ok_iff ret_def)
    from upd_changed [OF this [unfolded Lchown_def] p2] True show ?thesis
      by (auto simp: changed_def)
  next
    case False
    with s3 have "t = v" by (auto simp: applyOwnership_def bind_Ok_iff ret_def split: if_splits)
    with False show ?thesis by (auto simp: changed_def)
  qed
  have "?own \<circ> (?time \<circ> ?perm) = set_attrs opts e" by (auto simp: set_attrs_def)
  with changed_comp [OF changed_comp [OF c1 c2] c3] show ?thesis by (simp add: comp_assoc)
qed

section \<open>The last pass\<close>

text \<open>The inode has the attributes that were asked for.\<close>

definition has_attrs :: "attrOptions \<Rightarrow> fileEntry \<Rightarrow> inode \<Rightarrow> bool" where
  "has_attrs opts e i \<longleftrightarrow>
     (ao_Perms opts \<longrightarrow> in_perm i = Perm (fe_Mode e)) \<and> (ao_Times opts \<longrightarrow> in_mtime i = fe_ModTime e) \<and>
     (fe_OwnershipAvailable e \<longrightarrow> (ao_Owner opts \<longrightarrow> in_uid i = fe_UID e) \<and> (ao_Group opts \<longrightarrow> in_gid i = fe_GID e))"

lemma set_has_attrs: "has_attrs opts e (set_attrs opts e i)" "in_content (set_attrs opts e i) = in_content i"
  by (simp_all add: has_attrs_def set_attrs_def)

lemma dir_entry_there:
  assumes "dir_entry_ok D (content_of s) e" and "list_all plain D"
  shows "\<exists>n. there (D @ comps e) n s" and "Join (abs_path D) (fe_Path e) = abs_path (D @ comps e)"
    and "fe_Mode e AND ModeSymlink = 0"
proof -
  obtain r b where e: "fe_Path e = rel_path (r @ [b])" "dirs_in (content_of s) (D @ r @ [b])"
      "content_of s (D @ r @ [b]) = Some DirData" "fe_Mode e AND ModeSymlink = 0"
    using assms(1) by (auto simp: dir_entry_ok_def)
  have plain: "list_all plain (r @ [b])" using dirs_in_plain [OF e(2)] by simp
  then have c: "comps e = r @ [b]" using e(1) by (simp add: comps_def path_comps_rel del: list_all_append)
  obtain n where "ino_of s (D @ r @ [b]) = Some n" using e(3) content_ino [of s "D @ r @ [b]"] by auto
  moreover have "dirs_above s (D @ r @ [b])" using e(2) by (simp add: dirs_above_def dirs_in_def)
  ultimately show "\<exists>n. there (D @ comps e) n s" using e(3) unfolding c by (auto simp: there_def is_link_def)
  show "Join (abs_path D) (fe_Path e) = abs_path (D @ comps e)"
    unfolding c e(1) using assms(2) plain by (intro Join_abs_rel) simp_all
  show "fe_Mode e AND ModeSymlink = 0" by (rule e(4))
qed

lemma on_fs_Ok: "on_fs err f s = (t, Ok x) \<longleftrightarrow> (\<exists>u. f (rs_fs s) = (u, Ok x) \<and> t = s\<lparr>rs_fs := u\<rparr>)"
  by (cases "f (rs_fs s)") (auto simp: on_fs_run map_sum_def split: sum.splits)

lemma dir_pass:
  assumes D: "list_all plain D"
  shows "each (\<lambda>entry. bind (on_fs (ApplyingDirAttributes (fe_Path entry))
        (ApplyAttributes entry (Join (abs_path D) (fe_Path entry)) opts)) (\<lambda>_. skip)) ds s = (t, Ok ()) \<Longrightarrow>
    \<forall>e \<in> set ds. dir_entry_ok D (content_of (rs_fs s)) e \<Longrightarrow>
    \<forall>d \<in> set ds. \<forall>e \<in> set ds. ino_of (rs_fs s) (D @ comps d) = ino_of (rs_fs s) (D @ comps e) \<longrightarrow> d = e \<Longrightarrow>
    fs_names (rs_fs t) = fs_names (rs_fs s) \<and> content_of (rs_fs t) = content_of (rs_fs s) \<and>
    (\<forall>n. (\<forall>e \<in> set ds. ino_of (rs_fs s) (D @ comps e) \<noteq> Some n) \<longrightarrow> fs_inodes (rs_fs t) n = fs_inodes (rs_fs s) n) \<and>
    (\<forall>e \<in> set ds. \<exists>n. ino_of (rs_fs s) (D @ comps e) = Some n \<and> has_attrs opts e (fs_inodes (rs_fs t) n))"
proof (induction ds arbitrary: s)
  case Nil
  then show ?case by (simp add: ret_def)
next
  case (Cons d ds)
  obtain n where n: "there (D @ comps d) n (rs_fs s)"
    using dir_entry_there(1) [OF _ D] Cons.prems(2) by (metis list.set_intros(1))
  have d: "Join (abs_path D) (fe_Path d) = abs_path (D @ comps d)" "fe_Mode d AND ModeSymlink = 0"
    using dir_entry_there(2,3) [OF _ D] Cons.prems(2) by (metis list.set_intros(1))+
  obtain u x where u: "ApplyAttributes d (abs_path (D @ comps d)) opts (rs_fs s) = (u, Ok x)"
    and rest: "each (\<lambda>entry. bind (on_fs (ApplyingDirAttributes (fe_Path entry))
        (ApplyAttributes entry (Join (abs_path D) (fe_Path entry)) opts)) (\<lambda>_. skip)) ds (s\<lparr>rs_fs := u\<rparr>) = (t, Ok ())"
    using Cons.prems(1) unfolding each_Cons d(1) by (auto simp: bind_Ok_iff on_fs_Ok ret_def)
  have step: "changed n (set_attrs opts d) (rs_fs s) u" by (rule ApplyAttributes_changes [OF u n d(2)])
  then have same: "content_of u = content_of (rs_fs s)" by (rule changed_content) (simp add: set_has_attrs)
  have ino: "ino_of u = ino_of (rs_fs s)" using step by (simp add: changed_def ino_of_def fun_eq_iff)
  have dn: "ino_of (rs_fs s) (D @ comps d) = Some n" using n by (simp add: there_def)
  note IH = Cons.IH [OF rest, simplified, unfolded same ino]
  have IH': "fs_names (rs_fs t) = fs_names u" "content_of (rs_fs t) = content_of (rs_fs s)"
      "\<forall>k. (\<forall>e \<in> set ds. ino_of (rs_fs s) (D @ comps e) \<noteq> Some k) \<longrightarrow> fs_inodes (rs_fs t) k = fs_inodes u k"
      "\<forall>e \<in> set ds. \<exists>k. ino_of (rs_fs s) (D @ comps e) = Some k \<and> has_attrs opts e (fs_inodes (rs_fs t) k)"
    using IH Cons.prems(2,3) by simp_all
  have "has_attrs opts d (fs_inodes (rs_fs t) n)"
  proof (cases "d \<in> set ds")
    case True
    with IH'(4) dn show ?thesis by auto
  next
    case False
    then have "\<forall>e \<in> set ds. ino_of (rs_fs s) (D @ comps e) \<noteq> Some n"
      using Cons.prems(3) dn by (metis list.set_intros(1,2))
    with IH'(3) have "fs_inodes (rs_fs t) n = fs_inodes u n" by blast
    then show ?thesis using step set_has_attrs(1) by (simp add: changed_def)
  qed
  moreover have "fs_inodes (rs_fs t) k = fs_inodes (rs_fs s) k"
    if "\<forall>e \<in> set (d # ds). ino_of (rs_fs s) (D @ comps e) \<noteq> Some k" for k
    using that IH'(3) step dn by (auto simp: changed_def)
  moreover have "fs_names (rs_fs t) = fs_names (rs_fs s)" using IH'(1) step by (simp add: changed_def)
  ultimately show ?case using IH'(2,4) dn by simp
qed

text \<open>The attributes of an entry that is no link do not touch names and contents, wherever its path leads.\<close>

definition same_names :: "fs \<Rightarrow> fs \<Rightarrow> bool" where
  "same_names s t \<longleftrightarrow> fs_names t = fs_names s \<and> content_of t = content_of s"

interpretation names: frame_rel same_names
  by unfold_locales (auto simp: same_names_def)

interpretation rnames: frame_rel "\<lambda>s t. same_names (rs_fs s) (rs_fs t)"
  by unfold_locales (auto simp: same_names_def)

lemma upd_keeps_names:
  assumes "\<And>i. in_content (f i) = in_content i"
  shows "names.keeps (sys_call (with_inode follow path (\<lambda>n s. (upd_inode n f s, Ok ()))))"
  using assms
  by (intro names.keepsI)
    (auto simp: sys_call_def with_inode_def with_path_def same_names_def fun_eq_iff upd_inode_content
      split: option.split sum.split)

lemma attr_calls_keep_names:
  "names.keeps (Chmod path perm)" "names.keeps (Chtimes path mtime)" "names.keeps (Lchown path uid gid)"
  unfolding Chmod_def Chtimes_def Lchown_def by (rule upd_keeps_names; simp)+

lemma ApplyAttributes_keeps_names:
  "fe_Mode e AND ModeSymlink = 0 \<Longrightarrow> names.keeps (ApplyAttributes e path opts)"
  unfolding ApplyAttributes_def apply_first_def applyPerms_def applyTimes_def applyOwnership_def
  by (auto intro!: names.keeps_intros attr_calls_keep_names split: prod.split)

lemma on_fs_keeps_names: "names.keeps f \<Longrightarrow> rnames.keeps (on_fs err f)"
  by (simp add: names.keeps_def rnames.keeps_def on_fs_run)

lemma dir_attributes_keeps_names:
  "\<forall>e \<in> set es. fe_IsDir e \<longrightarrow> fe_Mode e AND ModeSymlink = 0 \<Longrightarrow> rnames.keeps (dir_attributes dest opts es)"
  unfolding dir_attributes_def
  by (auto intro!: rnames.keeps_each rnames.keeps_bind rnames.keeps_ret on_fs_keeps_names ApplyAttributes_keeps_names)

section \<open>After the whole run\<close>

text \<open>
  C30. Directories end with the attributes of their entries. Whatever else the peer sends and whichever calls fail: when
  \<open>Receiver\<close> ends without an error and the directories of the received list are then directories of the destination,
  each with an inode of its own, every one of them has the permissions, the modification time and (where the
  sender knew them) the owner and group of its entry, as far as they were asked for; no file written, link
  created or subdirectory made later in the run has disturbed them.
\<close>

theorem Receiver_sets_dir_attributes:
  assumes "Receiver env (abs_path D) attrOpts ropts s = (t, Ok ())"
    and "on_conn ReceivingFileList (recvFileList (env_gob env)) s = (s', Ok (entries, groups))"
    and "\<not> ro_DryRun ropts" and "list_all plain D"
    and "\<forall>e \<in> set entries. fe_IsDir e \<longrightarrow> dir_entry_ok D (content_of (rs_fs t)) e"
    and "\<forall>d \<in> set entries. \<forall>e \<in> set entries. fe_IsDir d \<and> fe_IsDir e \<and>
      ino_of (rs_fs t) (D @ comps d) = ino_of (rs_fs t) (D @ comps e) \<longrightarrow> d = e"
    and "e \<in> set entries" and "fe_IsDir e"
  shows "\<exists>i. lookup (rs_fs t) (D @ comps e) = Some i \<and>
    (ao_Perms attrOpts \<longrightarrow> in_perm i = Perm (fe_Mode e)) \<and> (ao_Times attrOpts \<longrightarrow> in_mtime i = fe_ModTime e) \<and>
    (fe_OwnershipAvailable e \<longrightarrow> (ao_Owner attrOpts \<longrightarrow> in_uid i = fe_UID e) \<and> (ao_Group attrOpts \<longrightarrow> in_gid i = fe_GID e))"
proof -
  let ?ds = "rev (filter fe_IsDir entries)"
  obtain u v where pass: "dir_attributes (abs_path D) attrOpts entries u = (v, Ok ())"
    and last: "final_stats env ropts v = (t, Ok ())"
    using assms(1-3) by (auto simp: Receiver_def bind_Ok_iff throw_def split: if_splits)
  have t: "rs_fs t = rs_fs v" using last by (auto simp: final_stats_def modify_def ret_def Let_def split: if_splits)
  have "\<forall>e \<in> set entries. fe_IsDir e \<longrightarrow> fe_Mode e AND ModeSymlink = 0" using assms(5) by (auto simp: dir_entry_ok_def)
  from rnames.keepsD' [OF dir_attributes_keeps_names [OF this] pass]
  have names: "fs_names (rs_fs v) = fs_names (rs_fs u)" "content_of (rs_fs v) = content_of (rs_fs u)"
    by (simp_all add: same_names_def)
  then have ino: "ino_of (rs_fs v) = ino_of (rs_fs u)" by (simp add: ino_of_def fun_eq_iff)
  have dirs: "\<forall>e \<in> set ?ds. dir_entry_ok D (content_of (rs_fs u)) e"
    and apart: "\<forall>d \<in> set ?ds. \<forall>e \<in> set ?ds. ino_of (rs_fs u) (D @ comps d) = ino_of (rs_fs u) (D @ comps e) \<longrightarrow> d = e"
    using assms(5,6) unfolding t names ino by auto
  from dir_pass [OF assms(4) pass [unfolded dir_attributes_def] dirs apart] assms(7,8)
  obtain n where "ino_of (rs_fs v) (D @ comps e) = Some n" "has_attrs attrOpts e (fs_inodes (rs_fs v) n)"
    unfolding ino by auto
  then show ?thesis unfolding t by (simp add: lookup_def has_attrs_def)
qed

definition dir_entry :: fileEntry where
  "dir_entry = (entry_at small_fs [''src''] [''d''])\<lparr>fe_ModTime := 77\<rparr>"

definition dir_env :: "bytes env" where
  "dir_env = toy_env [\<lparr>fl_Entries = [dir_entry], fl_HardLinkGroups = []\<rparr>] [] []"

theorem Receiver_sets_dir_attributes_witness:
  "\<exists>input t i. Receiver dir_env (abs_path [''dst'']) all_attrs plain_ropts (receiver_start small_dst (open_conn input)) = (t, Ok ()) \<and>
    lookup (rs_fs t) ([''dst''] @ comps dir_entry) = Some i \<and> in_mtime i = 77"
proof -
  let ?s = "receiver_start small_dst (open_conn (fileList_bytes (env_gob dir_env) [dir_entry] []))"
  let ?m = "(content_of small_dst)([''dst'', ''d''] \<mapsto> DirData)"
  have entry: "fe_IsDir dir_entry" "fe_Path dir_entry = ''d''" "comps dir_entry = [''d'']" "fe_Mode dir_entry AND ModeSymlink = 0"
    "fe_ModTime dir_entry = 77" "\<not> exchanges [] dir_entry"
    by (code_simp)+
  have env: "gob_ok (env_gob dir_env)" "zlib_ok (env_deflate dir_env) (env_inflate dir_env)"
    "payload_fits (encFileList (env_gob dir_env) \<lparr>fl_Entries = [dir_entry], fl_HardLinkGroups = []\<rparr>)"
    by (simp_all add: dir_env_def toy_env_def table_gob_ok toy_zlib_ok payload_fits_def table_enc_def maxFramePayload_def)
  have dst: "content_of small_dst [] = Some DirData" "content_of small_dst [''dst''] = Some DirData"
    "content_of small_dst [''dst'', ''d''] = None"
    by (simp_all add: small_dst_def small_fs_def content_of_def lookup_def ino_of_def dir_inode_def)
  have ok: "entries_ok True dir_env no_compression all_attrs plain_ropts [] src [''dst''] (content_of small_dst) [dir_entry]"
    and contents: "session_contents all_attrs plain_ropts [] src [''dst''] (content_of small_dst) [dir_entry] = ?m"
    and input: "session_in dir_env no_compression all_attrs plain_ropts [] src [''dst''] (content_of small_dst) [dir_entry] = []"
    for src
    by (simp_all add: entry_ok_def Let_def entry rel_path_def dirs_in_def plain_def dst entry_effect_def entry_in_def)
  have start: "at True (content_of small_dst) (fileList_bytes (env_gob dir_env) [dir_entry] []) [] ?s"
    using small_dst_ok by (simp add: at_def fs_is_def receiver_start_def open_conn_def)
  have opts: "\<not> ro_DryRun plain_ropts" "ro_PartialDir plain_ropts = []" "list_all plain [''dst'']"
    by (simp_all add: plain_ropts_def plain_def)
  let ?src = "\<lambda>_. []"
  let ?out = "session_out dir_env all_attrs plain_ropts [] ?src [''dst''] (content_of small_dst) [dir_entry]"
  have "outcome True (Receiver dir_env (abs_path [''dst'']) all_attrs plain_ropts) ?s
      (\<lambda>_. at True (groups_contents [''dst''] [] (session_contents all_attrs plain_ropts [] ?src [''dst'']
        (content_of small_dst) [dir_entry])) [] ([] @ ?out))"
    by (rule Receiver_outcome [OF env(1,2) opts(1,2) _ env(3) ok _ _ opts(3)])
      (use start in \<open>simp_all only: input append_Nil2 groups_ok.simps list.set ball_empty\<close>)
  from outcome_quiet [OF this [unfolded contents groups_contents.simps]] obtain t where
    t: "Receiver dir_env (abs_path [''dst'']) all_attrs plain_ropts ?s = (t, Ok ())" "content_of (rs_fs t) = ?m"
    by (auto simp: at_def fs_is_def)
  obtain s' where list: "on_conn ReceivingFileList (recvFileList (env_gob dir_env)) ?s = (s', Ok ([dir_entry], []))"
    using recvFileList_bytes [OF env(1,3), of "[]"]
    by (simp add: on_conn_run counted_def receiver_start_def open_conn_def)
  have dirs: "\<forall>e \<in> set [dir_entry]. fe_IsDir e \<longrightarrow> dir_entry_ok [''dst''] (content_of (rs_fs t)) e"
    unfolding t(2) dir_entry_ok_def
    by (auto simp: entry rel_path_def dirs_in_def plain_def dst intro!: exI [of _ "[]"] exI [of _ "''d''"])
  from Receiver_sets_dir_attributes [OF t(1) list opts(1,3) dirs _ _ entry(1)]
  obtain i where "lookup (rs_fs t) ([''dst''] @ comps dir_entry) = Some i" "in_mtime i = 77"
    by (auto simp: entry all_attrs_def)
  with t(1) show ?thesis by blast
qed

end
