(* ===== verification/DaemonCopy.thy ===== *)
theory DaemonCopy
  imports Copying Serve
begin

text \<open>
  An upload and a download through the daemon protocol, end to end: greeting, authentication, direction, transfer
  and acknowledgement of \<open>DialClient\<close> against \<open>ServeConn\<close>.
\<close>

section \<open>One step of each side on an open connection\<close>

lemma put_words: "GoStrings.fields (direction_line DirectionPut False) = [DirectionPut]"
proof -
  have "direction_line DirectionPut False = ''put''" by (simp add: direction_line_def DirectionPut_def)
  moreover have "GoStrings.fields ''put'' = [''put'']" by code_simp
  ultimately show ?thesis by (simp add: DirectionPut_def)
qed

lemma session_lines_ok: "line_ok ok_line" "line_ok transferDone" "line_ok (direction_line DirectionPut False)"
  by (simp_all add: ok_line_def transferDone_def direction_line_def DirectionPut_def line_ok_def maxLineLength_def)

lemma ServeModule_put:
  assumes "\<not> m_ReadOnly m"
  shows "ServeModule env m \<lparr>ds_fs = T, ds_conn = \<lparr>c_in = line_bytes (direction_line DirectionPut False) @ rest, c_out = open_writer cs\<rparr>\<rparr>
    = serve_put env m False \<lparr>ds_fs = T, ds_conn = \<lparr>c_in = rest, c_out = open_writer (cs @ line_bytes ok_line)\<rparr>\<rparr>"
  using assms
  by (simp add: ServeModule_def bind_def on_dconn_read session_lines_ok put_words on_dconn_write)
    (simp add: DirectionPut_def DirectionGet_def)

lemma DialModule_put:
  assumes "\<not> ro_DryRun ropts"
  shows "DialModule env DirectionPut localPath rules walkOpts attrOpts ropts copts
      \<lparr>ds_fs = S, ds_conn = \<lparr>c_in = line_bytes ok_line @ rest, c_out = open_writer cs\<rparr>\<rparr>
    = seq (run_sender env localPath walkOpts rules (ao_HardLinks attrOpts) copts) waitForTransferDone
        \<lparr>ds_fs = S, ds_conn = \<lparr>c_in = rest, c_out = open_writer (cs @ line_bytes (direction_line DirectionPut False))\<rparr>\<rparr>"
  using assms
  by (simp add: DialModule_def bind_def [of "on_dconn _ _"] on_dconn_read session_lines_ok on_dconn_write)
    (simp add: DirectionPut_def DirectionGet_def)

lemma waitForTransferDone_line:
  "waitForTransferDone \<lparr>ds_fs = S, ds_conn = \<lparr>c_in = line_bytes transferDone @ rest, c_out = w\<rparr>\<rparr>
    = (\<lparr>ds_fs = S, ds_conn = \<lparr>c_in = rest, c_out = w\<rparr>\<rparr>, Ok ())"
  by (simp add: waitForTransferDone_def bind_def on_dconn_read session_lines_ok ret_def)

text \<open>What the authentication step puts on the wire in either direction.\<close>

definition auth_challenge :: "Module \<Rightarrow> bytes \<Rightarrow> bytes" where
  "auth_challenge m buf = (if AuthRequired m then line_bytes (challenge_line buf) else []) @ line_bytes ok_line"

definition auth_response :: "(bytes \<Rightarrow> bytes) \<Rightarrow> Module \<Rightarrow> string \<Rightarrow> string \<Rightarrow> bytes \<Rightarrow> bytes" where
  "auth_response md4 m user pass buf = (if AuthRequired m then line_bytes (response_line md4 user pass buf) else [])"

definition may_enter :: "(bytes \<Rightarrow> bytes) \<Rightarrow> fs \<Rightarrow> Module \<Rightarrow> string \<Rightarrow> string \<Rightarrow> bytes \<Rightarrow> bool" where
  "may_enter md4 T m user pass buf \<longleftrightarrow>
     (AuthRequired m \<longrightarrow>
        user \<in> set (m_AuthUsers m) \<and> user \<noteq> [] \<and> CHR '' '' \<notin> set user \<and>
        line_ok (response_line md4 user pass buf) \<and> line_ok (challenge_line buf) \<and>
        (case readSecretsFile (m_SecretsFile m) T of
           (x, Inl e) \<Rightarrow> False | (x, Inr secrets) \<Rightarrow> map_of secrets user = Some pass))"

lemma ServeAuth_enters:
  assumes "may_enter md4 T m user pass buf"
  shows "\<exists>T' u. same_tree T T' \<and> (\<forall>rest cs. ServeAuth md4 (Some buf) m
      \<lparr>ds_fs = T, ds_conn = \<lparr>c_in = auth_response md4 m user pass buf @ rest, c_out = open_writer cs\<rparr>\<rparr>
    = (\<lparr>ds_fs = T', ds_conn = \<lparr>c_in = rest, c_out = open_writer (cs @ auth_challenge m buf)\<rparr>\<rparr>, Ok u))"
proof (cases "AuthRequired m")
  case False
  then show ?thesis
    by (intro exI [of _ T], intro exI [of _ "[]"])
      (simp add: tree.frame_refl ServeAuth_def bind_def on_dconn_write auth_response_def auth_challenge_def ret_def)
next
  case True
  with assms obtain x secrets where ok: "user \<in> set (m_AuthUsers m)" "CHR '' '' \<notin> set user"
    "line_ok (response_line md4 user pass buf)" "readSecretsFile (m_SecretsFile m) T = (x, Ok secrets)"
    "map_of secrets user = Some pass"
    by (auto simp: may_enter_def split: prod.splits sum.splits)
  have "same_tree T x" using tree.keepsD' [OF readSecretsFile_keeps_tree ok(4)] .
  then show ?thesis
    using ServeAuth_exchange [OF True ok(1,2,4,5,3)] True
    by (intro exI [of _ x], intro exI [of _ user]) (simp add: auth_response_def auth_challenge_def)
qed

lemma run_dial_auth_enters:
  assumes "may_enter md4 T m user pass buf"
  shows "run_dial_auth md4 user (StaticPassword pass)
      \<lparr>ds_fs = S, ds_conn = \<lparr>c_in = auth_challenge m buf @ rest, c_out = open_writer cs\<rparr>\<rparr>
    = (\<lparr>ds_fs = S, ds_conn = \<lparr>c_in = rest, c_out = open_writer (cs @ auth_response md4 m user pass buf)\<rparr>\<rparr>, Ok ())"
proof (cases "AuthRequired m")
  case False
  then show ?thesis by (simp add: run_dial_auth_def auth_challenge_def auth_response_def DialAuth_end)
next
  case True
  with assms have ok: "line_ok (challenge_line buf)" "sent_user user = user"
    by (simp_all add: may_enter_def sent_user_def)
  with True show ?thesis
    by (simp add: run_dial_auth_def auth_challenge_def auth_response_def DialAuth_end
        DialAuth_challenge [OF ok(1), where pass = pass] StaticPassword_def)
qed

section \<open>The whole upload\<close>

lemma upload_run:
  assumes "gob_ok (env_gob env)" and "zlib_ok (env_deflate env) (env_inflate env)"
    and "fs_wf S" and "no_faults S" and "list_all plain SD" and "content_of S SD = Some DirData"
    and "source_ok env copts S SD"
    and "fs_inv T" and "no_faults T" and "list_all plain D" and "content_of T D = Some DirData"
    and "\<And>r. r \<noteq> [] \<Longrightarrow> content_of T (D @ r) = None"
    and "Recursive walkOpts" and "\<not> ao_HardLinks attrOpts" and "\<not> ro_DryRun ropts"
    and "\<And>es. snd (Walk (abs_path SD) walkOpts S) = Ok es \<Longrightarrow>
      payload_fits (encFileList (env_gob env) \<lparr>fl_Entries = es, fl_HardLinkGroups = []\<rparr>)"
    and "line_ok name" and "name \<noteq> []" and "name \<noteq> ''#list''" and "map_of cfg name = Some m"
    and "m_Path m = abs_path D" and "\<not> m_ReadOnly m" and "may_enter md4 T m user pass buf"
  shows "\<exists>client_out server_out s t.
    DialClient env md4 name user (StaticPassword pass) DirectionPut (abs_path SD) [] walkOpts attrOpts ropts copts
        \<lparr>ds_fs = S, ds_conn = open_conn server_out\<rparr> = (s, Ok ()) \<and>
    w_written (c_out (ds_conn s)) = client_out \<and> same_tree S (ds_fs s) \<and>
    ServeConn md4 (Some buf) env cfg \<lparr>ds_fs = T, ds_conn = open_conn client_out\<rparr> = (t, Ok ()) \<and>
    w_written (c_out (ds_conn t)) = server_out \<and>
    (\<forall>r. r \<noteq> [] \<longrightarrow> content_of (ds_fs t) (D @ r) = content_of S (SD @ r)) \<and>
    (\<forall>p. p = D \<or> take (length D) p \<noteq> D \<longrightarrow> content_of (ds_fs t) p = content_of T p)"
proof -
  obtain T' u where T': "same_tree T T'" and auth: "\<forall>rest cs. ServeAuth md4 (Some buf) m
      \<lparr>ds_fs = T, ds_conn = \<lparr>c_in = auth_response md4 m user pass buf @ rest, c_out = open_writer cs\<rparr>\<rparr>
    = (\<lparr>ds_fs = T', ds_conn = \<lparr>c_in = rest, c_out = open_writer (cs @ auth_challenge m buf)\<rparr>\<rparr>, Ok u)"
    using ServeAuth_enters [OF assms(23)] by blast
  have content: "content_of T' = content_of T" using same_tree_content [OF T'] by (simp add: fun_eq_iff)
  have inv: "fs_inv T'" "no_faults T'"
    using assms(8,9) T' same_tree_wf [OF T'] by (auto simp: fs_inv_def no_faults_def same_tree_def)
  have dest: "content_of T' D = Some DirData" "\<And>r. r \<noteq> [] \<Longrightarrow> content_of T' (D @ r) = None"
    using assms(11,12) by (simp_all add: content)
  have opts: "ao_Links moduleAttrOptions" "\<not> ro_DryRun (module_ropts False)" "ro_PartialDir (module_ropts False) = []"
    by (simp_all add: moduleAttrOptions_def module_ropts_def)
  obtain sent received where
    send: "\<forall>i o'. \<exists>s. Sender env (abs_path SD) walkOpts [] False copts
        \<lparr>ss_fs = S, ss_conn = \<lparr>c_in = received @ i, c_out = open_writer o'\<rparr>\<rparr> = (s, Ok ()) \<and>
      ss_conn s = \<lparr>c_in = i, c_out = open_writer (o' @ sent)\<rparr> \<and> same_tree S (ss_fs s)"
    and recv: "\<forall>i o'. \<exists>t. Receiver env (abs_path D) moduleAttrOptions (module_ropts False)
        (receiver_start T' \<lparr>c_in = sent @ i, c_out = open_writer o'\<rparr>) = (t, Ok ()) \<and>
      crw_rw (rs_conn t) = \<lparr>c_in = i, c_out = open_writer (o' @ received)\<rparr> \<and>
      content_of (rs_fs t) = mirrored S SD D (content_of T) {r. r \<noteq> [] \<and> content_of S (SD @ r) \<noteq> None}"
    using sync_mirrors [OF assms(1-7) inv assms(10) dest assms(13) opts, unfolded content, where links = False] assms(16) by blast
  define client_out where "client_out = client_hello name @ auth_response md4 m user pass buf @
    line_bytes (direction_line DirectionPut False) @ sent"
  define server_out where "server_out = line_bytes greeting_line @ auth_challenge m buf @ line_bytes ok_line @ received @
    line_bytes transferDone"
  obtain s where s: "Sender env (abs_path SD) walkOpts [] False copts
      \<lparr>ss_fs = S, ss_conn = \<lparr>c_in = received @ line_bytes transferDone, c_out = open_writer (client_hello name @
         auth_response md4 m user pass buf @ line_bytes (direction_line DirectionPut False))\<rparr>\<rparr> = (s, Ok ())"
    "ss_conn s = \<lparr>c_in = line_bytes transferDone, c_out = open_writer client_out\<rparr>" "same_tree S (ss_fs s)"
    using spec [OF spec [OF send, of "line_bytes transferDone"], of "client_hello name @ auth_response md4 m user pass buf @
      line_bytes (direction_line DirectionPut False)"] by (auto simp: client_out_def)
  obtain t where t: "Receiver env (abs_path D) moduleAttrOptions (module_ropts False)
      (receiver_start T' \<lparr>c_in = sent, c_out = open_writer (line_bytes greeting_line @ auth_challenge m buf @ line_bytes ok_line)\<rparr>)
      = (t, Ok ())"
    "crw_rw (rs_conn t) = \<lparr>c_in = [], c_out = open_writer (line_bytes greeting_line @ auth_challenge m buf @ line_bytes ok_line @ received)\<rparr>"
    "content_of (rs_fs t) = mirrored S SD D (content_of T) {r. r \<noteq> [] \<and> content_of S (SD @ r) \<noteq> None}"
    using spec [OF spec [OF recv, of "[]"], of "line_bytes greeting_line @ auth_challenge m buf @ line_bytes ok_line"]
    by auto
  have "DialClient env md4 name user (StaticPassword pass) DirectionPut (abs_path SD) [] walkOpts attrOpts ropts copts
      \<lparr>ds_fs = S, ds_conn = open_conn server_out\<rparr> = (\<lparr>ds_fs = ss_fs s, ds_conn = \<lparr>c_in = [], c_out = open_writer client_out\<rparr>\<rparr>, Ok ())"
    using assms(14,15,18)
    by (simp add: DialClient_def bind_def [of "on_dconn _ _"] bind_def [of "run_dial_auth _ _ _"] on_dconn_run
        open_conn_def server_out_def DialGreeting_selects run_dial_auth_enters [OF assms(23)] DialModule_put
        bind_def [of "run_sender _ _ _ _ _ _"] run_sender_def s(1,2) waitForTransferDone_line
        waitForTransferDone_line [where rest = "[]", simplified])
  moreover have "ServeConn md4 (Some buf) env cfg \<lparr>ds_fs = T, ds_conn = open_conn client_out\<rparr>
      = (\<lparr>ds_fs = rs_fs t, ds_conn = \<lparr>c_in = [], c_out = open_writer server_out\<rparr>\<rparr>, Ok ())"
    using auth assms(22)
    by (simp add: ServeConn_def bind_def [of "on_dconn _ _"] bind_def [of "wrap_err _ _"] on_dconn_run wrap_err_def
        open_conn_def client_out_def ServeGreeting_selects [OF assms(17,19,20)] ServeModule_put assms(21)
        serve_put_def bind_def [of "run_receiver _ _ _ _"] run_receiver_def t(1,2) writeLine_open server_out_def)
  moreover have "content_of (rs_fs t) (D @ r) = content_of S (SD @ r)" if "r \<noteq> []" for r
    unfolding t(3) mirrored_at using that assms(12) [of r] by (cases "content_of S (SD @ r)") simp_all
  moreover have "content_of (rs_fs t) p = content_of T p" if "p = D \<or> take (length D) p \<noteq> D" for p
    unfolding t(3) by (rule mirrored_other) (use that in auto)
  ultimately show ?thesis
    using s(3)
    by - (rule exI [of _ client_out], rule exI [of _ server_out],
        rule exI [of _ "\<lparr>ds_fs = ss_fs s, ds_conn = \<lparr>c_in = [], c_out = open_writer client_out\<rparr>\<rparr>"],
        rule exI [of _ "\<lparr>ds_fs = rs_fs t, ds_conn = \<lparr>c_in = [], c_out = open_writer server_out\<rparr>\<rparr>"], simp)
qed

text \<open>
  C6. An upload copies the tree. A client that knows a password for a writable module, against a server
  whose module directory exists and is empty: \<open>DialClient\<close> and \<open>ServeConn\<close>, each reading what the other
  writes, go through greeting, authentication (where the module requires it), direction, transfer and
  acknowledgement without an error; the client's tree is unchanged, every file, directory and symbolic
  link of the source is in the module with the same content, and nothing else in the module or on the
  server changes content.
\<close>

theorem daemon_upload_copies_tree:
  assumes "gob_ok (env_gob env)" and "zlib_ok (env_deflate env) (env_inflate env)"
    and "fs_wf S" and "no_faults S" and "list_all plain SD" and "content_of S SD = Some DirData"
    and "source_ok env copts S SD"
    and "fs_inv T" and "no_faults T" and "list_all plain D" and "content_of T D = Some DirData"
    and "\<And>r. r \<noteq> [] \<Longrightarrow> content_of T (D @ r) = None"
    and "Recursive walkOpts" and "\<not> ao_HardLinks attrOpts" and "\<not> ro_DryRun ropts"
    and "\<And>es. snd (Walk (abs_path SD) walkOpts S) = Ok es \<Longrightarrow>
      payload_fits (encFileList (env_gob env) \<lparr>fl_Entries = es, fl_HardLinkGroups = []\<rparr>)"
    and "line_ok name" and "name \<noteq> []" and "name \<noteq> ''#list''" and "map_of cfg name = Some m"
    and "m_Path m = abs_path D" and "\<not> m_ReadOnly m" and "may_enter md4 T m user pass buf"
  shows "\<exists>client_out server_out s t.
    DialClient env md4 name user (StaticPassword pass) DirectionPut (abs_path SD) [] walkOpts attrOpts ropts copts
        \<lparr>ds_fs = S, ds_conn = open_conn server_out\<rparr> = (s, Ok ()) \<and>
    w_written (c_out (ds_conn s)) = client_out \<and> same_tree S (ds_fs s) \<and>
    ServeConn md4 (Some buf) env cfg \<lparr>ds_fs = T, ds_conn = open_conn client_out\<rparr> = (t, Ok ()) \<and>
    w_written (c_out (ds_conn t)) = server_out \<and>
    (\<forall>r. r \<noteq> [] \<longrightarrow> content_of (ds_fs t) (D @ r) = content_of S (SD @ r)) \<and>
    (\<forall>p. p = D \<or> take (length D) p \<noteq> D \<longrightarrow> content_of (ds_fs t) p = content_of T p)"
  by (rule upload_run [OF assms])

text \<open>The daemon's file system: an empty module directory and the secrets file of \<open>auth_module\<close>.\<close>

definition upload_fs :: fs where
  "upload_fs = small_fs\<lparr>
     fs_names := [([], 0), ([''dst''], 1), ([''secrets''], 3)],
     fs_inodes := (fs_inodes small_fs) (3 := dir_inode\<lparr>in_content := FileData (text_bytes (''ann:sesame'' @ [CHR 0x0A]))\<rparr>)\<rparr>"

definition upload_module :: Module where
  "upload_module = moduleDefaults\<lparr>m_Name := ''data'', m_Path := abs_path [''dst''], m_ReadOnly := False,
     m_AuthUsers := [''ann''], m_SecretsFile := ''/secrets''\<rparr>"

lemma upload_fs_ok: "fs_inv upload_fs" "no_faults upload_fs" "content_of upload_fs [''dst''] = Some DirData"
  by (simp_all add: fs_inv_def fs_wf_def upload_fs_def small_fs_def no_faults_def content_of_def lookup_def ino_of_def
      dir_inode_def plain_def)

lemma upload_fs_empty: "r \<noteq> [] \<Longrightarrow> content_of upload_fs ([''dst''] @ r) = None"
  by (auto simp: upload_fs_def small_fs_def content_of_def lookup_def ino_of_def)

lemma secrets_line:
  assumes "snd (ReadFile path T) = Ok (text_bytes (''ann:sesame'' @ [CHR 0x0A]))"
  shows "\<exists>x. readSecretsFile path T = (x, Ok [(''ann'', ''sesame'')])"
proof -
  from assms obtain s' where "ReadFile path T = (s', Ok (text_bytes (''ann:sesame'' @ [CHR 0x0A])))"
    by (cases "ReadFile path T") simp
  moreover have "scanLines (''ann:sesame'' @ [CHR 0x0A]) = ([''ann:sesame''], True)"
    by (simp add: scan_lines_simps)
  moreover have "add_secret ''ann:sesame'' [] = [(''ann'', ''sesame'')]" by code_simp
  ultimately show ?thesis
    unfolding readSecretsFile_def bind_def wrap_err_def
    by (simp only: prod.case map_sum.simps sum.case bytes_text_bytes) (simp add: ret_def)
qed

lemma upload_secrets: "\<exists>x. readSecretsFile ''/secrets'' upload_fs = (x, Ok [(''ann'', ''sesame'')])"
proof -
  have "snd (ReadFile ''/secrets'' upload_fs) = Ok (text_bytes (''ann:sesame'' @ [CHR 0x0A]))" by code_simp
  then show ?thesis by (rule secrets_line)
qed

lemma upload_may_enter: "may_enter toy_md4 upload_fs upload_module ''ann'' ''sesame'' [7]"
proof -
  have "line_ok ((''ann'' @ '' '') @ base64 (toy_md4 (text_bytes ''sesame'' @ text_bytes (base64 [7]))))"
    by (rule base64_line) (simp_all add: line_ok_def maxLineLength_def toy_md4_def text_bytes_def)
  moreover have "line_ok (challenge_line [7])"
    by (simp add: challenge_line_def authReqdPrefix_def base64_char_def line_ok_def maxLineLength_def)
  moreover obtain x where "readSecretsFile ''/secrets'' upload_fs = (x, Ok [(''ann'', ''sesame'')])"
    using upload_secrets by blast
  ultimately show ?thesis
    by (simp add: may_enter_def upload_module_def response_line_def md4Hash_def)
qed

lemma small_upload:
  assumes "map_of cfg ''data'' = Some upload_module"
  shows "\<exists>client_out server_out s t.
    DialClient small_env toy_md4 ''data'' ''ann'' (StaticPassword ''sesame'') DirectionPut (abs_path [''src'']) []
        \<lparr>Recursive = True, Dirs = False\<rparr> (all_attrs\<lparr>ao_HardLinks := False\<rparr>) plain_ropts no_compression
        \<lparr>ds_fs = small_fs, ds_conn = open_conn server_out\<rparr> = (s, Ok ()) \<and>
    w_written (c_out (ds_conn s)) = client_out \<and> same_tree small_fs (ds_fs s) \<and>
    ServeConn toy_md4 (Some [7]) small_env cfg
        \<lparr>ds_fs = upload_fs, ds_conn = open_conn client_out\<rparr> = (t, Ok ()) \<and>
    w_written (c_out (ds_conn t)) = server_out \<and>
    (\<forall>r. r \<noteq> [] \<longrightarrow> content_of (ds_fs t) ([''dst''] @ r) = content_of small_fs ([''src''] @ r)) \<and>
    (\<forall>p. p = [''dst''] \<or> take (length [''dst'']) p \<noteq> [''dst''] \<longrightarrow> content_of (ds_fs t) p = content_of upload_fs p)"
proof (rule upload_run [where m = upload_module])
  show "gob_ok (env_gob small_env)" by (simp add: small_env_def toy_env_def Let_def table_gob_ok)
  have walk: "snd (Walk (abs_path [''src'']) \<lparr>Recursive = True, Dirs = False\<rparr> small_fs)
      = Ok [entry_at small_fs [''src''] [''d''], entry_at small_fs [''src''] [''d'', ''f'']]"
    by code_simp
  show "payload_fits (encFileList (env_gob small_env) \<lparr>fl_Entries = es, fl_HardLinkGroups = []\<rparr>)"
    if "snd (Walk (abs_path [''src'']) \<lparr>Recursive = True, Dirs = False\<rparr> small_fs) = Ok es" for es
    using that unfolding walk
    by (simp add: small_env_def toy_env_def Let_def payload_fits_def table_enc_def maxFramePayload_def)
  show "may_enter toy_md4 upload_fs upload_module ''ann'' ''sesame'' [7]" by (rule upload_may_enter)
qed (simp_all add: assms small_fs_ok upload_fs_ok upload_fs_empty [simplified] small_source_ok toy_zlib_ok all_attrs_def
    plain_ropts_def plain_def upload_module_def moduleDefaults_def line_ok_def maxLineLength_def)

theorem daemon_upload_copies_tree_witness:
  "\<exists>client_out server_out s t.
    DialClient small_env toy_md4 ''data'' ''ann'' (StaticPassword ''sesame'') DirectionPut (abs_path [''src'']) []
        \<lparr>Recursive = True, Dirs = False\<rparr> (all_attrs\<lparr>ao_HardLinks := False\<rparr>) plain_ropts no_compression
        \<lparr>ds_fs = small_fs, ds_conn = open_conn server_out\<rparr> = (s, Ok ()) \<and>
    w_written (c_out (ds_conn s)) = client_out \<and> same_tree small_fs (ds_fs s) \<and>
    ServeConn toy_md4 (Some [7]) small_env [(''data'', upload_module)]
        \<lparr>ds_fs = upload_fs, ds_conn = open_conn client_out\<rparr> = (t, Ok ()) \<and>
    w_written (c_out (ds_conn t)) = server_out \<and>
    (\<forall>r. r \<noteq> [] \<longrightarrow> content_of (ds_fs t) ([''dst''] @ r) = content_of small_fs ([''src''] @ r)) \<and>
    (\<forall>p. p = [''dst''] \<or> take (length [''dst'']) p \<noteq> [''dst''] \<longrightarrow> content_of (ds_fs t) p = content_of upload_fs p)"
proof (rule daemon_upload_copies_tree [where m = upload_module])
  show "gob_ok (env_gob small_env)" by (simp add: small_env_def toy_env_def Let_def table_gob_ok)
  have walk: "snd (Walk (abs_path [''src'']) \<lparr>Recursive = True, Dirs = False\<rparr> small_fs)
      = Ok [entry_at small_fs [''src''] [''d''], entry_at small_fs [''src''] [''d'', ''f'']]"
    by code_simp
  show "payload_fits (encFileList (env_gob small_env) \<lparr>fl_Entries = es, fl_HardLinkGroups = []\<rparr>)"
    if "snd (Walk (abs_path [''src'']) \<lparr>Recursive = True, Dirs = False\<rparr> small_fs) = Ok es" for es
    using that unfolding walk
    by (simp add: small_env_def toy_env_def Let_def payload_fits_def table_enc_def maxFramePayload_def)
  show "may_enter toy_md4 upload_fs upload_module ''ann'' ''sesame'' [7]" by (rule upload_may_enter)
qed (simp_all add: small_fs_ok upload_fs_ok upload_fs_empty [simplified] small_source_ok toy_zlib_ok all_attrs_def
    plain_ropts_def plain_def upload_module_def moduleDefaults_def line_ok_def maxLineLength_def)

definition download_only :: Module where
  "download_only = moduleDefaults\<lparr>m_Path := abs_path [''dst''], m_ReadOnly := True\<rparr>"

text \<open>
  A daemon with a read-only module and the writable one: the upload changes its tree, and the second line of the
  client named the writable module.
\<close>

theorem daemon_protects_modules_witness:
  "\<exists>client_out t. ServeConn toy_md4 (Some [7]) small_env [(''public'', download_only), (''data'', upload_module)]
      \<lparr>ds_fs = upload_fs, ds_conn = open_conn client_out\<rparr> = (t, Ok ()) \<and>
    \<not> same_tree upload_fs (ds_fs t) \<and>
    (\<exists>greeting answer line rest. client_lines client_out = greeting # ''data'' # answer @ line # rest \<and>
      answer = [''ann'' @ '' '' @ md4Hash toy_md4 ''sesame'' (base64 [7])] \<and>
      (\<exists>ws. GoStrings.fields line = ''put'' # ws \<and> (ws = [] \<or> hd ws \<noteq> ''--dry-run'')))"
proof -
  let ?cfg = "[(''public'', download_only), (''data'', upload_module)]"
  obtain client_out t where run: "ServeConn toy_md4 (Some [7]) small_env ?cfg \<lparr>ds_fs = upload_fs, ds_conn = open_conn client_out\<rparr> = (t, Ok ())"
    and copy: "\<forall>r. r \<noteq> [] \<longrightarrow> content_of (ds_fs t) ([''dst''] @ r) = content_of small_fs ([''src''] @ r)"
    using small_upload [of ?cfg] by auto
  have "content_of upload_fs ([''dst''] @ [''d'']) = None" by (rule upload_fs_empty) simp
  moreover have "content_of (ds_fs t) ([''dst''] @ [''d'']) = Some DirData"
    using copy by (simp add: small_fs_def content_of_def lookup_def ino_of_def dir_inode_def)
  ultimately have changed: "\<not> same_tree upload_fs (ds_fs t)" by (metis option.distinct(1) same_tree_content)
  obtain x where secrets: "readSecretsFile ''/secrets'' upload_fs = (x, Ok [(''ann'', ''sesame'')])" using upload_secrets by blast
  from daemon_protects_modules [OF run, unfolded open_conn_def daemonState.select_convs conn.select_convs] changed
  obtain greeting name m answer line rest where
    lines: "client_lines client_out = greeting # name # answer @ line # rest" and m: "map_of ?cfg name = Some m" "\<not> m_ReadOnly m"
    and put: "\<exists>ws. GoStrings.fields line = ''put'' # ws \<and> (ws = [] \<or> hd ws \<noteq> ''--dry-run'')"
    and answer: "if AuthRequired m
        then \<exists>u buf x secrets secret. Some [7] = Some buf \<and> u \<in> set (m_AuthUsers m) \<and>
          readSecretsFile (m_SecretsFile m) upload_fs = (x, Ok secrets) \<and> map_of secrets u = Some secret \<and>
          answer = [u @ '' '' @ md4Hash toy_md4 secret (base64 buf)]
        else answer = []"
    by blast
  have name: "name = ''data''" "m = upload_module"
    using m by (auto simp: download_only_def split: if_splits)
  then have "answer = [''ann'' @ '' '' @ md4Hash toy_md4 ''sesame'' (base64 [7])]"
    using answer secrets by (auto simp: upload_module_def AuthRequired_def)
  with run changed lines put show ?thesis unfolding name by blast
qed

theorem server_protects_modules_witness:
  "\<exists>client_out s. serve_steps (serve_client toy_md4 (\<lambda>_. Some [7]) small_env [(''public'', download_only), (''data'', upload_module)]
        (\<lambda>_. Some (open_conn client_out))) (Serve upload_fs) s \<and>
    \<not> same_tree upload_fs (sv_fs s) \<and>
    (\<exists>n g. n < sv_accepted s \<and> same_tree upload_fs g \<and>
       may_write toy_md4 (Some [7]) [(''public'', download_only), (''data'', upload_module)] g client_out)"
proof -
  let ?cfg = "[(''public'', download_only), (''data'', upload_module)]"
  obtain client_out t where run: "ServeConn toy_md4 (Some [7]) small_env ?cfg \<lparr>ds_fs = upload_fs, ds_conn = open_conn client_out\<rparr> = (t, Ok ())"
    and copy: "\<forall>r. r \<noteq> [] \<longrightarrow> content_of (ds_fs t) ([''dst''] @ r) = content_of small_fs ([''src''] @ r)"
    using small_upload [of ?cfg] by auto
  let ?session = "serve_client toy_md4 (\<lambda>_. Some [7]) small_env ?cfg (\<lambda>_. Some (open_conn client_out))"
  let ?s = "accept_conn (Serve upload_fs)"
  let ?t = "finish_conn 0 (ds_fs t, Ok ()) ?s"
  have "serve_step ?session (Serve upload_fs) ?s" by (rule accepts) (simp add: Serve_def)
  moreover have "serve_step ?session ?s ?t"
    by (rule finishes) (simp_all add: Serve_def serve_client_Some run)
  ultimately have steps: "serve_steps ?session (Serve upload_fs) ?t"
    by (rule converse_rtranclp_into_rtranclp [OF _ r_into_rtranclp])
  have "content_of upload_fs ([''dst''] @ [''d'']) = None" by (rule upload_fs_empty) simp
  moreover have "content_of (ds_fs t) ([''dst''] @ [''d'']) = Some DirData"
    using copy by (simp add: small_fs_def content_of_def lookup_def ino_of_def dir_inode_def)
  ultimately have "\<not> same_tree upload_fs (sv_fs ?t)"
    by (simp only: finish_conn_simps fst_conv) (metis option.distinct(1) same_tree_content)
  with steps server_protects_modules [OF steps] show ?thesis
    by (auto simp: open_conn_def intro!: exI [of _ client_out] exI [of _ ?t])
qed

section \<open>The whole download\<close>

lemma get_words: "GoStrings.fields (direction_line DirectionGet d) = [DirectionGet]"
proof -
  have "direction_line DirectionGet d = ''get''" by (simp add: direction_line_def DirectionPut_def DirectionGet_def)
  moreover have "GoStrings.fields ''get'' = [''get'']" by code_simp
  ultimately show ?thesis by (simp add: DirectionGet_def)
qed

lemma get_line_ok: "line_ok (direction_line DirectionGet d)"
  by (simp add: direction_line_def DirectionGet_def DirectionPut_def line_ok_def maxLineLength_def)

abbreviation module_walk :: walkOptions where
  "module_walk \<equiv> \<lparr>Recursive = True, Dirs = False\<rparr>"

lemma ServeModule_get:
  assumes "m_Exclude m = []"
  shows "ServeModule env m \<lparr>ds_fs = S, ds_conn = \<lparr>c_in = line_bytes (direction_line DirectionGet d) @ rest, c_out = open_writer cs\<rparr>\<rparr>
    = seq (run_sender env (m_Path m) module_walk [] True module_copts) waitForTransferDone
        \<lparr>ds_fs = S, ds_conn = \<lparr>c_in = rest, c_out = open_writer (cs @ line_bytes ok_line)\<rparr>\<rparr>"
  using assms
  by (simp add: ServeModule_def bind_def [of "on_dconn _ _"] on_dconn_read get_line_ok session_lines_ok get_words on_dconn_write)
    (simp add: DirectionPut_def DirectionGet_def serve_get_def moduleRules_def moduleAttrOptions_def)

lemma DialModule_get:
  "DialModule env DirectionGet localPath rules walkOpts attrOpts ropts copts
      \<lparr>ds_fs = T, ds_conn = \<lparr>c_in = line_bytes ok_line @ rest, c_out = open_writer cs\<rparr>\<rparr>
    = seq (run_receiver env localPath attrOpts ropts) (on_dconn (\<lambda>_. WritingDone) (writeLine transferDone))
        \<lparr>ds_fs = T, ds_conn = \<lparr>c_in = rest,
           c_out = open_writer (cs @ line_bytes (direction_line DirectionGet (ro_DryRun ropts)))\<rparr>\<rparr>"
  by (simp add: DialModule_def bind_def [of "on_dconn _ _"] on_dconn_read get_line_ok session_lines_ok on_dconn_write)

text \<open>Reading the secrets advances the clock; the walk lists the same.\<close>

lemma Walk_same_tree:
  assumes "fs_wf S" and "no_faults S" and "Recursive opts" and "list_all plain SD" and "content_of S SD = Some DirData"
    and "same_tree S S'"
  shows "snd (Walk (abs_path SD) opts S') = snd (Walk (abs_path SD) opts S)"
proof -
  have S': "fs_wf S'" "no_faults S'" "content_of S' SD = Some DirData"
    using assms by (simp_all add: same_tree_wf no_faults_tree same_tree_content)
  obtain t es where es: "Walk (abs_path SD) opts S = (t, Ok es)" "sorted_wrt (<) (map fe_Path es)"
      "set es = entry_at S SD ` {r. r \<noteq> [] \<and> ino_of S (SD @ r) \<noteq> None}"
    by (rule Walk_recursive [OF assms(1-5)])
  obtain t' es' where es': "Walk (abs_path SD) opts S' = (t', Ok es')" "sorted_wrt (<) (map fe_Path es')"
      "set es' = entry_at S' SD ` {r. r \<noteq> [] \<and> ino_of S' (SD @ r) \<noteq> None}"
    by (rule Walk_recursive [OF S'(1,2) assms(3,4) S'(3)])
  have "set es' = set es"
    unfolding es(3) es'(3) using assms(6) by (simp add: same_tree_ino entry_at_def same_tree_lookup)
  moreover have "inj_on fe_Path (set es)" using es(2) by (simp add: strict_sorted_iff distinct_map)
  ultimately have "es' = es"
    using es(2) es'(2) by (intro map_sorted_distinct_set_unique [of fe_Path]) (simp_all add: strict_sorted_iff)
  with es(1) es'(1) show ?thesis by simp
qed

text \<open>
  C7. A download copies the module. A client that knows a password for a module without exclude patterns, whose
  directory no inode has two names in, downloads into an empty directory: \<open>DialClient\<close> and \<open>ServeConn\<close>, each reading what
  the other writes, go through greeting, authentication (where the module requires it), direction, hard-link
  detection, transfer and acknowledgement without an error; the server's tree is unchanged, every file, directory
  and symbolic link of the module is in the client's directory with the same content, and nothing else of the client
  changes content. A module that is read only is served like any other.
\<close>

theorem daemon_download_copies_tree:
  assumes "gob_ok (env_gob env)" and "zlib_ok (env_deflate env) (env_inflate env)"
    and "fs_wf S" and "no_faults S" and "list_all plain SD" and "content_of S SD = Some DirData"
    and "source_ok env module_copts S SD" and "unlinked S SD"
    and "fs_inv T" and "no_faults T" and "list_all plain D" and "content_of T D = Some DirData"
    and "\<And>r. r \<noteq> [] \<Longrightarrow> content_of T (D @ r) = None"
    and "ao_Links attrOpts" and "\<not> ro_DryRun ropts" and "ro_PartialDir ropts = []"
    and "\<And>es. snd (Walk (abs_path SD) module_walk S) = Ok es \<Longrightarrow>
      payload_fits (encFileList (env_gob env) \<lparr>fl_Entries = es, fl_HardLinkGroups = []\<rparr>)"
    and "line_ok name" and "name \<noteq> []" and "name \<noteq> ''#list''" and "map_of cfg name = Some m"
    and "m_Path m = abs_path SD" and "m_Exclude m = []" and "may_enter md4 S m user pass buf"
  shows "\<exists>client_out server_out s t.
    DialClient env md4 name user (StaticPassword pass) DirectionGet (abs_path D) rules walkOpts attrOpts ropts copts
        \<lparr>ds_fs = T, ds_conn = open_conn server_out\<rparr> = (t, Ok ()) \<and>
    w_written (c_out (ds_conn t)) = client_out \<and>
    ServeConn md4 (Some buf) env cfg \<lparr>ds_fs = S, ds_conn = open_conn client_out\<rparr> = (s, Ok ()) \<and>
    w_written (c_out (ds_conn s)) = server_out \<and> same_tree S (ds_fs s) \<and>
    (\<forall>r. r \<noteq> [] \<longrightarrow> content_of (ds_fs t) (D @ r) = content_of S (SD @ r)) \<and>
    (\<forall>p. p = D \<or> take (length D) p \<noteq> D \<longrightarrow> content_of (ds_fs t) p = content_of T p)"
proof -
  obtain S' u where S': "same_tree S S'" and auth: "\<forall>rest cs. ServeAuth md4 (Some buf) m
      \<lparr>ds_fs = S, ds_conn = \<lparr>c_in = auth_response md4 m user pass buf @ rest, c_out = open_writer cs\<rparr>\<rparr>
    = (\<lparr>ds_fs = S', ds_conn = \<lparr>c_in = rest, c_out = open_writer (cs @ auth_challenge m buf)\<rparr>\<rparr>, Ok u)"
    using ServeAuth_enters [OF assms(24)] by blast
  have content: "content_of S' = content_of S" using same_tree_content [OF S'] by (simp add: fun_eq_iff)
  have "fs_names S' = fs_names S" "fs_inodes S' = fs_inodes S" using S' by (simp_all add: same_tree_def)
  then have src: "source_ok env module_copts S' SD" "unlinked S' SD"
    using assms(7,8) by (simp_all only: source_ok_def unlinked_def)
  have quiet: "fs_wf S'" "no_faults S'" "content_of S' SD = Some DirData"
    using assms(3,4,6) same_tree_wf [OF S'] no_faults_tree [OF S'] by (simp_all add: content)
  have rec: "Recursive module_walk" by simp
  have fits: "payload_fits (encFileList (env_gob env) \<lparr>fl_Entries = es, fl_HardLinkGroups = []\<rparr>)"
    if "snd (Walk (abs_path SD) module_walk S') = Ok es" for es
    using assms(17) that unfolding Walk_same_tree [OF assms(3,4) rec assms(5,6) S'] .
  obtain sent received where
    send: "\<forall>i o'. \<exists>s. Sender env (abs_path SD) module_walk [] True module_copts
        \<lparr>ss_fs = S', ss_conn = \<lparr>c_in = received @ i, c_out = open_writer o'\<rparr>\<rparr> = (s, Ok ()) \<and>
      ss_conn s = \<lparr>c_in = i, c_out = open_writer (o' @ sent)\<rparr> \<and> same_tree S' (ss_fs s)"
    and recv: "\<forall>i o'. \<exists>t. Receiver env (abs_path D) attrOpts ropts
        (receiver_start T \<lparr>c_in = sent @ i, c_out = open_writer o'\<rparr>) = (t, Ok ()) \<and>
      crw_rw (rs_conn t) = \<lparr>c_in = i, c_out = open_writer (o' @ received)\<rparr> \<and>
      content_of (rs_fs t) = mirrored S' SD D (content_of T) {r. r \<noteq> [] \<and> content_of S' (SD @ r) \<noteq> None}"
    using sync_mirrors [OF assms(1,2) quiet(1,2) assms(5) quiet(3) src(1) assms(9-13) rec assms(14-16) _ fits, where links = True]
      src(2) by blast
  define to_server where "to_server = client_hello name @ auth_response md4 m user pass buf @
    line_bytes (direction_line DirectionGet (ro_DryRun ropts))"
  define to_client where "to_client = line_bytes greeting_line @ auth_challenge m buf @ line_bytes ok_line"
  obtain s where s: "Sender env (abs_path SD) module_walk [] True module_copts
      \<lparr>ss_fs = S', ss_conn = \<lparr>c_in = received @ line_bytes transferDone, c_out = open_writer to_client\<rparr>\<rparr> = (s, Ok ())"
    "ss_conn s = \<lparr>c_in = line_bytes transferDone, c_out = open_writer (to_client @ sent)\<rparr>" "same_tree S' (ss_fs s)"
    using spec [OF spec [OF send, of "line_bytes transferDone"], of to_client] by blast
  obtain t where t: "Receiver env (abs_path D) attrOpts ropts
      (receiver_start T \<lparr>c_in = sent @ [], c_out = open_writer to_server\<rparr>) = (t, Ok ())"
    "crw_rw (rs_conn t) = \<lparr>c_in = [], c_out = open_writer (to_server @ received)\<rparr>"
    "content_of (rs_fs t) = mirrored S' SD D (content_of T) {r. r \<noteq> [] \<and> content_of S' (SD @ r) \<noteq> None}"
    using spec [OF spec [OF recv, of "[]"], of to_server] by blast
  have "DialClient env md4 name user (StaticPassword pass) DirectionGet (abs_path D) rules walkOpts attrOpts ropts copts
      \<lparr>ds_fs = T, ds_conn = open_conn (to_client @ sent)\<rparr>
      = (\<lparr>ds_fs = rs_fs t, ds_conn = \<lparr>c_in = [], c_out = open_writer (to_server @ received @ line_bytes transferDone)\<rparr>\<rparr>, Ok ())"
    using assms(19) t(1,2)
    by (simp add: DialClient_def bind_def [of "on_dconn _ _"] bind_def [of "run_dial_auth _ _ _"] on_dconn_run
        open_conn_def to_client_def to_server_def DialGreeting_selects run_dial_auth_enters [OF assms(24)] DialModule_get
        bind_def [of "run_receiver _ _ _ _"] run_receiver_def writeLine_open session_lines_ok)
  moreover have "ServeConn md4 (Some buf) env cfg \<lparr>ds_fs = S, ds_conn = open_conn (to_server @ received @ line_bytes transferDone)\<rparr>
      = (\<lparr>ds_fs = ss_fs s, ds_conn = \<lparr>c_in = [], c_out = open_writer (to_client @ sent)\<rparr>\<rparr>, Ok ())"
    using auth s(1,2)
    by (simp add: ServeConn_def bind_def [of "on_dconn _ _"] bind_def [of "wrap_err _ _"] on_dconn_run wrap_err_def
        open_conn_def to_client_def to_server_def ServeGreeting_selects [OF assms(18,20,21)] ServeModule_get [OF assms(23)] assms(22)
        bind_def [of "run_sender _ _ _ _ _ _"] run_sender_def waitForTransferDone_line [where rest = "[]", simplified])
  moreover have "content_of (rs_fs t) (D @ r) = content_of S (SD @ r)" if "r \<noteq> []" for r
    unfolding t(3) mirrored_at content using that assms(13) [of r] by (cases "content_of S (SD @ r)") simp_all
  moreover have "content_of (rs_fs t) p = content_of T p" if "p = D \<or> take (length D) p \<noteq> D" for p
    unfolding t(3) by (rule mirrored_other) (use that in auto)
  moreover have "same_tree S (ss_fs s)" using tree.frame_trans [OF S' s(3)] .
  ultimately show ?thesis
    by - (rule exI [of _ "to_server @ received @ line_bytes transferDone"], rule exI [of _ "to_client @ sent"],
        rule exI [of _ "\<lparr>ds_fs = ss_fs s, ds_conn = \<lparr>c_in = [], c_out = open_writer (to_client @ sent)\<rparr>\<rparr>"],
        rule exI [of _ "\<lparr>ds_fs = rs_fs t, ds_conn = \<lparr>c_in = [], c_out = open_writer (to_server @ received @ line_bytes transferDone)\<rparr>\<rparr>"],
        simp)
qed

text \<open>The daemon's file system: the tree to download and the secrets file of a read-only module.\<close>

definition download_fs :: fs where
  "download_fs = small_fs\<lparr>fs_names := fs_names small_fs @ [([''secrets''], 4)],
     fs_inodes := (fs_inodes small_fs)(4 := dir_inode\<lparr>in_content := FileData (text_bytes (''ann:sesame'' @ [CHR 0x0A]))\<rparr>),
     fs_next := 5\<rparr>"

definition download_module :: Module where
  "download_module = upload_module\<lparr>m_Path := abs_path [''src''], m_ReadOnly := True\<rparr>"

lemma download_fs_ok:
  "fs_wf download_fs" "no_faults download_fs" "content_of download_fs [''src''] = Some DirData" "unlinked download_fs [''src'']"
  by (simp_all add: fs_wf_def download_fs_def small_fs_def no_faults_def content_of_def lookup_def ino_of_def dir_inode_def
      plain_def unlinked_def)

lemma download_source_ok: "source_ok small_env module_copts download_fs [''src'']"
proof -
  have "module_copts = no_compression" by (simp add: module_copts_def no_compression_def)
  then show ?thesis
    by (simp add: source_ok_def download_fs_def small_fs_def dir_inode_def hasSuffix_def message_fits_def small_env_def toy_env_def
        Let_def rel_path_def table_gob_simps payload_fits_def table_enc_def maxFramePayload_def)
qed

lemma download_secrets: "\<exists>x. readSecretsFile ''/secrets'' download_fs = (x, Ok [(''ann'', ''sesame'')])"
proof -
  have "snd (ReadFile ''/secrets'' download_fs) = Ok (text_bytes (''ann:sesame'' @ [CHR 0x0A]))" by code_simp
  then show ?thesis by (rule secrets_line)
qed

lemma download_may_enter: "may_enter toy_md4 download_fs download_module ''ann'' ''sesame'' [7]"
  using upload_may_enter upload_secrets download_secrets
  by (auto simp: may_enter_def download_module_def upload_module_def AuthRequired_def)

lemma download_walk_fits:
  assumes "snd (Walk (abs_path [''src'']) module_walk download_fs) = Ok es"
  shows "payload_fits (encFileList (env_gob small_env) \<lparr>fl_Entries = es, fl_HardLinkGroups = []\<rparr>)"
proof -
  have "snd (Walk (abs_path [''src'']) module_walk download_fs)
      = Ok [entry_at small_fs [''src''] [''d''], entry_at small_fs [''src''] [''d'', ''f'']]"
    by code_simp
  with assms show ?thesis
    by (simp add: small_env_def toy_env_def Let_def payload_fits_def table_enc_def maxFramePayload_def)
qed

theorem daemon_download_copies_tree_witness:
  "\<exists>client_out server_out s t.
    DialClient small_env toy_md4 ''data'' ''ann'' (StaticPassword ''sesame'') DirectionGet (abs_path [''dst'']) []
        module_walk (all_attrs\<lparr>ao_HardLinks := False\<rparr>) plain_ropts no_compression
        \<lparr>ds_fs = small_dst, ds_conn = open_conn server_out\<rparr> = (t, Ok ()) \<and>
    w_written (c_out (ds_conn t)) = client_out \<and>
    ServeConn toy_md4 (Some [7]) small_env [(''data'', download_module)]
        \<lparr>ds_fs = download_fs, ds_conn = open_conn client_out\<rparr> = (s, Ok ()) \<and>
    w_written (c_out (ds_conn s)) = server_out \<and> same_tree download_fs (ds_fs s) \<and>
    (\<forall>r. r \<noteq> [] \<longrightarrow> content_of (ds_fs t) ([''dst''] @ r) = content_of download_fs ([''src''] @ r)) \<and>
    (\<forall>p. p = [''dst''] \<or> take (length [''dst'']) p \<noteq> [''dst''] \<longrightarrow> content_of (ds_fs t) p = content_of small_dst p)"
proof (rule daemon_download_copies_tree [where m = download_module])
  show "may_enter toy_md4 download_fs download_module ''ann'' ''sesame'' [7]" by (rule download_may_enter)
  show "payload_fits (encFileList (env_gob small_env) \<lparr>fl_Entries = es, fl_HardLinkGroups = []\<rparr>)"
    if "snd (Walk (abs_path [''src'']) module_walk download_fs) = Ok es" for es
    using that by (rule download_walk_fits)
qed (simp_all add: small_env_ok download_fs_ok download_source_ok small_dst_ok small_dst_empty [simplified] toy_zlib_ok
    all_attrs_def plain_ropts_def plain_def download_module_def upload_module_def moduleDefaults_def line_ok_def maxLineLength_def)

end
