(* ===== verification/ConfigText.thy ===== *)
theory ConfigText
  imports Config
begin

text \<open>
  Writing a configuration as an rsyncd.conf and reading it back: the grammar that \<open>ParseConfig\<close> reads,
  stated through a printer.
\<close>

section \<open>Trimming\<close>

definition graphic :: "char \<Rightarrow> bool" where
  "graphic c \<longleftrightarrow> CHR 0x21 \<le> c \<and> c \<le> CHR 0x7E"

lemma space_encodings_graphic: "list_all (\<lambda>e. e \<noteq> [] \<and> \<not> graphic (hd e) \<and> \<not> graphic (last e)) space_encodings"
  by code_simp

lemma no_space_0:
  "(\<And>e. e \<in> set space_encodings \<Longrightarrow> \<not> hasPrefix s e) \<Longrightarrow> leading_space s = 0"
  "(\<And>e. e \<in> set space_encodings \<Longrightarrow> \<not> hasSuffix s e) \<Longrightarrow> trailing_space s = 0"
  by (auto simp: leading_space_def trailing_space_def find_Some_iff split: option.split)

lemma leading_graphic [simp]: "graphic c \<Longrightarrow> leading_space (c # s) = 0"
  using space_encodings_graphic
  by (intro no_space_0) (auto simp: list_all_iff hasPrefix_conv Cons_eq_append_conv)

lemma trailing_graphic [simp]: "graphic c \<Longrightarrow> trailing_space (s @ [c]) = 0"
proof (rule no_space_0(2), rule notI)
  fix e
  assume c: "graphic c" and e: "e \<in> set space_encodings" "hasSuffix (s @ [c]) e"
  then have "e \<noteq> []" "\<not> graphic (last e)" using space_encodings_graphic by (auto simp: list_all_iff)
  with c e(2) show False by (cases e rule: rev_cases) (auto simp: hasSuffix_conv)
qed

lemma space_is_space: "leading_space (CHR '' '' # v) = 1" "trailing_space (s @ '' '') = 1"
  by (simp_all add: leading_space_def trailing_space_def space_encodings_def hasPrefix_def hasSuffix_one)

lemma trim_Nil [simp]: "trimSpace [] = []"
  by code_simp

text \<open>A value that trimming leaves as it is.\<close>

definition tidy :: "string \<Rightarrow> bool" where
  "tidy v \<longleftrightarrow> v = [] \<or> graphic (hd v) \<and> graphic (last v)"

lemma trim_tidy [simp]: "tidy v \<Longrightarrow> trimSpace v = v"
proof (cases v rule: rev_cases)
  case Nil
  then show ?thesis by simp
next
  case (snoc w c)
  assume tidy: "tidy v"
  then have "graphic c" using snoc by (simp add: tidy_def)
  then have "trailing_space v = 0" unfolding snoc by (rule trailing_graphic)
  moreover obtain d u where v: "v = d # u" using snoc by (metis append_is_Nil_conv list.exhaust not_Cons_self2)
  then have "graphic d" using tidy by (simp add: tidy_def)
  then have "leading_space v = 0" unfolding v by (rule leading_graphic)
  ultimately show ?thesis by (intro trimSpace_id)
qed

lemma trim_leading_space [simp]: "trimSpace (CHR '' '' # v) = trimSpace v"
  unfolding trimSpace_def by (subst trimLeftSpace.simps) (simp add: space_is_space)

lemma trim_trailing_space [simp]: "tidy s \<Longrightarrow> s \<noteq> [] \<Longrightarrow> trimSpace (s @ '' '') = s"
proof -
  assume s: "tidy s" "s \<noteq> []"
  then obtain c w where "s = c # w" "graphic c" by (cases s) (auto simp: tidy_def)
  then have "trimLeftSpace (s @ '' '') = s @ '' ''" by (subst trimLeftSpace.simps) simp
  moreover have "trimRightSpace (s @ '' '') = trimRightSpace s"
    by (subst trimRightSpace.simps) (simp add: space_is_space)
  moreover have "trimRightSpace s = s"
    using s by (subst trimRightSpace.simps) (cases s rule: rev_cases; auto simp: tidy_def)
  ultimately show ?thesis by (simp add: trimSpace_def)
qed

section \<open>Lists of words\<close>

definition word_ok :: "char list \<Rightarrow> string \<Rightarrow> bool" where
  "word_ok seps w \<longleftrightarrow> w \<noteq> [] \<and> list_all (\<lambda>c. graphic c \<and> c \<notin> set seps) w"

lemma fields_from_word:
  "list_all graphic w \<Longrightarrow> fields_from cur (w @ s) = fields_from (cur @ w) s"
proof (induction w arbitrary: cur)
  case (Cons c w)
  then show ?case by (subst fields_from.simps) simp
qed simp

lemma fields_join: "list_all (word_ok []) ws \<Longrightarrow> GoStrings.fields (joinWith CHR '' '' ws) = ws"
  unfolding GoStrings.fields_def
proof (induction "CHR '' ''" ws rule: joinWith.induct)
  case 1
  then show ?case by (simp add: fields_from.simps)
next
  case (2 w)
  then have w: "w \<noteq> []" "list_all graphic w" by (auto simp: word_ok_def list_all_iff)
  have "fields_from [] (w @ []) = [w]" by (subst fields_from_word [OF w(2)]) (simp add: fields_from.simps w(1))
  then show ?case by simp
next
  case (3 w x xs)
  then have w: "w \<noteq> []" "list_all graphic w" by (auto simp: word_ok_def list_all_iff)
  have "fields_from w (CHR '' '' # joinWith CHR '' '' (x # xs)) = w # fields_from [] (joinWith CHR '' '' (x # xs))"
    by (subst fields_from.simps) (simp add: space_is_space w(1))
  with 3 show ?case by (simp add: fields_from_word [OF w(2)])
qed

lemma graphic_no_blank: "graphic c \<Longrightarrow> c \<noteq> CHR '' '' \<and> c \<noteq> CHR 0x09"
  by (rule conjI; rule notI) (simp_all add: graphic_def)

lemma word_ok_comma:
  "word_ok '','' w \<Longrightarrow> w \<noteq> [] \<and> list_all (\<lambda>c. \<not> (c = CHR '','' \<or> c = CHR '' '' \<or> c = CHR 0x09)) w"
  unfolding word_ok_def list_all_iff using graphic_no_blank by fastforce

lemma fieldsFunc_from_word:
  "list_all (\<lambda>c. \<not> p c) w \<Longrightarrow> fieldsFunc_from p cur (w @ s) = fieldsFunc_from p (cur @ w) s"
  by (induction w arbitrary: cur) simp_all

lemma splitComma_join: "list_all (word_ok '','') ws \<Longrightarrow> splitCommaOrSpace (joinWith CHR '','' ws) = ws"
  unfolding splitCommaOrSpace_def fieldsFunc_def
proof (induction "CHR '',''" ws rule: joinWith.induct)
  case 1
  then show ?case by simp
next
  case (2 w)
  let ?p = "\<lambda>c. c = CHR '','' \<or> c = CHR '' '' \<or> c = CHR 0x09"
  from 2 have w: "w \<noteq> []" "list_all (\<lambda>c. \<not> ?p c) w" using word_ok_comma [of w] by simp_all
  have "fieldsFunc_from ?p [] (w @ []) = [w]" unfolding fieldsFunc_from_word [OF w(2)] by (simp add: w(1))
  then show ?case by simp
next
  case (3 w x xs)
  let ?p = "\<lambda>c. c = CHR '','' \<or> c = CHR '' '' \<or> c = CHR 0x09"
  from 3 have w: "w \<noteq> []" "list_all (\<lambda>c. \<not> ?p c) w" using word_ok_comma [of w] by simp_all
  with 3 show ?case by (simp add: fieldsFunc_from_word [OF w(2)])
qed

lemma join_chars: "c \<in> set (joinWith sep ws) \<Longrightarrow> c = sep \<or> (\<exists>w \<in> set ws. c \<in> set w)"
  by (induction sep ws rule: joinWith.induct) auto

lemma join_ends:
  assumes "list_all (word_ok seps) ws" and "ws \<noteq> []"
  shows "joinWith sep ws \<noteq> []" and "graphic (hd (joinWith sep ws))" and "graphic (last (joinWith sep ws))"
  using assms
  by (induction sep ws rule: joinWith.induct) (auto simp: word_ok_def list_all_iff hd_append)

lemma tidy_join: "list_all (word_ok seps) ws \<Longrightarrow> tidy (joinWith sep ws)"
  using join_ends [of seps ws sep] by (cases "ws = []") (auto simp: tidy_def)

section \<open>Parameters and headers\<close>

definition value_ok :: "string \<Rightarrow> bool" where
  "value_ok v \<longleftrightarrow> tidy v \<and> CHR 0x0A \<notin> set v \<and> length v < 65000 \<and> (v \<noteq> [] \<longrightarrow> last v \<noteq> CHR 0x5C)"

definition render_param :: "string \<Rightarrow> string \<Rightarrow> string" where
  "render_param k v = k @ '' = '' @ v"

definition render_header :: "string \<Rightarrow> string" where
  "render_header name = ''['' @ name @ '']''"

definition key_ok :: "string \<Rightarrow> bool" where
  "key_ok k \<longleftrightarrow> k \<noteq> [] \<and> tidy k \<and> hd k \<noteq> CHR ''#'' \<and> hd k \<noteq> CHR ''['' \<and> CHR ''='' \<notin> set k \<and> toLower k = k"

lemma trim_param:
  assumes "key_ok k" and "tidy v"
  obtains tail where "trimSpace (render_param k v) = k @ CHR '' '' # CHR ''='' # tail" and "trimSpace tail = v"
proof (cases "v = []")
  case True
  have "tidy (k @ '' ='')" using assms(1) by (cases k) (simp_all add: key_ok_def tidy_def graphic_def)
  from trim_trailing_space [OF this] have "trimSpace (render_param k v) = k @ '' =''" by (simp add: render_param_def True)
  with True show ?thesis by (intro that [of "[]"]) simp_all
next
  case False
  then have "tidy (render_param k v)"
    using assms by (cases k) (simp_all add: key_ok_def render_param_def tidy_def)
  then show ?thesis using assms(2) by (intro that [of "CHR '' '' # v"]) (simp_all add: render_param_def)
qed

lemma parse_param: "key_ok k \<Longrightarrow> trimSpace tail = v \<Longrightarrow> parseParamLine (k @ CHR '' '' # CHR ''='' # tail) = Ok (k, v)"
proof -
  assume k: "key_ok k" and v: "trimSpace tail = v"
  have "indexByte ((k @ '' '') @ CHR ''='' # tail) CHR ''='' = Some (length (k @ '' ''))"
    using k by (intro indexByte_append) (simp add: key_ok_def)
  with k v show ?thesis by (simp add: parseParamLine_def key_ok_def Let_def)
qed

lemma config_param:
  assumes "key_ok k" and "tidy v" and "ps_current st = Some m"
  shows "config_line (render_param k v) st
    = res_bind (applyParam m k v) (\<lambda>m. Ok (st\<lparr>ps_current := Some m\<rparr>))"
proof -
  obtain tail where line: "trimSpace (render_param k v) = k @ CHR '' '' # CHR ''='' # tail" and tail: "trimSpace tail = v"
    using assms(1,2) by (rule trim_param)
  have "\<not> hasPrefix (k @ CHR '' '' # CHR ''='' # tail) ''#''" "\<not> hasPrefix (k @ CHR '' '' # CHR ''='' # tail) ''[''"
    using assms(1) by (cases k; simp add: key_ok_def hasPrefix_def)+
  then show ?thesis
    unfolding config_line_def line Let_def by (simp add: parse_param [OF assms(1) tail] assms(3))
qed

lemma config_header:
  assumes "value_ok name" and "name \<noteq> []" and "map_of (flush st) name = None"
  shows "config_line (render_header name) st
    = Ok (st\<lparr>ps_modules := flush st, ps_current := Some ((ps_defaults st)\<lparr>m_Name := name\<rparr>)\<rparr>)"
proof -
  have "tidy (render_header name)" by (simp add: tidy_def render_header_def graphic_def)
  then have line: "trimSpace (render_header name) = render_header name" by simp
  have "hasSuffix (render_header name) '']''" "hasPrefix (render_header name) ''[''" "\<not> hasPrefix (render_header name) ''#''"
    by (simp_all add: render_header_def hasSuffix_one hasPrefix_def)
  moreover have "go_slice (render_header name) 1 (length (render_header name) - 1) = name"
    by (simp add: render_header_def go_slice_def)
  then have "parseSectionHeader (render_header name) = Ok name"
    using assms calculation(1) by (simp add: parseSectionHeader_def value_ok_def)
  moreover have "render_header name \<noteq> []" by (simp add: render_header_def)
  ultimately show ?thesis
    unfolding config_line_def line Let_def using assms(3) by simp
qed

section \<open>The printer\<close>

definition yes_no :: "bool \<Rightarrow> string" where
  "yes_no b = (if b then ''yes'' else ''no'')"

definition module_params :: "Module \<Rightarrow> (string \<times> string) list" where
  "module_params m =
     [(''path'', m_Path m), (''comment'', m_Comment m), (''read only'', yes_no (m_ReadOnly m)),
      (''list'', yes_no (m_List m)), (''exclude'', joinWith CHR '' '' (m_Exclude m)),
      (''auth users'', joinWith CHR '','' (m_AuthUsers m)), (''secrets file'', m_SecretsFile m),
      (''max connections'', formatInt (m_MaxConnections m))]"

definition render_module :: "Module \<Rightarrow> string list" where
  "render_module m = render_header (m_Name m) # map (\<lambda>(k, v). render_param k v) (module_params m)"

definition render_config :: "Module list \<Rightarrow> string" where
  "render_config ms = concat (map (\<lambda>l. l @ [CHR 0x0A]) (concat (map render_module ms)))"

definition printable :: "Module \<Rightarrow> bool" where
  "printable m \<longleftrightarrow>
     value_ok (m_Name m) \<and> m_Name m \<noteq> [] \<and> m_Path m \<noteq> [] \<and>
     list_all value_ok [m_Path m, m_Comment m, joinWith CHR '' '' (m_Exclude m), joinWith CHR '','' (m_AuthUsers m),
       m_SecretsFile m] \<and>
     list_all (word_ok []) (m_Exclude m) \<and> list_all (word_ok '','') (m_AuthUsers m) \<and> fits64 (m_MaxConnections m)"

lemma keys_ok: "list_all (\<lambda>(k, v). key_ok k) (module_params m)"
  unfolding module_params_def by (simp add: key_ok_def tidy_def graphic_def toLower_def lower_char_def)

lemma digit_graphic: "d < 10 \<Longrightarrow> graphic (digit_char d) \<and> digit_char d \<noteq> CHR 0x5C \<and> digit_char d \<noteq> CHR 0x0A"
proof -
  assume "d < 10"
  then have "d \<in> {0, 1, 2, 3, 4, 5, 6, 7, 8, 9}" by auto
  then show ?thesis by (auto simp: digit_char_def graphic_def less_eq_char_def char_of_def bit_0)
qed

lemma formatInt_chars: "c \<in> set (formatInt n) \<Longrightarrow> graphic c \<and> c \<noteq> CHR 0x5C \<and> c \<noteq> CHR 0x0A"
  using digit_graphic format_nat_chars
  by (auto simp: formatInt_def graphic_def split: if_splits dest!: format_nat_chars)


lemma value_ok_atom [simp]: "value_ok (yes_no b)"
  by (simp add: value_ok_def yes_no_def tidy_def graphic_def)

lemma values_ok: "printable m \<Longrightarrow> list_all (\<lambda>(k, v). tidy v \<and> CHR 0x0A \<notin> set v \<and> (v \<noteq> [] \<longrightarrow> last v \<noteq> CHR 0x5C)) (module_params m)"
proof -
  assume m: "printable m"
  have n: "formatInt (m_MaxConnections m) \<noteq> []"
    using format_nat_head by (auto simp: formatInt_def) (metis list.distinct(1))
  then have "tidy (formatInt (m_MaxConnections m))" "CHR 0x0A \<notin> set (formatInt (m_MaxConnections m))"
    "last (formatInt (m_MaxConnections m)) \<noteq> CHR 0x5C"
    using formatInt_chars [of _ "m_MaxConnections m"] last_in_set [OF n] hd_in_set [OF n] by (auto simp: tidy_def)
  with m show ?thesis using value_ok_atom [unfolded value_ok_def]
    by (simp add: module_params_def printable_def value_ok_def)
qed

lemma config_params:
  "list_all (\<lambda>(k, v). key_ok k \<and> tidy v) ps \<Longrightarrow> ps_current st = Some m \<Longrightarrow>
     fold (\<lambda>(k, v) r. res_bind r (\<lambda>m. applyParam m k v)) ps (Ok m) = Ok m' \<Longrightarrow>
     config_lines n (map (\<lambda>(k, v). render_param k v) ps @ rest) st
       = config_lines (n + length ps) rest (st\<lparr>ps_current := Some m'\<rparr>)"
proof (induction ps arbitrary: n st m)
  case Nil
  then have "st\<lparr>ps_current := Some m'\<rparr> = st" by (cases st) simp
  then show ?case by simp
next
  case (Cons p ps)
  obtain k v where p: "p = (k, v)" by (cases p)
  have fail: "fold (\<lambda>(k, v) r. res_bind r (\<lambda>m. applyParam m k v)) ps (Fail e) = Fail e" for e
    by (induction ps) auto
  with Cons.prems(3) p obtain m1 where m1: "applyParam m k v = Ok m1"
    by (cases "applyParam m k v") auto
  have "config_lines (Suc n) (map (\<lambda>(k, v). render_param k v) ps @ rest) (st\<lparr>ps_current := Some m1\<rparr>)
      = config_lines (Suc n + length ps) rest (st\<lparr>ps_current := Some m1\<rparr>\<lparr>ps_current := Some m'\<rparr>)"
    using Cons.prems m1 p by (intro Cons.IH [where m = m1]) simp_all
  with Cons.prems m1 p show ?case by (simp add: config_param)
qed

lemma apply_params:
  assumes "printable m"
  shows "fold (\<lambda>(k, v) r. res_bind r (\<lambda>m. applyParam m k v)) (module_params m) (Ok (moduleDefaults\<lparr>m_Name := m_Name m\<rparr>)) = Ok m"
proof -
  have bools: "parseBool (yes_no b) = Some b" for b by (cases b) (simp_all add: yes_no_def parseBool_def toLower_def lower_char_def)
  have "GoStrings.fields (joinWith CHR '' '' (m_Exclude m)) = m_Exclude m"
    using assms by (simp add: fields_join printable_def)
  moreover have "splitCommaOrSpace (joinWith CHR '','' (m_AuthUsers m)) = m_AuthUsers m"
    using assms by (simp add: splitComma_join printable_def)
  moreover have "atoi (formatInt (m_MaxConnections m)) = Some (m_MaxConnections m)"
    using assms by (simp add: atoi_formatInt printable_def)
  ultimately show ?thesis by (simp add: module_params_def applyParam_def bools moduleDefaults_def)
qed

lemma config_module:
  assumes "printable m" and "map_of (flush st) (m_Name m) = None" and "ps_defaults st = moduleDefaults"
  shows "config_lines n (render_module m @ rest) st
    = config_lines (n + 9) rest (st\<lparr>ps_modules := flush st, ps_current := Some m\<rparr>)"
proof -
  have params: "list_all (\<lambda>(k, v). key_ok k \<and> tidy v) (module_params m)"
    using keys_ok [of m] values_ok [OF assms(1)] by (auto simp: list_all_iff)
  have "length (module_params m) = 8" by (simp add: module_params_def)
  with config_params [OF params _ apply_params [OF assms(1)]]
    config_header [of "m_Name m" st] assms
  show ?thesis by (simp add: render_module_def printable_def add.commute)
qed

lemma config_modules:
  "list_all printable ms \<Longrightarrow> distinct (map m_Name ms) \<Longrightarrow> ps_defaults st = moduleDefaults \<Longrightarrow> parse_inv st \<Longrightarrow>
     \<forall>m \<in> set ms. map_of (flush st) (m_Name m) = None \<Longrightarrow>
     \<exists>st'. config_lines n (concat (map render_module ms)) st = Ok st' \<and>
       flush st' = flush st @ map (\<lambda>m. (m_Name m, m)) ms"
proof (induction ms arbitrary: n st)
  case (Cons m ms)
  let ?st = "st\<lparr>ps_modules := flush st, ps_current := Some m\<rparr>"
  have flush: "flush ?st = flush st @ [(m_Name m, m)]" using Cons.prems(5) by (simp add: flush_def update_new)
  have m: "m_Name m \<noteq> []" "graphic (last (m_Name m))"
    using Cons.prems(1) by (auto simp: printable_def value_ok_def tidy_def)
  then have "trailing_space (m_Name m) = 0"
    using trailing_graphic [of "last (m_Name m)" "butlast (m_Name m)"] by simp
  with m have "parse_inv ?st"
    using flush_inv [OF Cons.prems(4)] Cons.prems(5) by (simp add: parse_inv_def module_ok_def)
  moreover have "\<forall>x \<in> set ms. map_of (flush ?st) (m_Name x) = None"
    unfolding flush using Cons.prems(2,5) by (auto simp: map_add_def image_iff)
  ultimately obtain st' where "config_lines (n + 9) (concat (map render_module ms)) ?st = Ok st'"
    "flush st' = flush ?st @ map (\<lambda>m. (m_Name m, m)) ms"
    using Cons.IH [of ?st "n + 9"] Cons.prems by auto
  with Cons.prems flush show ?case by (simp add: config_module)
qed simp


section \<open>The round trip\<close>

lemma lines_ok:
  assumes "printable m" and "l \<in> set (render_module m)"
  shows "CHR 0x0A \<notin> set l" and "last l \<noteq> CHR 0x5C" and "last l \<noteq> CHR 0x0D" and "l \<noteq> []"
proof -
  have "CHR 0x0A \<notin> set l \<and> last l \<noteq> CHR 0x5C \<and> last l \<noteq> CHR 0x0D \<and> l \<noteq> []"
  proof (cases "l = render_header (m_Name m)")
    case True
    with assms(1) show ?thesis by (simp add: render_header_def printable_def value_ok_def)
  next
    case False
    with assms(2) obtain k v where kv: "(k, v) \<in> set (module_params m)" "l = render_param k v"
      by (auto simp: render_module_def)
    have "list_all (\<lambda>(k, v). CHR 0x0A \<notin> set k) (module_params m)" by (simp add: module_params_def)
    with kv(1) have "CHR 0x0A \<notin> set k" by (auto simp: list_all_iff)
    moreover from kv(1) values_ok [OF assms(1)] have v: "tidy v" "CHR 0x0A \<notin> set v" "v \<noteq> [] \<longrightarrow> last v \<noteq> CHR 0x5C"
      by (auto simp: list_all_iff)
    moreover have "v \<noteq> [] \<longrightarrow> last v \<noteq> CHR 0x0D" using v(1) by (auto simp: tidy_def graphic_def)
    ultimately show ?thesis by (simp add: kv(2) render_param_def)
  qed
  then show "CHR 0x0A \<notin> set l" and "last l \<noteq> CHR 0x5C" and "last l \<noteq> CHR 0x0D" and "l \<noteq> []" by simp_all
qed

lemma join_continued_id: "list_all (\<lambda>l. last l \<noteq> CHR 0x5C \<and> l \<noteq> []) ls \<Longrightarrow> join_continued [] ls = ls"
  by (induction ls) (simp_all add: hasSuffix_one)

lemma format_nat_length: "n < 10 ^ k \<Longrightarrow> 0 < k \<Longrightarrow> length (format_nat n) \<le> k"
proof (induction n arbitrary: k rule: format_nat.induct)
  case (1 n)
  show ?case
  proof (cases "n < 10")
    case True
    with "1.prems" show ?thesis by (subst format_nat.simps) simp
  next
    case False
    then obtain j where k: "k = Suc j" "0 < j" using "1.prems" by (cases k; cases "k = 1") auto
    have "n div 10 < 10 ^ j" using "1.prems"(1) k by (simp add: less_mult_imp_div_less)
    with "1.IH" [OF False this k(2)] k False show ?thesis by (subst format_nat.simps) simp
  qed
qed

lemma short_lines: "printable m \<Longrightarrow> l \<in> set (render_module m) \<Longrightarrow> length l < maxScanTokenSize"
proof -
  assume m: "printable m" and l: "l \<in> set (render_module m)"
  have "length (formatInt (m_MaxConnections m)) \<le> 21"
  proof -
    have "nat \<bar>m_MaxConnections m\<bar> < 10 ^ 20" using m by (auto simp: printable_def fits64_def)
    then have "length (format_nat (nat \<bar>m_MaxConnections m\<bar>)) \<le> 20" by (rule format_nat_length) simp
    then show ?thesis by (cases "m_MaxConnections m < 0") (simp_all add: formatInt_def)
  qed
  with m have v: "list_all (\<lambda>(k, v). length k \<le> 16 \<and> length v < 65000) (module_params m)"
    by (simp add: module_params_def printable_def value_ok_def yes_no_def)
  have "length (render_param k v) < maxScanTokenSize" if "(k, v) \<in> set (module_params m)" for k v
    using that v by (auto simp: list_all_iff render_param_def maxScanTokenSize_def)
  moreover have "length (render_header (m_Name m)) < maxScanTokenSize"
    using m by (simp add: render_header_def printable_def value_ok_def maxScanTokenSize_def)
  ultimately show ?thesis using l by (auto simp: render_module_def)
qed

lemma render_lines:
  assumes "list_all printable ms"
  shows "readLogicalLines (render_config ms) = Ok (concat (map render_module ms))"
proof -
  let ?ls = "concat (map render_module ms)"
  have ok: "CHR 0x0A \<notin> set l \<and> last l \<noteq> CHR 0x5C \<and> last l \<noteq> CHR 0x0D \<and> l \<noteq> [] \<and> length l < maxScanTokenSize"
    if "l \<in> set ?ls" for l
    using that assms lines_ok short_lines by (fastforce simp: list_all_iff)
  have "rawLines (render_config ms) = ?ls"
    unfolding render_config_def by (rule rawLines_unlines) (use ok in blast)
  moreover have "takeWhile (\<lambda>l. length l < maxScanTokenSize) ?ls = ?ls"
    using ok by (simp only: takeWhile_eq_all_conv) blast
  moreover have "map dropCR ?ls = ?ls"
    using ok by (intro map_idI) (simp add: dropCR_def hasSuffix_one)
  moreover have "join_continued [] ?ls = ?ls"
    using ok by (intro join_continued_id) (simp add: list_all_iff)
  moreover have "list_all (\<lambda>l. length l < maxScanTokenSize) ?ls" using ok by (simp only: list_all_iff) blast
  ultimately show ?thesis unfolding readLogicalLines_def scanLines_def Let_def by (simp only: prod.case if_True)
qed

text \<open>
  C23. Configurations round trip: an rsyncd.conf with one section per module and every parameter written
  out as \<open>name = value\<close> parses to exactly those modules, in order, whatever their values (text without
  surrounding blanks, final backslashes or newlines, word lists, any 64-bit number).
\<close>

theorem ParseConfig_roundtrip:
  assumes "list_all printable ms" and "distinct (map m_Name ms)"
  shows "ParseConfig (render_config ms) = Ok (map (\<lambda>m. (m_Name m, m)) ms)"
proof -
  obtain st where st: "config_lines (Suc 0) (concat (map render_module ms)) parse_start = Ok st"
    "flush st = flush parse_start @ map (\<lambda>m. (m_Name m, m)) ms"
    using config_modules [OF assms, of parse_start "Suc 0"] by (auto simp: parse_start_def parse_inv_def flush_def)
  have "flush parse_start = []" by (simp add: parse_start_def flush_def)
  moreover have "\<not> list_ex (\<lambda>(name, m). m_Path m = []) (map (\<lambda>m. (m_Name m, m)) ms)"
    using assms(1) by (auto simp: list_ex_iff list_all_iff printable_def)
  ultimately show ?thesis
    by (simp add: ParseConfig_def render_lines [OF assms(1)] st Let_def)
qed

definition small_module :: Module where
  "small_module = moduleDefaults\<lparr>m_Name := ''data'', m_Path := ''/srv/data'', m_ReadOnly := False, m_Comment := ''my files'',
     m_Exclude := [''*.tmp'', ''/lost+found''], m_AuthUsers := [''ann'', ''bob''], m_MaxConnections := 4\<rparr>"

lemma small_module_printable: "printable small_module"
  by (simp add: printable_def small_module_def moduleDefaults_def value_ok_def tidy_def graphic_def word_ok_def fits64_def)

theorem ParseConfig_roundtrip_witness:
  "ParseConfig (render_config [small_module]) = Ok [(''data'', small_module)]"
  using ParseConfig_roundtrip [of "[small_module]"] small_module_printable by (simp add: small_module_def)

end
