(* ===== verification/Progress.thy ===== *)
theory Progress
  imports Stats Partial
begin

text \<open>
  \<open>internal/pipeline/progress.go\<close>: the live progress lines. The updates of one file, their text, and the
  reporter as a state machine of two goroutines: the transfer, which reports updates and then calls
  \<open>stop\<close>, and \<open>run\<close>, which prints them; they share a channel of capacity 8 and the channel that \<open>run\<close>
  closes at its end. Printing a line always returns: an output that blocks is not a state here. Floating-point arithmetic is the parameter \<open>floatOps\<close> of theory \<open>Stats\<close>.
\<close>

section \<open>The updates of one file\<close>

record progressUpdate =
  pu_path :: string
  pu_bytesDone :: int
  pu_fileSize :: int
  pu_done :: bool
  pu_xferNum :: int
  pu_totalFiles :: int
  pu_filesLeft :: int

definition chunk_size :: int where
  "chunk_size = int progressWriteChunkSize"

lemma chunk_size_pos [simp]: "0 < chunk_size"
  by (simp add: chunk_size_def progressWriteChunkSize_def)

text \<open>The reports of \<open>writeToTempFileWithProgress\<close> when no write fails; \<open>mk written last\<close> is the update.\<close>

function chunk_updates :: "(int \<Rightarrow> bool \<Rightarrow> progressUpdate) \<Rightarrow> int \<Rightarrow> int \<Rightarrow> progressUpdate list" where
  "chunk_updates mk len written =
     (if written < len
      then (let w = (if written + chunk_size > len then len else written + chunk_size)
            in mk w (w = len) # chunk_updates mk len w)
      else [])"
  by pat_completeness auto
termination
  by (relation "measure (\<lambda>(mk, len, written). nat (len - written))") (auto simp: Let_def)

declare chunk_updates.simps [simp del]

definition file_updates :: "string \<Rightarrow> int \<Rightarrow> int \<Rightarrow> int \<Rightarrow> int \<Rightarrow> progressUpdate list" where
  "file_updates path len xferNum totalFiles filesLeft =
     (let mk = (\<lambda>bytesDone last.
            \<lparr>pu_path = path, pu_bytesDone = bytesDone, pu_fileSize = len, pu_done = last, pu_xferNum = xferNum,
             pu_totalFiles = totalFiles, pu_filesLeft = filesLeft\<rparr>)
      in if len \<le> chunk_size then [mk len True] else chunk_updates mk len 0)"

lemma chunk_updates_end: "\<not> written < len \<Longrightarrow> chunk_updates mk len written = []"
  by (simp add: chunk_updates.simps)

lemma chunk_updates_form:
  "(\<And>w b. pu_bytesDone (mk w b) = w) \<Longrightarrow> (\<And>w b. pu_done (mk w b) = b) \<Longrightarrow> written \<le> len \<Longrightarrow>
    sorted_wrt (<) (written # map pu_bytesDone (chunk_updates mk len written)) \<and>
    (\<forall>u \<in> set (chunk_updates mk len written). pu_bytesDone u \<le> len \<and> (pu_done u \<longleftrightarrow> pu_bytesDone u = len)) \<and>
    (written < len \<longrightarrow> chunk_updates mk len written \<noteq> [] \<and> pu_bytesDone (last (chunk_updates mk len written)) = len)"
proof (induction mk len written rule: chunk_updates.induct)
  case (1 mk len written)
  show ?case
  proof (cases "written < len")
    case True
    define w where "w = (if written + chunk_size > len then len else written + chunk_size)"
    have w: "written < w" "w \<le> len" using True by (auto simp: w_def)
    have step: "chunk_updates mk len written = mk w (w = len) # chunk_updates mk len w"
      using True by (simp add: chunk_updates.simps [of mk len written] Let_def w_def)
    note ih = 1(1) [OF True w_def 1(2,3) w(2)]
    have "w = len \<and> chunk_updates mk len w = []" if "\<not> w < len"
      using that w(2) by (simp add: chunk_updates_end)
    with ih w show ?thesis unfolding step by (auto simp: 1(2,3))
  qed (simp add: chunk_updates.simps)
qed

section \<open>Text\<close>

definition format_seconds :: "int \<Rightarrow> string" where
  "format_seconds totalSeconds =
     (let hours = totalSeconds div 3600; minutes = totalSeconds mod 3600 div 60; seconds = totalSeconds mod 60
      in formatInt hours @ '':'' @ pad2 minutes @ '':'' @ pad2 seconds)"

definition formatDuration :: "'f floatOps \<Rightarrow> int \<Rightarrow> string" where
  "formatDuration fo d = format_seconds (fo_trunc fo (duration_seconds fo (if d < 0 then 0 else d)))"

definition formatRate :: "'f floatOps \<Rightarrow> 'f \<Rightarrow> string" where
  "formatRate fo r =
     (if fo_le fo (fo_of_int fo 1000000000) r then fo_fixed2 fo (fo_div fo r (fo_of_int fo 1000000000)) @ ''GB''
      else if fo_le fo (fo_of_int fo 1000000) r then fo_fixed2 fo (fo_div fo r (fo_of_int fo 1000000)) @ ''MB''
      else fo_fixed2 fo (fo_div fo r (fo_of_int fo 1000)) @ ''kB'')"

definition percent_of :: "'f floatOps \<Rightarrow> progressUpdate \<Rightarrow> int" where
  "percent_of fo u =
     (if pu_fileSize u > 0
      then fo_trunc fo (fo_div fo (fo_mul fo (fo_of_int fo (pu_bytesDone u)) (fo_of_int fo 100)) (fo_of_int fo (pu_fileSize u)))
      else if pu_done u then 100 else 0)"

definition rate_of :: "'f floatOps \<Rightarrow> progressUpdate \<Rightarrow> int \<Rightarrow> 'f" where
  "rate_of fo u elapsed =
     (if elapsed > 0 then fo_div fo (fo_of_int fo (pu_bytesDone u)) (duration_seconds fo elapsed) else fo_of_int fo 0)"

definition eta_of :: "'f floatOps \<Rightarrow> progressUpdate \<Rightarrow> 'f \<Rightarrow> string" where
  "eta_of fo u rate =
     (if fo_less fo (fo_of_int fo 0) rate \<and> pu_fileSize u > pu_bytesDone u
      then formatDuration fo
             (wrap64 (fo_trunc fo (fo_div fo (fo_of_int fo (pu_fileSize u - pu_bytesDone u)) rate) * 1000000000))
      else ''0:00:00'')"

definition newline :: string where "newline = [CHR 0x0A]"

definition formatProgressLine :: "'f floatOps \<Rightarrow> progressUpdate \<Rightarrow> int \<Rightarrow> string" where
  "formatProgressLine fo u elapsed =
     (let rate = rate_of fo u elapsed in
      if \<not> pu_done u
      then formatInt (pu_bytesDone u) @ ''  '' @ formatInt (percent_of fo u) @ ''%  '' @ formatRate fo rate @ ''/s    '' @
           eta_of fo u rate @ newline
      else commaInt (pu_bytesDone u) @ '' 100%  '' @ formatRate fo rate @ ''/s    '' @ formatDuration fo elapsed @
           ''  (xfr#'' @ formatInt (pu_xferNum u) @ '', to-chk='' @ formatInt (pu_filesLeft u) @ ''/'' @
           formatInt (pu_totalFiles u) @ '')'' @ newline)"


section \<open>The reporter\<close>

text \<open>
  The transfer has updates left to report, is about to wait for \<open>run\<close>, or has returned from \<open>stop\<close>;
  \<open>run\<close> is at its receive, holds an update to print, or has ended. \<open>dropped\<close> records what the transfer
  did not send; the code keeps no such record.
\<close>

datatype 'u transfer = Transferring "'u list" | Waiting | Returned
datatype 'u runner = Receiving | Printing 'u | Finished

record 'u reporter =
  pr_transfer :: "'u transfer"
  pr_runner :: "'u runner"
  pr_updates :: "'u list"
  pr_closed :: bool
  pr_done :: bool
  pr_printed :: "'u list"
  pr_dropped :: "'u list"

definition capacity :: nat where
  "capacity = 8"

definition newProgressReporter :: "'u list \<Rightarrow> 'u reporter" where
  "newProgressReporter us =
     \<lparr>pr_transfer = Transferring us, pr_runner = Receiving, pr_updates = [], pr_closed = False, pr_done = False,
      pr_printed = [], pr_dropped = []\<rparr>"

text \<open>\<open>report\<close>: a send that does not block.\<close>

definition report_update :: "'u \<Rightarrow> 'u reporter \<Rightarrow> 'u reporter" where
  "report_update u s =
     (if length (pr_updates s) < capacity then s\<lparr>pr_updates := pr_updates s @ [u]\<rparr>
      else s\<lparr>pr_dropped := pr_dropped s @ [u]\<rparr>)"

inductive reporter_step :: "'u reporter \<Rightarrow> 'u reporter \<Rightarrow> bool" where
  reports: "pr_transfer s = Transferring (u # us) \<Longrightarrow>
    reporter_step s ((report_update u s)\<lparr>pr_transfer := Transferring us\<rparr>)"
| stop_closes: "pr_transfer s = Transferring [] \<Longrightarrow>
    reporter_step s (s\<lparr>pr_closed := True, pr_transfer := Waiting\<rparr>)"
| stop_returns: "pr_transfer s = Waiting \<Longrightarrow> pr_done s \<Longrightarrow> reporter_step s (s\<lparr>pr_transfer := Returned\<rparr>)"
| receives: "pr_runner s = Receiving \<Longrightarrow> pr_updates s = u # us \<Longrightarrow>
    reporter_step s (s\<lparr>pr_updates := us, pr_runner := Printing u\<rparr>)"
| prints: "pr_runner s = Printing u \<Longrightarrow>
    reporter_step s (s\<lparr>pr_printed := pr_printed s @ [u], pr_runner := Receiving\<rparr>)"
| ends: "pr_runner s = Receiving \<Longrightarrow> pr_updates s = [] \<Longrightarrow> pr_closed s \<Longrightarrow>
    reporter_step s (s\<lparr>pr_done := True, pr_runner := Finished\<rparr>)"

abbreviation reporter_steps :: "'u reporter \<Rightarrow> 'u reporter \<Rightarrow> bool" where
  "reporter_steps \<equiv> reporter_step\<^sup>*\<^sup>*"

fun to_report :: "'u transfer \<Rightarrow> 'u list" where
  "to_report (Transferring us) = us"
| "to_report _ = []"

fun in_hand :: "'u runner \<Rightarrow> 'u list" where
  "in_hand (Printing u) = [u]"
| "in_hand _ = []"

subsection \<open>Invariant\<close>

lemma shuffles_end: "ys @ [x] \<in> shuffles [x] ys"
  by (induction ys) (auto simp: Cons_in_shuffles_iff)

lemma shuffles_end': "xs @ [x] \<in> shuffles xs [x]"
  by (subst shuffles_commutes) (rule shuffles_end)

lemma shuffles_snoc:
  "xs \<in> shuffles ys zs \<Longrightarrow> xs @ [x] \<in> shuffles (ys @ [x]) zs"
  "xs \<in> shuffles ys zs \<Longrightarrow> xs @ [x] \<in> shuffles ys (zs @ [x])"
  by (induction ys zs arbitrary: xs rule: shuffles.induct)
    (auto simp: Cons_in_shuffles_iff shuffles_end shuffles_end')

lemma shuffles_subseq: "xs \<in> shuffles ys zs \<Longrightarrow> subseq ys xs"
  by (induction ys zs arbitrary: xs rule: shuffles.induct) auto

definition reporter_inv :: "'u list \<Rightarrow> 'u reporter \<Rightarrow> bool" where
  "reporter_inv us s \<longleftrightarrow>
     length (pr_updates s) \<le> capacity \<and>
     (pr_closed s \<longleftrightarrow> pr_transfer s = Waiting \<or> pr_transfer s = Returned) \<and>
     (pr_done s \<longleftrightarrow> pr_runner s = Finished) \<and>
     (pr_done s \<longrightarrow> pr_closed s \<and> pr_updates s = []) \<and> (pr_transfer s = Returned \<longrightarrow> pr_done s) \<and>
     (\<exists>reported. us = reported @ to_report (pr_transfer s) \<and>
        reported \<in> shuffles (pr_printed s @ in_hand (pr_runner s) @ pr_updates s) (pr_dropped s)) \<and>
     (pr_dropped s \<noteq> [] \<longrightarrow> capacity < length us)"

lemma inv_start: "reporter_inv us (newProgressReporter us)"
  by (simp add: reporter_inv_def newProgressReporter_def)

lemma shuffles_length: "xs \<in> shuffles ys zs \<Longrightarrow> length xs = length ys + length zs"
  by (simp add: length_shuffles)

lemma inv_step: "reporter_step s t \<Longrightarrow> reporter_inv us s \<Longrightarrow> reporter_inv us t"
proof (induction rule: reporter_step.induct)
  case (reports s u vs)
  then obtain reported where r: "us = reported @ u # vs"
    "reported \<in> shuffles (pr_printed s @ in_hand (pr_runner s) @ pr_updates s) (pr_dropped s)"
    by (auto simp: reporter_inv_def)
  have len: "length us \<ge> length (pr_updates s) + 1" using shuffles_length [OF r(2)] r(1) by simp
  have split: "us = (reported @ [u]) @ vs" using r(1) by simp
  show ?case
  proof (cases "length (pr_updates s) < capacity")
    case True
    with reports shuffles_snoc(1) [OF r(2), of u] split show ?thesis
      by (auto simp: reporter_inv_def report_update_def)
  next
    case False
    with reports shuffles_snoc(2) [OF r(2), of u] split len show ?thesis
      by (auto simp: reporter_inv_def report_update_def)
  qed
qed (auto simp: reporter_inv_def)

lemma inv_steps: "reporter_steps (newProgressReporter us) s \<Longrightarrow> reporter_inv us s"
  by (induction rule: rtranclp_induct) (auto intro: inv_start inv_step)

subsection \<open>Steps left\<close>

fun transfer_steps :: "'u transfer \<Rightarrow> nat" where
  "transfer_steps (Transferring us) = 3 * length us + 2"
| "transfer_steps Waiting = 1"
| "transfer_steps Returned = 0"

fun runner_steps :: "'u runner \<Rightarrow> nat" where
  "runner_steps Receiving = 1"
| "runner_steps (Printing u) = 2"
| "runner_steps Finished = 0"

definition steps_left :: "'u reporter \<Rightarrow> nat" where
  "steps_left s = transfer_steps (pr_transfer s) + 2 * length (pr_updates s) + runner_steps (pr_runner s)"

lemma step_decreases: "reporter_step s t \<Longrightarrow> steps_left t < steps_left s"
  by (induction rule: reporter_step.induct) (auto simp: steps_left_def report_update_def)

lemma steps_bounded: "(reporter_step ^^ n) s t \<Longrightarrow> n + steps_left t \<le> steps_left s"
proof (induction n arbitrary: t)
  case (Suc n)
  then obtain r where "(reporter_step ^^ n) s r" "reporter_step r t" by (auto elim: relpowp_Suc_E)
  with Suc.IH [of r] step_decreases [of r t] show ?case by simp
qed simp

inductive_simps stuck_simps: "reporter_step s t"

lemma stuck_final:
  assumes "reporter_inv us s" and "\<nexists>t. reporter_step s t"
  shows "pr_transfer s = Returned \<and> pr_runner s = Finished"
proof -
  have transfer: "pr_transfer s = Returned \<or> pr_transfer s = Waiting \<and> \<not> pr_done s"
  proof (cases "pr_transfer s")
    case (Transferring us)
    with assms(2) show ?thesis by (cases us) (blast intro: reports stop_closes)+
  qed (use assms(2) in \<open>blast intro: stop_returns\<close>)+
  moreover have "pr_runner s = Finished \<or> pr_runner s = Receiving \<and> pr_updates s = [] \<and> \<not> pr_closed s"
  proof (cases "pr_runner s")
    case Receiving
    with assms(2) show ?thesis by (cases "pr_updates s") (blast intro: receives ends)+
  qed (use assms(2) in \<open>blast intro: prints\<close>)+
  ultimately show ?thesis using assms(1) by (auto simp: reporter_inv_def)
qed

subsection \<open>Properties\<close>

text \<open>
  C11. Transferring progress never blocks or breaks the transfer: in every state that the transfer and the
  printing goroutine can reach in any order of their steps, a transfer with updates left can take its
  next step, nothing is sent on the closed channel, the channel holds at most 8 updates, the printed
  updates are, in order, among the reported ones, and only a transfer of more than 8 updates ever drops
  one.
\<close>

theorem progress_never_blocks:
  assumes "reporter_steps (newProgressReporter us) s"
  shows "(\<forall>vs. pr_transfer s = Transferring vs \<longrightarrow> \<not> pr_closed s \<and> (\<exists>t. reporter_step s t \<and> pr_transfer t \<noteq> pr_transfer s)) \<and>
    length (pr_updates s) \<le> 8 \<and> subseq (pr_printed s) us \<and> (length us \<le> 8 \<longrightarrow> pr_dropped s = [])"
proof -
  from inv_steps [OF assms] have inv: "reporter_inv us s" .
  then obtain reported where r: "us = reported @ to_report (pr_transfer s)"
    "reported \<in> shuffles (pr_printed s @ in_hand (pr_runner s) @ pr_updates s) (pr_dropped s)"
    by (auto simp: reporter_inv_def)
  have "subseq (pr_printed s) (pr_printed s @ in_hand (pr_runner s) @ pr_updates s)" by (rule list_emb_prefix) simp
  also have "subseq \<dots> reported" by (rule shuffles_subseq [OF r(2)])
  finally have "subseq (pr_printed s) us" unfolding r(1) by (rule list_emb_prefix)
  moreover have "\<exists>t. reporter_step s t \<and> pr_transfer t \<noteq> pr_transfer s" if "pr_transfer s = Transferring vs" for vs
  proof (cases vs)
    case Nil
    with that have "reporter_step s (s\<lparr>pr_closed := True, pr_transfer := Waiting\<rparr>)" by (simp add: stop_closes)
    with that show ?thesis by (intro exI conjI) auto
  next
    case (Cons u ws)
    with that have "reporter_step s ((report_update u s)\<lparr>pr_transfer := Transferring ws\<rparr>)" by (simp add: reports)
    with that Cons show ?thesis by (intro exI conjI) auto
  qed
  ultimately show ?thesis using inv by (auto simp: reporter_inv_def capacity_def)
qed

theorem progress_never_blocks_witness:
  "reporter_steps (newProgressReporter [True])
     ((newProgressReporter [True])\<lparr>pr_transfer := Transferring [], pr_updates := [True]\<rparr>) \<and>
   subseq (pr_printed ((newProgressReporter [True])\<lparr>pr_transfer := Transferring [], pr_updates := [True]\<rparr>)) [True]"
proof -
  let ?t = "(newProgressReporter [True])\<lparr>pr_transfer := Transferring [], pr_updates := [True]\<rparr>"
  have "reporter_step (newProgressReporter [True])
      ((report_update True (newProgressReporter [True]))\<lparr>pr_transfer := Transferring []\<rparr>)"
    by (rule reports) (simp add: newProgressReporter_def)
  then have "reporter_steps (newProgressReporter [True]) ?t"
    by (simp add: report_update_def newProgressReporter_def capacity_def r_into_rtranclp)
  with progress_never_blocks [OF this] show ?thesis by blast
qed

text \<open>
  C10. \<open>stop\<close> returns and loses nothing: from the start with \<open>n\<close> updates to report, no schedule of the two
  goroutines makes more than \<open>3 n + 3\<close> steps, so there is no infinite run and no livelock; and a reachable
  state with no step left, which every run therefore ends in, is the one in which \<open>stop\<close> has returned, the
  printing goroutine has ended, and every update was either printed or dropped on a full channel (so
  that, up to 8 updates, all are printed in order).
\<close>

theorem progress_stop_returns:
  "(\<forall>n s. (reporter_step ^^ n) (newProgressReporter us) s \<longrightarrow> n \<le> 3 * length us + 3) \<and>
   (\<forall>s. reporter_steps (newProgressReporter us) s \<and> (\<nexists>t. reporter_step s t) \<longrightarrow>
      pr_transfer s = Returned \<and> pr_runner s = Finished \<and> us \<in> shuffles (pr_printed s) (pr_dropped s) \<and>
      (length us \<le> 8 \<longrightarrow> pr_printed s = us))"
proof (intro conjI allI impI)
  fix n s
  assume "(reporter_step ^^ n) (newProgressReporter us) s"
  from steps_bounded [OF this] show "n \<le> 3 * length us + 3"
    by (simp add: steps_left_def newProgressReporter_def)
next
  fix s
  assume run: "reporter_steps (newProgressReporter us) s \<and> (\<nexists>t. reporter_step s t)"
  then have inv: "reporter_inv us s" by (simp add: inv_steps)
  with run have final: "pr_transfer s = Returned \<and> pr_runner s = Finished" using stuck_final [OF inv] by simp
  with inv have all: "us \<in> shuffles (pr_printed s) (pr_dropped s)" by (auto simp: reporter_inv_def)
  then show "pr_transfer s = Returned" "pr_runner s = Finished" "us \<in> shuffles (pr_printed s) (pr_dropped s)"
    using final by auto
  show "pr_printed s = us" if "length us \<le> 8"
  proof -
    from inv that have "pr_dropped s = []" by (auto simp: reporter_inv_def capacity_def)
    with all show ?thesis by simp
  qed
qed

theorem progress_stop_returns_witness:
  "\<exists>s. reporter_steps (newProgressReporter [] :: nat reporter) s \<and> (\<nexists>t. reporter_step s t) \<and> pr_transfer s = Returned"
proof -
  define s1 where "s1 = (newProgressReporter [] :: nat reporter)\<lparr>pr_closed := True, pr_transfer := Waiting\<rparr>"
  define s2 where "s2 = s1\<lparr>pr_done := True, pr_runner := Finished\<rparr>"
  define s3 where "s3 = s2\<lparr>pr_transfer := Returned\<rparr>"
  have "reporter_step (newProgressReporter []) s1"
    unfolding s1_def by (rule stop_closes) (simp add: newProgressReporter_def)
  note first = this
  have "reporter_step s1 s2"
    unfolding s2_def by (rule ends) (simp_all add: s1_def newProgressReporter_def)
  note second = this
  have "reporter_step s2 s3"
    unfolding s3_def by (rule stop_returns) (simp_all add: s2_def s1_def)
  then have "reporter_steps s2 s3" by (rule r_into_rtranclp)
  then have "reporter_steps s1 s3" by (rule converse_rtranclp_into_rtranclp [rotated]) (rule second)
  then have run: "reporter_steps (newProgressReporter []) s3"
    by (rule converse_rtranclp_into_rtranclp [rotated]) (rule first)
  have stuck: "\<nexists>t. reporter_step s3 t"
    by (simp add: stuck_simps s3_def s2_def)
  with run progress_stop_returns [of "[] :: nat list"] show ?thesis by blast
qed

text \<open>
  The reports of one file: their byte counts increase strictly and end at the file's size, and exactly
  the update at the file's size is marked as the last one.
\<close>

lemma file_updates_form:
  assumes "0 < len"
  shows "sorted_wrt (<) (map pu_bytesDone (file_updates path len xferNum totalFiles filesLeft)) \<and>
    file_updates path len xferNum totalFiles filesLeft \<noteq> [] \<and>
    pu_bytesDone (last (file_updates path len xferNum totalFiles filesLeft)) = len \<and>
    (\<forall>u \<in> set (file_updates path len xferNum totalFiles filesLeft). pu_done u \<longleftrightarrow> pu_bytesDone u = len)"
proof -
  define mk where "mk = (\<lambda>bytesDone last. \<lparr>pu_path = path, pu_bytesDone = bytesDone, pu_fileSize = len, pu_done = last,
      pu_xferNum = xferNum, pu_totalFiles = totalFiles, pu_filesLeft = filesLeft\<rparr>)"
  have mk: "pu_bytesDone (mk w b) = w" "pu_done (mk w b) = b" for w b by (simp_all add: mk_def)
  have "file_updates path len xferNum totalFiles filesLeft
      = (if len \<le> chunk_size then [mk len True] else chunk_updates mk len 0)"
    by (simp add: file_updates_def mk_def Let_def)
  with chunk_updates_form [OF mk, of 0 len] assms mk show ?thesis by auto
qed

text \<open>A formatted duration is read back as its hours, minutes and seconds.\<close>

lemma pad2_table: "list_all (\<lambda>n. length (pad2 n) = 2 \<and> atoi (pad2 n) = Some n) [0..59]"
  by code_simp

lemma pad2_reads: "0 \<le> n \<Longrightarrow> n < 60 \<Longrightarrow> length (pad2 n) = 2 \<and> atoi (pad2 n) = Some n"
  using pad2_table by (auto simp: list_all_iff)

lemma formatDuration_reads:
  assumes "0 \<le> secs" and "secs < 2 ^ 63"
  shows "\<exists>h m s. format_seconds secs = h @ '':'' @ m @ '':'' @ s \<and> length m = 2 \<and> length s = 2 \<and>
    (\<exists>hours minutes seconds. atoi h = Some hours \<and> atoi m = Some minutes \<and> atoi s = Some seconds \<and>
       minutes < 60 \<and> seconds < 60 \<and> secs = hours * 3600 + minutes * 60 + seconds)"
proof -
  have m: "0 \<le> secs mod 3600 div 60" "secs mod 3600 div 60 < 60"
    using pos_mod_bound [of 3600 secs] by (simp_all add: div_less_iff_less_mult)
  have s: "0 \<le> secs mod 60" "secs mod 60 < 60" by simp_all
  have "secs mod 3600 mod 60 = secs mod 60" by (rule mod_mod_cancel) simp
  then have "secs = secs div 3600 * 3600 + secs mod 3600 div 60 * 60 + secs mod 60"
    using div_mult_mod_eq [of secs 3600] div_mult_mod_eq [of "secs mod 3600" 60] by linarith
  moreover have "atoi (formatInt (secs div 3600)) = Some (secs div 3600)"
  proof (rule atoi_formatInt)
    have "0 \<le> secs div 3600" "secs div 3600 \<le> secs"
      using assms(1) by (simp_all add: pos_imp_zdiv_nonneg_iff int_div_less_self zdiv_mono2 [of secs 1 3600, simplified])
    with assms(2) show "fits64 (secs div 3600)" by (simp add: fits64_def)
  qed
  moreover have "format_seconds secs = formatInt (secs div 3600) @ '':'' @ pad2 (secs mod 3600 div 60) @ '':'' @ pad2 (secs mod 60)"
    by (simp only: format_seconds_def Let_def)
  ultimately show ?thesis
    using pad2_reads [OF m] pad2_reads [OF s] m(2) s(2) by blast
qed

end
