(* ===== verification/Rounding.thy ===== *)
theory Rounding
  imports Complex_Main Stats
begin

text \<open>
  The two-decimal numbers of \<open>internal/pipeline/stats.go\<close> under exact arithmetic: the instance of the
  parameter \<open>floatOps\<close> on the rational numbers.
\<close>

definition exact_ops :: "rat floatOps" where
  "exact_ops =
     \<lparr>fo_of_int = of_int, fo_add = (+), fo_sub = (-), fo_mul = (*), fo_div = (/), fo_less = (<), fo_le = (\<le>),
      fo_trunc = (\<lambda>x. if x < 0 then \<lceil>x\<rceil> else \<lfloor>x\<rfloor>), fo_fixed2 = (\<lambda>_. [])\<rparr>"

text \<open>
  The decimals are rounded: without floating-point errors, \<open>commaFloat2\<close> prints any number, negative or
  not, rounded to hundredths, half up in magnitude, with the carry into the integer part when the
  hundredths round up to a whole.
\<close>

theorem commaFloat2_rounds:
  "commaFloat2 exact_ops x =
     (if x < 0 then ''-'' else []) @ commaInt (\<lfloor>100 * \<bar>x\<bar> + 1 / 2\<rfloor> div 100) @ ''.'' @ pad2 (\<lfloor>100 * \<bar>x\<bar> + 1 / 2\<rfloor> mod 100)"
proof -
  define y where "y = \<bar>x\<bar>"
  define whole where "whole = \<lfloor>y\<rfloor>"
  define frac where "frac = \<lfloor>(y - of_int whole) * 100 + 1 / 2\<rfloor>"
  have y: "0 \<le> y" "(if x < 0 then 0 - x else x) = y" by (simp_all add: y_def)
  have part: "0 \<le> y - of_int whole" "y - of_int whole < 1" unfolding whole_def by linarith+
  then have "0 \<le> frac" "frac < 101" unfolding frac_def by (simp_all add: le_floor_iff floor_less_iff)
  have "100 * y + 1 / 2 = (y - of_int whole) * 100 + 1 / 2 + of_int (100 * whole)" by simp
  then have "\<lfloor>100 * y + 1 / 2\<rfloor> = frac + 100 * whole" unfolding frac_def by (metis floor_add_int)
  then have h: "\<lfloor>100 * y + 1 / 2\<rfloor> div 100 = whole + frac div 100" "\<lfloor>100 * y + 1 / 2\<rfloor> mod 100 = frac mod 100"
    by simp_all
  have small: "frac \<ge> 100 \<Longrightarrow> frac = 100" "\<not> frac \<ge> 100 \<Longrightarrow> frac div 100 = 0 \<and> frac mod 100 = frac"
    using \<open>0 \<le> frac\<close> \<open>frac < 101\<close> by simp_all
  have pos: "\<not> y < 0" "\<not> (y - of_int whole) * 100 + 1 / 2 < 0" using y(1) part(1) by (simp_all add: not_less)
  have ops: "fo_of_int exact_ops = of_int" "fo_add exact_ops = (+)" "fo_sub exact_ops = (-)" "fo_mul exact_ops = (*)"
    "fo_div exact_ops = (/)" "fo_less exact_ops = (<)" by (simp_all add: exact_ops_def)
  have trunc: "fo_trunc exact_ops y = whole" "fo_trunc exact_ops ((y - of_int whole) * of_int 100 + of_int 1 / of_int 2) = frac"
    using pos by (simp_all add: exact_ops_def whole_def frac_def)
  have "commaFloat2 exact_ops x =
      (if x < 0 then ''-'' else []) @
      (if frac \<ge> 100 then commaInt (whole + 1) @ ''.'' @ pad2 (frac - 100) else commaInt whole @ ''.'' @ pad2 frac)"
    unfolding commaFloat2_def Let_def ops of_int_0 y(2) trunc by (cases "frac \<ge> 100") simp_all
  also have "\<dots> = (if x < 0 then ''-'' else []) @ commaInt (whole + frac div 100) @ ''.'' @ pad2 (frac mod 100)"
    using small by auto
  finally show ?thesis unfolding y_def [symmetric] h .
qed

end
