(* ===== verification/Spec2Isabelle.thy ===== *)
theory Spec2Isabelle
  imports RemotePush Program Resync Windows DirAttributes DaemonCopy ConfigText Push Progress Serve Remote Rounding FilterRules
begin

text \<open>
  A verification development for grsync, an rsync-style file synchroniser written in Go.

  \<^bold>\<open>The program.\<close> \<open>grsync SRC DEST\<close> (\<open>internal/cli\<close>) runs a \<open>Sender\<close> over the source and a \<open>Receiver\<close> over the
  destination (\<open>internal/pipeline\<close>): the sender walks and filters the source (\<open>internal/sync\<close>) and sends the
  list of entries; for every regular file the receiver sends a signature of what it has (weak rolling and
  strong checksums of its blocks), the sender answers with a delta, and the receiver rebuilds the file and
  replaces the old one. Messages are gob-encoded and framed (\<open>internal/transport\<close>). The two sides are two
  goroutines with pipes between them, two processes joined by a remote shell, or a client and a daemon
  (\<open>internal/daemon\<close>), which speaks a text protocol first: greeting, module choice, authentication, direction.
  A transfer can also be recorded in a batch file and replayed.

  \<^bold>\<open>Foundations.\<close> \<open>Prelude\<close> (machine integers, results as sums, list lemmas), \<open>GoStrings\<close> (\<open>strings\<close>, \<open>strconv\<close>,
  \<open>bufio.Scanner\<close>), \<open>Prog\<close> (programs on a state that return an error or a value, with the state they leave; the
  locale \<open>frame_rel\<close> for what every call respects, and \<open>outcome\<close>, the total-correctness judgement used from the
  file system to the whole transfer), \<open>Paths\<close> (\<open>path/filepath\<close>), \<open>Fs\<close> (the calls of \<open>os\<close> on a POSIX-like file system
  with permissions, links, a clock and a fault schedule: \<open>fs_faults\<close> says which call fails and how),
  \<open>FsInv\<close> (its invariant and that every call keeps it), \<open>Effects\<close> (what the calls of the receiver do to the contents),
  \<open>Wire\<close> (readers, writers, connections; the locales \<open>wire_codec\<close> and \<open>canonical_codec\<close>).

  \<^bold>\<open>Components.\<close>
  \<^item> \<open>Checksum\<close>: \<open>internal/sync/blocks.go\<close>, \<open>checksum.go\<close>, \<open>signature.go\<close>. The rolling checksum at its width of 32 bits
    (locale \<open>rolling_window\<close>).
  \<^item> \<open>Delta\<close>: \<open>internal/sync/delta.go\<close>. The generator equals the naive search; applying what it generates gives
    the new file; the overflow of the range check.
  \<^item> \<open>PathMatch\<close>, \<open>FilterRules\<close>: Go's \<open>path.Match\<close> and \<open>internal/sync/filter.go\<close>. What a rule matches (the
    segment \<open>**\<close> crosses slashes, a segment that only contains it does not), first match, merge and exclude-from files.
  \<^item> \<open>Entry\<close>, \<open>Walk\<close>, \<open>Attributes\<close>: \<open>internal/sync/walk.go\<close>, \<open>attributes.go\<close>, \<open>hardlinks.go\<close>, \<open>specialfiles.go\<close> and the
    Unix files beside them. \<open>HardLinks\<close> shows that exactly the groups of names of one inode are detected; \<open>Windows\<close>
    has the files that replace the Unix ones on Windows.
  \<^item> \<open>Frame\<close>, \<open>Remote\<close>: \<open>internal/transport/frame.go\<close>, \<open>handshake.go\<close>, \<open>remotepath.go\<close>, \<open>rsh.go\<close>. \<open>session.go\<close> is in \<open>Commands\<close>.
  \<^item> \<open>Compress\<close>, \<open>Messages\<close>, \<open>Itemize\<close>, \<open>Stats\<close>, \<open>Partial\<close>, \<open>Receiver\<close>, \<open>Sender\<close>, \<open>Progress\<close>: the files of \<open>internal/pipeline\<close>.
    \<open>Rounding\<close> has the decimals of the statistics under exact arithmetic.
    \<open>Partial\<close> has the replacement of a file and what it leaves under every fault schedule; \<open>Progress\<close> the reporter
    as two goroutines on a bounded channel.
  \<^item> \<open>Config\<close>, \<open>ConfigText\<close>, \<open>Greeting\<close>, \<open>Auth\<close>, \<open>DaemonSession\<close>, \<open>Serve\<close>: \<open>internal/daemon\<close>. \<open>ConfigText\<close> is the printer that
    the round trip of the parser is about; \<open>Serve\<close> is the accept loop and its goroutines, on the disk the connections share.
  \<^item> \<open>Options\<close>, \<open>Credentials\<close>, \<open>Commands\<close>: \<open>internal/cli\<close> and \<open>internal/daemon/url.go\<close>. The flags and the checks of a
    command line, the sources of a password, and the commands \<open>runSync\<close>, \<open>runServer\<close>, \<open>runReadBatch\<close>, \<open>runDaemon\<close>.
  \<^item> \<open>CommandLine\<close>: the rest of \<open>internal/cli/root.go\<close> (the variables of the flags, the usage text, \<open>RunE\<close>, \<open>Execute\<close>)
    and \<open>cmd/grsync/main.go\<close>. For a daemon \<open>main\<close> goes as far as the accept loop, where \<open>Serve\<close> takes over.

  \<^bold>\<open>Composition.\<close> \<open>Session\<close> computes, entry by entry, what a transfer leaves in the destination and the bytes each
  side writes, for any updates, append modes, links and hard-link groups, and proves that \<open>Receiver\<close> does that
  under any failing calls; \<open>SenderSession\<close> is the other half, for any state that satisfies the locale
  \<open>sender_state\<close>: a sender on a connection, and (\<open>Batch\<close>) one that writes a batch file as well. \<open>Mirror\<close>
  specialises both to an empty destination, where the sent stream does not depend on the destination. On these
  rest the end-to-end properties: \<open>Copying\<close> (the two programs), \<open>DirAttributes\<close> (the attributes the directories
  end with), \<open>LocalCopy\<close> (\<open>runSync\<close> between local directories), \<open>Program\<close> (the same from the arguments of the
  process to its exit status), \<open>Resync\<close> (a second sync changes nothing), \<open>Push\<close> (the two ends of a
  remote shell, and the replay of the batch), \<open>RemotePush\<close> (the process of the user and the one that the command line it
  sends starts on the other host), \<open>DaemonCopy\<close> (an upload and a download through the daemon protocol) and \<open>Batch\<close>
  (what a sync that fails leaves of the batch file).

  \<^bold>\<open>Bounds.\<close> Loops are structural or have a measure. The walk has fuel, the depth of the deepest name of the file
  system, which no path exceeds; \<open>Walk_complete\<close> shows it is enough. \<open>syncLocal\<close> runs its pipes for two rounds more
  than there are names: each round but the last two delivers a further signature, and at most one is sent
  for a name; \<open>grsync_copies_tree\<close> shows that both sides have ended then. Go's \<open>int\<close> is an integer wrapped to 64
  bits where the code adds and multiplies received values (\<open>wrap64\<close>), \<open>uint32\<close> is a word.

  \<^bold>\<open>Parameters.\<close> MD5 (an arbitrary function; where the code relies on it, the assumption names the blocks and
  windows it must tell apart), MD4 and the random challenge, the gob encoding (decoding inverts encoding),
  zlib (inflating inverts deflating), cobra and pflag
  (what they parse, and that a command calls \<open>Args\<close> and then \<open>RunE\<close>), \<open>ssh\<close> (that it runs the words after its
  target, when no shell changes them), floating-point arithmetic, \<open>net/url\<close>, name resolution, the connections and
  processes that dialling gives, the environment and the terminal.

  \<^bold>\<open>Not modelled.\<close> The help texts of the flags, and the Windows build beyond the files that replace Unix ones. Error values carry the failing call and its
  arguments, not the text. One device: a file's identity is its inode number. A reader sees its input as a
  whole, so a peer that stays silent for ever is the end of the input, except in \<open>Serve\<close> and \<open>Progress\<close>, where
  blocking is modelled; a line that is printed always finds its reader. The sessions of a daemon run one after the
  other, in any order, on the disk the last one has left. In a local sync source and destination are apart, and a side whose peer fails reads
  the end of its input instead of the peer's error. A batch file is written with the connection, frame by
  frame, so a failing write ends the transfer.
\<close>

end
